(* ===== verification/Prelude.thy ===== *)
theory Prelude
  imports
    Complex_Main
    "HOL-Library.AList"
    "HOL-Library.Word"
    "HOL-Library.Char_ord"
    "HOL-Library.List_Lexorder"
begin

text \<open>
  What every component theory shares: the names of the model's basic types (Python
  dictionaries, byte strings, UUIDs, points in time), the Python exceptions as values, and
  the lemmas on dictionaries that the component proofs use.

  \<^item> A Python \<^verbatim>\<open>dict\<close> keeps insertion order and the code iterates over dictionaries, so a
    dictionary is an association list with distinct keys. Assignment \<^verbatim>\<open>d[k] = v\<close> is
    \<open>AList.update\<close> (in place when the key is present, at the end otherwise), \<^verbatim>\<open>del d[k]\<close>
    is \<open>AList.delete\<close> and \<^verbatim>\<open>d.get(k)\<close> is \<open>map_of d k\<close>.
  \<^item> A Python \<^verbatim>\<open>str\<close> is a list of characters, read as the code points below 256;
    \<^verbatim>\<open>bytes\<close> is a list of 8-bit words.
  \<^item> A UUID is its 128-bit value.
  \<^item> A \<^verbatim>\<open>float\<close> of seconds (\<^verbatim>\<open>time.monotonic()\<close>) is a rational number: the arithmetic of
    the model is exact.
  \<^item> An operation that may raise returns \<open>py_exn + 'a\<close>.
\<close>

section \<open>Basic types\<close>

type_synonym ('k, 'v) dict = "('k \<times> 'v) list"
type_synonym byte = "8 word"
type_synonym bytes = "byte list"
type_synonym uuid = "128 word"
type_synonym seconds = rat
type_synonym conn = nat  \<comment> \<open>identity of a WebSocket connection object\<close>

text \<open>The exceptions that the code raises or catches, with the text of \<^verbatim>\<open>str(exc)\<close>.\<close>

datatype py_exn =
    TypeError string
  | ValueError string
  | RuntimeError string
  | KeyError string
  | IndexError string
  | TimeoutError string
  | ImportError string
  | FileNotFoundError string
  | EnvironmentError string
  | ConnectionError string
  | AttributeError string
  | CancelledError string
  | HTTPException nat string
  | OverflowError string
  | ValidationError string
  | AssertionError string

primrec str_exn :: "py_exn \<Rightarrow> string" where
  "str_exn (TypeError m) = m"
| "str_exn (ValueError m) = m"
| "str_exn (RuntimeError m) = m"
| "str_exn (KeyError m) = m"
| "str_exn (IndexError m) = m"
| "str_exn (TimeoutError m) = m"
| "str_exn (ImportError m) = m"
| "str_exn (FileNotFoundError m) = m"
| "str_exn (EnvironmentError m) = m"
| "str_exn (ConnectionError m) = m"
| "str_exn (AttributeError m) = m"
| "str_exn (CancelledError m) = m"
| "str_exn (OverflowError m) = m"
| "str_exn (ValidationError m) = m"
| "str_exn (AssertionError m) = m"
| "str_exn (HTTPException c m) = m"

section \<open>Dictionaries\<close>

named_theorems dict_simps \<open>lookups and key sets of updated dictionaries\<close>

definition dict_wf :: "('k, 'v) dict \<Rightarrow> bool" where
  "dict_wf d \<longleftrightarrow> distinct (map fst d)"

lemma dict_get_set [dict_simps]:
  "map_of (AList.update k v d) = (map_of d)(k \<mapsto> v)"
  by (rule update_conv')

lemma dict_get_del [dict_simps]:
  "map_of (AList.delete k d) = (map_of d)(k := None)"
  by (rule delete_conv')

lemma dict_keys_set [dict_simps]:
  "set (map fst (AList.update k v d)) = insert k (set (map fst d))"
  by (simp add: dom_update)

lemma dict_keys_del [dict_simps]:
  "set (map fst (AList.delete k d)) = set (map fst d) - {k}"
  by (simp add: delete_keys)

lemma dict_wf_Nil [simp, intro]: "dict_wf []"
  by (simp add: dict_wf_def)

lemma dict_wf_set [intro]: "dict_wf d \<Longrightarrow> dict_wf (AList.update k v d)"
  by (simp add: dict_wf_def distinct_update)

lemma dict_wf_del [intro]: "dict_wf d \<Longrightarrow> dict_wf (AList.delete k d)"
  by (simp add: dict_wf_def distinct_delete)

lemma dict_wf_filter [intro]: "dict_wf d \<Longrightarrow> dict_wf (filter P d)"
  by (simp add: dict_wf_def distinct_map_filter)

lemma dict_wf_get_iff:
  "dict_wf d \<Longrightarrow> map_of d k = Some v \<longleftrightarrow> (k, v) \<in> set d"
  by (simp add: dict_wf_def)

lemma dict_get_cong_set:
  assumes "dict_wf d" "dict_wf e" "set d = set e"
  shows "map_of d = map_of e"
proof
  fix k
  show "map_of d k = map_of e k"
    using dict_wf_get_iff [OF assms(1), of k] dict_wf_get_iff [OF assms(2), of k] assms(3)
    by (cases "map_of d k"; cases "map_of e k") auto
qed

lemma dict_wf_sort: "dict_wf d \<Longrightarrow> dict_wf (sort_key fst d)"
  by (simp add: dict_wf_def distinct_map)

lemma dict_get_sort: "dict_wf d \<Longrightarrow> map_of (sort_key fst d) = map_of d"
  by (intro dict_get_cong_set dict_wf_sort) simp_all

lemma dict_get_filter:
  "dict_wf d \<Longrightarrow>
   map_of (filter P d) k = (case map_of d k of None \<Rightarrow> None | Some v \<Rightarrow> if P (k, v) then Some v else None)"
  by (induction d) (auto simp: dict_wf_def split: option.splits dest: map_of_SomeD intro: rev_image_eqI)

lemma dict_mem_keys: "(k, v) \<in> set d \<Longrightarrow> k \<in> set (map fst d)"
  by force

lemma dict_get_None_keys: "map_of d k = None \<longleftrightarrow> k \<notin> set (map fst d)"
  by (simp add: map_of_eq_None_iff)

lemma dict_set_fresh:
  "map_of d k = None \<Longrightarrow> AList.update k v d = d @ [(k, v)]"
  by (induction d) (auto split: if_splits)

lemma dict_set_mem:
  "x \<in> set (AList.update k v d) \<Longrightarrow> x = (k, v) \<or> x \<in> set d"
  by (induction d) (auto split: if_splits)

lemma dict_set_set:
  "dict_wf d \<Longrightarrow>
   set (AList.update k v d) = insert (k, v) {x \<in> set d. fst x \<noteq> k}"
  by (induction d) (auto simp: dict_wf_def image_iff split: if_splits)

lemma dict_del_set: "set (AList.delete k d) = {x \<in> set d. fst x \<noteq> k}"
  by (auto simp: AList.delete_eq)

text \<open>Deleting the keys of a list one after the other, as the clean-up loops do.\<close>

definition dict_del_all :: "'k list \<Rightarrow> ('k, 'v) dict \<Rightarrow> ('k, 'v) dict" where
  "dict_del_all ks d = fold AList.delete ks d"

lemma dict_del_all_get [dict_simps]:
  "map_of (dict_del_all ks d) k = (if k \<in> set ks then None else map_of d k)"
  by (induction ks arbitrary: d) (auto simp: dict_del_all_def dict_get_del)

lemma dict_del_all_set: "set (dict_del_all ks d) = {x \<in> set d. fst x \<notin> set ks}"
  by (induction ks arbitrary: d) (auto simp: dict_del_all_def dict_del_set)

lemma dict_wf_del_all [intro]: "dict_wf d \<Longrightarrow> dict_wf (dict_del_all ks d)"
  by (induction ks arbitrary: d) (auto simp: dict_del_all_def)

section \<open>Lists\<close>

lemma sorted_wrt_dropWhile: "sorted_wrt P xs \<Longrightarrow> sorted_wrt P (dropWhile Q xs)"
  by (induction xs) auto

lemma dropWhile_suffix_append: "\<exists>ys. xs = ys @ dropWhile P xs"
  by (metis takeWhile_dropWhile_id)

lemma filter_eq_dropWhile_sorted:
  assumes "sorted_wrt (\<le>) (map f xs)"
  shows "dropWhile (\<lambda>x. f x \<le> (c :: 'a :: linorder)) xs = filter (\<lambda>x. c < f x) xs"
  using assms
proof (induction xs)
  case Nil
  then show ?case by simp
next
  case (Cons x xs)
  show ?case
  proof (cases "f x \<le> c")
    case True
    with Cons show ?thesis by auto
  next
    case False
    with Cons.prems have "\<forall>y \<in> set xs. c < f y" by auto
    then have "filter (\<lambda>x. c < f x) xs = xs" by (simp add: filter_id_conv)
    with False show ?thesis by auto
  qed
qed

lemma dropWhile_none: "\<forall>c \<in> set s. \<not> P c \<Longrightarrow> dropWhile P s = s"
  by (cases s) simp_all

end
