(* ===== verification/PyJson.thy ===== *)
theory PyJson
  imports Prelude
begin

text \<open>
  Python values as they reach \<^verbatim>\<open>json.dumps\<close>, and the serialisation itself with the three
  options the code uses (\<^verbatim>\<open>separators\<close>, \<^verbatim>\<open>ensure_ascii\<close>, \<^verbatim>\<open>default=str\<close>), always with
  \<^verbatim>\<open>sort_keys=True\<close>. The signatures of \<^verbatim>\<open>tpcp/security/crypto.py\<close> are computed over this text
  and \<^verbatim>\<open>tpcp/memory/crdt.py\<close> breaks ties with it.

  A float is represented by its \<^verbatim>\<open>repr\<close> (which determines it, but for NaN payloads); a UUID
  is a value that \<^verbatim>\<open>json.dumps\<close> refuses with \<^verbatim>\<open>TypeError\<close> unless \<^verbatim>\<open>default=str\<close> is given.
  The main result is that the text determines the value up to the order of dictionary keys
  (\<open>enc_inj\<close>).
\<close>

section \<open>Values\<close>

datatype pyval =
    PNone
  | PBool bool
  | PInt int
  | PFloat string
  | PStr string
  | PUuid uuid
  | PList "pyval list"
  | PDict "(string \<times> pyval) list"

text \<open>Decimal digits and \<^verbatim>\<open>str(int)\<close>.\<close>

definition digit :: "int \<Rightarrow> char" where
  "digit n = char_of (48 + n mod 10)"

function show_pos :: "int \<Rightarrow> string" where
  "show_pos n = (if n < 10 then [digit n] else show_pos (n div 10) @ [digit n])"
  by pat_completeness auto
termination
  by (relation "measure nat") auto

declare show_pos.simps [simp del]

definition show_int :: "int \<Rightarrow> string" where
  "show_int i = (if i < 0 then CHR ''-'' # show_pos (- i) else show_pos i)"

text \<open>Hexadecimal, as in \<^verbatim>\<open>hex\<close>, \<^verbatim>\<open>bytes.hex\<close>, \<^verbatim>\<open>str(UUID)\<close> and the \<^verbatim>\<open>\u00XX\<close> escapes.\<close>

definition hex_digit :: "int \<Rightarrow> char" where
  "hex_digit n = (if n mod 16 < 10 then char_of (48 + n mod 16) else char_of (87 + n mod 16))"

primrec hex_fixed :: "nat \<Rightarrow> int \<Rightarrow> string" where
  "hex_fixed 0 n = []"
| "hex_fixed (Suc w) n = hex_fixed w (n div 16) @ [hex_digit n]"

definition uuid_str :: "uuid \<Rightarrow> string" where
  "uuid_str u = (let h = hex_fixed 32 (uint u) in
     take 8 h @ ''-'' @ take 4 (drop 8 h) @ ''-'' @ take 4 (drop 12 h) @ ''-'' @
     take 4 (drop 16 h) @ ''-'' @ drop 20 h)"

section \<open>json.dumps with sort\_keys\<close>

record dump_opts =
  item_sep :: string
  key_sep :: string
  ensure_ascii :: bool
  default_str :: bool

text \<open>The escape of one character (\<^verbatim>\<open>ESCAPE_DCT\<close> and the two regular expressions of
  \<^verbatim>\<open>json.encoder\<close>).\<close>

definition esc_char :: "bool \<Rightarrow> char \<Rightarrow> string" where
  "esc_char ea c =
     (if c = CHR 0x22 then [CHR 0x5C, CHR 0x22]
      else if c = CHR 0x5C then [CHR 0x5C, CHR 0x5C]
      else if c = CHR 0x0A then [CHR 0x5C, CHR ''n'']
      else if c = CHR 0x0D then [CHR 0x5C, CHR ''r'']
      else if c = CHR 0x09 then [CHR 0x5C, CHR ''t'']
      else if c = CHR 0x0C then [CHR 0x5C, CHR ''f'']
      else if c = CHR 0x08 then [CHR 0x5C, CHR ''b'']
      else if of_char c < (32 :: int) \<or> ea \<and> 127 \<le> (of_char c :: int)
        then [CHR 0x5C, CHR ''u''] @ hex_fixed 4 (of_char c)
      else [c])"

definition quote :: "bool \<Rightarrow> string \<Rightarrow> string" where
  "quote ea s = CHR 0x22 # concat (map (esc_char ea) s) @ [CHR 0x22]"

fun join :: "string \<Rightarrow> string list \<Rightarrow> string" where
  "join sep [] = []"
| "join sep [s] = s"
| "join sep (s # t # ts) = s @ sep @ join sep (t # ts)"

primrec enc :: "dump_opts \<Rightarrow> pyval \<Rightarrow> string" where
  "enc p PNone = ''null''"
| "enc p (PBool b) = (if b then ''true'' else ''false'')"
| "enc p (PInt i) = show_int i"
| "enc p (PFloat r) = r"
| "enc p (PStr s) = quote (ensure_ascii p) s"
| "enc p (PUuid u) = quote (ensure_ascii p) (uuid_str u)"
| "enc p (PList vs) = ''['' @ join (item_sep p) (map (enc p) vs) @ '']''"
| "enc p (PDict kvs) =
     ''{'' @ join (item_sep p)
               (map (\<lambda>kv. quote (ensure_ascii p) (fst kv) @ key_sep p @ snd kv)
                  (sort_key fst (map (map_prod id (enc p)) kvs))) @ ''}''"

text \<open>Values without an object that the encoder refuses.\<close>

primrec jsonable :: "pyval \<Rightarrow> bool" where
  "jsonable PNone = True"
| "jsonable (PBool b) = True"
| "jsonable (PInt i) = True"
| "jsonable (PFloat r) = True"
| "jsonable (PStr s) = True"
| "jsonable (PUuid u) = False"
| "jsonable (PList vs) = list_all id (map jsonable vs)"
| "jsonable (PDict kvs) = list_all snd (map (map_prod id jsonable) kvs)"

definition json_dumps :: "dump_opts \<Rightarrow> pyval \<Rightarrow> py_exn + string" where
  "json_dumps p v =
     (if default_str p \<or> jsonable v then Inr (enc p v)
      else Inl (TypeError ''Object of type UUID is not JSON serializable''))"

lemma json_dumps_jsonable [simp]: "jsonable v \<Longrightarrow> json_dumps p v = Inr (enc p v)"
  by (simp add: json_dumps_def)

section \<open>The text determines the value\<close>

text \<open>Canonical form: every dictionary in key order.\<close>

primrec canon :: "pyval \<Rightarrow> pyval" where
  "canon PNone = PNone"
| "canon (PBool b) = PBool b"
| "canon (PInt i) = PInt i"
| "canon (PFloat r) = PFloat r"
| "canon (PStr s) = PStr s"
| "canon (PUuid u) = PUuid u"
| "canon (PList vs) = PList (map canon vs)"
| "canon (PDict kvs) = PDict (sort_key fst (map (map_prod id canon) kvs))"

text \<open>The shape of a float's \<^verbatim>\<open>repr\<close> as the encoder writes it (\<^verbatim>\<open>-1.5e-07\<close>, \<^verbatim>\<open>NaN\<close>, \<^verbatim>\<open>Infinity\<close>):
  it starts like a number and holds a character that no integer has.\<close>

definition float_start :: string where "float_start = ''-0123456789NI''"
definition float_chars :: string where "float_chars = ''-+0123456789.eNaInfity''"
definition float_marks :: string where "float_marks = ''.eNaInfity''"

definition float_lex :: "string \<Rightarrow> bool" where
  "float_lex r \<longleftrightarrow>
     r \<noteq> [] \<and> hd r \<in> set float_start \<and>
     list_all (\<lambda>c. c \<in> set float_chars) r \<and> list_ex (\<lambda>c. c \<in> set float_marks) r"

primrec wf_val :: "pyval \<Rightarrow> bool" where
  "wf_val PNone = True"
| "wf_val (PBool b) = True"
| "wf_val (PInt i) = True"
| "wf_val (PFloat r) = float_lex r"
| "wf_val (PStr s) = True"
| "wf_val (PUuid u) = False"
| "wf_val (PList vs) = list_all id (map wf_val vs)"
| "wf_val (PDict kvs) = list_all snd (map (map_prod id wf_val) kvs)"

definition std_opts :: "dump_opts \<Rightarrow> bool" where
  "std_opts p \<longleftrightarrow> item_sep p \<in> {'','', '', ''} \<and> key_sep p \<in> {'':'', '': ''}"

lemma wf_val_jsonable: "wf_val v \<Longrightarrow> jsonable v"
  by (induction v) (fastforce simp: list_all_iff)+

subsection \<open>Integers\<close>

definition dec_val :: "string \<Rightarrow> int" where
  "dec_val s = foldl (\<lambda>a c. 10 * a + (of_char c - 48)) 0 s"

lemma of_char_digit: "of_char (digit n) = 48 + n mod 10"
proof -
  have "0 \<le> n mod 10" and "n mod 10 < 10" by simp_all
  then have "(48 + n mod 10) mod 256 = 48 + n mod 10" by simp
  then show ?thesis by (simp add: digit_def of_char_of)
qed

lemma dec_val_show_pos: "0 \<le> n \<Longrightarrow> dec_val (show_pos n) = n"
proof (induction n rule: show_pos.induct)
  case (1 n)
  show ?case
  proof (cases "n < 10")
    case True
    with 1 show ?thesis
      by (simp add: show_pos.simps [of n] dec_val_def of_char_digit)
  next
    case False
    with 1 have "dec_val (show_pos (n div 10)) = n div 10" by simp
    with False show ?thesis
      by (simp add: show_pos.simps [of n] dec_val_def of_char_digit)
  qed
qed

lemma show_pos_chars: "0 \<le> n \<Longrightarrow> c \<in> set (show_pos n) \<Longrightarrow> c \<in> range digit"
proof (induction n rule: show_pos.induct)
  case (1 n)
  then show ?case
    by (cases "n < 10") (auto simp: show_pos.simps [of n])
qed

lemma show_pos_not_Nil [simp]: "show_pos n \<noteq> []"
  by (subst show_pos.simps) simp

definition int_char :: "char \<Rightarrow> bool" where
  "int_char c \<longleftrightarrow> of_char c = (45 :: int) \<or> 48 \<le> (of_char c :: int) \<and> of_char c < (58 :: int)"

lemma digit_code: "48 \<le> (of_char (digit n) :: int)" "of_char (digit n) < (58 :: int)"
  by (simp_all add: of_char_digit)

lemma show_pos_code:
  "0 \<le> n \<Longrightarrow> c \<in> set (show_pos n) \<Longrightarrow> 48 \<le> (of_char c :: int) \<and> of_char c < (58 :: int)"
  using show_pos_chars [of n c] digit_code by auto

lemma show_int_chars: "c \<in> set (show_int i) \<Longrightarrow> int_char c"
proof (cases "i < 0")
  case True
  assume "c \<in> set (show_int i)"
  with True show ?thesis
    using show_pos_code [of "- i" c] by (auto simp: show_int_def int_char_def)
next
  case False
  assume "c \<in> set (show_int i)"
  with False show ?thesis
    using show_pos_code [of i c] by (auto simp: show_int_def int_char_def)
qed

lemma show_int_not_Nil [simp]: "show_int i \<noteq> []"
  by (simp add: show_int_def)

lemma show_pos_hd: "0 \<le> n \<Longrightarrow> hd (show_pos n) \<noteq> CHR ''-''"
  using show_pos_code [of n "hd (show_pos n)"] by auto

lemma show_int_inj: "show_int i = show_int j \<longleftrightarrow> i = j"
proof
  assume eq: "show_int i = show_int j"
  have pos: "0 \<le> a \<Longrightarrow> 0 \<le> b \<Longrightarrow> show_pos a = show_pos b \<Longrightarrow> a = b" for a b
    by (metis dec_val_show_pos)
  have mixed: "0 \<le> a \<Longrightarrow> CHR ''-'' # xs \<noteq> show_pos a" for a xs
    using show_pos_hd [of a] by (metis list.sel(1))
  from eq show "i = j"
    using pos [of "- i" "- j"] pos [of i j] mixed
    by (auto simp: show_int_def split: if_splits) (metis linorder_not_less mixed)+
qed simp

subsection \<open>Strings\<close>

text \<open>Reading back the first character of an escaped text.\<close>

definition hex_val :: "char \<Rightarrow> int" where
  "hex_val c = (if of_char c < (58 :: int) then of_char c - 48 else of_char c - 87)"

definition unesc :: "string \<Rightarrow> char" where
  "unesc s =
     (if hd s \<noteq> CHR 0x5C then hd s
      else let d = s ! 1 in
        if d = CHR ''n'' then CHR 0x0A
        else if d = CHR ''r'' then CHR 0x0D
        else if d = CHR ''t'' then CHR 0x09
        else if d = CHR ''f'' then CHR 0x0C
        else if d = CHR ''b'' then CHR 0x08
        else if d = CHR ''u'' then char_of (16 * hex_val (s ! 4) + hex_val (s ! 5))
        else d)"

lemma hex_val_digit: "hex_val (hex_digit n) = n mod 16"
proof -
  have b: "0 \<le> n mod 16" "n mod 16 < 16" by simp_all
  then have "(48 + n mod 16) mod 256 = 48 + n mod 16" "(87 + n mod 16) mod 256 = 87 + n mod 16"
    by simp_all
  with b show ?thesis
    by (auto simp: hex_digit_def hex_val_def of_char_of)
qed

lemma hex_fixed_length [simp]: "length (hex_fixed w n) = w"
  by (induction w arbitrary: n) simp_all

lemma hex_fixed_4:
  "hex_fixed 4 n = [hex_digit (n div 16 div 16 div 16), hex_digit (n div 16 div 16),
     hex_digit (n div 16), hex_digit n]"
  by (simp add: numeral_eq_Suc)

lemma of_char_lt_256: "0 \<le> (of_char c :: int)" "of_char c < (256 :: int)"
proof -
  have "(of_char c :: int) = of_char c mod 256" by simp
  then show "0 \<le> (of_char c :: int)" "of_char c < (256 :: int)"
    by (metis pos_mod_sign zero_less_numeral, metis pos_mod_bound zero_less_numeral)
qed

lemma unesc_esc: "unesc (esc_char ea c @ x) = c"
proof -
  have hx: "char_of (16 * (of_char c div 16 mod 16) + of_char c mod 16 :: int) = c"
  proof -
    have "of_char c div 16 mod 16 = (of_char c div 16 :: int)"
      using of_char_lt_256 [of c] by simp
    then have "16 * (of_char c div 16 mod 16) + of_char c mod 16 = (of_char c :: int)"
      by simp
    then show ?thesis by (metis char_of_char)
  qed
  show ?thesis
    by (auto simp: esc_char_def unesc_def hex_fixed_4 hex_val_digit hx numeral_eq_Suc)
qed

lemma esc_not_quote: "esc_char ea c \<noteq> []" "hd (esc_char ea c) \<noteq> CHR 0x22"
  by (auto simp: esc_char_def)

lemma esc_inj:
  assumes "esc_char ea c @ x = esc_char ea d @ y"
  shows "c = d \<and> x = y"
proof -
  from assms have "c = d" using unesc_esc [of ea c x] unesc_esc [of ea d y] by simp
  with assms show ?thesis by simp
qed

lemma quote_body_inj:
  "concat (map (esc_char ea) s) @ CHR 0x22 # x = concat (map (esc_char ea) t) @ CHR 0x22 # y
   \<Longrightarrow> s = t \<and> x = y"
proof (induction s arbitrary: t)
  case Nil
  then show ?case
    using esc_not_quote [where ea = ea and c = "hd t"]
    by (cases t) (auto simp: hd_append dest!: arg_cong [of _ _ hd])
next
  case (Cons c s)
  show ?case
  proof (cases t)
    case Nil
    with Cons.prems show ?thesis
      using esc_not_quote [where ea = ea and c = c] by (auto dest!: arg_cong [of _ _ hd])
  next
    case (Cons d u)
    with Cons.prems have "c = d \<and> concat (map (esc_char ea) s) @ CHR 0x22 # x
        = concat (map (esc_char ea) u) @ CHR 0x22 # y"
      by (intro esc_inj [of ea]) simp
    with Cons.IH [of u] Cons show ?thesis by simp
  qed
qed

lemma quote_inj: "quote ea s @ x = quote ea t @ y \<Longrightarrow> s = t \<and> x = y"
  using quote_body_inj [of ea s x t y] by (simp add: quote_def)

subsection \<open>Tokens and sequences\<close>

text \<open>What can follow a value: the end of the text, a comma or a closing bracket.\<close>

definition follow :: "string \<Rightarrow> bool" where
  "follow r \<longleftrightarrow> r = [] \<or> hd r \<in> {CHR '','', CHR '']'', CHR ''}''}"

definition tok_char :: "char \<Rightarrow> bool" where
  "tok_char c \<longleftrightarrow> c \<notin> {CHR '','', CHR '']'', CHR ''}''}"

lemma token_split:
  assumes "list_all tok_char s" "list_all tok_char t" "follow x" "follow y" "s @ x = t @ y"
  shows "s = t \<and> x = y"
proof -
  have stop: "takeWhile tok_char (u @ z) = u" if "list_all tok_char u" "follow z" for u z
  proof -
    have "takeWhile tok_char z = []"
      using \<open>follow z\<close> by (cases z) (auto simp: follow_def tok_char_def)
    with \<open>list_all tok_char u\<close> show ?thesis
      by (simp add: takeWhile_append2 list_all_iff)
  qed
  from assms(5) have "takeWhile tok_char (s @ x) = takeWhile tok_char (t @ y)" by simp
  with stop [OF assms(1,3)] stop [OF assms(2,4)] have "s = t" by simp
  with assms(5) show ?thesis by simp
qed

text \<open>A sequence of elements between brackets: when the text of one element is told apart from
  what follows it, so is the text of the sequence.\<close>

lemma join_inj:
  assumes sep: "sep \<noteq> []" "hd sep = CHR '',''"
    and close: "c \<in> {CHR '']'', CHR ''}''}"
    and hdf: "\<And>x. x \<in> set xs \<union> set ys \<Longrightarrow> f x \<noteq> [] \<and> hd (f x) \<notin> {CHR '','', CHR '']'', CHR ''}''}"
    and elem: "\<And>x y r q. x \<in> set xs \<Longrightarrow> y \<in> set ys \<Longrightarrow> follow r \<Longrightarrow> follow q \<Longrightarrow>
                 f x @ r = f y @ q \<Longrightarrow> R x y \<and> r = q"
    and eq: "join sep (map f xs) @ c # r = join sep (map f ys) @ c # q"
  shows "list_all2 R xs ys \<and> r = q"
  using hdf elem eq
proof (induction xs arbitrary: ys)
  case Nil
  have "ys = []"
  proof (rule ccontr)
    assume "ys \<noteq> []"
    then obtain y zs where ys: "ys = y # zs" by (cases ys) auto
    have h: "f y \<noteq> [] \<and> hd (f y) \<noteq> c" using Nil.prems(1) [of y] close ys by auto
    have "hd (join sep (map f ys) @ c # q) = hd (f y)"
      using h by (cases zs) (simp_all add: ys)
    then show False using Nil.prems(3) h by (metis append_Nil join.simps(1) list.sel(1) list.simps(8))
  qed
  with Nil.prems(3) show ?case by simp
next
  case (Cons x xs)
  have rest: "follow (c # z)" "follow (sep @ z)" for z
    using close sep by (auto simp: follow_def hd_append)
  obtain tx where tx: "join sep (map f (x # xs)) @ c # r = f x @ tx" "follow tx"
      "tx = (if xs = [] then c # r else sep @ join sep (map f xs) @ c # r)"
    using rest by (cases xs) auto
  have hx: "f x \<noteq> [] \<and> hd (f x) \<noteq> c" using Cons.prems(1) [of x] close by auto
  have "ys \<noteq> []"
  proof
    assume "ys = []"
    with Cons.prems(3) tx(1) have "c # q = f x @ tx" by simp
    then have "hd (f x @ tx) = c" by (metis list.sel(1))
    with hx show False by simp
  qed
  then obtain y zs where ys: "ys = y # zs" by (cases ys) auto
  obtain ty where ty: "join sep (map f ys) @ c # q = f y @ ty" "follow ty"
      "ty = (if zs = [] then c # q else sep @ join sep (map f zs) @ c # q)"
    using rest ys by (cases zs) auto
  from Cons.prems(3) tx(1) ty(1) have "f x @ tx = f y @ ty" by simp
  then have Rt: "R x y \<and> tx = ty"
    using Cons.prems(2) [of x y tx ty] ys tx(2) ty(2) by simp
  have hs: "hd (sep @ z) \<noteq> c" for z using sep close by auto
  show ?case
  proof (cases "xs = []")
    case True
    with tx(3) have "tx = c # r" by simp
    with Rt ty(3) hs have "zs = []" by (metis list.sel(1))
    with True Rt tx(3) ty(3) ys show ?thesis by simp
  next
    case False
    with tx(3) Rt ty(3) hs have "zs \<noteq> []" by (metis list.sel(1))
    with False Rt tx(3) ty(3) have "join sep (map f xs) @ c # r = join sep (map f zs) @ c # q"
      by simp
    then have "list_all2 R xs zs \<and> r = q"
    proof (rule Cons.IH [rotated 2])
      show "f u \<noteq> [] \<and> hd (f u) \<notin> {CHR '','', CHR '']'', CHR ''}''}" if "u \<in> set xs \<union> set zs" for u
        using Cons.prems(1) [of u] that ys by auto
      show "R u w \<and> r' = q'"
        if "u \<in> set xs" "w \<in> set zs" "follow r'" "follow q'" "f u @ r' = f w @ q'" for u w r' q'
        using Cons.prems(2) [of u w r' q'] that ys by simp
    qed
    with Rt ys show ?thesis by simp
  qed
qed

lemma sort_key_map_prod:
  "sort_key fst (map (map_prod id f) xs) = map (map_prod id f) (sort_key fst xs)"
proof -
  have ins: "insort_key fst (map_prod id f a) (map (map_prod id f) ys)
      = map (map_prod id f) (insort_key fst a ys)" for a ys
    by (induction ys) auto
  show ?thesis
    by (induction xs) (simp_all add: ins [unfolded id_def] id_def)
qed

subsection \<open>The main result\<close>

text \<open>The kind of a value can be read off the first character of its text.\<close>

fun kind :: "pyval \<Rightarrow> nat" where
  "kind PNone = 0"
| "kind (PBool _) = 1"
| "kind (PInt _) = 2"
| "kind (PFloat _) = 2"
| "kind (PStr _) = 3"
| "kind (PUuid _) = 3"
| "kind (PList _) = 4"
| "kind (PDict _) = 5"

definition hd_kind :: "char \<Rightarrow> nat" where
  "hd_kind c = (if c = CHR ''n'' then 0 else if c = CHR ''t'' \<or> c = CHR ''f'' then 1
     else if c = CHR 0x22 then 3 else if c = CHR ''['' then 4 else if c = CHR ''{'' then 5 else 2)"

lemma int_char_lits [simp]:
  "\<not> int_char (CHR ''n'')" "\<not> int_char (CHR ''t'')" "\<not> int_char (CHR ''f'')"
  "\<not> int_char (CHR 0x22)" "\<not> int_char (CHR ''['')" "\<not> int_char (CHR ''{'')"
  "\<not> int_char (CHR '','')" "\<not> int_char (CHR '']'')" "\<not> int_char (CHR ''}'')"
  by code_simp+

lemma int_char_hd: "int_char c \<Longrightarrow> hd_kind c = 2"
  by (auto simp: hd_kind_def)

lemma int_char_tok: "int_char c \<Longrightarrow> tok_char c"
  by (auto simp: tok_char_def)

lemma show_int_tok: "list_all tok_char (show_int i)"
  using show_int_chars int_char_tok by (auto simp: list_all_iff)

lemma float_char_facts:
  "list_all tok_char float_chars" "list_all (\<lambda>c. \<not> int_char c) float_marks"
  "list_all (\<lambda>c. hd_kind c = 2 \<and> tok_char c) float_start"
  by code_simp+

lemma float_tok: "float_lex r \<Longrightarrow> list_all tok_char r"
  using float_char_facts(1) by (auto simp: float_lex_def list_all_iff)

lemma float_hd: "float_lex r \<Longrightarrow> r \<noteq> [] \<and> hd_kind (hd r) = 2 \<and> tok_char (hd r)"
  using float_char_facts(3) by (auto simp: float_lex_def list_all_iff)

lemma float_not_int: "float_lex r \<Longrightarrow> r \<noteq> show_int i"
  using show_int_chars float_char_facts(2) by (fastforce simp: float_lex_def list_ex_iff list_all_iff)

lemma lit_heads [simp]:
  "hd_kind (CHR ''n'') = 0" "hd_kind (CHR ''t'') = 1" "hd_kind (CHR ''f'') = 1"
  "hd_kind (CHR 0x22) = 3" "hd_kind (CHR ''['') = 4" "hd_kind (CHR ''{'') = 5"
  "tok_char (CHR ''n'')" "tok_char (CHR ''t'')" "tok_char (CHR ''f'')"
  "tok_char (CHR 0x22)" "tok_char (CHR ''['')" "tok_char (CHR ''{'')"
  by code_simp+

lemma enc_hd:
  assumes "wf_val v"
  shows "enc p v \<noteq> [] \<and> hd_kind (hd (enc p v)) = kind v \<and> tok_char (hd (enc p v))"
proof (cases v)
  case (PInt i)
  then show ?thesis
    using show_int_chars [of "hd (show_int i)" i] int_char_hd int_char_tok by simp
next
  case (PFloat r)
  with assms float_hd [of r] show ?thesis by simp
qed (use assms in \<open>simp_all add: quote_def\<close>)

lemma enc_hd_append: "wf_val v \<Longrightarrow> hd (enc p v @ r) = hd (enc p v)"
  using enc_hd [of v p] by simp

lemma enc_same_kind:
  assumes "wf_val v" "wf_val w" "enc p v @ r = enc p w @ q"
  shows "kind v = kind w"
  using assms enc_hd_append [of v p r] enc_hd_append [of w p q] enc_hd [of v p] enc_hd [of w p]
  by simp

text \<open>Two entries of a dictionary, and the text of an entry.\<close>

definition enc_entry :: "dump_opts \<Rightarrow> string \<times> pyval \<Rightarrow> string" where
  "enc_entry p kv = quote (ensure_ascii p) (fst kv) @ key_sep p @ enc p (snd kv)"

lemma enc_PDict:
  "enc p (PDict kvs) =
     ''{'' @ join (item_sep p) (map (enc_entry p) (sort_key fst kvs)) @ ''}''"
proof -
  have "(\<lambda>x. quote (ensure_ascii p) (fst x) @ key_sep p @ enc p (snd x)) = enc_entry p"
    by (simp add: enc_entry_def fun_eq_iff)
  then show ?thesis by (simp add: sort_key_map_prod comp_def)
qed

lemma canon_PDict: "canon (PDict kvs) = PDict (map (map_prod id canon) (sort_key fst kvs))"
  by (simp add: sort_key_map_prod)

text \<open>Numbers and literals are told apart as tokens.\<close>

lemma number_inj:
  assumes "wf_val v" "wf_val w" "kind v = 2" "kind w = 2" "follow r" "follow q"
    and "enc p v @ r = enc p w @ q"
  shows "canon v = canon w \<and> r = q"
proof -
  have tok: "list_all tok_char (enc p u)" if "wf_val u" "kind u = 2" for u
    using that show_int_tok float_tok by (cases u) simp_all
  have "enc p v = enc p w \<and> r = q"
    using token_split [of "enc p v" "enc p w" r q] tok assms by simp
  moreover have "v = w" if "enc p v = enc p w"
    using that assms(1-4) float_not_int
    by (cases v; cases w) (auto simp: show_int_inj dest: sym)
  ultimately show ?thesis by simp
qed

lemma kind_simps [simp]:
  "kind w = 0 \<longleftrightarrow> w = PNone" "kind w = Suc 0 \<longleftrightarrow> (\<exists>b. w = PBool b)"
  "kind w = 4 \<longleftrightarrow> (\<exists>vs. w = PList vs)" "kind w = 5 \<longleftrightarrow> (\<exists>kvs. w = PDict kvs)"
  "kind w = 3 \<longleftrightarrow> (\<exists>s. w = PStr s) \<or> (\<exists>u. w = PUuid u)"
  by (cases w; simp)+

definition decodable :: "dump_opts \<Rightarrow> pyval \<Rightarrow> bool" where
  "decodable p v \<longleftrightarrow> (\<forall>w r q. wf_val w \<longrightarrow> follow r \<longrightarrow> follow q \<longrightarrow>
     enc p v @ r = enc p w @ q \<longrightarrow> canon v = canon w \<and> r = q)"

lemma decodableD:
  "decodable p v \<Longrightarrow> wf_val w \<Longrightarrow> follow r \<Longrightarrow> follow q \<Longrightarrow> enc p v @ r = enc p w @ q \<Longrightarrow>
   canon v = canon w \<and> r = q"
  by (simp add: decodable_def)

lemma std_sep: "std_opts p \<Longrightarrow> item_sep p \<noteq> [] \<and> hd (item_sep p) = CHR '',''"
  by (auto simp: std_opts_def)

lemma not_close: "tok_char c \<Longrightarrow> c \<notin> {CHR '','', CHR '']'', CHR ''}''}"
  by (auto simp: tok_char_def)

text \<open>Every value but a list or a dictionary.\<close>

lemma decodable_atom:
  assumes "wf_val v" "kind v \<notin> {4, 5}"
  shows "decodable p v"
  unfolding decodable_def
proof (intro allI impI)
  fix w r q
  assume w: "wf_val w" and fol: "follow r" "follow q" and eq: "enc p v @ r = enc p w @ q"
  have k: "kind v = kind w" by (rule enc_same_kind [OF assms(1) w eq])
  show "canon v = canon w \<and> r = q"
  proof (cases "kind v = 2")
    case True
    then show ?thesis using number_inj [OF assms(1) w _ _ fol eq] k by simp
  next
    case False
    with assms k w eq show ?thesis
      by (cases v) (auto dest!: quote_inj sym [of _ "kind w"] split: if_splits)
  qed
qed

lemma decodable_PList:
  assumes p: "std_opts p" and wf: "wf_val (PList vs)" and ih: "\<And>v. v \<in> set vs \<Longrightarrow> decodable p v"
  shows "decodable p (PList vs)"
  unfolding decodable_def
proof (intro allI impI)
  fix w r q
  assume w: "wf_val w" and fol: "follow r" "follow q"
    and eq: "enc p (PList vs) @ r = enc p w @ q"
  from enc_same_kind [OF wf w eq] obtain ws where ws: "w = PList ws" by auto
  have wfs: "wf_val x" if "x \<in> set vs \<union> set ws" for x
    using that wf w ws by (auto simp: list_all_iff)
  have "list_all2 (\<lambda>x y. canon x = canon y) vs ws \<and> r = q"
  proof (rule join_inj [where f = "enc p" and sep = "item_sep p" and c = "CHR '']''"])
    show "join (item_sep p) (map (enc p) vs) @ CHR '']'' # r
        = join (item_sep p) (map (enc p) ws) @ CHR '']'' # q"
      using eq ws by simp
    show "enc p x \<noteq> [] \<and> hd (enc p x) \<notin> {CHR '','', CHR '']'', CHR ''}''}" if "x \<in> set vs \<union> set ws" for x
      using enc_hd [OF wfs [OF that], of p] not_close by simp
    show "canon x = canon y \<and> r' = q'" if "x \<in> set vs" "y \<in> set ws" "follow r'" "follow q'"
      "enc p x @ r' = enc p y @ q'" for x y r' q'
      using decodableD [OF ih [OF that(1)] wfs that(3-5)] that(2) by blast
  qed (use std_sep [OF p] in auto)
  then have "map canon vs = map canon ws" "r = q"
    by (auto simp: list_all2_conv_all_nth list_eq_iff_nth_eq)
  with ws show "canon (PList vs) = canon w \<and> r = q" by simp
qed

lemma decodable_PDict:
  assumes p: "std_opts p" and wf: "wf_val (PDict kvs)"
    and ih: "\<And>k v. (k, v) \<in> set kvs \<Longrightarrow> decodable p v"
  shows "decodable p (PDict kvs)"
  unfolding decodable_def
proof (intro allI impI)
  fix w r q
  assume w: "wf_val w" and fol: "follow r" "follow q"
    and eq: "enc p (PDict kvs) @ r = enc p w @ q"
  from enc_same_kind [OF wf w eq] obtain lws where ws: "w = PDict lws" by auto
  let ?xs = "sort_key fst kvs" and ?ys = "sort_key fst lws"
  have wfs: "wf_val (snd x)" if "x \<in> set kvs \<union> set lws" for x
    using that wf w ws by (force simp: list_all_iff)
  have "list_all2 (\<lambda>x y. fst x = fst y \<and> canon (snd x) = canon (snd y)) ?xs ?ys \<and> r = q"
  proof (rule join_inj [where f = "enc_entry p" and sep = "item_sep p" and c = "CHR ''}''"])
    show "join (item_sep p) (map (enc_entry p) ?xs) @ CHR ''}'' # r
        = join (item_sep p) (map (enc_entry p) ?ys) @ CHR ''}'' # q"
      using eq ws by (simp only: enc_PDict) simp
    show "enc_entry p x \<noteq> [] \<and> hd (enc_entry p x) \<notin> {CHR '','', CHR '']'', CHR ''}''}" for x
      by (simp add: enc_entry_def quote_def)
    show "(fst x = fst y \<and> canon (snd x) = canon (snd y)) \<and> r' = q'"
      if "x \<in> set ?xs" "y \<in> set ?ys" "follow r'" "follow q'"
        "enc_entry p x @ r' = enc_entry p y @ q'" for x y r' q'
    proof -
      from that(5) have "fst x = fst y \<and>
          key_sep p @ enc p (snd x) @ r' = key_sep p @ enc p (snd y) @ q'"
        by (intro quote_inj [of "ensure_ascii p"]) (simp add: enc_entry_def)
      moreover have "decodable p (snd x)" using ih that(1) by (cases x) auto
      moreover have "wf_val (snd y)" using wfs that(2) by simp
      ultimately show ?thesis using decodableD that(3,4) by fastforce
    qed
  qed (use std_sep [OF p] in auto)
  then have "map (map_prod id canon) ?xs = map (map_prod id canon) ?ys" "r = q"
    by (auto simp: list_all2_conv_all_nth list_eq_iff_nth_eq map_prod_def split_def)
  with ws show "canon (PDict kvs) = canon w \<and> r = q" by (simp only: canon_PDict)
qed

lemma decodable_all: "std_opts p \<Longrightarrow> wf_val v \<Longrightarrow> decodable p v"
proof (induction v)
  case (PList vs)
  then show ?case by (intro decodable_PList) (auto simp: list_all_iff)
next
  case (PDict kvs)
  show ?case
  proof (rule decodable_PDict [OF PDict.prems])
    fix k v
    assume "(k, v) \<in> set kvs"
    with PDict show "decodable p v"
      by (fastforce simp: list_all_iff)
  qed
qed (auto intro: decodable_atom)

theorem enc_inj:
  assumes "std_opts p" "wf_val v" "wf_val w" "enc p v = enc p w"
  shows "canon v = canon w"
  using decodableD [OF decodable_all [OF assms(1,2)] assms(3), of "[]" "[]"] assms(4)
  by (simp add: follow_def)

end
