(* ===== verification/LwwMap.thy ===== *)
theory LwwMap
  imports PyJson
begin

text \<open>
  \<^verbatim>\<open>LWWMap\<close> of \<^verbatim>\<open>tpcp/memory/crdt.py\<close>: the last-writer-wins map, its Lamport clock and its
  write-through table. Each operation runs under the map's lock. The table of the optional SQLite
  file is the dictionary that the three SQL statements of the class read and write: a row per key,
  \<^verbatim>\<open>INSERT OR REPLACE\<close> removing the old row first.

  What makes the map converge is the contract \<open>lww_order\<close> (the order in which an entry displaces
  another is a strict weak order); the lemmas on slots are proved from it once, and it is
  interpreted on the comparison that \<^verbatim>\<open>set\<close> writes out.
\<close>

section \<open>State and operations\<close>

type_synonym lww_entry = "pyval \<times> int \<times> string"
type_synonym lww_row = "string \<times> int \<times> string"

record lww_map =
  lww_node_id :: string
  lww_state :: "(string, lww_entry) dict"
  logical_clock :: int
  db_path :: "string option"
  db_conn :: "(string, lww_row) dict option"

definition new_lww :: "string \<Rightarrow> string option \<Rightarrow> lww_map" where
  "new_lww n path =
     \<lparr>lww_node_id = n, lww_state = [], logical_clock = 0, db_path = path, db_conn = None\<rparr>"

text \<open>\<^verbatim>\<open>json.dumps(value, sort_keys=True, default=str)\<close>\<close>

definition lww_opts :: dump_opts where
  "lww_opts = \<lparr>item_sep = '', '', key_sep = '': '', ensure_ascii = True, default_str = True\<rparr>"

definition dumps :: "pyval \<Rightarrow> string" where
  "dumps v = enc lww_opts v"

lemma dumps_json_dumps: "json_dumps lww_opts v = Inr (dumps v)"
  by (simp add: json_dumps_def dumps_def lww_opts_def)

definition db_upsert :: "string \<Rightarrow> lww_row \<Rightarrow> (string, lww_row) dict \<Rightarrow> (string, lww_row) dict" where
  "db_upsert key r tab = AList.delete key tab @ [(key, r)]"

definition persist :: "string \<Rightarrow> pyval \<Rightarrow> int \<Rightarrow> string \<Rightarrow> lww_map \<Rightarrow> lww_map" where
  "persist key value ts writer m =
     (case db_conn m of
        None \<Rightarrow> m
      | Some tab \<Rightarrow> m\<lparr>db_conn := Some (db_upsert key (dumps value, ts, writer) tab)\<rparr>)"

definition lww_set :: "string \<Rightarrow> pyval \<Rightarrow> int option \<Rightarrow> string option \<Rightarrow> lww_map \<Rightarrow> lww_map" where
  "lww_set key value timestamp writer_id m =
     (let (clock, ts, writer) = (case timestamp of
            None \<Rightarrow> (logical_clock m + 1, logical_clock m + 1, lww_node_id m)
          | Some t \<Rightarrow> (max (logical_clock m) t, t,
              (case writer_id of None \<Rightarrow> lww_node_id m | Some w \<Rightarrow> w)));
        updated = (case map_of (lww_state m) key of
            None \<Rightarrow> True
          | Some (existing_value, existing_ts, existing_writer) \<Rightarrow>
              if existing_ts < ts then True
              else if ts = existing_ts then
                (if existing_writer < writer then True
                 else if writer = existing_writer then dumps existing_value < dumps value
                 else False)
              else False);
        m1 = m\<lparr>logical_clock := clock\<rparr>
      in if updated
         then persist key value ts writer
                (m1\<lparr>lww_state := AList.update key (value, ts, writer) (lww_state m)\<rparr>)
         else m1)"

definition lww_get :: "string \<Rightarrow> lww_map \<Rightarrow> pyval" where
  "lww_get key m = (case map_of (lww_state m) key of None \<Rightarrow> PNone | Some e \<Rightarrow> fst e)"

text \<open>The arguments that \<^verbatim>\<open>merge\<close> passes on for one record. The timestamp is an integer or
  null and the writer a string or null, as the signature of \<^verbatim>\<open>set\<close> has them; a timestamp that is no number is
  rejected, as \<^verbatim>\<open>max\<close> rejects it before anything changes, and the writer is not looked at when the timestamp is null.
  A limit of the model: an entry has an integer timestamp and a text as its writer, so a record with a float timestamp
  or, beside a timestamp, a writer of another type is refused here, where the code, which does not validate
  what a peer sends, goes on to compare it and may store it.\<close>

definition record_field :: "(string, pyval) dict \<Rightarrow> string \<Rightarrow> py_exn + pyval" where
  "record_field r k = (case map_of r k of None \<Rightarrow> Inl (KeyError k) | Some v \<Rightarrow> Inr v)"

fun int_arg :: "pyval \<Rightarrow> py_exn + int option" where
  "int_arg PNone = Inr None"
| "int_arg (PInt i) = Inr (Some i)"
| "int_arg (PBool b) = Inr (Some (if b then 1 else 0))"
| "int_arg _ = Inl (TypeError ''timestamp is not an int'')"

fun str_arg :: "pyval \<Rightarrow> py_exn + string option" where
  "str_arg PNone = Inr None"
| "str_arg (PStr s) = Inr (Some s)"
| "str_arg _ = Inl (TypeError ''writer_id is not a str'')"

fun record_args :: "pyval \<Rightarrow> py_exn + pyval \<times> int option \<times> string option" where
  "record_args (PDict r) =
     (case record_field r ''value'' of Inl e \<Rightarrow> Inl e
      | Inr v \<Rightarrow> (case record_field r ''timestamp'' of Inl e \<Rightarrow> Inl e
      | Inr t \<Rightarrow> (case record_field r ''writer_id'' of Inl e \<Rightarrow> Inl e
      | Inr w \<Rightarrow> (case int_arg t of Inl e \<Rightarrow> Inl e
      | Inr None \<Rightarrow> Inr (v, None, None)
      | Inr (Some ts) \<Rightarrow> (case str_arg w of Inl e \<Rightarrow> Inl e
      | Inr wr \<Rightarrow> Inr (v, Some ts, wr))))))"
| "record_args _ = Inl (TypeError ''record is not a dict'')"

fun lww_merge :: "(string, pyval) dict \<Rightarrow> lww_map \<Rightarrow> lww_map \<times> py_exn option" where
  "lww_merge [] m = (m, None)"
| "lww_merge ((key, r) # rs) m =
     (case record_args r of
        Inl e \<Rightarrow> (m, Some e)
      | Inr (v, ts, w) \<Rightarrow> lww_merge rs (lww_set key v ts w m))"

definition to_dict :: "lww_map \<Rightarrow> (string, pyval) dict" where
  "to_dict m = map (\<lambda>(k, v). (k, fst v)) (lww_state m)"

definition record_of :: "lww_entry \<Rightarrow> pyval" where
  "record_of e = (case e of (val, ts, writer) \<Rightarrow>
     PDict [(''value'', val), (''timestamp'', PInt ts), (''writer_id'', PStr writer)])"

definition serialize_state :: "lww_map \<Rightarrow> (string, pyval) dict" where
  "serialize_state m = map (\<lambda>(key, e). (key, record_of e)) (lww_state m)"

definition lww_close :: "lww_map \<Rightarrow> lww_map" where
  "lww_close m = m\<lparr>db_conn := None\<rparr>"

section \<open>The contract of the order\<close>

text \<open>What a write does to the slot of its key.\<close>

definition slot_put :: "('e \<Rightarrow> 'e \<Rightarrow> bool) \<Rightarrow> 'e \<Rightarrow> 'e option \<Rightarrow> 'e" where
  "slot_put beats e s = (case s of None \<Rightarrow> e | Some old \<Rightarrow> if beats e old then e else old)"

locale lww_order =
  fixes beats :: "'e \<Rightarrow> 'e \<Rightarrow> bool"
  assumes asym: "beats a b \<Longrightarrow> \<not> beats b a"
    and neg_trans: "beats a c \<Longrightarrow> beats a b \<or> beats b c"
begin

lemma irrefl: "\<not> beats a a"
  using asym by blast

text \<open>After any sequence of writes the slot holds one of them, and none of them beats it.\<close>

lemma slot_fold:
  assumes "ws \<noteq> []"
  shows "\<exists>e. fold (\<lambda>w s. Some (slot_put beats w s)) ws None = Some e \<and>
    e \<in> set ws \<and> (\<forall>w \<in> set ws. \<not> beats w e)"
  using assms
proof (induction ws rule: rev_induct)
  case Nil
  then show ?case by simp
next
  case (snoc w ws)
  show ?case
  proof (cases "ws = []")
    case True
    then show ?thesis by (simp add: slot_put_def irrefl)
  next
    case False
    with snoc.IH obtain e where e:
      "fold (\<lambda>w s. Some (slot_put beats w s)) ws None = Some e" "e \<in> set ws"
      "\<forall>w \<in> set ws. \<not> beats w e" by blast
    have "\<not> beats x w" if "beats w e" "x \<in> set ws" for x
      using that e(3) asym neg_trans by blast
    with e show ?thesis by (auto simp: slot_put_def irrefl)
  qed
qed

text \<open>Two sequences of the same writes leave entries neither of which beats the other.\<close>

lemma slot_converges:
  assumes "set ws = set ws'"
    and "fold (\<lambda>w s. Some (slot_put beats w s)) ws None = Some e"
    and "fold (\<lambda>w s. Some (slot_put beats w s)) ws' None = Some e'"
  shows "\<not> beats e e' \<and> \<not> beats e' e"
proof -
  from assms(2,3) have "ws \<noteq> []" "ws' \<noteq> []" by auto
  from slot_fold [OF this(1)] slot_fold [OF this(2)] assms show ?thesis by auto
qed

lemma slot_put_comm:
  "\<not> beats (slot_put beats a (Some b)) (slot_put beats b (Some a))"
  using asym irrefl by (auto simp: slot_put_def)

lemma slot_put_assoc:
  "\<not> beats (slot_put beats c (Some (slot_put beats b (Some a))))
     (slot_put beats (slot_put beats c (Some b)) (Some a)) \<and>
   \<not> beats (slot_put beats (slot_put beats c (Some b)) (Some a))
     (slot_put beats c (Some (slot_put beats b (Some a))))"
  using asym [of a b] asym [of b c] asym [of a c] irrefl [of a] irrefl [of b] irrefl [of c]
    neg_trans [of a c b] neg_trans [of a b c] neg_trans [of b c a] neg_trans [of b a c]
    neg_trans [of c a b] neg_trans [of c b a]
  by (simp add: slot_put_def split: if_split) blast

lemma slot_put_idem: "slot_put beats a (Some a) = a"
  by (simp add: slot_put_def)

end

section \<open>The order of the code\<close>

definition entry_beats :: "lww_entry \<Rightarrow> lww_entry \<Rightarrow> bool" where
  "entry_beats e old = (case (e, old) of ((v, ts, w), (v', ts', w')) \<Rightarrow>
     ts' < ts \<or> ts = ts' \<and> (w' < w \<or> w = w' \<and> dumps v' < dumps v))"

interpretation lww: lww_order entry_beats
  by unfold_locales (auto simp: entry_beats_def)

text \<open>The entry up to the order of dictionary keys inside its value.\<close>

definition entry_view :: "lww_entry \<Rightarrow> pyval \<times> int \<times> string" where
  "entry_view e = (case e of (v, ts, w) \<Rightarrow> (canon v, ts, w))"

definition lww_view :: "lww_map \<Rightarrow> string \<Rightarrow> (pyval \<times> int \<times> string) option" where
  "lww_view m k = map_option entry_view (map_of (lww_state m) k)"

lemma std_lww_opts: "std_opts lww_opts"
  by (simp add: std_opts_def lww_opts_def)

lemma dumps_inj: "wf_val v \<Longrightarrow> wf_val w \<Longrightarrow> dumps v = dumps w \<Longrightarrow> canon v = canon w"
  unfolding dumps_def by (rule enc_inj [OF std_lww_opts])

lemma tie_view:
  assumes "\<not> entry_beats e e'" "\<not> entry_beats e' e" "wf_val (fst e)" "wf_val (fst e')"
  shows "entry_view e = entry_view e'"
  using assms dumps_inj [of "fst e" "fst e'"]
  by (auto simp: entry_beats_def entry_view_def split: prod.splits)

section \<open>What the operations do to a slot\<close>

lemma persist_simps [simp]:
  "lww_state (persist k v t w m) = lww_state m" "logical_clock (persist k v t w m) = logical_clock m"
  "lww_node_id (persist k v t w m) = lww_node_id m"
  by (simp_all add: persist_def split: option.splits)

lemma lww_set_get:
  "map_of (lww_state (lww_set k v (Some t) (Some w) m)) =
   (map_of (lww_state m))(k \<mapsto> slot_put entry_beats (v, t, w) (map_of (lww_state m) k))"
  by (auto simp: lww_set_def Let_def slot_put_def entry_beats_def dict_simps fun_eq_iff split: option.splits)

lemma lww_set_clock:
  "logical_clock (lww_set k v (Some t) w m) = max (logical_clock m) t"
  by (simp add: lww_set_def Let_def split: option.splits prod.splits)

text \<open>A write that carries its timestamp and writer, as every replicated write does.\<close>

definition apply_write :: "string \<times> lww_entry \<Rightarrow> lww_map \<Rightarrow> lww_map" where
  "apply_write x m = (case x of (k, v, t, w) \<Rightarrow> lww_set k v (Some t) (Some w) m)"

definition apply_writes :: "(string \<times> lww_entry) list \<Rightarrow> lww_map \<Rightarrow> lww_map" where
  "apply_writes ws m = fold apply_write ws m"

definition writes_to :: "string \<Rightarrow> (string \<times> lww_entry) list \<Rightarrow> lww_entry list" where
  "writes_to k ws = map snd (filter (\<lambda>x. fst x = k) ws)"

lemma writes_to_simps [simp]:
  "writes_to k [] = []"
  "writes_to k (x # ws) = (if fst x = k then snd x # writes_to k ws else writes_to k ws)"
  by (simp_all add: writes_to_def)

lemma set_writes_to: "set (writes_to k ws) = {e. (k, e) \<in> set ws}"
  by (force simp: writes_to_def)

lemma apply_write_get:
  "map_of (lww_state (apply_write x m)) =
   (map_of (lww_state m))(fst x \<mapsto> slot_put entry_beats (snd x) (map_of (lww_state m) (fst x)))"
  by (cases x) (simp add: apply_write_def lww_set_get)

lemma apply_writes_get:
  "map_of (lww_state (apply_writes ws m)) k =
   fold (\<lambda>e s. Some (slot_put entry_beats e s)) (writes_to k ws) (map_of (lww_state m) k)"
  by (induction ws arbitrary: m) (auto simp: apply_writes_def apply_write_get)

lemma record_args_of [simp]: "record_args (record_of (v, t, w)) = Inr (v, Some t, Some w)"
  by (simp add: record_of_def record_field_def)

lemma merge_writes:
  "lww_merge (map (\<lambda>(k, e). (k, record_of e)) ws) m = (apply_writes ws m, None)"
proof (induction ws arbitrary: m)
  case Nil
  then show ?case by (simp add: apply_writes_def)
next
  case (Cons x ws)
  obtain k v t w where "x = (k, v, t, w)" by (cases x)
  with Cons show ?case by (simp add: apply_writes_def apply_write_def)
qed

lemma merge_serialized: "lww_merge (serialize_state b) a = (apply_writes (lww_state b) a, None)"
  by (simp add: serialize_state_def merge_writes)

lemma writes_to_wf:
  "dict_wf ws \<Longrightarrow> writes_to k ws = (case map_of ws k of None \<Rightarrow> [] | Some e \<Rightarrow> [e])"
proof (induction ws)
  case (Cons x ws)
  then have "fst x = k \<Longrightarrow> map_of ws k = None"
    using dict_get_None_keys [of ws k] by (auto simp: dict_wf_def)
  with Cons show ?case by (cases x) (auto simp: dict_wf_def)
qed simp

lemma merge_get:
  assumes "dict_wf (lww_state b)"
  shows "map_of (lww_state (apply_writes (lww_state b) a)) k =
    (case map_of (lww_state b) k of None \<Rightarrow> map_of (lww_state a) k
     | Some e \<Rightarrow> Some (slot_put entry_beats e (map_of (lww_state a) k)))"
  by (simp add: apply_writes_get writes_to_wf [OF assms] split: option.splits)

section \<open>Invariant\<close>

definition row_of :: "lww_entry \<Rightarrow> lww_row" where
  "row_of e = (case e of (v, t, w) \<Rightarrow> (dumps v, t, w))"

definition lww_inv :: "lww_map \<Rightarrow> bool" where
  "lww_inv m \<longleftrightarrow> dict_wf (lww_state m) \<and>
     (\<forall>x \<in> set (lww_state m). fst (snd (snd x)) \<le> logical_clock m) \<and>
     (case db_conn m of None \<Rightarrow> True
      | Some tab \<Rightarrow> dict_wf tab \<and> map_of tab = (\<lambda>k. map_option row_of (map_of (lww_state m) k)))"

lemma lww_inv_wf [intro]: "lww_inv m \<Longrightarrow> dict_wf (lww_state m)"
  by (simp add: lww_inv_def)

lemma lww_inv_clock: "lww_inv m \<Longrightarrow> map_of (lww_state m) k = Some (v, t, w) \<Longrightarrow> t \<le> logical_clock m"
  using map_of_SomeD [of "lww_state m" k "(v, t, w)"] by (auto simp: lww_inv_def)

lemma row_replace:
  "map_of (db_upsert k r tab) = (map_of tab)(k \<mapsto> r)"
  by (auto simp: db_upsert_def fun_eq_iff map_add_def dict_simps split: option.splits)

lemma row_replace_wf: "dict_wf tab \<Longrightarrow> dict_wf (db_upsert k r tab)"
  using dict_wf_del [of tab k] by (auto simp: dict_wf_def db_upsert_def delete_keys)

lemma lww_inv_clock_mono: "lww_inv m \<Longrightarrow> logical_clock m \<le> c \<Longrightarrow> lww_inv (m\<lparr>logical_clock := c\<rparr>)"
  by (auto simp: lww_inv_def split: option.splits)

lemma lww_inv_store:
  assumes "lww_inv m" "t \<le> logical_clock m"
  shows "lww_inv (persist k v t w (m\<lparr>lww_state := AList.update k (v, t, w) (lww_state m)\<rparr>))"
proof (cases "db_conn m")
  case None
  with assms show ?thesis by (auto simp: lww_inv_def persist_def dest: dict_set_mem)
next
  case (Some tab)
  with assms have "dict_wf tab" "map_of tab = (\<lambda>k. map_option row_of (map_of (lww_state m) k))"
    by (simp_all add: lww_inv_def)
  then show ?thesis
    using Some assms row_replace_wf
    by (auto simp: lww_inv_def persist_def row_replace row_of_def dict_simps fun_eq_iff
        dest: dict_set_mem)
qed

lemma lww_inv_new: "lww_inv (new_lww n p)"
  by (simp add: lww_inv_def new_lww_def)

text \<open>\<^verbatim>\<open>set\<close> advances the clock, and then either stores the entry or leaves the map.\<close>

lemma lww_set_cases:
  obtains c t wr where "logical_clock m \<le> c" "t \<le> c"
    "lww_set k v ts w m = m\<lparr>logical_clock := c\<rparr> \<or>
     lww_set k v ts w m = persist k v t wr (m\<lparr>logical_clock := c,
       lww_state := AList.update k (v, t, wr) (lww_state m)\<rparr>)"
proof (cases ts)
  case None
  show ?thesis
    by (rule that [of "logical_clock m + 1" "logical_clock m + 1" "lww_node_id m"])
      (simp_all add: lww_set_def Let_def None)
next
  case (Some t)
  show ?thesis
    by (rule that [of "max (logical_clock m) t" t "case w of None \<Rightarrow> lww_node_id m | Some w \<Rightarrow> w"])
      (simp_all add: lww_set_def Let_def Some)
qed

lemma lww_inv_set: "lww_inv m \<Longrightarrow> lww_inv (lww_set k v ts w m)"
proof (rule lww_set_cases [of m k v ts w])
  fix c t wr
  assume m: "lww_inv m" and c: "logical_clock m \<le> c" "t \<le> c"
    and d: "lww_set k v ts w m = m\<lparr>logical_clock := c\<rparr> \<or>
     lww_set k v ts w m = persist k v t wr (m\<lparr>logical_clock := c,
       lww_state := AList.update k (v, t, wr) (lww_state m)\<rparr>)"
  from lww_inv_clock_mono [OF m c(1)] lww_inv_store [of "m\<lparr>logical_clock := c\<rparr>" t k v wr] c(2) d
  show "lww_inv (lww_set k v ts w m)" by auto
qed

lemma lww_set_clock_mono: "logical_clock m \<le> logical_clock (lww_set k v ts w m)"
  by (rule lww_set_cases [of m k v ts w]) auto

lemma lww_merge_inv:
  "lww_inv m \<Longrightarrow> lww_inv (fst (lww_merge rs m)) \<and> logical_clock m \<le> logical_clock (fst (lww_merge rs m))"
proof (induction rs m rule: lww_merge.induct)
  case (2 key r rs m)
  show ?case
  proof (cases "record_args r")
    case (Inr a)
    obtain v ts w where a: "a = (v, ts, w)" by (cases a)
    from "2.IH" [OF Inr a [symmetric] refl lww_inv_set [OF "2.prems"]] lww_set_clock_mono [of m key v ts w] Inr a
    show ?thesis by simp
  qed (use 2 in simp)
qed simp

section \<open>Properties\<close>

text \<open>C2: Strong eventual convergence: two replicas that apply the same set of replicated writes,
  each in its own order and with its own repetitions, hold under every key an entry with the same
  timestamp, the same writer and the same JSON value (up to the order of dictionary keys), or
  both hold none.\<close>

theorem replicas_converge:
  assumes "set ws = set ws'" "\<forall>(k, v, t, w) \<in> set ws. wf_val v"
  shows "lww_view (apply_writes ws (new_lww n p)) k = lww_view (apply_writes ws' (new_lww n' p')) k"
proof -
  let ?e = "\<lambda>ws. fold (\<lambda>w s. Some (slot_put entry_beats w s)) (writes_to k ws) None"
  have sw: "set (writes_to k ws) = set (writes_to k ws')" by (simp add: set_writes_to assms(1))
  have view: "lww_view (apply_writes us (new_lww i q)) k = map_option entry_view (?e us)" for us i q
    by (simp add: lww_view_def apply_writes_get new_lww_def)
  show ?thesis
  proof (cases "writes_to k ws = []")
    case True
    with sw have "writes_to k ws' = []" by simp
    with True show ?thesis by (simp add: view)
  next
    case False
    moreover from False sw have "writes_to k ws' \<noteq> []" by auto
    ultimately obtain e e' where e: "?e ws = Some e" "e \<in> set (writes_to k ws)"
      "?e ws' = Some e'" "e' \<in> set (writes_to k ws')"
      using lww.slot_fold [of "writes_to k ws"] lww.slot_fold [of "writes_to k ws'"] by blast
    have "wf_val (fst e)" "wf_val (fst e')"
      using e(2,4) assms by (auto simp: set_writes_to)
    with lww.slot_converges [OF sw e(1,3)] have "entry_view e = entry_view e'"
      by (blast intro: tie_view)
    with e(1,3) show ?thesis by (simp add: view)
  qed
qed

theorem replicas_converge_witness:
  "lww_view (apply_writes [(''k'', PInt 1, 5, ''a''), (''k'', PStr ''x'', 5, ''b'')] (new_lww ''a'' None)) ''k'' =
   lww_view (apply_writes [(''k'', PStr ''x'', 5, ''b''), (''k'', PInt 1, 5, ''a''), (''k'', PInt 1, 5, ''a'')]
     (new_lww ''b'' None)) ''k''"
  by (rule replicas_converge) auto

text \<open>C9: Merging is commutative, associative and idempotent, as the class documents, on what the
  replicas hold: merging the serialized state of another replica never fails, and the entries that
  result do not depend on the direction or the grouping of the merges, nor on repeating one.\<close>

theorem merge_semilattice:
  assumes inv: "lww_inv a" "lww_inv b" "lww_inv c"
    and wf: "\<forall>m \<in> {a, b, c}. \<forall>x \<in> set (lww_state m). wf_val (fst (snd x))"
  defines "mrg \<equiv> \<lambda>x y. fst (lww_merge (serialize_state y) x)"
  shows "lww_view (mrg a b) k = lww_view (mrg b a) k \<and>
    lww_view (mrg (mrg a b) c) k = lww_view (mrg a (mrg b c)) k \<and>
    map_of (lww_state (mrg a a)) k = map_of (lww_state a) k \<and>
    snd (lww_merge (serialize_state b) a) = None"
proof -
  let ?g = "\<lambda>m. map_of (lww_state m) k"
  let ?p = "slot_put entry_beats"
  have m: "mrg x y = apply_writes (lww_state y) x" for x y
    by (simp add: mrg_def merge_serialized)
  have g: "?g (mrg x y) = (case ?g y of None \<Rightarrow> ?g x | Some e \<Rightarrow> Some (?p e (?g x)))"
    if "lww_inv y" for x y
    using merge_get [of y x k] that by (auto simp: m)
  have bc: "lww_inv (mrg b c)" using lww_merge_inv [OF inv(2)] by (simp add: mrg_def)
  have w: "?g x = Some e \<Longrightarrow> x \<in> {a, b, c} \<Longrightarrow> wf_val (fst e)" for x e
    using wf by (fastforce dest: map_of_SomeD)
  have wabc: "?g a = Some e \<Longrightarrow> wf_val (fst e)" "?g b = Some e \<Longrightarrow> wf_val (fst e)"
    "?g c = Some e \<Longrightarrow> wf_val (fst e)" for e
    using w by blast+
  have wp: "wf_val (fst (?p e (Some e')))" if "wf_val (fst e)" "wf_val (fst e')" for e e'
    using that by (simp add: slot_put_def)
  have n: "?p e None = e" for e by (simp add: slot_put_def)
  have comm: "entry_view (?p e (Some e')) = entry_view (?p e' (Some e))"
    if "wf_val (fst e)" "wf_val (fst e')" for e e'
    by (rule tie_view [OF lww.slot_put_comm lww.slot_put_comm wp [OF that] wp [OF that(2,1)]])
  have assoc: "entry_view (?p z (Some (?p y (Some x)))) = entry_view (?p (?p z (Some y)) (Some x))"
    if "wf_val (fst x)" "wf_val (fst y)" "wf_val (fst z)" for x y z
    using lww.slot_put_assoc [of z y x] that by (intro tie_view wp) auto
  have "lww_view (mrg a b) k = lww_view (mrg b a) k"
    using wabc comm by (cases "?g a"; cases "?g b") (simp_all add: lww_view_def g inv n)
  moreover have "lww_view (mrg (mrg a b) c) k = lww_view (mrg a (mrg b c)) k"
    using wabc assoc by (cases "?g a"; cases "?g b"; cases "?g c") (simp_all add: lww_view_def g inv bc n)
  moreover have "?g (mrg a a) = ?g a"
    by (simp add: g inv lww.slot_put_idem split: option.splits)
  ultimately show ?thesis by (simp add: merge_serialized)
qed

theorem merge_semilattice_witness:
  "lww_view (fst (lww_merge (serialize_state (new_lww ''b'' None))
     (lww_set ''k'' (PInt 1) None None (new_lww ''a'' None)))) ''k'' =
   lww_view (fst (lww_merge (serialize_state (lww_set ''k'' (PInt 1) None None (new_lww ''a'' None)))
     (new_lww ''b'' None))) ''k''"
  using merge_semilattice [OF lww_inv_set [OF lww_inv_new] lww_inv_new lww_inv_new,
      of "''k''" "PInt 1" None None "''a''" None "''b''" None "''c''" None "''k''"]
  by (simp add: lww_set_def new_lww_def persist_def)

text \<open>A local write wins: \<^verbatim>\<open>set\<close> without a timestamp ticks the clock past every timestamp
  the replica has seen, so the value is what \<^verbatim>\<open>get\<close> then returns, under the node's own id.\<close>

theorem local_write_wins:
  assumes "lww_inv m"
  shows "map_of (lww_state (lww_set k v None w m)) =
      (map_of (lww_state m))(k \<mapsto> (v, logical_clock m + 1, lww_node_id m)) \<and>
    lww_get k (lww_set k v None w m) = v \<and>
    logical_clock (lww_set k v None w m) = logical_clock m + 1"
proof -
  have "t < logical_clock m + 1" if "map_of (lww_state m) k = Some (v', t, w')" for v' t w'
    using lww_inv_clock [OF assms that] by simp
  then show ?thesis
    by (auto simp: lww_set_def Let_def lww_get_def dict_simps split: option.splits)
qed

theorem local_write_wins_witness:
  "lww_get ''k'' (lww_set ''k'' (PInt 2) None None (lww_set ''k'' (PInt 1) (Some 7) None (new_lww ''a'' None))) = PInt 2"
  using local_write_wins [OF lww_inv_set [OF lww_inv_new]] by blast

text \<open>The clock is a Lamport clock, the map has one entry per key and the table of a connected
  map mirrors it (the JSON text of each value, its timestamp and its writer): every \<^verbatim>\<open>set\<close> and
  every \<^verbatim>\<open>merge\<close>, one that fails in the middle included, keeps all of that and never turns the
  clock back.\<close>

theorem lww_ops_invariant:
  assumes "lww_inv m"
  shows "lww_inv (lww_set k v ts w m) \<and> logical_clock m \<le> logical_clock (lww_set k v ts w m) \<and>
    lww_inv (fst (lww_merge rs m)) \<and> logical_clock m \<le> logical_clock (fst (lww_merge rs m))"
  using assms lww_inv_set lww_set_clock_mono lww_merge_inv by blast

theorem lww_ops_invariant_witness:
  "lww_inv (fst (lww_merge [(''k'', PDict [(''value'', PInt 1)])] (new_lww ''a'' None)))"
  using lww_ops_invariant [OF lww_inv_new] by blast

text \<open>A record whose timestamp is null is merged as a local write: it overwrites the entry of its
  key whatever its timestamp, and is stored under the receiver's id and the receiver's next clock
  value, not under the writer it names.\<close>

theorem null_timestamp_is_local_write:
  assumes "lww_inv m"
  shows "map_of (lww_state (fst (lww_merge [(k, PDict [(''value'', v), (''timestamp'', PNone),
      (''writer_id'', PStr w)])] m))) k = Some (v, logical_clock m + 1, lww_node_id m)"
proof -
  have "t < logical_clock m + 1" if "map_of (lww_state m) k = Some (v', t, w')" for v' t w'
    using lww_inv_clock [OF assms that] by simp
  then show ?thesis
    by (auto simp: record_field_def lww_set_def Let_def dict_simps split: option.splits)
qed

theorem null_timestamp_is_local_write_witness:
  "map_of (lww_state (fst (lww_merge [(''k'', PDict [(''value'', PInt 1), (''timestamp'', PNone),
      (''writer_id'', PStr ''z'')])] (new_lww ''a'' None)))) ''k'' = Some (PInt 1, 1, ''a'')"
  using null_timestamp_is_local_write [OF lww_inv_new, of "''k''" "PInt 1" "''z''" "''a''" None]
  by (simp add: new_lww_def)

end
