(* ===== verification/PyFloat.thy ===== *)
theory PyFloat
  imports PyJson
begin

text \<open>
  Python's floats, which are IEEE doubles: the double nearest to a decimal number, \<^verbatim>\<open>repr\<close>, and the little arithmetic
  that the code does with a float that it reads from JSON. All of it is exact integer arithmetic: a non-negative
  double is a fraction whose denominator is a power of two.
\<close>

section \<open>Rounding to a double\<close>

function bit_len :: "int \<Rightarrow> int" where
  "bit_len n = (if n \<le> 0 then 0 else 1 + bit_len (n div 2))"
  by pat_completeness auto
termination by (relation "measure nat") auto

declare bit_len.simps [simp del]

text \<open>The integer nearest to \<open>a / b\<close>, the even one of two.\<close>

definition half_even :: "int \<Rightarrow> int \<Rightarrow> int" where
  "half_even a b =
     (let q = a div b; r = a mod b
      in if 2 * r < b \<or> 2 * r = b \<and> even q then q else q + 1)"

text \<open>The double nearest to \<open>num / den\<close>; \<open>None\<close> is infinity. The significand has 53 bits, the exponent of its last bit
  is at least -1074, and 2 to the 1024 is out of range.\<close>

definition nearest_double :: "int \<Rightarrow> int \<Rightarrow> (int \<times> int) option" where
  "nearest_double num den =
     (if num = 0 then Some (0, 1)
      else
        let k = bit_len num - bit_len den;
            e = max (if den * 2 ^ nat k \<le> num * 2 ^ nat (- k) then k - 52 else k - 53) (- 1074);
            m = half_even (num * 2 ^ nat (- e)) (den * 2 ^ nat e)
        in if 2 ^ 1024 \<le> m * 2 ^ nat e then None else Some (m * 2 ^ nat e, 2 ^ nat (- e)))"

section \<open>repr\<close>

text \<open>The position of the decimal point: \<open>10 ^ (p - 1) \<le> num / den < 10 ^ p\<close>.\<close>

definition dec_point :: "int \<Rightarrow> int \<Rightarrow> int" where
  "dec_point num den =
     (if den \<le> num then int (length (show_pos (num div den)))
      else 1 - int (length (show_pos ((den - 1) div num))))"

definition same_fraction :: "int \<times> int \<Rightarrow> (int \<times> int) option \<Rightarrow> bool" where
  "same_fraction x y = (case y of None \<Rightarrow> False | Some (a, b) \<Rightarrow> a * snd x = fst x * b)"

text \<open>The shortest digits that denote the double, from \<open>n\<close> digits on (17 always do), and the nearest of them.\<close>

primrec shortest_from :: "nat \<Rightarrow> int \<Rightarrow> int \<Rightarrow> int \<Rightarrow> int \<Rightarrow> int \<times> int" where
  "shortest_from 0 n p num den = (half_even (num * 10 ^ nat (n - p)) (den * 10 ^ nat (p - n)), n)"
| "shortest_from (Suc fuel) n p num den =
     (let a = num * 10 ^ nat (n - p); b = den * 10 ^ nat (p - n);
          near = half_even a b;
          other = (if near = a div b then near + 1 else near - 1);
          good = (\<lambda>d. same_fraction (num, den) (nearest_double (d * 10 ^ nat (p - n)) (10 ^ nat (n - p))))
      in if good near then (near, n) else if good other then (other, n)
         else shortest_from fuel (n + 1) p num den)"

definition strip_zeros :: "string \<Rightarrow> string" where
  "strip_zeros s = rev (dropWhile (\<lambda>c. c = CHR ''0'') (rev s))"

definition show_exp :: "int \<Rightarrow> string" where
  "show_exp e = (if e < 0 then ''-'' else ''+'') @ (if \<bar>e\<bar> < 10 then ''0'' else []) @ show_pos \<bar>e\<bar>"

text \<open>Digits with their decimal point after the first \<open>p\<close>, in fixed or in exponent notation.\<close>

definition layout :: "string \<Rightarrow> int \<Rightarrow> string" where
  "layout ds p =
     (let zeros = (\<lambda>n. replicate (nat n) (CHR ''0''))
      in if p \<le> - 4 \<or> 16 < p then take 1 ds @ (if length ds = 1 then [] else CHR ''.'' # drop 1 ds) @ ''e'' @ show_exp (p - 1)
         else if p \<le> 0 then ''0.'' @ zeros (- p) @ ds
         else if int (length ds) \<le> p then ds @ zeros (p - int (length ds)) @ ''.0''
         else take (nat p) ds @ ''.'' @ drop (nat p) ds)"

definition double_repr :: "(int \<times> int) option \<Rightarrow> string" where
  "double_repr x =
     (case x of
        None \<Rightarrow> ''Infinity''
      | Some (num, den) \<Rightarrow>
          if num = 0 then ''0.0''
          else
            let p = dec_point num den;
                (d, n) = shortest_from 16 1 p num den;
                ds = show_pos d
            in layout (strip_zeros ds) (p - n + int (length ds)))"

text \<open>\<^verbatim>\<open>repr\<close> of the float whose decimal digits are \<open>d\<close>, with the exponent \<open>e\<close> of ten.\<close>

definition scaled :: "int \<Rightarrow> int \<Rightarrow> int \<times> int" where
  "scaled d e = (d * 10 ^ nat e, 10 ^ nat (- e))"

definition decimal_repr :: "bool \<Rightarrow> int \<Rightarrow> int \<Rightarrow> string" where
  "decimal_repr neg d e =
     (if neg then ''-'' else []) @ double_repr (nearest_double (fst (scaled d e)) (snd (scaled d e)))"

section \<open>The text of a float\<close>

definition is_digit :: "char \<Rightarrow> bool" where
  "is_digit c \<longleftrightarrow> 48 \<le> (of_char c :: int) \<and> of_char c < (58 :: int)"

definition take_sign :: "string \<Rightarrow> string \<times> string" where
  "take_sign s = (case s of c # cs \<Rightarrow> if c = CHR ''-'' then ([c], cs) else ([], s) | [] \<Rightarrow> ([], s))"

text \<open>The exponent part (\<^verbatim>\<open>e-07\<close>), and the number with these parts.\<close>

definition exp_value :: "string \<Rightarrow> int" where
  "exp_value ex =
     (case ex of
        [] \<Rightarrow> 0
      | e # r \<Rightarrow> (if take 1 r = ''-'' then - dec_val (tl r) else if take 1 r = ''+'' then dec_val (tl r) else dec_val r))"

definition repr_of_parts :: "string \<Rightarrow> string \<Rightarrow> string \<Rightarrow> string \<Rightarrow> string" where
  "repr_of_parts sign ip fr ex =
     decimal_repr (sign \<noteq> []) (dec_val (ip @ tl fr)) (exp_value ex - int (length (tl fr)))"

section \<open>Arithmetic on reprs\<close>

text \<open>\<^verbatim>\<open>x <= 0\<close>; a comparison with \<^verbatim>\<open>NaN\<close> is false.\<close>

definition float_le_0 :: "string \<Rightarrow> bool" where
  "float_le_0 r \<longleftrightarrow> take 1 r = ''-'' \<or> r = ''0.0''"

text \<open>The exact value of a finite float.\<close>

definition float_fraction :: "string \<Rightarrow> int \<times> int" where
  "float_fraction r =
     (let (sign, s1) = take_sign r;
          ip = takeWhile is_digit s1;
          s2 = dropWhile is_digit s1;
          fr = takeWhile (\<lambda>c. c \<noteq> CHR ''e'') s2;
          ex = dropWhile (\<lambda>c. c \<noteq> CHR ''e'') s2;
          (num, den) = scaled (dec_val (ip @ tl fr)) (exp_value ex - int (length (tl fr)))
      in case nearest_double num den of None \<Rightarrow> (0, 1) | Some (a, b) \<Rightarrow> (if sign = [] then a else - a, b))"

text \<open>\<^verbatim>\<open>x - 1\<close>\<close>

definition float_pred :: "string \<Rightarrow> string" where
  "float_pred r =
     (if r \<in> set [''NaN'', ''Infinity'', ''-Infinity''] then r
      else
        let (a, b) = float_fraction r; n = a - b
        in (if n < 0 then ''-'' else []) @ double_repr (nearest_double \<bar>n\<bar> b))"

end
