(* ===== verification/JsonLoads.thy ===== *)
theory JsonLoads
  imports PyFloat
begin

text \<open>
  \<^verbatim>\<open>json.loads\<close>, as the code uses it on wire messages, handshake contents and stored values: the
  recursive-descent scanner of Python's \<^verbatim>\<open>json\<close> module. \<open>None\<close> is \<^verbatim>\<open>JSONDecodeError\<close>. The texts are
  those whose characters the model's strings can hold (a \<^verbatim>\<open>\u\<close> escape above 255 is refused), and
  a float is rounded to a double and represented by its \<^verbatim>\<open>repr\<close> (theory \<open>PyFloat\<close>).

  The scanner's recursion on nested values carries a bound, which \<open>json_loads\<close> sets to the length of
  the text; \<open>loads_dumps\<close> shows that it is enough for every text that \<^verbatim>\<open>json.dumps\<close> writes.
\<close>

definition is_ws :: "char \<Rightarrow> bool" where
  "is_ws c \<longleftrightarrow> c = CHR '' '' \<or> c = CHR 0x09 \<or> c = CHR 0x0A \<or> c = CHR 0x0D"

definition skip_ws :: "string \<Rightarrow> string" where
  "skip_ws s = dropWhile is_ws s"

section \<open>Strings\<close>

definition hex_of :: "char \<Rightarrow> int option" where
  "hex_of c = (let n = of_char c :: int in
     if 48 \<le> n \<and> n < 58 then Some (n - 48)
     else if 97 \<le> n \<and> n < 103 then Some (n - 87)
     else if 65 \<le> n \<and> n < 71 then Some (n - 55)
     else None)"

definition simple_escape :: "char \<Rightarrow> char option" where
  "simple_escape c = map_of [(CHR 0x22, CHR 0x22), (CHR 0x5C, CHR 0x5C), (CHR ''/'', CHR ''/''),
     (CHR ''b'', CHR 0x08), (CHR ''f'', CHR 0x0C), (CHR ''n'', CHR 0x0A), (CHR ''r'', CHR 0x0D),
     (CHR ''t'', CHR 0x09)] c"

fun hex4 :: "string \<Rightarrow> int option" where
  "hex4 [a, b, c, d] =
     (case (hex_of a, hex_of b, hex_of c, hex_of d) of
        (Some x, Some y, Some z, Some w) \<Rightarrow> Some (4096 * x + 256 * y + 16 * z + w)
      | _ \<Rightarrow> None)"
| "hex4 _ = None"

text \<open>The rest of a string after its opening quote; \<open>fuel\<close> bounds the characters read.\<close>

primrec scan_str :: "nat \<Rightarrow> string \<Rightarrow> (string \<times> string) option" where
  "scan_str 0 s = None"
| "scan_str (Suc fuel) s =
     (case s of
        [] \<Rightarrow> None
      | c # cs \<Rightarrow>
          if c = CHR 0x22 then Some ([], cs)
          else if c = CHR 0x5C then
            (case cs of
               [] \<Rightarrow> None
             | e # es \<Rightarrow>
                 if e = CHR ''u'' then
                   (case hex4 (take 4 es) of
                      None \<Rightarrow> None
                    | Some n \<Rightarrow>
                        if n < 256 then map_option (apfst ((#) (char_of n))) (scan_str fuel (drop 4 es))
                        else None)
                 else
                   (case simple_escape e of
                      None \<Rightarrow> None
                    | Some x \<Rightarrow> map_option (apfst ((#) x)) (scan_str fuel es)))
          else if of_char c < (32 :: int) then None
          else map_option (apfst ((#) c)) (scan_str fuel cs))"

definition parse_str :: "string \<Rightarrow> (string \<times> string) option" where
  "parse_str s = scan_str (Suc (length s)) s"

section \<open>Numbers\<close>

definition parse_int_part :: "string \<Rightarrow> (string \<times> string) option" where
  "parse_int_part s =
     (case s of
        [] \<Rightarrow> None
      | c # cs \<Rightarrow>
          if c = CHR ''0'' then Some ([c], cs)
          else if is_digit c then Some (takeWhile is_digit s, dropWhile is_digit s)
          else None)"

definition parse_frac :: "string \<Rightarrow> string \<times> string" where
  "parse_frac s =
     (case s of
        CHR ''.'' # c # cs \<Rightarrow>
          if is_digit c then (CHR ''.'' # takeWhile is_digit (c # cs), dropWhile is_digit (c # cs))
          else ([], s)
      | _ \<Rightarrow> ([], s))"

definition parse_exp :: "string \<Rightarrow> string \<times> string" where
  "parse_exp s =
     (case s of
        e # r \<Rightarrow>
          if e = CHR ''e'' \<or> e = CHR ''E'' then
            let (sign, r') = (case r of
                c # cs \<Rightarrow> if c = CHR ''+'' \<or> c = CHR ''-'' then ([c], cs) else ([], r)
              | [] \<Rightarrow> ([], r))
            in if r' \<noteq> [] \<and> is_digit (hd r')
               then (e # sign @ takeWhile is_digit r', dropWhile is_digit r')
               else ([], s)
          else ([], s)
      | [] \<Rightarrow> ([], s))"

definition parse_number :: "string \<Rightarrow> (pyval \<times> string) option" where
  "parse_number s =
     (let (sign, s1) = take_sign s
      in case parse_int_part s1 of
           None \<Rightarrow> None
         | Some (ip, s2) \<Rightarrow>
             (let (fr, s3) = parse_frac s2; (ex, s4) = parse_exp s3
              in if fr = [] \<and> ex = []
                 then Some (PInt (if sign = [] then dec_val ip else - dec_val ip), s4)
                 else Some (PFloat (repr_of_parts sign ip fr ex), s4)))"

section \<open>Values\<close>

definition literals :: "(string \<times> pyval) list" where
  "literals = [(''null'', PNone), (''true'', PBool True), (''false'', PBool False),
     (''NaN'', PFloat ''NaN''), (''Infinity'', PFloat ''Infinity''), (''-Infinity'', PFloat ''-Infinity'')]"

definition parse_atom :: "string \<Rightarrow> (pyval \<times> string) option" where
  "parse_atom s =
     (case filter (\<lambda>(l, v). take (length l) s = l) literals of
        (l, v) # _ \<Rightarrow> Some (v, drop (length l) s)
      | [] \<Rightarrow> parse_number s)"

text \<open>The elements of an array or object up to the closing bracket.\<close>

primrec parse_seq ::
  "nat \<Rightarrow> (string \<Rightarrow> ('a \<times> string) option) \<Rightarrow> char \<Rightarrow> string \<Rightarrow> ('a list \<times> string) option" where
  "parse_seq 0 el close s = None"
| "parse_seq (Suc fuel) el close s =
     (case el s of
        None \<Rightarrow> None
      | Some (x, r) \<Rightarrow>
          (case skip_ws r of
             [] \<Rightarrow> None
           | c # cs \<Rightarrow>
               if c = close then Some ([x], cs)
               else if c = CHR '',''
               then map_option (apfst ((#) x)) (parse_seq fuel el close (skip_ws cs))
               else None))"

definition parse_member ::
  "(string \<Rightarrow> (pyval \<times> string) option) \<Rightarrow> string \<Rightarrow> ((string \<times> pyval) \<times> string) option" where
  "parse_member pv s =
     (case s of
        [] \<Rightarrow> None
      | c # cs \<Rightarrow>
          if c = CHR 0x22 then
            (case parse_str cs of
               None \<Rightarrow> None
             | Some (k, r) \<Rightarrow>
                 (case skip_ws r of
                    [] \<Rightarrow> None
                  | d # ds \<Rightarrow>
                      if d = CHR '':''
                      then map_option (apfst (Pair k)) (pv (skip_ws ds))
                      else None))
          else None)"

definition dict_of :: "(string \<times> pyval) list \<Rightarrow> (string, pyval) dict" where
  "dict_of ms = fold (\<lambda>(k, v). AList.update k v) ms []"

primrec parse_val :: "nat \<Rightarrow> string \<Rightarrow> (pyval \<times> string) option" where
  "parse_val 0 s = None"
| "parse_val (Suc fuel) s =
     (case s of
        [] \<Rightarrow> None
      | c # cs \<Rightarrow>
          if c = CHR 0x22 then map_option (apfst PStr) (parse_str cs)
          else if c = CHR ''{'' then
            (case skip_ws cs of
               [] \<Rightarrow> None
             | d # ds \<Rightarrow>
                 if d = CHR ''}'' then Some (PDict [], ds)
                 else map_option (apfst (\<lambda>ms. PDict (dict_of ms)))
                        (parse_seq (length s) (parse_member (parse_val fuel)) (CHR ''}'') (d # ds)))
          else if c = CHR ''['' then
            (case skip_ws cs of
               [] \<Rightarrow> None
             | d # ds \<Rightarrow>
                 if d = CHR '']'' then Some (PList [], ds)
                 else map_option (apfst PList)
                        (parse_seq (length s) (parse_val fuel) (CHR '']'') (d # ds)))
          else parse_atom s)"

definition json_loads :: "string \<Rightarrow> pyval option" where
  "json_loads s =
     (case parse_val (Suc (length s)) (skip_ws s) of
        None \<Rightarrow> None
      | Some (v, r) \<Rightarrow> if skip_ws r = [] then Some v else None)"

section \<open>Reading strings back\<close>

lemma hex_of_digit: "hex_of (hex_digit n) = Some (n mod 16)"
proof -
  have b: "0 \<le> n mod 16" "n mod 16 < 16" by simp_all
  then have "(48 + n mod 16) mod 256 = 48 + n mod 16" "(87 + n mod 16) mod 256 = 87 + n mod 16"
    by simp_all
  with b show ?thesis
    by (auto simp: hex_digit_def hex_of_def of_char_of Let_def)
qed

lemma hex4_fixed:
  "hex4 (hex_fixed 4 (of_char c)) = Some (of_char c)"
proof -
  have "(of_char c :: int) div 16 div 16 = 0" "(of_char c :: int) div 16 mod 16 = of_char c div 16"
    using of_char_lt_256 [of c] by simp_all
  then show ?thesis by (simp add: hex_fixed_4 hex_of_digit)
qed

lemma scan_esc:
  "scan_str (Suc fuel) (esc_char ea c @ s) = map_option (apfst ((#) c)) (scan_str fuel s)"
  using of_char_lt_256 [of c]
  by (auto simp: esc_char_def simple_escape_def hex4_fixed)

lemma scan_quoted:
  "length s < fuel \<Longrightarrow>
   scan_str fuel (concat (map (esc_char ea) s) @ CHR 0x22 # r) = Some (s, r)"
proof (induction s arbitrary: fuel)
  case Nil
  then show ?case by (cases fuel) simp_all
next
  case (Cons c s)
  then obtain g where "fuel = Suc g" "length s < g" by (cases fuel) auto
  with Cons.IH [of g] show ?case by (simp add: scan_esc del: scan_str.simps)
qed

lemma length_escaped: "length s \<le> length (concat (map (esc_char ea) s))"
proof (induction s)
  case (Cons c s)
  have "1 \<le> length (esc_char ea c)" using esc_not_quote(1) [of ea c] by (cases "esc_char ea c") auto
  with Cons show ?case by simp
qed simp

lemma parse_quoted: "parse_str (concat (map (esc_char ea) s) @ CHR 0x22 # r) = Some (s, r)"
  using scan_quoted [of s _ ea r] length_escaped [of s ea] by (simp add: parse_str_def del: scan_str.simps)


section \<open>Reading numbers back\<close>

lemma follow_cases: "follow r \<Longrightarrow> r = [] \<or> (\<exists>c cs. r = c # cs \<and> c \<in> {CHR '','', CHR '']'', CHR ''}''})"
  by (cases r) (auto simp: follow_def)

lemma not_digit [simp]:
  "\<not> is_digit (CHR '','')" "\<not> is_digit (CHR '']'')" "\<not> is_digit (CHR ''}'')"
  "\<not> is_digit (CHR ''.'')" "\<not> is_digit (CHR ''-'')" "\<not> is_digit (CHR ''e'')" "\<not> is_digit (CHR ''E'')"
  by code_simp+

lemma follow_not_digit: "follow r \<Longrightarrow> r \<noteq> [] \<Longrightarrow> \<not> is_digit (hd r)"
  by (auto dest: follow_cases)

lemma digits_append:
  assumes "follow r"
  shows "takeWhile is_digit (s @ r) = takeWhile is_digit s" "dropWhile is_digit (s @ r) = dropWhile is_digit s @ r"
proof -
  have "takeWhile is_digit r = []" "dropWhile is_digit r = r"
    using follow_not_digit [OF assms] by (cases r; simp)+
  then show "takeWhile is_digit (s @ r) = takeWhile is_digit s" "dropWhile is_digit (s @ r) = dropWhile is_digit s @ r"
    by (induction s) auto
qed

lemma int_part_append:
  assumes "follow r" "parse_int_part s = Some (ip, t)"
  shows "parse_int_part (s @ r) = Some (ip, t @ r)"
proof (cases s)
  case (Cons c cs)
  with assms digits_append [OF assms(1), of s] show ?thesis
    by (auto simp: parse_int_part_def split: if_splits)
qed (use assms in \<open>simp add: parse_int_part_def\<close>)

lemma frac_append:
  assumes "follow r"
  shows "parse_frac (s @ r) = apsnd (\<lambda>t. t @ r) (parse_frac s)"
proof (cases "\<exists>cs. s = CHR ''.'' # cs")
  case True
  then obtain cs where s: "s = CHR ''.'' # cs" by blast
  show ?thesis
  proof (cases cs)
    case Nil
    with s follow_cases [OF assms] show ?thesis by (auto simp: parse_frac_def)
  next
    case (Cons d ds)
    with s digits_append [OF assms, of ds] show ?thesis by (simp add: parse_frac_def)
  qed
next
  case False
  have other: "parse_frac u = ([], u)" if "\<nexists>cs. u = CHR ''.'' # cs" for u
    using that by (auto simp: parse_frac_def split: list.split char.split bool.split)
  from False follow_cases [OF assms] have "\<nexists>cs. s @ r = CHR ''.'' # cs" by (cases s) auto
  with other False show ?thesis by simp
qed

lemma exp_append:
  assumes "follow r"
  shows "parse_exp (s @ r) = apsnd (\<lambda>t. t @ r) (parse_exp s)"
proof (cases s)
  case Nil
  with follow_cases [OF assms] show ?thesis by (auto simp: parse_exp_def)
next
  case (Cons e u)
  note d = digits_append [OF assms]
  show ?thesis
  proof (cases u)
    case Nil
    with Cons follow_cases [OF assms] show ?thesis by (auto simp: parse_exp_def Let_def)
  next
    case u: (Cons c v)
    show ?thesis
    proof (cases "c = CHR ''+'' \<or> c = CHR ''-''")
      case True
      show ?thesis
      proof (cases v)
        case Nil
        with Cons u True follow_cases [OF assms] show ?thesis by (auto simp: parse_exp_def Let_def)
      next
        case (Cons x y)
        with \<open>s = e # u\<close> u True d [of v] show ?thesis by (auto simp: parse_exp_def Let_def)
      qed
    next
      case False
      with Cons u d [of u] show ?thesis by (auto simp: parse_exp_def Let_def)
    qed
  qed
qed

lemma number_append:
  assumes "follow r" "parse_number s = Some (v, t)"
  shows "parse_number (s @ r) = Some (v, t @ r)"
proof -
  obtain sign s1 where sp: "take_sign s = (sign, s1)" by (cases "take_sign s")
  with assms(2) obtain ip s2 where ip: "parse_int_part s1 = Some (ip, s2)"
    by (auto simp: parse_number_def split: option.splits)
  have "s \<noteq> []" using ip sp by (auto simp: take_sign_def parse_int_part_def)
  then have sp': "take_sign (s @ r) = (sign, s1 @ r)" using sp by (cases s) (auto simp: take_sign_def split: if_splits)
  obtain fr s3 where fr: "parse_frac s2 = (fr, s3)" by (cases "parse_frac s2")
  obtain ex s4 where ex: "parse_exp s3 = (ex, s4)" by (cases "parse_exp s3")
  have "parse_number (s @ r) = map_option (apsnd (\<lambda>t. t @ r)) (parse_number s)"
    using int_part_append [OF assms(1) ip] frac_append [OF assms(1), of s2] exp_append [OF assms(1), of s3]
    by (simp add: parse_number_def Let_def sp sp' ip fr ex)
  with assms(2) show ?thesis by simp
qed

lemma show_pos_hd_nonzero: "0 < n \<Longrightarrow> hd (show_pos n) \<noteq> CHR ''0''"
proof (induction n rule: show_pos.induct)
  case (1 n)
  show ?case
  proof (cases "n < 10")
    case True
    have "(of_char (CHR ''0'') :: int) = 48" by simp
    moreover have "(of_char (digit n) :: int) = 48 + n" using True 1 by (simp add: of_char_digit)
    ultimately show ?thesis using 1 True by (auto simp: show_pos.simps [of n])
  next
    case False
    with 1 have "hd (show_pos (n div 10)) \<noteq> CHR ''0''" by simp
    with False show ?thesis by (simp add: show_pos.simps [of n])
  qed
qed

lemma int_part_show_pos:
  assumes "0 \<le> n"
  shows "parse_int_part (show_pos n) = Some (show_pos n, [])"
proof -
  have d: "\<forall>c \<in> set (show_pos n). is_digit c"
    using show_pos_code [OF assms] by (auto simp: is_digit_def)
  then have tw: "takeWhile is_digit (show_pos n) = show_pos n" "dropWhile is_digit (show_pos n) = []"
    by (simp_all add: takeWhile_eq_all_conv)
  show ?thesis
  proof (cases "n = 0")
    case True
    moreover have "show_pos 0 = ''0''" by code_simp
    ultimately show ?thesis by (simp add: parse_int_part_def)
  next
    case False
    then have "hd (show_pos n) \<noteq> CHR ''0''" using show_pos_hd_nonzero [of n] assms by simp
    with d tw show ?thesis by (cases "show_pos n") (auto simp: parse_int_part_def)
  qed
qed

lemma number_show_int: "parse_number (show_int i) = Some (PInt i, [])"
proof (cases "i < 0")
  case True
  then show ?thesis
    using int_part_show_pos [of "- i"] dec_val_show_pos [of "- i"]
    by (simp add: show_int_def parse_number_def take_sign_def parse_frac_def parse_exp_def)
next
  case False
  then have "hd (show_pos i) \<noteq> CHR ''-''" using show_pos_hd by simp
  with False show ?thesis
    using int_part_show_pos [of i] dec_val_show_pos [of i]
    by (cases "show_pos i") (auto simp: show_int_def parse_number_def take_sign_def parse_frac_def parse_exp_def)
qed


section \<open>Reading values back\<close>

text \<open>The values that a decode can yield: the floats are JSON numbers and dictionaries have distinct
  keys.\<close>

primrec json_val :: "pyval \<Rightarrow> bool" where
  "json_val PNone = True"
| "json_val (PBool b) = True"
| "json_val (PInt i) = True"
| "json_val (PFloat r) = (float_lex r \<and> parse_atom r = Some (PFloat r, []))"
| "json_val (PStr s) = True"
| "json_val (PUuid u) = False"
| "json_val (PList vs) = list_all id (map json_val vs)"
| "json_val (PDict kvs) = (list_all snd (map (map_prod id json_val) kvs) \<and> dict_wf kvs)"

primrec vdepth :: "pyval \<Rightarrow> nat" where
  "vdepth PNone = 1"
| "vdepth (PBool b) = 1"
| "vdepth (PInt i) = 1"
| "vdepth (PFloat r) = 1"
| "vdepth (PStr s) = 1"
| "vdepth (PUuid u) = 1"
| "vdepth (PList vs) = Suc (foldr max (map vdepth vs) 0)"
| "vdepth (PDict kvs) = Suc (foldr max (map snd (map (map_prod id vdepth) kvs)) 0)"

lemma json_val_wf: "json_val v \<Longrightarrow> wf_val v"
  by (induction v) (fastforce simp: list_all_iff)+

lemma literal_chars:
  "list_all (\<lambda>(l, v). list_all (\<lambda>c. c \<notin> {CHR '','', CHR '']'', CHR ''}''}) l \<and> list_ex (\<lambda>c. \<not> int_char c) l) literals"
  by code_simp

lemma literal_facts:
  assumes "(l, w) \<in> set literals"
  shows "\<forall>c \<in> set l. c \<notin> {CHR '','', CHR '']'', CHR ''}''}" "\<exists>c \<in> set l. \<not> int_char c"
  using bspec [OF literal_chars [unfolded list_all_iff] assms] by (simp_all add: list_ex_iff)

lemma atom_append:
  assumes "follow r" "parse_atom s = Some (v, [])"
  shows "parse_atom (s @ r) = Some (v, r)"
proof -
  have same: "take (length l) (s @ r) = l \<longleftrightarrow> take (length l) s = l" if "(l, w) \<in> set literals" for l w
  proof (cases "length l \<le> length s \<or> r = []")
    case False
    then obtain c cs where r: "r = c # cs" "c \<in> {CHR '','', CHR '']'', CHR ''}''}"
      using follow_cases [OF assms(1)] by blast
    from False obtain k where "length l = length s + Suc k"
      by (metis add_Suc_right less_imp_Suc_add not_le)
    then have "c \<in> set (take (length l) (s @ r))" by (simp add: r)
    moreover have "c \<notin> set l" using literal_facts(1) [OF that] r(2) by blast
    ultimately have "take (length l) (s @ r) \<noteq> l" by (elim contrapos_nn) (erule subst)
    moreover have "length (take (length l) s) \<noteq> length l" using False by simp
    then have "take (length l) s \<noteq> l" by (elim contrapos_nn) (erule arg_cong)
    ultimately show ?thesis by (simp only:)
  qed auto
  let ?F = "\<lambda>s. filter (\<lambda>(l, v). take (length l) s = l) literals"
  have F: "?F (s @ r) = ?F s" using same by (intro filter_cong) auto
  show ?thesis
  proof (cases "?F s")
    case Nil
    with F assms number_append [OF assms(1), of s v "[]"] show ?thesis by (simp add: parse_atom_def)
  next
    case (Cons x xs)
    obtain l w where x: "x = (l, w)" by (cases x)
    with Cons have "(l, w) \<in> set (?F s)" by simp
    then have "take (length l) s = l" by simp
    moreover from Cons x assms(2) have "w = v" "drop (length l) s = []" by (simp_all add: parse_atom_def)
    ultimately have "s = l" "w = v" by (metis append_Nil2 append_take_drop_id)+
    with F Cons x show ?thesis by (simp add: parse_atom_def)
  qed
qed

lemma atom_show_int: "parse_atom (show_int i) = Some (PInt i, [])"
proof -
  have "take (length l) (show_int i) \<noteq> l" if "(l, w) \<in> set literals" for l w
  proof
    assume eq: "take (length l) (show_int i) = l"
    from literal_facts(2) [OF that] obtain c where "c \<in> set l" "\<not> int_char c" by blast
    with eq show False using show_int_chars [of c i] by (metis in_set_takeD)
  qed
  then have "filter (\<lambda>(l, v). take (length l) (show_int i) = l) literals = []"
    by (auto simp: filter_empty_conv)
  then show ?thesis by (simp add: parse_atom_def number_show_int)
qed

lemma atom_literal:
  "parse_atom ''null'' = Some (PNone, [])" "parse_atom ''true'' = Some (PBool True, [])"
  "parse_atom ''false'' = Some (PBool False, [])"
  by code_simp+

lemma parse_val_atom:
  assumes "json_val v" "kind v \<in> {0, 1, 2}" "follow r"
  shows "parse_val (Suc f) (enc p v @ r) = Some (canon v, r)"
proof -
  have "enc p v \<noteq> []" "hd_kind (hd (enc p v)) \<notin> {3, 4, 5}"
    using enc_hd [OF json_val_wf [OF assms(1)]] assms(2) by auto
  then have "parse_val (Suc f) (enc p v @ r) = parse_atom (enc p v @ r)"
    by (cases "enc p v") (auto simp: hd_kind_def)
  also have "parse_atom (enc p v) = Some (canon v, [])"
    using assms(1,2) atom_show_int atom_literal by (cases v) auto
  then have "parse_atom (enc p v @ r) = Some (canon v, r)" by (rule atom_append [OF assms(3)])
  finally show ?thesis .
qed

subsection \<open>Sequences\<close>

lemma skip_ws_id [simp]: "s = [] \<or> \<not> is_ws (hd s) \<Longrightarrow> skip_ws s = s"
  by (cases s) (auto simp: skip_ws_def)

lemma not_ws [simp]:
  "\<not> is_ws (CHR '','')" "\<not> is_ws (CHR '']'')" "\<not> is_ws (CHR ''}'')" "\<not> is_ws (CHR '':'')"
  "\<not> is_ws (CHR 0x22)" "\<not> is_ws (CHR ''['')" "\<not> is_ws (CHR ''{'')" "is_ws (CHR '' '')"
  by code_simp+

lemma skip_sep:
  assumes "sep \<in> {[c], [c, CHR '' '']}" "s \<noteq> []" "\<not> is_ws (hd s)"
  shows "\<exists>t. sep @ s = c # t \<and> skip_ws t = s"
  using assms by (auto simp: skip_ws_def) (cases s; simp)+

lemma parse_seq_join:
  assumes sep: "sep \<in> {'','', '', ''}" and close: "close \<in> {CHR '']'', CHR ''}''}"
    and el: "\<And>x r. x \<in> set xs \<Longrightarrow> follow r \<Longrightarrow> pv (f x @ r) = Some (g x, r)"
    and hdf: "\<And>x. x \<in> set xs \<Longrightarrow> f x \<noteq> [] \<and> \<not> is_ws (hd (f x))"
    and ne: "xs \<noteq> []" and fuel: "length xs \<le> n"
  shows "parse_seq n pv close (join sep (map f xs) @ close # r) = Some (map g xs, r)"
  using el hdf ne fuel
proof (induction xs arbitrary: n)
  case Nil
  then show ?case by simp
next
  case (Cons x xs)
  from Cons.prems(4) obtain m where n: "n = Suc m" "length xs \<le> m" by (cases n) auto
  show ?case
  proof (cases xs)
    case Nil
    have "pv (f x @ close # r) = Some (g x, close # r)"
      using Cons.prems(1) [of x "close # r"] close by (auto simp: follow_def)
    with Nil n close show ?thesis by auto
  next
    case (Cons y ys)
    let ?rest = "join sep (map f xs) @ close # r"
    have "f y \<noteq> []" "\<not> is_ws (hd (f y))" using Cons.prems(2) [of y] Cons by simp_all
    then have "?rest \<noteq> []" "\<not> is_ws (hd ?rest)" using Cons by (cases ys; simp)+
    with sep obtain t where t: "sep @ ?rest = CHR '','' # t" "skip_ws t = ?rest"
      using skip_sep [of sep "CHR '',''" ?rest] by blast
    have "join sep (map f (x # xs)) @ close # r = f x @ CHR '','' # t"
      using t(1) Cons by simp
    moreover have "pv (f x @ CHR '','' # t) = Some (g x, CHR '','' # t)"
      using Cons.prems(1) [of x "CHR '','' # t"] by (simp add: follow_def)
    moreover have "parse_seq m pv close ?rest = Some (map g xs, r)"
      using Cons.IH [of m] Cons.prems n(2) Cons by simp
    ultimately show ?thesis using close t(2) n(1) by auto
  qed
qed

lemma join_length: "(\<And>x. x \<in> set xs \<Longrightarrow> f x \<noteq> []) \<Longrightarrow> length xs \<le> length (join sep (map f xs))"
proof (induction xs)
  case (Cons x xs)
  then have "length xs \<le> length (join sep (map f xs))" "1 \<le> length (f x)"
    by (simp_all add: Suc_le_eq)
  then show ?case by (cases xs) simp_all
qed simp


lemma ws_heads: "list_all (\<lambda>c. \<not> is_ws c) float_start"
  by code_simp

lemma int_char_not_ws: "int_char c \<Longrightarrow> \<not> is_ws c"
  by (auto simp: int_char_def is_ws_def)

lemma enc_not_ws:
  assumes "wf_val v"
  shows "enc p v \<noteq> [] \<and> \<not> is_ws (hd (enc p v))"
proof (cases v)
  case (PFloat r)
  with assms ws_heads show ?thesis by (auto simp: float_lex_def list_all_iff)
next
  case (PInt i)
  then show ?thesis using show_int_chars [of "hd (show_int i)" i] int_char_not_ws by simp
next
  case (PBool b)
  then show ?thesis by (simp add: is_ws_def)
qed (use assms in \<open>simp_all add: quote_def, simp add: is_ws_def\<close>)

lemma foldr_max_le: "x \<in> set xs \<Longrightarrow> x \<le> foldr max xs (0 :: nat)"
  by (induction xs) auto

lemma dict_of_id: "dict_wf ms \<Longrightarrow> dict_of ms = ms"
proof -
  have "dict_wf (acc @ ms) \<Longrightarrow> fold (\<lambda>(k, v). AList.update k v) ms acc = acc @ ms" for acc :: "(string, pyval) dict"
  proof (induction ms arbitrary: acc)
    case (Cons x ms)
    then have "map_of acc (fst x) = None"
      using dict_get_None_keys [of acc "fst x"] by (auto simp: dict_wf_def)
    with Cons dict_set_fresh [of acc "fst x" "snd x"] show ?case by (simp add: case_prod_beta)
  qed simp
  then show "dict_wf ms \<Longrightarrow> dict_of ms = ms" by (simp add: dict_of_def)
qed

lemma member_text:
  assumes "std_opts p" "e \<noteq> [] \<and> \<not> is_ws (hd e)" "pv (e @ r) = Some (w, r)"
  shows "parse_member pv ((quote (ensure_ascii p) k @ key_sep p @ e) @ r) = Some ((k, w), r)"
proof -
  have "key_sep p \<in> {[CHR '':''], [CHR '':'', CHR '' '']}" using assms(1) by (simp add: std_opts_def)
  then obtain t where t: "key_sep p @ e @ r = CHR '':'' # t" "skip_ws t = e @ r"
    using skip_sep [of "key_sep p" "CHR '':''" "e @ r"] assms(2) by auto
  have e: "(quote (ensure_ascii p) k @ key_sep p @ e) @ r =
      CHR 0x22 # concat (map (esc_char (ensure_ascii p)) k) @ CHR 0x22 # CHR '':'' # t"
    by (simp add: quote_def t(1))
  show ?thesis
    unfolding parse_member_def e by (simp add: parse_quoted t(2) assms(3))
qed

text \<open>A list and an object, given that their parts are read; \<open>e\<close> writes a part and \<open>c\<close> is what it reads as.\<close>

lemma parse_items:
  assumes p: "std_opts p"
    and nw: "\<And>v. v \<in> set vs \<Longrightarrow> e v \<noteq> [] \<and> \<not> is_ws (hd (e v)) \<and> tok_char (hd (e v))"
    and el: "\<And>v q. v \<in> set vs \<Longrightarrow> follow q \<Longrightarrow> parse_val g (e v @ q) = Some (c v, q)"
  shows "parse_val (Suc g) ((''['' @ join (item_sep p) (map e vs) @ '']'') @ r) = Some (PList (map c vs), r)"
proof (cases "vs = []")
  case True
  then show ?thesis by simp
next
  case False
  let ?j = "join (item_sep p) (map e vs)"
  have "parse_seq n (parse_val g) (CHR '']'') (?j @ CHR '']'' # r) = Some (map c vs, r)" if "length vs \<le> n" for n
    using p that False nw el by (intro parse_seq_join) (auto simp: std_opts_def)
  moreover have "length vs \<le> length ?j" using nw by (intro join_length) blast
  moreover obtain d u where j: "?j = d # u" "\<not> is_ws d" "d \<noteq> CHR '']''"
  proof -
    from False obtain v ws where "vs = v # ws" by (cases vs) auto
    with nw [of v] that show ?thesis by (cases "e v"; cases ws) (auto simp: tok_char_def)
  qed
  ultimately show ?thesis by (simp del: parse_seq.simps)
qed

lemma parse_members:
  assumes p: "std_opts p" and wf: "dict_wf kvs"
    and nw: "\<And>x. x \<in> set kvs \<Longrightarrow> e (snd x) \<noteq> [] \<and> \<not> is_ws (hd (e (snd x)))"
    and el: "\<And>x q. x \<in> set kvs \<Longrightarrow> follow q \<Longrightarrow> parse_val g (e (snd x) @ q) = Some (c (snd x), q)"
  shows "parse_val (Suc g)
      ((''{'' @ join (item_sep p) (map (\<lambda>x. quote (ensure_ascii p) (fst x) @ key_sep p @ e (snd x)) kvs) @ ''}'') @ r) =
    Some (PDict (map (map_prod id c) kvs), r)"
proof (cases "kvs = []")
  case True
  then show ?thesis by (simp add: dict_of_def)
next
  case False
  let ?w = "\<lambda>x. quote (ensure_ascii p) (fst x) @ key_sep p @ e (snd x)"
  let ?j = "join (item_sep p) (map ?w kvs)"
  have w: "?w x \<noteq> [] \<and> hd (?w x) = CHR 0x22" for x by (simp add: quote_def)
  have m: "parse_member (parse_val g) (?w x @ q) = Some (map_prod id c x, q)" if "x \<in> set kvs" "follow q" for x q
    using member_text [OF p nw [OF that(1)], of "parse_val g" q "c (snd x)" "fst x"] el [OF that]
    by (simp add: map_prod_def case_prod_beta)
  have "parse_seq n (parse_member (parse_val g)) (CHR ''}'') (?j @ CHR ''}'' # r) =
      Some (map (map_prod id c) kvs, r)" if "length kvs \<le> n" for n
    using p that False m w by (intro parse_seq_join) (auto simp: std_opts_def)
  moreover have "length kvs \<le> length ?j" using w by (intro join_length) blast
  moreover obtain d u where j: "?j = d # u" "\<not> is_ws d" "d \<noteq> CHR ''}''"
  proof -
    from False obtain v ws where "kvs = v # ws" by (cases kvs) auto
    with w [of v] that show ?thesis by (cases "?w v"; cases ws) auto
  qed
  moreover have "dict_wf (map (map_prod id c) kvs)" using wf by (simp add: dict_wf_def comp_def)
  ultimately show ?thesis by (simp add: dict_of_id del: parse_seq.simps)
qed

lemma parse_val_enc:
  assumes p: "std_opts p"
  shows "json_val v \<Longrightarrow> vdepth v \<le> f \<Longrightarrow> follow r \<Longrightarrow> parse_val f (enc p v @ r) = Some (canon v, r)"
proof (induction v arbitrary: f r)
  case (PStr s)
  then obtain g where "f = Suc g" by (cases f) auto
  then show ?case by (simp add: quote_def parse_quoted)
next
  case (PList vs)
  obtain g where f: "f = Suc g" using PList.prems(2) by (cases f) auto
  have mem: "json_val v \<and> vdepth v \<le> g" if "v \<in> set vs" for v
    using PList.prems that foldr_max_le [of "vdepth v" "map vdepth vs"] by (auto simp: f list_all_iff)
  have nw: "enc p v \<noteq> [] \<and> \<not> is_ws (hd (enc p v)) \<and> tok_char (hd (enc p v))" if "v \<in> set vs" for v
    using enc_not_ws [of v p] enc_hd [of v p] mem [OF that] json_val_wf by blast
  show ?case
    using parse_items [OF p nw, where c = canon, OF _ PList.IH [OF _ _ _ _]] mem by (simp add: f del: parse_val.simps)
next
  case (PDict kvs)
  obtain g where f: "f = Suc g" using PDict.prems(2) by (cases f) auto
  let ?ks = "sort_key fst kvs"
  have mem: "json_val (snd x) \<and> vdepth (snd x) \<le> g" if "x \<in> set kvs" for x
    using PDict.prems that foldr_max_le [of "vdepth (snd x)" "map snd (map (map_prod id vdepth) kvs)"]
    by (force simp: f list_all_iff)
  have nw: "enc p (snd x) \<noteq> [] \<and> \<not> is_ws (hd (enc p (snd x)))" if "x \<in> set ?ks" for x
    using mem [of x] that enc_not_ws json_val_wf by simp
  have el: "parse_val g (enc p (snd x) @ q) = Some (canon (snd x), q)" if "x \<in> set ?ks" "follow q" for x q
    using PDict.IH [of x "snd x" g q] mem [of x] that by (simp add: prod_set_defs)
  have "dict_wf ?ks" using PDict.prems(1) by (simp add: dict_wf_sort del: map_map)
  from parse_members [OF p this, where e = "enc p" and c = canon, OF nw el, of r] show ?case
    by (simp add: f enc_PDict enc_entry_def [abs_def] canon_PDict del: enc.simps canon.simps parse_val.simps)
next
  case (PUuid u)
  then show ?case by simp
next
  case PNone
  then show ?case using parse_val_atom [of PNone r _ p] by (cases f) auto
next
  case (PBool b)
  then show ?case using parse_val_atom [of "PBool b" r _ p] by (cases f) auto
next
  case (PInt i)
  then show ?case using parse_val_atom [of "PInt i" r _ p] by (cases f) auto
next
  case (PFloat x)
  then show ?case using parse_val_atom [of "PFloat x" r _ p] by (cases f) auto
qed


lemma depth_items: "(\<And>x. x \<in> set xs \<Longrightarrow> d x \<le> length (f x)) \<Longrightarrow> foldr max (map d xs) 0 \<le> length (join sep (map f xs))"
proof (induction xs)
  case (Cons x xs)
  then have "foldr max (map d xs) 0 \<le> length (join sep (map f xs))" "d x \<le> length (f x)" by simp_all
  then show ?case by (cases xs) simp_all
qed simp

lemma depth_enc: "json_val v \<Longrightarrow> vdepth v \<le> length (enc p v)"
proof (induction v)
  case (PInt i)
  then show ?case using show_int_not_Nil [of i] by (cases "show_int i") auto
next
  case (PFloat r)
  then show ?case by (cases r) (auto simp: float_lex_def)
next
  case (PList vs)
  then have "foldr max (map vdepth vs) 0 \<le> length (join (item_sep p) (map (enc p) vs))"
    by (intro depth_items) (auto simp: list_all_iff)
  then show ?case by simp
next
  case (PDict kvs)
  have "vdepth (snd x) \<le> length (enc_entry p x)" if "x \<in> set kvs" for x
  proof -
    have "json_val (snd x)" using PDict.prems that by (auto simp: list_all_iff)
    then have "vdepth (snd x) \<le> length (enc p (snd x))"
      by (intro PDict.IH [OF that]) (simp_all add: prod_set_defs)
    then show ?thesis by (simp add: enc_entry_def)
  qed
  then have "foldr max (map (vdepth \<circ> snd) (sort_key fst kvs)) 0
      \<le> length (join (item_sep p) (map (enc_entry p) (sort_key fst kvs)))"
    by (intro depth_items) simp
  moreover have "foldr max (map (vdepth \<circ> snd) (sort_key fst kvs)) 0 = foldr max (map (vdepth \<circ> snd) kvs) 0"
  proof -
    have max: "x \<le> n \<longleftrightarrow> (\<forall>y \<in> set ys. y \<le> n)" if "x = foldr max ys 0" for x n :: nat and ys
      unfolding that by (induction ys) auto
    show ?thesis
      by (rule antisym) (subst max [OF refl], use foldr_max_le in fastforce)+
  qed
  ultimately show ?case by (simp add: enc_PDict comp_def del: enc.simps)
qed (auto simp: quote_def)

lemma loads_enc:
  assumes "std_opts p" "json_val v"
  shows "json_loads (enc p v) = Some (canon v)"
  using parse_val_enc [OF assms, of "Suc (length (enc p v))" "[]"] depth_enc [OF assms(2), of p]
    enc_not_ws [OF json_val_wf [OF assms(2)], of p]
  by (simp add: json_loads_def follow_def)

section \<open>Properties\<close>

text \<open>What \<^verbatim>\<open>json.dumps\<close> writes with sorted keys, \<^verbatim>\<open>json.loads\<close> reads back: for every JSON value
  and both separator styles the decode succeeds (its recursion bound is enough) and yields the
  value with its dictionaries in key order.\<close>

theorem loads_dumps:
  assumes "std_opts p" "json_val v" "json_dumps p v = Inr text"
  shows "json_loads text = Some (canon v)"
  using assms loads_enc by (auto simp: json_dumps_def split: if_splits)

theorem loads_dumps_witness:
  "json_loads (enc \<lparr>item_sep = '', '', key_sep = '': '', ensure_ascii = True, default_str = False\<rparr>
     (PDict [(''k'', PList [PInt (- 12), PFloat ''1.5e-07'', PNone]), (''a'', PStr [CHR 0x0A])])) =
   Some (PDict [(''a'', PStr [CHR 0x0A]), (''k'', PList [PInt (- 12), PFloat ''1.5e-07'', PNone])])"
proof -
  let ?p = "\<lparr>item_sep = '', '', key_sep = '': '', ensure_ascii = True, default_str = False\<rparr>"
  let ?v = "PDict [(''k'', PList [PInt (- 12), PFloat ''1.5e-07'', PNone]), (''a'', PStr [CHR 0x0A])]"
  have p: "std_opts ?p" by (simp add: std_opts_def)
  have v: "json_val ?v" by code_simp
  have "json_loads (enc ?p ?v) = Some (canon ?v)"
    by (rule loads_dumps [OF p v]) (rule json_dumps_jsonable [OF wf_val_jsonable [OF json_val_wf [OF v]]])
  moreover have "canon ?v = PDict [(''a'', PStr [CHR 0x0A]), (''k'', PList [PInt (- 12), PFloat ''1.5e-07'', PNone])]"
    by code_simp
  ultimately show ?thesis by (simp only:)
qed

end
