(* ===== verification/LwwStore.thy ===== *)
theory LwwStore
  imports LwwMap JsonLoads
begin

text \<open>
  Restarting an \<^verbatim>\<open>LWWMap\<close> (\<^verbatim>\<open>tpcp/memory/crdt.py\<close>): \<^verbatim>\<open>connect\<close> opens the SQLite file and
  \<^verbatim>\<open>_hydrate_from_db\<close> reads the rows that the write-through of theory \<open>LwwMap\<close> stored, each value
  through the JSON scanner of theory \<open>JsonLoads\<close>. The files are a dictionary from paths to tables.
\<close>

fun hydrate_rows :: "(string, lww_row) dict \<Rightarrow> lww_map \<Rightarrow> lww_map \<times> py_exn option" where
  "hydrate_rows [] m = (m, None)"
| "hydrate_rows ((key, value_json, ts, writer) # rows) m =
     (case json_loads value_json of
        None \<Rightarrow> (m, Some (ValueError ''JSONDecodeError''))
      | Some value \<Rightarrow>
          hydrate_rows rows
            (m\<lparr>lww_state := AList.update key (value, ts, writer) (lww_state m),
               logical_clock := max (logical_clock m) ts\<rparr>))"

definition hydrate :: "lww_map \<Rightarrow> lww_map \<times> py_exn option" where
  "hydrate m = (case db_conn m of None \<Rightarrow> (m, None) | Some tab \<Rightarrow> hydrate_rows tab m)"

definition lww_connect ::
  "(string, (string, lww_row) dict) dict \<Rightarrow> lww_map \<Rightarrow> lww_map \<times> py_exn option" where
  "lww_connect files m =
     (case db_path m of
        None \<Rightarrow> (m, None)
      | Some path \<Rightarrow>
          hydrate (m\<lparr>db_conn := Some (case map_of files path of None \<Rightarrow> [] | Some tab \<Rightarrow> tab)\<rparr>))"

section \<open>Canonical values are written alike\<close>

lemma sort_key_sorted: "sort_key f (sort_key f xs) = sort_key f xs"
  by (simp add: sort_key_id_if_sorted)

lemma enc_canon: "enc p (canon v) = enc p v"
proof (induction v)
  case (PList vs)
  then have "map (enc p) (map canon vs) = map (enc p) vs" by simp
  then show ?case by (simp only: canon.simps enc.simps)
next
  case (PDict kvs)
  have "enc_entry p (map_prod id canon x) = enc_entry p x" if "x \<in> set kvs" for x
  proof -
    have "enc p (canon (snd x)) = enc p (snd x)"
      by (rule PDict.IH [OF that]) (simp add: prod_set_defs)
    then show ?thesis by (simp add: enc_entry_def)
  qed
  then have "map (enc_entry p) (map (map_prod id canon) (sort_key fst kvs)) = map (enc_entry p) (sort_key fst kvs)"
    by simp
  moreover have "sort_key fst (map (map_prod id canon) (sort_key fst kvs)) = map (map_prod id canon) (sort_key fst kvs)"
    by (simp only: sort_key_map_prod sort_key_sorted)
  ultimately show ?case by (simp only: canon_PDict enc_PDict)
qed simp_all

lemma canon_canon: "canon (canon v) = canon v"
proof (induction v)
  case (PDict kvs)
  have "map_prod id canon (map_prod id canon x) = map_prod id canon x" if "x \<in> set kvs" for x
    using PDict.IH [OF that, of "snd x"] by (cases x) (simp add: prod_set_defs)
  then have "map (map_prod id canon) (map (map_prod id canon) (sort_key fst kvs)) = map (map_prod id canon) (sort_key fst kvs)"
    by simp
  moreover have "sort_key fst (map (map_prod id canon) (sort_key fst kvs)) = map (map_prod id canon) (sort_key fst kvs)"
    by (simp only: sort_key_map_prod sort_key_sorted)
  ultimately show ?case by (simp only: canon_PDict)
qed simp_all

lemma dumps_canon [simp]: "dumps (canon v) = dumps v"
  by (simp add: dumps_def enc_canon)

section \<open>Hydration\<close>

text \<open>Rows that the write-through has written.\<close>

definition good_row :: "string \<times> lww_row \<Rightarrow> bool" where
  "good_row x \<longleftrightarrow> (\<exists>v. json_val v \<and> fst (snd x) = dumps v)"

definition entry_of_row :: "lww_row \<Rightarrow> lww_entry" where
  "entry_of_row r = (case r of (text, ts, w) \<Rightarrow> (the (json_loads text), ts, w))"

lemma loads_dumps_value: "json_val v \<Longrightarrow> json_loads (dumps v) = Some (canon v)"
  unfolding dumps_def by (rule loads_enc [OF std_lww_opts])

lemma entry_of_row_of: "json_val (fst e) \<Longrightarrow> entry_of_row (row_of e) = entry_view e"
  by (cases e) (simp add: entry_of_row_def row_of_def entry_view_def loads_dumps_value)

lemma hydrate_rows_ok:
  assumes "\<forall>x \<in> set rows. good_row x" "dict_wf rows"
  shows "snd (hydrate_rows rows m) = None \<and>
    map_of (lww_state (fst (hydrate_rows rows m))) =
      map_of (lww_state m) ++ (\<lambda>k. map_option entry_of_row (map_of rows k)) \<and>
    logical_clock (fst (hydrate_rows rows m)) = foldl max (logical_clock m) (map (fst \<circ> snd \<circ> snd) rows) \<and>
    db_conn (fst (hydrate_rows rows m)) = db_conn m \<and>
    (dict_wf (lww_state m) \<longrightarrow> dict_wf (lww_state (fst (hydrate_rows rows m))))"
  using assms
proof (induction rows arbitrary: m)
  case Nil
  then show ?case by simp
next
  case (Cons x rows)
  obtain k js ts w where x: "x = (k, js, ts, w)" by (cases x)
  from Cons.prems obtain v where v: "json_loads js = Some v"
    using loads_dumps_value by (fastforce simp: x good_row_def)
  have nk: "map_of rows k = None" "dict_wf rows"
    using Cons.prems(2) dict_get_None_keys [of rows k] by (auto simp: x dict_wf_def)
  let ?m = "m\<lparr>lww_state := AList.update k (v, ts, w) (lww_state m), logical_clock := max (logical_clock m) ts\<rparr>"
  have "map_of (lww_state m) ++ (\<lambda>k. map_option entry_of_row (map_of (x # rows) k)) =
      map_of (lww_state ?m) ++ (\<lambda>k. map_option entry_of_row (map_of rows k))"
    using nk(1) by (auto simp: x fun_eq_iff map_add_def dict_simps entry_of_row_def v split: option.splits)
  with Cons.IH [of ?m] Cons.prems(1) nk(2) show ?case by (auto simp: x v)
qed

lemma foldl_max_ge: "(c :: int) \<le> foldl max c xs \<and> (\<forall>x \<in> set xs. x \<le> foldl max c xs)"
proof (induction xs arbitrary: c)
  case (Cons a xs)
  from Cons [of "max c a"] show ?case by auto
qed simp

lemma foldl_max_le: "(c :: int) \<le> d \<Longrightarrow> \<forall>x \<in> set xs. x \<le> d \<Longrightarrow> foldl max c xs \<le> d"
  by (induction xs arbitrary: c) auto

lemma reopened:
  assumes inv: "lww_inv m" and tab: "db_conn m = Some tab" "map_of files path = Some tab"
    and vals: "\<forall>x \<in> set (lww_state m). json_val (fst (snd x))"
  shows "\<exists>m'. lww_connect files (new_lww n (Some path)) = (m', None) \<and>
    lww_view m' k = lww_view m k \<and> lww_inv m' \<and> db_conn m' = Some tab \<and> logical_clock m' \<le> max 0 (logical_clock m)"
proof -
  let ?new = "(new_lww n (Some path))\<lparr>db_conn := Some tab\<rparr>"
  obtain m' e where h: "hydrate_rows tab ?new = (m', e)" by (cases "hydrate_rows tab ?new")
  have c: "lww_connect files (new_lww n (Some path)) = (m', e)"
    using h tab(2) by (simp add: lww_connect_def hydrate_def new_lww_def)
  have wf: "dict_wf tab" and mirror: "map_of tab = (\<lambda>k. map_option row_of (map_of (lww_state m) k))"
    using inv tab(1) by (simp_all add: lww_inv_def)
  have row: "\<exists>e. map_of (lww_state m) (fst x) = Some e \<and> snd x = row_of e \<and> json_val (fst e)"
    if "x \<in> set tab" for x
  proof -
    have "map_of tab (fst x) = Some (snd x)" using that wf by (simp add: dict_wf_get_iff)
    then obtain e where e: "map_of (lww_state m) (fst x) = Some e" "snd x = row_of e" by (auto simp: mirror)
    with vals map_of_SomeD [OF e(1)] show ?thesis by force
  qed
  then have good: "\<forall>x \<in> set tab. good_row x" by (fastforce simp: good_row_def row_of_def)
  note hr = hydrate_rows_ok [OF good wf, of ?new, unfolded h fst_conv snd_conv]
  have st: "map_of (lww_state m') k = map_option entry_view (map_of (lww_state m) k)" for k
  proof (cases "map_of (lww_state m) k")
    case (Some e)
    then have "json_val (fst e)" using vals map_of_SomeD [OF Some] by force
    with hr Some show ?thesis by (simp add: new_lww_def mirror entry_of_row_of map_add_def)
  qed (use hr in \<open>simp add: new_lww_def mirror map_add_def\<close>)
  have ev: "entry_view (entry_view e) = entry_view e" "row_of (entry_view e) = row_of e" for e
    by (cases e; simp add: entry_view_def row_of_def canon_canon)+
  have clock: "logical_clock m' = foldl max 0 (map (fst \<circ> snd \<circ> snd) tab)"
    using hr by (simp add: new_lww_def)
  have ts: "t \<le> logical_clock m'" if "(k, v, t, w) \<in> set (lww_state m')" for k v t w
  proof -
    have "dict_wf (lww_state m')" using hr by (simp add: new_lww_def)
    then have "map_of (lww_state m') k = Some (v, t, w)" by (simp only: dict_wf_get_iff that)
    then have "map_option entry_view (map_of (lww_state m) k) = Some (v, t, w)"
      by (simp only: st)
    then obtain e where "map_of (lww_state m) k = Some e" "entry_view e = (v, t, w)"
      by (cases "map_of (lww_state m) k") (simp_all only: option.map option.inject option.distinct)
    then have "map_of tab k = Some (row_of e)" "fst (snd (row_of e)) = t"
      by (auto simp: mirror entry_view_def row_of_def split: prod.splits)
    then have "t \<in> set (map (fst \<circ> snd \<circ> snd) tab)" by (force dest: map_of_SomeD)
    then show ?thesis unfolding clock using foldl_max_ge by blast
  qed
  have "lww_inv m'"
  proof -
    have "dict_wf (lww_state m')" "db_conn m' = Some tab" using hr by (simp_all add: new_lww_def)
    moreover have "map_of tab = (\<lambda>k. map_option row_of (map_of (lww_state m') k))"
      unfolding st mirror by (simp add: option.map_comp comp_def ev)
    ultimately show ?thesis using wf ts unfolding lww_inv_def by auto
  qed
  moreover have "logical_clock m' \<le> max 0 (logical_clock m)"
  proof -
    have "fst (snd (snd x)) \<le> logical_clock m" if "x \<in> set tab" for x
      using row [OF that] lww_inv_clock [OF inv] by (auto simp: row_of_def split: prod.splits)
    then show ?thesis unfolding clock by (intro foldl_max_le) force+
  qed
  moreover have "lww_view m' k = lww_view m k"
    by (simp add: lww_view_def st option.map_comp comp_def ev)
  ultimately show ?thesis using c hr by (simp add: new_lww_def)
qed

section \<open>Property\<close>

text \<open>C22: A restart loses nothing: a node that stops after any run with write-through, and starts
  again on the same file, holds under every key the value, timestamp and writer it held (values up
  to the order of dictionary keys), mirrors the table, and has a clock that is no older than any of
  its entries.\<close>

theorem restart_restores:
  assumes inv: "lww_inv m" and tab: "db_conn m = Some tab" "map_of files path = Some tab"
    and vals: "\<forall>x \<in> set (lww_state m). json_val (fst (snd x))"
  shows "\<exists>m'. lww_connect files (new_lww n (Some path)) = (m', None) \<and>
    lww_view m' k = lww_view m k \<and> lww_inv m' \<and> db_conn m' = Some tab \<and> logical_clock m' \<le> max 0 (logical_clock m)"
  by (rule reopened [OF assms])

theorem restart_restores_witness:
  "\<exists>m'. lww_connect [(''f'', [(''k'', dumps (PInt 3), 1, ''a'')])] (new_lww ''b'' (Some ''f'')) = (m', None) \<and>
     lww_view m' ''k'' = Some (PInt 3, 1, ''a'')"
proof -
  let ?m = "lww_set ''k'' (PInt 3) None None ((new_lww ''a'' (Some ''f''))\<lparr>db_conn := Some []\<rparr>)"
  have i: "lww_inv ((new_lww ''a'' (Some ''f''))\<lparr>db_conn := Some []\<rparr>)" by (simp add: lww_inv_def new_lww_def)
  have t: "db_conn ?m = Some [(''k'', dumps (PInt 3), 1, ''a'')]" "lww_state ?m = [(''k'', PInt 3, 1, ''a'')]"
    by (simp_all add: lww_set_def new_lww_def persist_def db_upsert_def)
  show ?thesis
    using restart_restores [OF lww_inv_set [OF i] t(1), of "[(''f'', [(''k'', dumps (PInt 3), 1, ''a'')])]" "''f''" "''b''" "''k''"]
    by (auto simp: t(2) lww_view_def entry_view_def)
qed

end
