(* ===== verification/LwwTasks.thy ===== *)
theory LwwTasks
  imports LwwStore
begin

text \<open>
  The map of \<^verbatim>\<open>tpcp/memory/crdt.py\<close> under concurrent callers. \<^verbatim>\<open>set\<close> changes the memory at once and then waits
  twice, for the \<^verbatim>\<open>INSERT\<close> and for the \<^verbatim>\<open>COMMIT\<close> of its write-through, under the map's lock; \<^verbatim>\<open>merge\<close> takes the lock
  once per record; \<^verbatim>\<open>close\<close> does not take it. \<open>db_conn\<close> is here the table as the open connection sees it, and
  \<open>lt_file\<close> the table that is committed, which is what a restart finds. Theories \<open>LwwMap\<close> and \<open>LwwStore\<close> are the
  special case in which nothing comes between and nothing fails (\<open>lock_serialises\<close>).
\<close>

section \<open>The coroutines\<close>

type_synonym set_args = "string \<times> pyval \<times> int option \<times> string option"

text \<open>The body of \<^verbatim>\<open>set\<close> up to its first await: the changed memory, and the row that is to be written.\<close>

definition set_unlocked :: "set_args \<Rightarrow> lww_map \<Rightarrow> lww_map \<times> (string \<times> lww_row) option" where
  "set_unlocked args m =
     (let (key, value, timestamp, writer_id) = args;
          (clock, ts, writer) = (case timestamp of
              None \<Rightarrow> (logical_clock m + 1, logical_clock m + 1, lww_node_id m)
            | Some t \<Rightarrow> (max (logical_clock m) t, t,
                (case writer_id of None \<Rightarrow> lww_node_id m | Some w \<Rightarrow> w)));
          updated = (case map_of (lww_state m) key of
              None \<Rightarrow> True
            | Some (existing_value, existing_ts, existing_writer) \<Rightarrow>
                if existing_ts < ts then True
                else if ts = existing_ts then
                  (if existing_writer < writer then True
                   else if writer = existing_writer then dumps existing_value < dumps value
                   else False)
                else False);
          m1 = m\<lparr>logical_clock := clock\<rparr>
      in if updated
         then (m1\<lparr>lww_state := AList.update key (value, ts, writer) (lww_state m)\<rparr>,
               if db_conn m = None then None else Some (key, dumps value, ts, writer))
         else (m1, None))"

text \<open>A coroutine is what it still has to do: one \<^verbatim>\<open>set\<close>, or one for each record of a \<^verbatim>\<open>merge\<close> (reading a record
  may raise).\<close>

datatype lww_task = Sets set_args | Merges "(string \<times> pyval) list"

definition record_set :: "string \<times> pyval \<Rightarrow> py_exn + set_args" where
  "record_set x = (case x of (key, r) \<Rightarrow> map_sum id (\<lambda>(v, ts, w). (key, v, ts, w)) (record_args r))"

fun todo :: "lww_task \<Rightarrow> (py_exn + set_args) list" where
  "todo (Sets args) = [Inr args]"
| "todo (Merges rs) = map record_set rs"

datatype lock_stage = Inserting string lww_row | Committing

record lww_tasks =
  lt_map :: lww_map
  lt_file :: "(string, lww_row) dict"
  lt_todo :: "nat \<Rightarrow> (py_exn + set_args) list"
  lt_lock :: "(nat \<times> lock_stage) option"

text \<open>A statement or a commit ends well, fails and leaves the transaction open, or fails and rolls it back.\<close>

datatype db_result = DbOk | DbFails | DbRollsBack

text \<open>The holder of the lock goes on. A failure ends its coroutine and releases the lock.\<close>

definition db_raises :: "nat \<Rightarrow> db_result \<Rightarrow> lww_tasks \<Rightarrow> lww_tasks" where
  "db_raises i res s =
     s\<lparr>lt_map := (lt_map s)\<lparr>db_conn := (if res = DbRollsBack then map_option (\<lambda>_. lt_file s) (db_conn (lt_map s))
          else db_conn (lt_map s))\<rparr>,
       lt_todo := (lt_todo s)(i := []), lt_lock := None\<rparr>"

fun db_resume :: "nat \<Rightarrow> lock_stage \<Rightarrow> db_result \<Rightarrow> lww_tasks \<Rightarrow> lww_tasks" where
  "db_resume i (Inserting key r) DbOk s =
     s\<lparr>lt_map := (lt_map s)\<lparr>db_conn := map_option (db_upsert key r) (db_conn (lt_map s))\<rparr>, lt_lock := Some (i, Committing)\<rparr>"
| "db_resume i Committing DbOk s =
     s\<lparr>lt_file := (case db_conn (lt_map s) of None \<Rightarrow> lt_file s | Some tab \<Rightarrow> tab), lt_lock := None\<rparr>"
| "db_resume i stage res s = db_raises i res s"

datatype lww_event = Calls nat lww_task | Runs nat | Proceeds db_result | Closes

fun lww_can :: "lww_tasks \<Rightarrow> lww_event \<Rightarrow> bool" where
  "lww_can s (Calls i c) = (lt_todo s i = [] \<and> (case lt_lock s of None \<Rightarrow> True | Some (j, st) \<Rightarrow> j \<noteq> i))"
| "lww_can s (Runs i) = (lt_todo s i \<noteq> [] \<and> lt_lock s = None)"
| "lww_can s (Proceeds res) = (lt_lock s \<noteq> None \<and> (res = DbOk \<longrightarrow> db_conn (lt_map s) \<noteq> None))"
| "lww_can s Closes = True"

fun lww_step :: "lww_event \<Rightarrow> lww_tasks \<Rightarrow> lww_tasks" where
  "lww_step (Calls i c) s = s\<lparr>lt_todo := (lt_todo s)(i := todo c)\<rparr>"
| "lww_step (Runs i) s =
     (case lt_todo s i of
        [] \<Rightarrow> s
      | Inl e # rest \<Rightarrow> s\<lparr>lt_todo := (lt_todo s)(i := [])\<rparr>
      | Inr args # rest \<Rightarrow>
          (case set_unlocked args (lt_map s) of
             (m, row) \<Rightarrow> s\<lparr>lt_map := m, lt_todo := (lt_todo s)(i := rest),
               lt_lock := map_option (\<lambda>(key, r). (i, Inserting key r)) row\<rparr>))"
| "lww_step (Proceeds res) s =
     (case lt_lock s of None \<Rightarrow> s | Some (i, stage) \<Rightarrow> db_resume i stage res s)"
| "lww_step Closes s = s\<lparr>lt_map := lww_close (lt_map s)\<rparr>"

definition open_tasks :: "lww_map \<Rightarrow> (string, lww_row) dict \<Rightarrow> lww_tasks" where
  "open_tasks m file = \<lparr>lt_map = m\<lparr>db_conn := Some file\<rparr>, lt_file = file, lt_todo = (\<lambda>_. []), lt_lock = None\<rparr>"

text \<open>The \<^verbatim>\<open>set\<close> that an event performs, and a run with all that it performs.\<close>

definition performs :: "lww_tasks \<Rightarrow> lww_event \<Rightarrow> set_args list" where
  "performs s ev = (case ev of Runs i \<Rightarrow> (case lt_todo s i of Inr args # rest \<Rightarrow> [args] | _ \<Rightarrow> []) | _ \<Rightarrow> [])"

inductive lww_runs :: "lww_tasks \<Rightarrow> lww_event list \<Rightarrow> set_args list \<Rightarrow> lww_tasks \<Rightarrow> bool" for s0 where
  start: "lww_runs s0 [] [] s0"
| step: "lww_runs s0 evs hist s \<Longrightarrow> lww_can s ev \<Longrightarrow> lww_runs s0 (evs @ [ev]) (hist @ performs s ev) (lww_step ev s)"

section \<open>The lock serialises\<close>

definition set_one :: "set_args \<Rightarrow> lww_map \<Rightarrow> lww_map" where
  "set_one args m = (case args of (k, v, t, w) \<Rightarrow> lww_set k v t w m)"

definition serial :: "lww_map \<Rightarrow> set_args list \<Rightarrow> lww_map" where
  "serial m hist = fold set_one hist m"

lemma serial_simps [simp]: "serial m [] = m" "serial m (hist @ [a]) = set_one a (serial m hist)"
  by (simp_all add: serial_def)

lemma set_one_unlocked:
  "set_one args m =
     (case set_unlocked args m of
        (m', None) \<Rightarrow> m'
      | (m', Some (key, r)) \<Rightarrow> m'\<lparr>db_conn := map_option (db_upsert key r) (db_conn m)\<rparr>)"
  by (cases args) (auto simp: set_one_def set_unlocked_def lww_set_def Let_def persist_def split: option.splits)

lemma set_unlocked_conn [simp]: "set_unlocked args m = (m', row) \<Longrightarrow> db_conn m' = db_conn m"
  by (cases args) (auto simp: set_unlocked_def Let_def split: if_splits option.splits)

lemma set_unlocked_None: "set_unlocked args m = (m', None) \<Longrightarrow> set_one args m = m'"
  by (simp add: set_one_unlocked)

lemma set_unlocked_Some:
  "set_unlocked args m = (m', Some (key, r)) \<Longrightarrow> set_one args m = m'\<lparr>db_conn := map_option (db_upsert key r) (db_conn m)\<rparr>"
  by (simp add: set_one_unlocked)

definition fault_free :: "lww_event list \<Rightarrow> bool" where
  "fault_free evs \<longleftrightarrow> (\<forall>ev \<in> set evs. ev \<noteq> Closes \<and> (\<forall>res. ev = Proceeds res \<longrightarrow> res = DbOk))"

text \<open>The state after these calls, at each stage of the last one.\<close>

definition stands_at :: "lww_map \<Rightarrow> set_args list \<Rightarrow> lww_tasks \<Rightarrow> bool" where
  "stands_at m hist s \<longleftrightarrow>
     (case lt_lock s of
        None \<Rightarrow> lt_map s = serial m hist \<and> db_conn (lt_map s) = Some (lt_file s)
      | Some (i, Inserting key r) \<Rightarrow> \<exists>hist' a. hist = hist' @ [a] \<and> set_unlocked a (serial m hist') = (lt_map s, Some (key, r)) \<and>
          db_conn (lt_map s) = Some (lt_file s)
      | Some (i, Committing) \<Rightarrow> \<exists>hist' a. hist = hist' @ [a] \<and> lt_map s = serial m hist \<and> db_conn (serial m hist') = Some (lt_file s) \<and>
          db_conn (lt_map s) \<noteq> None)"

lemma stands_at_step:
  assumes "stands_at m hist s" "lww_can s ev" "ev \<noteq> Closes" "\<And>res. ev = Proceeds res \<Longrightarrow> res = DbOk"
  shows "stands_at m (hist @ performs s ev) (lww_step ev s)"
proof (cases ev)
  case (Calls i c)
  with assms(1) show ?thesis
    by (auto simp: stands_at_def performs_def split: option.splits prod.splits lock_stage.splits)
next
  case (Runs i)
  with assms(2) obtain x rest where free: "lt_lock s = None" and x: "lt_todo s i = x # rest"
    by (auto simp: neq_Nil_conv)
  from free assms(1) have at: "lt_map s = serial m hist" "db_conn (lt_map s) = Some (lt_file s)"
    by (auto simp: stands_at_def)
  show ?thesis
  proof (cases x)
    case (Inl e)
    with Runs x free at show ?thesis by (simp add: stands_at_def performs_def)
  next
    case (Inr a)
    obtain m' row where u: "set_unlocked a (lt_map s) = (m', row)" by fastforce
    show ?thesis
    proof (cases row)
      case None
      with Runs x Inr u at set_unlocked_None [of a "lt_map s" m'] show ?thesis
        by (simp add: stands_at_def performs_def)
    next
      case (Some kr)
      with Runs x Inr u at show ?thesis
        by (cases kr) (simp add: stands_at_def performs_def)
    qed
  qed
next
  case (Proceeds res)
  with assms(2,4) obtain i stage where l: "lt_lock s = Some (i, stage)" "res = DbOk" by auto
  show ?thesis
  proof (cases stage)
    case (Inserting key r)
    with assms(1) l obtain hist' a where a: "hist = hist' @ [a]" "set_unlocked a (serial m hist') = (lt_map s, Some (key, r))"
      "db_conn (lt_map s) = Some (lt_file s)" by (auto simp: stands_at_def)
    have conn: "db_conn (serial m hist') = Some (lt_file s)" using set_unlocked_conn [OF a(2)] a(3) by simp
    with set_unlocked_Some [OF a(2)] a(1,3) Proceeds l Inserting show ?thesis
      by (cases a) (auto simp: stands_at_def performs_def)
  next
    case Committing
    with assms(1) l Proceeds show ?thesis by (auto simp: stands_at_def performs_def)
  qed
qed (use assms(3) in simp)

lemma runs_stand_at:
  "lww_runs (open_tasks m file) evs hist s \<Longrightarrow> fault_free evs \<Longrightarrow> stands_at (m\<lparr>db_conn := Some file\<rparr>) hist s"
proof (induction rule: lww_runs.induct)
  case start
  then show ?case by (simp add: stands_at_def open_tasks_def)
next
  case (step evs hist s ev)
  then show ?case by (intro stands_at_step) (auto simp: fault_free_def)
qed


text \<open>The lock makes concurrent callers take turns: however the \<^verbatim>\<open>set\<close>s and \<^verbatim>\<open>merge\<close>s of several coroutines
  interleave at their awaits, as long as the database does not fail, the memory is what the calls performed so far
  leave one after the other, and so is the file when nobody holds the lock; while somebody does, the file lacks at
  most the last call.\<close>

lemma lock_serialises:
  assumes "lww_runs (open_tasks m file) evs hist s" "fault_free evs"
  shows "lww_state (lt_map s) = lww_state (serial (m\<lparr>db_conn := Some file\<rparr>) hist) \<and>
    logical_clock (lt_map s) = logical_clock (serial (m\<lparr>db_conn := Some file\<rparr>) hist) \<and>
    (\<exists>past. (past = hist \<or> lt_lock s \<noteq> None \<and> past = butlast hist) \<and>
       db_conn (serial (m\<lparr>db_conn := Some file\<rparr>) past) = Some (lt_file s))"
proof -
  let ?m = "m\<lparr>db_conn := Some file\<rparr>"
  have "stands_at ?m hist s" by (rule runs_stand_at [OF assms])
  then consider (free) "lt_lock s = None" "lt_map s = serial ?m hist" "db_conn (lt_map s) = Some (lt_file s)"
    | (insert) i key r past a where "lt_lock s = Some (i, Inserting key r)" "hist = past @ [a]"
        "set_unlocked a (serial ?m past) = (lt_map s, Some (key, r))" "db_conn (lt_map s) = Some (lt_file s)"
    | (commit) i past a where "lt_lock s = Some (i, Committing)" "hist = past @ [a]" "lt_map s = serial ?m hist"
        "db_conn (serial ?m past) = Some (lt_file s)"
    by (auto simp: stands_at_def split: option.splits prod.splits lock_stage.splits)
  then show ?thesis
  proof cases
    case free
    then show ?thesis by auto
  next
    case insert
    with set_unlocked_Some [OF insert(3)] set_unlocked_conn [OF insert(3)] show ?thesis by auto
  next
    case commit
    then show ?thesis by (metis butlast_snoc option.distinct(1))
  qed
qed

section \<open>A crash\<close>

definition json_state :: "lww_map \<Rightarrow> bool" where
  "json_state m \<longleftrightarrow> (\<forall>x \<in> set (lww_state m). json_val (fst (snd x)))"

lemma set_one_keeps:
  assumes "lww_inv m" "json_state m" "json_val (fst (snd a))"
  shows "lww_inv (set_one a m)" "json_state (set_one a m)"
proof -
  obtain k v ts w where a: "a = (k, v, ts, w)" by (cases a)
  show "lww_inv (set_one a m)" using lww_inv_set [OF assms(1)] by (simp add: set_one_def a)
  show "json_state (set_one a m)"
  proof (rule lww_set_cases [of m k v ts w])
    fix c t wr
    assume "lww_set k v ts w m = m\<lparr>logical_clock := c\<rparr> \<or>
      lww_set k v ts w m = persist k v t wr (m\<lparr>logical_clock := c, lww_state := AList.update k (v, t, wr) (lww_state m)\<rparr>)"
    moreover have "\<forall>x \<in> set (AList.update k (v, t, wr) (lww_state m)). json_val (fst (snd x))"
      using assms(2,3) dict_set_mem [of _ k "(v, t, wr)" "lww_state m"] unfolding json_state_def a by fastforce
    ultimately show ?thesis using assms(2) by (auto simp: json_state_def set_one_def a)
  qed
qed

lemma serial_keeps:
  assumes "lww_inv m" "json_state m" "\<forall>a \<in> set hist. json_val (fst (snd a))"
  shows "lww_inv (serial m hist) \<and> json_state (serial m hist)"
  using assms(3)
proof (induction hist rule: rev_induct)
  case (snoc a hist)
  with set_one_keeps [of "serial m hist" a] show ?case by simp
qed (use assms in simp)

text \<open>C17: A crash loses at most one call: whenever the process stops while concurrent coroutines write (and the database
  has not failed), a map that opens the file again holds, under every key, what the calls performed so far leave one
  after the other, all of them or all but the last, which is the one under way.\<close>

theorem crash_loses_at_most_last:
  assumes run: "lww_runs (open_tasks m file) evs hist s" "fault_free evs"
    and start: "lww_inv (m\<lparr>db_conn := Some file\<rparr>)" "json_state m" "\<forall>a \<in> set hist. json_val (fst (snd a))"
  shows "\<exists>m' past. lww_connect [(path, lt_file s)] (new_lww n (Some path)) = (m', None) \<and>
    (past = hist \<or> lt_lock s \<noteq> None \<and> past = butlast hist) \<and>
    (\<forall>k. lww_view m' k = lww_view (serial (m\<lparr>db_conn := Some file\<rparr>) past) k)"
proof -
  let ?m = "m\<lparr>db_conn := Some file\<rparr>"
  from lock_serialises [OF run] obtain past where past: "past = hist \<or> lt_lock s \<noteq> None \<and> past = butlast hist"
    "db_conn (serial ?m past) = Some (lt_file s)" by blast
  have "\<forall>a \<in> set past. json_val (fst (snd a))" using past(1) start(3) by (auto dest: in_set_butlastD)
  with start have keeps: "lww_inv (serial ?m past)" "json_state (serial ?m past)"
    using serial_keeps [of ?m past] by (simp_all add: json_state_def)
  have view: "\<exists>m'. lww_connect [(path, lt_file s)] (new_lww n (Some path)) = (m', None) \<and> lww_view m' k = lww_view (serial ?m past) k" for k
    using reopened [OF keeps(1) past(2), of "[(path, lt_file s)]" path n k] keeps(2) by (simp add: json_state_def) blast
  then obtain m' where m': "lww_connect [(path, lt_file s)] (new_lww n (Some path)) = (m', None)" by blast
  have "lww_view m' k = lww_view (serial ?m past) k" for k using view [of k] m' by auto
  with m' past(1) show ?thesis by blast
qed

section \<open>Two schedules\<close>

definition handed :: "lww_event list \<Rightarrow> (py_exn + set_args) set" where
  "handed evs = {x. \<exists>i c. Calls i c \<in> set evs \<and> x \<in> set (todo c)}"

lemma handed_simps [simp]:
  "handed [] = {}" "handed (evs @ [Calls i c]) = handed evs \<union> set (todo c)"
  "handed (evs @ [Runs i]) = handed evs" "handed (evs @ [Proceeds res]) = handed evs"
  by (auto simp: handed_def)

lemma UN_fun_upd: "(\<Union>j. set ((f(i := xs)) j)) = set xs \<union> (\<Union>j \<in> - {i}. set (f j))"
proof -
  have "UNIV = insert i (- {i})" by auto
  then have "(\<Union>j. set ((f(i := xs)) j)) = set ((f(i := xs)) i) \<union> (\<Union>j \<in> - {i}. set ((f(i := xs)) j))"
    by (metis UN_insert)
  then show ?thesis by simp
qed

lemma UN_at: "(\<Union>j. set (f j)) = set (f i) \<union> (\<Union>j \<in> - {i}. set (f j))"
  using UN_fun_upd [of f i "f i"] by simp

lemma db_resume_todo: "lt_todo (db_resume i stage DbOk s) = lt_todo s"
  by (cases stage) simp_all

text \<open>What the coroutines were handed has been performed or is still to be done.\<close>

lemma runs_account:
  "lww_runs (open_tasks m file) evs hist s \<Longrightarrow> fault_free evs \<Longrightarrow> \<forall>x \<in> handed evs. \<not> isl x \<Longrightarrow>
   Inr ` set hist \<union> (\<Union>i. set (lt_todo s i)) = handed evs"
proof (induction rule: lww_runs.induct)
  case start
  then show ?case by (simp add: open_tasks_def)
next
  case (step evs hist s ev)
  have before: "fault_free evs" "\<forall>x \<in> handed evs. \<not> isl x"
    using step.prems by (auto simp: fault_free_def handed_def)
  note acc = step.IH [OF before]
  show ?case
  proof (cases ev)
    case (Calls i c)
    with step.hyps(2) have "lt_todo s i = []" by simp
    then have "(\<Union>j. set (((lt_todo s)(i := todo c)) j)) = (\<Union>j. set (lt_todo s j)) \<union> set (todo c)"
      unfolding UN_fun_upd by (subst UN_at [of _ i]) auto
    with Calls show ?thesis by (simp add: performs_def acc [symmetric] Un_assoc)
  next
    case (Runs i)
    with step.hyps(2) obtain x rest where x: "lt_todo s i = x # rest" by (auto simp: neq_Nil_conv)
    then have "x \<in> (\<Union>i. set (lt_todo s i))" by (metis UN_I UNIV_I list.set_intros(1))
    then have "x \<in> handed evs" using acc by blast
    with before(2) obtain a where a: "x = Inr a" by (cases x) auto
    have "(\<Union>j. set (lt_todo s j)) = insert x (\<Union>j. set (((lt_todo s)(i := rest)) j))"
      unfolding UN_fun_upd by (subst UN_at [of _ i]) (simp add: x)
    with acc Runs x a show ?thesis by (auto simp: performs_def split: prod.split)
  next
    case (Proceeds res)
    with step.prems(1) have "res = DbOk" by (simp add: fault_free_def)
    with acc Proceeds step.hyps(2) show ?thesis
      by (auto simp: performs_def db_resume_todo split: option.split)
  next
    case Closes
    with step.prems(1) show ?thesis by (simp add: fault_free_def)
  qed
qed

text \<open>A call with a timestamp and a writer, as every record of a replica has them.\<close>

definition stamped :: "py_exn + set_args \<Rightarrow> bool" where
  "stamped x \<longleftrightarrow> (\<exists>k v t w. x = Inr (k, v, Some t, Some w) \<and> wf_val v)"

definition write_of :: "set_args \<Rightarrow> string \<times> lww_entry" where
  "write_of a = (case a of (k, v, t, w) \<Rightarrow> (k, v, the t, the w))"

lemma serial_stamped: "\<forall>a \<in> set hist. stamped (Inr a) \<Longrightarrow> serial m hist = apply_writes (map write_of hist) m"
  by (induction hist arbitrary: m) (auto simp: serial_def apply_writes_def set_one_def apply_write_def write_of_def stamped_def)

lemma common_start_converges:
  assumes "set ws = set ws'" "lww_state m = lww_state m'"
    and "\<forall>x \<in> set ws. wf_val (fst (snd x))" "\<forall>x \<in> set (lww_state m). wf_val (fst (snd x))"
  shows "lww_view (apply_writes ws m) k = lww_view (apply_writes ws' m') k"
proof -
  define s0 where "s0 = (case map_of (lww_state m) k of None \<Rightarrow> [] | Some e \<Rightarrow> [e])"
  let ?e = "\<lambda>ws. fold (\<lambda>w s. Some (slot_put entry_beats w s)) ws None"
  let ?ws = "s0 @ writes_to k ws" and ?ws' = "s0 @ writes_to k ws'"
  have get: "map_of (lww_state (apply_writes us x)) k = ?e (s0 @ writes_to k us)" if "lww_state x = lww_state m" for us x
    by (auto simp: apply_writes_get that s0_def slot_put_def split: option.split)
  have same: "set ?ws = set ?ws'" by (simp add: set_writes_to assms(1))
  have wf: "wf_val (fst e)" if "e \<in> set ?ws" for e
  proof (cases "e \<in> set s0")
    case True
    then have "(k, e) \<in> set (lww_state m)" by (cases "map_of (lww_state m) k") (auto simp: s0_def dest: map_of_SomeD)
    with assms(4) show ?thesis by fastforce
  next
    case False
    with that have "(k, e) \<in> set ws" by (simp add: set_writes_to)
    with assms(3) show ?thesis by fastforce
  qed
  show ?thesis
  proof (cases "?ws = []")
    case True
    with same have "?ws' = []" by simp
    with True show ?thesis using assms(2) by (simp add: lww_view_def get)
  next
    case False
    moreover from False same have "?ws' \<noteq> []" by auto
    ultimately obtain e e' where e: "?e ?ws = Some e" "e \<in> set ?ws" "?e ?ws' = Some e'" "e' \<in> set ?ws'"
      using lww.slot_fold [of ?ws] lww.slot_fold [of ?ws'] by blast
    from e(4) have "e' \<in> set ?ws" by (simp only: same)
    with e(2) have "wf_val (fst e)" "wf_val (fst e')" using wf by blast+
    with lww.slot_converges [OF same e(1,3)] have "entry_view e = entry_view e'" by (blast intro: tie_view)
    with e(1,3) assms(2) show ?thesis by (simp add: lww_view_def get)
  qed
qed

text \<open>C33: The schedule does not matter: two replicas that start alike and are handed the same stamped writes, in
  coroutines of any grouping that interleave in any way, hold the same entries once all coroutines are done (values up
  to the order of dictionary keys), as long as no database fails.\<close>

theorem schedules_converge:
  assumes runs: "lww_runs (open_tasks m file) evs hist s" "lww_runs (open_tasks m' file') evs' hist' s'"
    and ok: "fault_free evs" "fault_free evs'"
    and over: "\<forall>i. lt_todo s i = []" "\<forall>i. lt_todo s' i = []"
    and same: "handed evs = handed evs'" "lww_state m = lww_state m'"
    and vals: "\<forall>x \<in> handed evs. stamped x" "\<forall>x \<in> set (lww_state m). wf_val (fst (snd x))"
  shows "lww_view (lt_map s) k = lww_view (lt_map s') k"
proof -
  have calls: "Inr ` set h = handed e" and given: "\<forall>a \<in> set h. stamped (Inr a)"
    if "lww_runs (open_tasks x f) e h t" "fault_free e" "\<forall>i. lt_todo t i = []" "handed e = handed evs" for x f e h t
  proof -
    have "\<forall>y \<in> handed e. \<not> isl y" using vals(1) by (auto simp: that(4) stamped_def)
    from runs_account [OF that(1,2) this] that(3) show c: "Inr ` set h = handed e" by simp
    then show "\<forall>a \<in> set h. stamped (Inr a)" using vals(1) that(4) by blast
  qed
  note first = calls [OF runs(1) ok(1) over(1) refl] given [OF runs(1) ok(1) over(1) refl]
  note second = calls [OF runs(2) ok(2) over(2) same(1) [symmetric]] given [OF runs(2) ok(2) over(2) same(1) [symmetric]]
  have "set hist = set hist'" using first(1) second(1) same(1) by (metis inj_image_eq_iff inj_Inr)
  then have writes: "set (map write_of hist) = set (map write_of hist')" by simp
  have wf: "\<forall>x \<in> set (map write_of hist). wf_val (fst (snd x))"
    using first(2) by (auto simp: stamped_def write_of_def)
  have "lww_state (lt_map s) = lww_state (apply_writes (map write_of hist) (m\<lparr>db_conn := Some file\<rparr>))"
    "lww_state (lt_map s') = lww_state (apply_writes (map write_of hist') (m'\<lparr>db_conn := Some file'\<rparr>))"
    using lock_serialises [OF runs(1) ok(1)] lock_serialises [OF runs(2) ok(2)]
    by (simp_all add: serial_stamped [OF first(2)] serial_stamped [OF second(2)])
  then show ?thesis
    using common_start_converges [OF writes, of "m\<lparr>db_conn := Some file\<rparr>" "m'\<lparr>db_conn := Some file'\<rparr>" k] same(2) wf vals(2)
    by (simp add: lww_view_def)
qed

section \<open>Failures\<close>

lemma runs_Cons:
  "lww_can s ev \<Longrightarrow> lww_runs (lww_step ev s) evs hist s' \<Longrightarrow> lww_runs s (ev # evs) (performs s ev @ hist) s'"
proof (rotate_tac, induction rule: lww_runs.induct)
  case start
  from lww_runs.step [OF lww_runs.start start] show ?case by simp
next
  case (step evs hist s1 ev1)
  from lww_runs.step [OF step.IH [OF step.prems] step.hyps(2)] show ?case by simp
qed

text \<open>The body of \<^verbatim>\<open>set\<close> advances the clock, and then stores an entry and makes a row of it, or does nothing.\<close>

lemma set_unlocked_shape:
  "\<exists>c t w. set_unlocked a m = (m\<lparr>logical_clock := c\<rparr>, None) \<or>
     set_unlocked a m = (m\<lparr>logical_clock := c, lww_state := AList.update (fst a) (fst (snd a), t, w) (lww_state m)\<rparr>,
       if db_conn m = None then None else Some (fst a, row_of (fst (snd a), t, w)))"
proof -
  obtain k v ts wr where a: "a = (k, v, ts, wr)" by (cases a)
  show ?thesis
  proof (cases ts)
    case None
    show ?thesis
      by (rule exI [of _ "logical_clock m + 1"], rule exI [of _ "logical_clock m + 1"], rule exI [of _ "lww_node_id m"])
        (simp add: a None set_unlocked_def Let_def row_of_def)
  next
    case (Some t)
    show ?thesis
      by (rule exI [of _ "max (logical_clock m) t"], rule exI [of _ t], rule exI [of _ "case wr of None \<Rightarrow> lww_node_id m | Some w \<Rightarrow> w"])
        (simp add: a Some set_unlocked_def Let_def row_of_def)
  qed
qed

lemma set_unlocked_row: "set_unlocked a m = (m', Some (key, r)) \<Longrightarrow> key = fst a"
  using set_unlocked_shape [of a m] by (auto split: if_splits)

lemma set_unlocked_other: "set_unlocked a m = (m', row) \<Longrightarrow> fst a \<noteq> k \<Longrightarrow> map_of (lww_state m') k = map_of (lww_state m) k"
  using set_unlocked_shape [of a m] by (auto simp: dict_simps)

text \<open>A call that does not displace the entry \<open>e\<close> of \<open>k\<close>: one for another key, or a stamped write that \<open>e\<close> is not
  older than, as every later synchronisation of \<open>e\<close> itself is.\<close>

definition not_newer :: "string \<Rightarrow> lww_entry \<Rightarrow> set_args \<Rightarrow> bool" where
  "not_newer k e a \<longleftrightarrow> fst a = k \<longrightarrow> (\<exists>v t w. a = (k, v, Some t, Some w) \<and> \<not> entry_beats (v, t, w) e)"

lemma set_unlocked_not_newer:
  assumes "set_unlocked a m = (m', row)" "not_newer k e a" "map_of (lww_state m) k = Some e"
  shows "map_of (lww_state m') k = Some e" "row = Some (key, r) \<Longrightarrow> key \<noteq> k"
proof -
  have "map_of (lww_state m') k = Some e \<and> (\<forall>key r. row = Some (key, r) \<longrightarrow> key \<noteq> k)"
  proof (cases "fst a = k")
    case True
    then obtain v t w where "a = (k, v, Some t, Some w)" "\<not> entry_beats (v, t, w) e"
      using assms(2) by (auto simp: not_newer_def)
    with assms(1,3) show ?thesis by (cases e) (auto simp: set_unlocked_def Let_def entry_beats_def split: if_split_asm)
  next
    case False
    moreover have "\<forall>key r. row = Some (key, r) \<longrightarrow> key \<noteq> k" using set_unlocked_row [of a m m'] assms(1) False by blast
    ultimately show ?thesis using set_unlocked_other [OF assms(1)] assms(3) by simp
  qed
  then show "map_of (lww_state m') k = Some e" "row = Some (key, r) \<Longrightarrow> key \<noteq> k" by blast+
qed

text \<open>The memory holds \<open>e\<close>, neither table has it, and no row for the key is on its way.\<close>

definition stuck :: "string \<Rightarrow> lww_entry \<Rightarrow> lww_row option \<Rightarrow> lww_tasks \<Rightarrow> bool" where
  "stuck k e old s \<longleftrightarrow> map_of (lww_state (lt_map s)) k = Some e \<and> map_of (lt_file s) k = old \<and>
     (\<forall>tab. db_conn (lt_map s) = Some tab \<longrightarrow> map_of tab k = old) \<and>
     (\<forall>i key r. lt_lock s = Some (i, Inserting key r) \<longrightarrow> key \<noteq> k)"

lemma stuck_step:
  assumes "stuck k e old s" "lww_can s ev" "\<forall>a \<in> set (performs s ev). not_newer k e a"
  shows "stuck k e old (lww_step ev s)"
proof (cases ev)
  case (Calls i c)
  with assms(1) show ?thesis by (simp add: stuck_def)
next
  case (Runs i)
  with assms(2) obtain x rest where x: "lt_todo s i = x # rest" by (auto simp: neq_Nil_conv)
  show ?thesis
  proof (cases x)
    case (Inl exc)
    with assms(1) Runs x show ?thesis by (simp add: stuck_def)
  next
    case (Inr a)
    obtain m' row where u: "set_unlocked a (lt_map s) = (m', row)" by fastforce
    have "not_newer k e a" using assms(3) Runs x Inr by (simp add: performs_def)
    with set_unlocked_not_newer [OF u this] set_unlocked_conn [OF u] assms(1) Runs x Inr u show ?thesis
      by (cases row) (auto simp: stuck_def)
  qed
next
  case (Proceeds res)
  with assms(2) obtain i stage where l: "lt_lock s = Some (i, stage)" by auto
  show ?thesis
  proof (cases stage)
    case (Inserting key r)
    with assms(1) l Proceeds show ?thesis
      by (cases res; cases r) (auto simp: stuck_def db_raises_def row_replace)
  next
    case Committing
    with assms(1) l Proceeds show ?thesis
      by (cases res) (auto simp: stuck_def db_raises_def split: option.splits)
  qed
next
  case Closes
  with assms(1) show ?thesis by (simp add: stuck_def lww_close_def)
qed

lemma stuck_runs:
  "lww_runs s0 evs hist s \<Longrightarrow> stuck k e old s0 \<Longrightarrow> \<forall>a \<in> set hist. not_newer k e a \<Longrightarrow> stuck k e old s"
  by (induction rule: lww_runs.induct) (auto intro: stuck_step)

text \<open>C39: A write whose \<^verbatim>\<open>INSERT\<close> fails, or whose transaction is rolled back, is never repaired: its entry stays in the
  memory, and whatever the callers, the database and \<^verbatim>\<open>close\<close> do afterwards (the same entry arriving again with every
  synchronisation included), as long as no newer write to the key is made, the file keeps under the key what it had
  before. (A \<^verbatim>\<open>COMMIT\<close> that fails and leaves the transaction open is different: a later one may complete it.)\<close>

theorem failed_write_is_not_repaired:
  assumes free: "lt_lock s = None" "db_conn (lt_map s) = Some tab" "map_of tab k = map_of (lt_file s) k"
    and put: "lt_todo s i = Inr a # rest" "set_unlocked a (lt_map s) = (m', Some (k, r))" "map_of (lww_state m') k = Some e"
    and fault: "fault \<in> {[Proceeds DbFails], [Proceeds DbRollsBack], [Proceeds DbOk, Proceeds DbRollsBack]}"
    and later: "lww_runs (fold lww_step (Runs i # fault) s) evs hist s'" "\<forall>a \<in> set hist. not_newer k e a"
  shows "map_of (lt_file s') k = map_of (lt_file s) k \<and> map_of (lww_state (lt_map s')) k = Some e"
proof -
  have "db_conn m' = Some tab" using set_unlocked_conn [OF put(2)] free(2) by simp
  then have "stuck k e (map_of (lt_file s) k) (fold lww_step (Runs i # fault) s)"
    using fault free put by (auto simp: stuck_def db_raises_def)
  from stuck_runs [OF later(1) this later(2)] show ?thesis by (simp add: stuck_def)
qed

text \<open>A commit that fails and leaves the transaction open is made up for by the next one.\<close>

lemma open_transaction_is_completed:
  assumes "lt_lock s = Some (i, Committing)" "db_conn (lt_map s) = Some tab" "lt_todo s j = Inr a # rest" "i \<noteq> j"
    and "set_unlocked a (lt_map s) = (m', Some (key, r))"
  shows "lt_file (fold lww_step [Proceeds DbFails, Runs j, Proceeds DbOk, Proceeds DbOk] s) = db_upsert key r tab"
proof -
  have "db_conn m' = Some tab" using set_unlocked_conn [OF assms(5)] assms(2) by simp
  moreover have "lww_step (Proceeds DbFails) s = s\<lparr>lt_todo := (lt_todo s)(i := []), lt_lock := None\<rparr>"
    by (simp add: assms(1) db_raises_def)
  ultimately show ?thesis using assms(3-5) by (simp del: lww_step.simps(3)) simp
qed

text \<open>\<^verbatim>\<open>close\<close> does not wait for the lock: a write that is under way stays in the memory and never reaches the file.\<close>

lemma close_loses_write_under_way:
  assumes updates: "set_unlocked a (m\<lparr>db_conn := Some file\<rparr>) = (m', Some row)" and fails: "res \<noteq> DbOk"
  shows "\<exists>s. lww_runs (open_tasks m file) [Calls 0 (Sets a), Runs 0, Closes, Proceeds res] [a] s \<and>
    (\<forall>i. lt_todo s i = []) \<and> lt_lock s = None \<and> lt_map s = m'\<lparr>db_conn := None\<rparr> \<and> lt_file s = file"
proof -
  obtain key r where row: "row = (key, r)" by (cases row)
  have "(\<lambda>_. [])(i := []) = (\<lambda>_. [])" for i :: nat by auto
  then have end_state: "lww_step (Proceeds res) (lww_step Closes (lww_step (Runs 0) (lww_step (Calls 0 (Sets a)) (open_tasks m file)))) =
      \<lparr>lt_map = m'\<lparr>db_conn := None\<rparr>, lt_file = file, lt_todo = (\<lambda>_. []), lt_lock = None\<rparr>"
    using fails by (cases res) (simp_all add: open_tasks_def updates row lww_close_def db_raises_def)
  let ?s1 = "lww_step (Calls 0 (Sets a)) (open_tasks m file)"
  let ?s2 = "lww_step (Runs 0) ?s1"
  let ?s3 = "lww_step Closes ?s2"
  have can: "lww_can (open_tasks m file) (Calls 0 (Sets a))" "lww_can ?s1 (Runs 0)" "lww_can ?s2 Closes" "lww_can ?s3 (Proceeds res)"
    using fails by (simp_all add: open_tasks_def updates row)
  have does: "performs (open_tasks m file) (Calls 0 (Sets a)) = []" "performs ?s1 (Runs 0) = [a]" "performs ?s2 Closes = []"
    "performs ?s3 (Proceeds res) = []" by (simp_all add: performs_def open_tasks_def)
  from runs_Cons [OF can(1) runs_Cons [OF can(2) runs_Cons [OF can(3) runs_Cons [OF can(4) lww_runs.start]]]]
  have "lww_runs (open_tasks m file) [Calls 0 (Sets a), Runs 0, Closes, Proceeds res] [a]
      \<lparr>lt_map = m'\<lparr>db_conn := None\<rparr>, lt_file = file, lt_todo = (\<lambda>_. []), lt_lock = None\<rparr>"
    by (simp only: does append_Nil append_Cons end_state)
  then show ?thesis by - (rule exI, erule conjI, simp)
qed

section \<open>Samples\<close>

definition demo_map :: lww_map where
  "demo_map = new_lww ''a'' (Some ''f'')"

definition demo_call :: set_args where
  "demo_call = (''k'', PInt 3, Some 5, Some ''b'')"

definition demo_written :: lww_tasks where
  "demo_written = \<lparr>lt_map = \<lparr>lww_node_id = ''a'', lww_state = [(''k'', PInt 3, 5, ''b'')], logical_clock = 5,
      db_path = Some ''f'', db_conn = Some [(''k'', dumps (PInt 3), 5, ''b'')]\<rparr>,
     lt_file = [(''k'', dumps (PInt 3), 5, ''b'')], lt_todo = (\<lambda>_. []), lt_lock = None\<rparr>"

lemma demo_write_run:
  "lww_runs (open_tasks demo_map []) [Calls i (Sets demo_call), Runs i, Proceeds DbOk, Proceeds DbOk] [demo_call] demo_written"
proof -
  have none: "(\<lambda>_. [])(i := []) = (\<lambda>_. [])" by auto
  let ?s0 = "open_tasks demo_map []"
  let ?s1 = "lww_step (Calls i (Sets demo_call)) ?s0"
  let ?s2 = "lww_step (Runs i) ?s1"
  let ?s3 = "lww_step (Proceeds DbOk) ?s2"
  have up: "set_unlocked demo_call (demo_map\<lparr>db_conn := Some []\<rparr>) =
      ((lt_map demo_written)\<lparr>db_conn := Some []\<rparr>, Some (''k'', dumps (PInt 3), 5, ''b''))"
    by (simp add: demo_call_def demo_map_def demo_written_def new_lww_def set_unlocked_def)
  note defs = open_tasks_def up
  have can: "lww_can ?s0 (Calls i (Sets demo_call))" "lww_can ?s1 (Runs i)" "lww_can ?s2 (Proceeds DbOk)" "lww_can ?s3 (Proceeds DbOk)"
    by (simp_all add: defs)
  have does: "performs ?s0 (Calls i (Sets demo_call)) = []" "performs ?s1 (Runs i) = [demo_call]" "performs ?s2 (Proceeds DbOk) = []"
    "performs ?s3 (Proceeds DbOk) = []" by (simp_all add: performs_def open_tasks_def)
  have "lww_step (Proceeds DbOk) ?s3 = demo_written"
    by (simp add: defs none) (simp add: demo_written_def db_upsert_def)
  with runs_Cons [OF can(1) runs_Cons [OF can(2) runs_Cons [OF can(3) runs_Cons [OF can(4) lww_runs.start]]]]
  show ?thesis by (simp only: does append_Nil append_Cons)
qed

lemma demo_write_ok: "fault_free [Calls i (Sets demo_call), Runs i, Proceeds DbOk, Proceeds DbOk]"
  "lww_inv (demo_map\<lparr>db_conn := Some []\<rparr>)" "json_state demo_map" "lww_state demo_map = []"
  by (simp_all add: fault_free_def demo_map_def lww_inv_def new_lww_def json_state_def dict_wf_def)

theorem crash_loses_at_most_last_witness:
  "\<exists>m'. lww_connect [(''f'', lt_file demo_written)] (new_lww ''z'' (Some ''f'')) = (m', None) \<and>
     lww_view m' ''k'' = Some (PInt 3, 5, ''b'')"
proof -
  obtain m' past where m': "lww_connect [(''f'', lt_file demo_written)] (new_lww ''z'' (Some ''f'')) = (m', None)"
    "past = [demo_call] \<or> lt_lock demo_written \<noteq> None \<and> past = butlast [demo_call]"
    "\<forall>k. lww_view m' k = lww_view (serial (demo_map\<lparr>db_conn := Some []\<rparr>) past) k"
    using crash_loses_at_most_last [OF demo_write_run [of 0] demo_write_ok(1-3), of "''f''" "''z''"] by (auto simp: demo_call_def)
  then have "past = [] @ [demo_call]" by (simp add: demo_written_def)
  then have "lww_view m' ''k'' = lww_view (set_one demo_call (demo_map\<lparr>db_conn := Some []\<rparr>)) ''k''"
    using m'(3) by (simp only: serial_simps)
  then show ?thesis
    using m'(1) by (simp add: set_one_def demo_call_def lww_set_def demo_map_def new_lww_def persist_def lww_view_def entry_view_def)
qed

theorem schedules_converge_witness:
  "\<exists>s'. lww_runs (open_tasks demo_map []) [Calls 7 (Sets demo_call), Runs 7, Proceeds DbOk, Proceeds DbOk] [demo_call] s' \<and>
     lww_view (lt_map demo_written) ''k'' = lww_view (lt_map s') ''k'' \<and> lww_view (lt_map s') ''k'' = Some (PInt 3, 5, ''b'')"
proof -
  have h: "handed [Calls i (Sets demo_call), Runs i, Proceeds DbOk, Proceeds DbOk] = {Inr demo_call}" for i
    by (auto simp: handed_def)
  have "lww_view (lt_map demo_written) ''k'' = lww_view (lt_map demo_written) ''k''"
    by (rule schedules_converge [OF demo_write_run [of 0] demo_write_run [of 7] demo_write_ok(1) demo_write_ok(1)])
      (simp_all only: h demo_write_ok(4) set_empty2, simp_all add: demo_written_def stamped_def demo_call_def)
  with demo_write_run [of 7] show ?thesis
    by (intro exI [of _ demo_written]) (simp add: demo_written_def lww_view_def entry_view_def)
qed

definition demo_busy :: lww_tasks where
  "demo_busy = (open_tasks demo_map [])\<lparr>lt_todo := (\<lambda>_. [])(0 := [Inr demo_call], 1 := [Inr demo_call])\<rparr>"

theorem failed_write_is_not_repaired_witness:
  "\<exists>s'. lww_runs (fold lww_step [Runs 0, Proceeds DbFails] demo_busy) [Runs 1] [demo_call] s' \<and>
     map_of (lt_file s') ''k'' = None \<and> map_of (lww_state (lt_map s')) ''k'' = Some (PInt 3, 5, ''b'')"
proof -
  let ?s = "fold lww_step [Runs 0, Proceeds DbFails] demo_busy"
  have up: "set_unlocked demo_call (lt_map demo_busy) =
      ((lt_map demo_written)\<lparr>db_conn := Some []\<rparr>, Some (''k'', dumps (PInt 3), 5, ''b''))"
    by (simp add: demo_busy_def open_tasks_def demo_call_def demo_map_def demo_written_def new_lww_def set_unlocked_def)
  have todo: "lt_todo demo_busy 0 = [Inr demo_call]" "lt_todo demo_busy (Suc 0) = [Inr demo_call]" "lt_lock demo_busy = None"
    "db_conn (lt_map demo_busy) = Some []"
    by (simp_all add: demo_busy_def open_tasks_def)
  have "lww_can ?s (Runs 1)" "performs ?s (Runs 1) = [demo_call]"
    by (simp_all add: todo up performs_def db_raises_def)
  from runs_Cons [OF this(1) lww_runs.start] this(2)
  have run: "lww_runs ?s [Runs 1] [demo_call] (lww_step (Runs 1) ?s)" by simp
  show ?thesis
    using failed_write_is_not_repaired [of demo_busy "[]" "''k''" 0 demo_call "[]" _ _ "(PInt 3, 5, ''b'')" "[Proceeds DbFails]" "[Runs 1]" "[demo_call]"
        "lww_step (Runs 1) ?s", OF _ _ _ _ up] run
    by (auto simp: demo_busy_def open_tasks_def demo_map_def demo_written_def not_newer_def demo_call_def entry_beats_def)
qed

end
