(* ===== verification/Codec.thy ===== *)
theory Codec
  imports PyJson
begin

text \<open>
  The byte encodings of the standard library that the code relies on: \<^verbatim>\<open>str.encode('utf-8')\<close>,
  \<^verbatim>\<open>base64.b64encode\<close> and \<^verbatim>\<open>base64.b64decode\<close>. The decoder is the state machine of CPython
  3.11's \<^verbatim>\<open>binascii.a2b_base64\<close>, in the strict mode that the schema's validators ask for
  (\<^verbatim>\<open>validate=True\<close>) and in the lax mode used everywhere else, which skips characters outside
  the alphabet. Both modes invert the encoder (\<open>b64decode_encode\<close>).
\<close>

section \<open>UTF-8\<close>

definition utf8_char :: "char \<Rightarrow> bytes" where
  "utf8_char c = (let n = of_char c :: int in
     if n < 128 then [word_of_int n]
     else [word_of_int (192 + n div 64), word_of_int (128 + n mod 64)])"

definition utf8 :: "string \<Rightarrow> bytes" where
  "utf8 s = concat (map utf8_char s)"

definition utf8_head :: "bytes \<Rightarrow> char" where
  "utf8_head bs = (let n = uint (hd bs) in
     if n < 128 then char_of n else char_of (64 * (n - 192) + (uint (bs ! 1) - 128)))"

lemma uint_byte: "0 \<le> n \<Longrightarrow> n < 256 \<Longrightarrow> uint (word_of_int n :: byte) = n"
  by (simp add: uint_word_of_int)

lemma utf8_head_char: "utf8_head (utf8_char c @ x) = c"
proof -
  define n where "n = (of_char c :: int)"
  have b: "0 \<le> n" "n < 256" using of_char_lt_256 [of c] by (simp_all add: n_def)
  show ?thesis
  proof (cases "n < 128")
    case True
    with b show ?thesis
      by (simp add: utf8_char_def utf8_head_def Let_def uint_byte flip: n_def) (simp add: n_def)
  next
    case False
    with b have "uint (word_of_int (192 + n div 64) :: byte) = 192 + n div 64"
      "uint (word_of_int (128 + n mod 64) :: byte) = 128 + n mod 64"
      by (intro uint_byte; linarith)+
    with False b have "utf8_head (utf8_char c @ x) = char_of (64 * (n div 64) + n mod 64)"
      by (simp add: utf8_char_def utf8_head_def Let_def flip: n_def)
    then show ?thesis by (simp add: n_def)
  qed
qed

lemma utf8_char_not_Nil [simp]: "utf8_char c \<noteq> []"
  by (simp add: utf8_char_def Let_def)

lemma utf8_inj: "utf8 s = utf8 t \<longleftrightarrow> s = t"
proof
  show "utf8 s = utf8 t \<Longrightarrow> s = t"
  proof (induction s arbitrary: t)
    case Nil
    then show ?case by (cases t) (simp_all add: utf8_def)
  next
    case (Cons c s)
    then obtain d u where t: "t = d # u" by (cases t) (auto simp: utf8_def)
    with Cons.prems have "utf8_char c @ utf8 s = utf8_char d @ utf8 u"
      by (simp add: utf8_def)
    moreover from this have "c = d" using utf8_head_char by metis
    ultimately show ?case using Cons.IH t by simp
  qed
qed simp

section \<open>Base64\<close>

definition b64_char :: "int \<Rightarrow> char" where
  "b64_char v =
     (if v < 26 then char_of (65 + v) else if v < 52 then char_of (71 + v)
      else if v < 62 then char_of (v - 4) else if v = 62 then CHR ''+'' else CHR ''/'')"

definition b64_val :: "char \<Rightarrow> int option" where
  "b64_val c = (let n = of_char c :: int in
     if 65 \<le> n \<and> n \<le> 90 then Some (n - 65)
     else if 97 \<le> n \<and> n \<le> 122 then Some (n - 71)
     else if 48 \<le> n \<and> n \<le> 57 then Some (n + 4)
     else if n = 43 then Some 62
     else if n = 47 then Some 63
     else None)"

fun b64encode :: "bytes \<Rightarrow> string" where
  "b64encode [] = []"
| "b64encode [a] =
     [b64_char (uint a div 4), b64_char (uint a mod 4 * 16), CHR ''='', CHR ''='']"
| "b64encode [a, b] =
     [b64_char (uint a div 4), b64_char (uint a mod 4 * 16 + uint b div 16),
      b64_char (uint b mod 16 * 4), CHR ''='']"
| "b64encode (a # b # c # bs) =
     b64_char (uint a div 4) # b64_char (uint a mod 4 * 16 + uint b div 16) #
     b64_char (uint b mod 16 * 4 + uint c div 64) # b64_char (uint c mod 64) # b64encode bs"

text \<open>
  The loop of \<^verbatim>\<open>a2b_base64\<close>: position in the group of four, bits left over, pads seen, whether
  padding has started, and the characters to come; the result is the bytes still to be written,
  \<open>None\<close> for \<^verbatim>\<open>binascii.Error\<close>.
\<close>

definition byte_of :: "int \<Rightarrow> byte" where
  "byte_of n = word_of_int n"

fun a2b_base64 :: "bool \<Rightarrow> nat \<Rightarrow> int \<Rightarrow> nat \<Rightarrow> bool \<Rightarrow> string \<Rightarrow> bytes option" where
  "a2b_base64 strict q left pads started [] = (if q = 0 then Some [] else None)"
| "a2b_base64 strict q left pads started (c # cs) =
     (if c = CHR ''='' then
        (if 2 \<le> q \<and> 4 \<le> q + Suc pads
         then (if strict \<and> cs \<noteq> [] then None else Some [])
         else a2b_base64 strict q left (if 2 \<le> q then Suc pads else pads) True cs)
      else (case b64_val c of
          None \<Rightarrow> if strict then None else a2b_base64 strict q left pads started cs
        | Some v \<Rightarrow>
            if strict \<and> started then None
            else if q = 0 then a2b_base64 strict 1 v 0 started cs
            else if q = 1 then
              map_option (Cons (byte_of (left * 4 + v div 16)))
                (a2b_base64 strict 2 (v mod 16) 0 started cs)
            else if q = 2 then
              map_option (Cons (byte_of (left * 16 + v div 4)))
                (a2b_base64 strict 3 (v mod 4) 0 started cs)
            else
              map_option (Cons (byte_of (left * 64 + v)))
                (a2b_base64 strict 0 0 0 started cs)))"

definition b64decode :: "bool \<Rightarrow> string \<Rightarrow> bytes option" where
  "b64decode strict s =
     (if list_ex (\<lambda>c. 128 \<le> (of_char c :: int)) s then None
      else if strict \<and> s \<noteq> [] \<and> hd s = CHR ''='' then None
      else a2b_base64 strict 0 0 0 False s)"

subsection \<open>Round trip\<close>

lemma b64_char_code:
  assumes "0 \<le> v" "v < 64"
  shows "of_char (b64_char v) =
    (if v < 26 then 65 + v else if v < 52 then 71 + v else if v < 62 then v - 4
     else if v = 62 then 43 else (47 :: int))"
proof -
  have "of_char (char_of n) = n" if "0 \<le> n" "n < 256" for n :: int
    using that by simp
  with assms show ?thesis by (simp add: b64_char_def)
qed

lemma b64_char_facts:
  assumes "0 \<le> v" "v < 64"
  shows "b64_val (b64_char v) = Some v" "b64_char v \<noteq> CHR ''=''" "of_char (b64_char v) < (128 :: int)"
proof -
  note code = b64_char_code [OF assms]
  show "b64_val (b64_char v) = Some v"
    using assms by (simp add: b64_val_def Let_def code)
  show "of_char (b64_char v) < (128 :: int)"
    using assms by (simp add: code)
  show "b64_char v \<noteq> CHR ''=''"
  proof
    assume "b64_char v = CHR ''=''"
    then have "of_char (b64_char v) = (61 :: int)" by simp
    with assms show False by (simp add: code split: if_splits)
  qed
qed

text \<open>The sextets of three bytes, and the bytes back.\<close>

lemma uint_byte_bounds: "0 \<le> uint (a :: byte)" "uint (a :: byte) < 256"
  using uint_bounded [of a] by simp_all

lemma sextet_bounds:
  fixes a b :: byte
  shows "0 \<le> uint a div 4" "uint a div 4 < 64"
    "0 \<le> uint a mod 4 * 16" "uint a mod 4 * 16 < 64"
    "0 \<le> uint a mod 4 * 16 + uint b div 16" "uint a mod 4 * 16 + uint b div 16 < 64"
    "0 \<le> uint a mod 16 * 4" "uint a mod 16 * 4 < 64"
    "0 \<le> uint a mod 16 * 4 + uint b div 64" "uint a mod 16 * 4 + uint b div 64 < 64"
    "0 \<le> uint a mod 64" "uint a mod 64 < 64"
proof -
  note a = uint_byte_bounds [of a] and b = uint_byte_bounds [of b]
  have m: "0 \<le> uint a mod k" "uint a mod k < k" if "0 < k" for k
    using that by simp_all
  show "0 \<le> uint a div 4" "uint a div 4 < 64" using a by linarith+
  have b16: "0 \<le> uint b div 16" "uint b div 16 < 16" and b64: "0 \<le> uint b div 64" "uint b div 64 < 4"
    using b by linarith+
  show "0 \<le> uint a mod 4 * 16" "uint a mod 4 * 16 < 64"
    "0 \<le> uint a mod 4 * 16 + uint b div 16" "uint a mod 4 * 16 + uint b div 16 < 64"
    using m [of 4] b16 by linarith+
  show "0 \<le> uint a mod 16 * 4" "uint a mod 16 * 4 < 64"
    "0 \<le> uint a mod 16 * 4 + uint b div 64" "uint a mod 16 * 4 + uint b div 64 < 64"
    using m [of 16] b64 by linarith+
  show "0 \<le> uint a mod 64" "uint a mod 64 < 64" using m [of 64] by simp_all
qed

lemma pack_unpack:
  fixes x y k :: int
  assumes "0 \<le> y" "y < k"
  shows "(x * k + y) div k = x" "(x * k + y) mod k = y"
  using assms by simp_all

lemma byte_of_uint: "byte_of (uint a) = a"
  by (simp add: byte_of_def)

lemma sextet_join:
  fixes a b c :: byte
  shows "byte_of (uint a div 4 * 4 + uint a mod 4 * 16 div 16) = a"
    "byte_of (uint a div 4 * 4 + (uint a mod 4 * 16 + uint b div 16) div 16) = a"
    "byte_of ((uint a mod 4 * 16 + uint b div 16) mod 16 * 16 + uint b mod 16 * 4 div 4) = b"
    "byte_of ((uint a mod 4 * 16 + uint b div 16) mod 16 * 16 +
       (uint b mod 16 * 4 + uint c div 64) div 4) = b"
    "byte_of ((uint b mod 16 * 4 + uint c div 64) mod 4 * 64 + uint c mod 64) = c"
proof -
  have b: "0 \<le> uint b div 16" "uint b div 16 < 16" and c: "0 \<le> uint c div 64" "uint c div 64 < 4"
    using uint_byte_bounds [of b] uint_byte_bounds [of c] by linarith+
  note pack = pack_unpack [OF b] pack_unpack [OF c]
  show "byte_of (uint a div 4 * 4 + uint a mod 4 * 16 div 16) = a"
    using byte_of_uint [of a] by simp
  show "byte_of (uint a div 4 * 4 + (uint a mod 4 * 16 + uint b div 16) div 16) = a"
    unfolding pack using byte_of_uint [of a] by simp
  show "byte_of ((uint a mod 4 * 16 + uint b div 16) mod 16 * 16 + uint b mod 16 * 4 div 4) = b"
    unfolding pack using byte_of_uint [of b] by simp
  show "byte_of ((uint a mod 4 * 16 + uint b div 16) mod 16 * 16 +
      (uint b mod 16 * 4 + uint c div 64) div 4) = b"
    unfolding pack using byte_of_uint [of b] by simp
  show "byte_of ((uint b mod 16 * 4 + uint c div 64) mod 4 * 64 + uint c mod 64) = c"
    unfolding pack using byte_of_uint [of c] by simp
qed

lemmas b64_facts = b64_char_facts sextet_bounds sextet_join

lemma a2b_encode: "a2b_base64 strict 0 l p False (b64encode bs) = Some bs"
  by (induction bs arbitrary: l p rule: b64encode.induct)
     (simp_all only: b64encode.simps, simp_all add: b64_facts [simplified] b64_facts)

lemma b64encode_ascii: "c \<in> set (b64encode bs) \<Longrightarrow> of_char c < (128 :: int)"
  by (induction bs rule: b64encode.induct) (auto simp: b64_facts)

lemma b64encode_hd: "bs \<noteq> [] \<Longrightarrow> b64encode bs \<noteq> [] \<and> hd (b64encode bs) \<noteq> CHR ''=''"
  by (cases bs rule: b64encode.cases) (auto simp: b64_facts)

theorem b64decode_encode: "b64decode strict (b64encode bs) = Some bs"
proof -
  have "\<not> list_ex (\<lambda>c. 128 \<le> (of_char c :: int)) (b64encode bs)"
    using b64encode_ascii by (fastforce simp: list_ex_iff)
  with b64encode_hd [of bs] show ?thesis
    by (cases "bs = []") (auto simp: b64decode_def a2b_encode)
qed

lemma b64encode_inj: "b64encode a = b64encode b \<longleftrightarrow> a = b"
  by (metis b64decode_encode option.inject)

lemma b64encode_eq_Nil [simp]: "b64encode bs = [] \<longleftrightarrow> bs = []"
  by (cases bs rule: b64encode.cases) auto

end
