(* ===== verification/Schema.thy ===== *)
theory Schema
  imports Codec
begin

text \<open>
  The message types of \<^verbatim>\<open>tpcp/schemas/envelope.py\<close>: one record per Pydantic class with the fields
  in the order of the class, the discriminated union of the payloads as a datatype, the
  constraints that the classes declare (\<^verbatim>\<open>ge\<close>, \<^verbatim>\<open>gt\<close>) and the validators they define. Building
  the instances from JSON is Pydantic's work: a receiver's decoder is a parameter of the theories
  that receive messages, and \<open>valid_envelope\<close> is what the declared constraints promise of its
  results. \<open>model_dump\<close> is the dictionary of a payload, keys in field order; UUIDs stay UUID
  objects in it, as in Pydantic's Python mode.
\<close>

definition PROTOCOL_VERSION :: string where
  "PROTOCOL_VERSION = ''0.4.0''"

section \<open>Intents\<close>

datatype intent =
    HANDSHAKE | TASK_REQUEST | STATE_SYNC | STATE_SYNC_VECTOR | MEDIA_SHARE
  | CRITIQUE | TERMINATE | ACK | NACK | BROADCAST

primrec intent_value :: "intent \<Rightarrow> string" where
  "intent_value HANDSHAKE = ''Handshake''"
| "intent_value TASK_REQUEST = ''Task_Request''"
| "intent_value STATE_SYNC = ''State_Sync''"
| "intent_value STATE_SYNC_VECTOR = ''State_Sync_Vector''"
| "intent_value MEDIA_SHARE = ''Media_Share''"
| "intent_value CRITIQUE = ''Critique''"
| "intent_value TERMINATE = ''Terminate''"
| "intent_value ACK = ''ACK''"
| "intent_value NACK = ''NACK''"
| "intent_value BROADCAST = ''Broadcast''"

definition all_intents :: "intent list" where
  "all_intents = [HANDSHAKE, TASK_REQUEST, STATE_SYNC, STATE_SYNC_VECTOR, MEDIA_SHARE,
     CRITIQUE, TERMINATE, ACK, NACK, BROADCAST]"

lemma all_intents_complete [simp]: "i \<in> set all_intents"
  by (cases i) (simp_all add: all_intents_def)

lemma intent_value_inj: "intent_value i = intent_value j \<longleftrightarrow> i = j"
  by (cases i; cases j) simp_all

section \<open>Identity and header\<close>

record agent_identity =
  agent_id :: uuid
  framework :: string
  capabilities :: "string list"
  public_key :: string
  modality :: "string list"

text \<open>The defaults of the class, for the callers that leave the fields out.\<close>

definition mk_identity :: "uuid \<Rightarrow> string \<Rightarrow> string \<Rightarrow> agent_identity" where
  "mk_identity u fw pk =
     \<lparr>agent_id = u, framework = fw, capabilities = [], public_key = pk, modality = [''text'']\<rparr>"

record message_header =
  message_id :: uuid
  msg_timestamp :: int
  sender_id :: uuid
  receiver_id :: uuid
  intent :: intent
  ttl :: int
  protocol_version :: string

definition valid_header :: "message_header \<Rightarrow> bool" where
  "valid_header h \<longleftrightarrow> 0 \<le> ttl h"

section \<open>Payloads\<close>

type_synonym pyfloat = string  \<comment> \<open>the \<^verbatim>\<open>repr\<close> of a float\<close>

record text_payload =
  content :: string
  language :: string

definition text_of :: "string \<Rightarrow> text_payload" where
  "text_of c = \<lparr>content = c, language = ''en''\<rparr>"

record vector_payload =
  vec_model_id :: string
  dimensions :: int
  vector :: "pyfloat list"
  raw_text_fallback :: "string option"

record crdt_payload =
  crdt_type :: string
  crdt_state :: "(string, pyval) dict"
  vector_clock :: "(string, int) dict"

record image_payload =
  img_data_base64 :: string
  img_mime_type :: string
  img_width :: "int option"
  img_height :: "int option"
  img_source_model :: "string option"
  caption :: "string option"

record audio_payload =
  aud_data_base64 :: string
  aud_mime_type :: string
  sample_rate :: "int option"
  aud_duration_seconds :: "pyfloat option"
  aud_source_model :: "string option"
  transcript :: "string option"

record video_payload =
  vid_data_base64 :: string
  vid_mime_type :: string
  vid_width :: "int option"
  vid_height :: "int option"
  vid_duration_seconds :: "pyfloat option"
  fps :: "pyfloat option"
  vid_source_model :: "string option"
  vid_description :: "string option"

record binary_payload =
  bin_data_base64 :: string
  bin_mime_type :: string
  filename :: "string option"
  bin_description :: "string option"

record telemetry_reading =
  reading_value :: pyfloat
  timestamp_ms :: int
  quality :: "string option"

record telemetry_payload =
  sensor_id :: string
  tel_unit :: string
  readings :: "telemetry_reading list"
  source_protocol :: string

datatype payload =
    TextP text_payload
  | VectorP vector_payload
  | CrdtP crdt_payload
  | ImageP image_payload
  | AudioP audio_payload
  | VideoP video_payload
  | BinaryP binary_payload
  | TelemetryP telemetry_payload

text \<open>The \<^verbatim>\<open>Literal\<close> tag of each class, which the union discriminates on.\<close>

primrec payload_type :: "payload \<Rightarrow> string" where
  "payload_type (TextP p) = ''text''"
| "payload_type (VectorP p) = ''vector_embedding''"
| "payload_type (CrdtP p) = ''crdt_sync''"
| "payload_type (ImageP p) = ''image''"
| "payload_type (AudioP p) = ''audio''"
| "payload_type (VideoP p) = ''video''"
| "payload_type (BinaryP p) = ''binary''"
| "payload_type (TelemetryP p) = ''telemetry''"

text \<open>\<^verbatim>\<open>_get_payload_type\<close> on the decoded JSON of a payload; no JSON value other than a dictionary
  has the attribute.\<close>

definition get_payload_type :: "pyval \<Rightarrow> py_exn + pyval" where
  "get_payload_type data =
     (let pt = (case data of PDict kvs \<Rightarrow>
                  (case map_of kvs ''payload_type'' of None \<Rightarrow> PNone | Some t \<Rightarrow> t)
                | _ \<Rightarrow> PNone)
      in if pt = PNone then Inl (ValueError ''Missing payload_type field in payload'') else Inr pt)"

section \<open>Validators\<close>

definition KNOWN_MODELS :: "(string, int) dict" where
  "KNOWN_MODELS = [(''text-embedding-3-small'', 1536), (''text-embedding-3-large'', 3072),
     (''text-embedding-ada-002'', 1536), (''all-MiniLM-L6-v2'', 384)]"

definition validate_embedding :: "vector_payload \<Rightarrow> py_exn + vector_payload" where
  "validate_embedding p =
     (let len = int (length (vector p)) in
      if len \<noteq> dimensions p
      then Inl (ValueError (''Vector length ('' @ show_int len @
             '') does not match declared dimensions ('' @ show_int (dimensions p) @ '').''))
      else case map_of KNOWN_MODELS (vec_model_id p) of
        Some expected \<Rightarrow>
          if dimensions p \<noteq> expected
          then Inl (ValueError (''Invalid dimension '' @ show_int (dimensions p) @ '' for model '' @ [CHR 0x27] @
                 vec_model_id p @ [CHR 0x27] @ ''. Expected exactly '' @ show_int expected @ '' dimensions.''))
          else Inr p
      | None \<Rightarrow> Inr p)"

definition validate_base64 :: "string \<Rightarrow> py_exn + string" where
  "validate_base64 v =
     (case b64decode True v of
        None \<Rightarrow> Inl (ValueError ''data_base64 must be valid base64-encoded data'')
      | Some _ \<Rightarrow> Inr v)"

text \<open>The two warning validators return their argument; the flag says whether a warning is
  logged.\<close>

definition warn_unknown_quality :: "string option \<Rightarrow> bool \<times> string option" where
  "warn_unknown_quality v =
     ((case v of None \<Rightarrow> False | Some q \<Rightarrow> q \<notin> set [''Good'', ''Bad'', ''Uncertain'']), v)"

definition warn_unknown_protocol :: "string \<Rightarrow> bool \<times> string" where
  "warn_unknown_protocol v = (v \<notin> set [''opcua'', ''modbus'', ''canbus'', ''mqtt''], v)"

text \<open>An instance satisfies the constraints of its class.\<close>

primrec valid_payload :: "payload \<Rightarrow> bool" where
  "valid_payload (TextP p) = True"
| "valid_payload (VectorP p) = (0 < dimensions p \<and> validate_embedding p = Inr p)"
| "valid_payload (CrdtP p) = True"
| "valid_payload (ImageP p) = (validate_base64 (img_data_base64 p) = Inr (img_data_base64 p))"
| "valid_payload (AudioP p) = (validate_base64 (aud_data_base64 p) = Inr (aud_data_base64 p))"
| "valid_payload (VideoP p) = (validate_base64 (vid_data_base64 p) = Inr (vid_data_base64 p))"
| "valid_payload (BinaryP p) = (validate_base64 (bin_data_base64 p) = Inr (bin_data_base64 p))"
| "valid_payload (TelemetryP p) = True"

section \<open>Envelopes\<close>

record ack_info =
  acked_message_id :: uuid

record chunk_info =
  chunk_index :: int
  total_chunks :: int
  transfer_id :: uuid

definition valid_chunk_info :: "chunk_info \<Rightarrow> bool" where
  "valid_chunk_info c \<longleftrightarrow> 0 \<le> chunk_index c \<and> 1 \<le> total_chunks c"

record envelope =
  header :: message_header
  payload :: payload
  signature :: "string option"
  env_ack_info :: "ack_info option"
  env_chunk_info :: "chunk_info option"

definition valid_envelope :: "envelope \<Rightarrow> bool" where
  "valid_envelope e \<longleftrightarrow>
     valid_header (header e) \<and> valid_payload (payload e) \<and>
     (case env_chunk_info e of None \<Rightarrow> True | Some c \<Rightarrow> valid_chunk_info c)"

definition mk_envelope :: "message_header \<Rightarrow> payload \<Rightarrow> string option \<Rightarrow> envelope" where
  "mk_envelope h p sig =
     \<lparr>header = h, payload = p, signature = sig, env_ack_info = None, env_chunk_info = None\<rparr>"

section \<open>model\_dump\<close>

fun opt_str :: "string option \<Rightarrow> pyval" where
  "opt_str None = PNone"
| "opt_str (Some s) = PStr s"

fun opt_int :: "int option \<Rightarrow> pyval" where
  "opt_int None = PNone"
| "opt_int (Some i) = PInt i"

fun opt_float :: "pyfloat option \<Rightarrow> pyval" where
  "opt_float None = PNone"
| "opt_float (Some r) = PFloat r"

definition dump_reading :: "telemetry_reading \<Rightarrow> pyval" where
  "dump_reading r = PDict [(''value'', PFloat (reading_value r)),
     (''timestamp_ms'', PInt (timestamp_ms r)), (''quality'', opt_str (quality r))]"

primrec dump_fields :: "payload \<Rightarrow> (string, pyval) dict" where
  "dump_fields (TextP p) = [(''content'', PStr (content p)), (''language'', PStr (language p))]"
| "dump_fields (VectorP p) =
     [(''model_id'', PStr (vec_model_id p)), (''dimensions'', PInt (dimensions p)),
      (''vector'', PList (map PFloat (vector p))),
      (''raw_text_fallback'', opt_str (raw_text_fallback p))]"
| "dump_fields (CrdtP p) =
     [(''crdt_type'', PStr (crdt_type p)), (''state'', PDict (crdt_state p)),
      (''vector_clock'', PDict (map (map_prod id PInt) (vector_clock p)))]"
| "dump_fields (ImageP p) =
     [(''data_base64'', PStr (img_data_base64 p)), (''mime_type'', PStr (img_mime_type p)),
      (''width'', opt_int (img_width p)), (''height'', opt_int (img_height p)),
      (''source_model'', opt_str (img_source_model p)), (''caption'', opt_str (caption p))]"
| "dump_fields (AudioP p) =
     [(''data_base64'', PStr (aud_data_base64 p)), (''mime_type'', PStr (aud_mime_type p)),
      (''sample_rate'', opt_int (sample_rate p)),
      (''duration_seconds'', opt_float (aud_duration_seconds p)),
      (''source_model'', opt_str (aud_source_model p)), (''transcript'', opt_str (transcript p))]"
| "dump_fields (VideoP p) =
     [(''data_base64'', PStr (vid_data_base64 p)), (''mime_type'', PStr (vid_mime_type p)),
      (''width'', opt_int (vid_width p)), (''height'', opt_int (vid_height p)),
      (''duration_seconds'', opt_float (vid_duration_seconds p)), (''fps'', opt_float (fps p)),
      (''source_model'', opt_str (vid_source_model p)),
      (''description'', opt_str (vid_description p))]"
| "dump_fields (BinaryP p) =
     [(''data_base64'', PStr (bin_data_base64 p)), (''mime_type'', PStr (bin_mime_type p)),
      (''filename'', opt_str (filename p)), (''description'', opt_str (bin_description p))]"
| "dump_fields (TelemetryP p) =
     [(''sensor_id'', PStr (sensor_id p)), (''unit'', PStr (tel_unit p)),
      (''readings'', PList (map dump_reading (readings p))),
      (''source_protocol'', PStr (source_protocol p))]"

definition model_dump :: "payload \<Rightarrow> (string, pyval) dict" where
  "model_dump p = (''payload_type'', PStr (payload_type p)) # dump_fields p"

text \<open>The metadata models hold UUID objects.\<close>

definition dump_ack_info :: "ack_info \<Rightarrow> pyval" where
  "dump_ack_info a = PDict [(''acked_message_id'', PUuid (acked_message_id a))]"

definition dump_chunk_info :: "chunk_info \<Rightarrow> pyval" where
  "dump_chunk_info c = PDict [(''chunk_index'', PInt (chunk_index c)),
     (''total_chunks'', PInt (total_chunks c)), (''transfer_id'', PUuid (transfer_id c))]"

section \<open>Facts about dumps\<close>

text \<open>The floats of a payload are written as \<^verbatim>\<open>repr\<close> writes them, and the free-form values of a
  CRDT state are JSON values, as they are after a decode.\<close>

primrec wf_payload :: "payload \<Rightarrow> bool" where
  "wf_payload (TextP p) = True"
| "wf_payload (VectorP p) = list_all float_lex (vector p)"
| "wf_payload (CrdtP p) = wf_val (PDict (crdt_state p))"
| "wf_payload (ImageP p) = True"
| "wf_payload (AudioP p) = pred_option float_lex (aud_duration_seconds p)"
| "wf_payload (VideoP p) =
     (pred_option float_lex (vid_duration_seconds p) \<and> pred_option float_lex (fps p))"
| "wf_payload (BinaryP p) = True"
| "wf_payload (TelemetryP p) = list_all (\<lambda>r. float_lex (reading_value r)) (readings p)"

lemma wf_opts [simp]:
  "wf_val (opt_str s)" "wf_val (opt_int i)" "wf_val (opt_float r) = pred_option float_lex r"
  by (cases s; cases i; cases r; simp)+

lemma wf_model_dump: "wf_payload p \<Longrightarrow> wf_val (PDict (model_dump p))"
  by (cases p) (auto simp: model_dump_def list_all_iff dump_reading_def)

lemma jsonable_model_dump: "wf_payload p \<Longrightarrow> jsonable (PDict (model_dump p))"
  by (intro wf_val_jsonable wf_model_dump)

lemma canon_dict_get:
  assumes "canon (PDict d) = canon (PDict e)" "dict_wf d" "dict_wf e"
  shows "map_option canon (map_of d k) = map_option canon (map_of e k)"
proof -
  have m: "map_option canon (map_of xs k) = map_of (map (map_prod id canon) (sort_key fst xs)) k"
    if "dict_wf xs" for xs
    by (simp add: dict_get_sort [OF that] map_prod_def id_def map_of_map [unfolded comp_def])
  from assms(1) have "map (map_prod id canon) (sort_key fst d) = map (map_prod id canon) (sort_key fst e)"
    by (simp only: canon_PDict pyval.inject)
  with m assms(2,3) show ?thesis by metis
qed

lemma model_dump_wf_dict: "dict_wf (model_dump p)"
  by (cases p) (simp_all add: model_dump_def dict_wf_def)

lemma model_dump_type: "map_of (model_dump p) ''payload_type'' = Some (PStr (payload_type p))"
  by (simp add: model_dump_def)

lemma canon_model_dump_get:
  "canon (PDict (model_dump p)) = canon (PDict (model_dump q)) \<Longrightarrow>
   map_option canon (map_of (model_dump p) k) = map_option canon (map_of (model_dump q) k)"
  by (intro canon_dict_get model_dump_wf_dict)

lemma canon_model_dump_type:
  "canon (PDict (model_dump p)) = canon (PDict (model_dump q)) \<Longrightarrow> payload_type p = payload_type q"
  by (drule canon_model_dump_get [where k = "''payload_type''"]) (simp add: model_dump_type)

lemma canon_model_dump_text:
  assumes "canon (PDict (model_dump (TextP p))) = canon (PDict (model_dump q))"
  shows "q = TextP p"
proof -
  from canon_model_dump_type [OF assms] obtain t where q: "q = TextP t" by (cases q) simp_all
  from canon_model_dump_get [OF assms, of "''content''"] canon_model_dump_get [OF assms, of "''language''"]
  show ?thesis by (simp add: q model_dump_def)
qed

end
