(* ===== verification/Crypto.thy ===== *)
theory Crypto
  imports Schema
begin

text \<open>
  \<^verbatim>\<open>AgentIdentityManager\<close> of \<^verbatim>\<open>tpcp/security/crypto.py\<close>: where the private key comes from, key
  files, signing and verification. The Ed25519 primitives belong to the \<^verbatim>\<open>cryptography\<close> package
  and are the parameter \<open>ed\<close>; what the code relies on is stated by \<open>ed_correct\<close> (a signature made
  with a 32-byte seed verifies under its public key, which is 32 bytes) and \<open>ed_binding\<close> (the
  usual idealisation of unforgeability: a signature verifies for the signed bytes only).
  The file system is a dictionary from paths to texts.
\<close>

record ed25519 =
  ed_public :: "bytes \<Rightarrow> bytes"
  ed_sign :: "bytes \<Rightarrow> bytes \<Rightarrow> bytes"
  ed_verify :: "bytes \<Rightarrow> bytes \<Rightarrow> bytes \<Rightarrow> bool"

definition ed_correct :: "ed25519 \<Rightarrow> bool" where
  "ed_correct ed \<longleftrightarrow> (\<forall>sk m. length sk = 32 \<longrightarrow>
     length (ed_public ed sk) = 32 \<and> ed_verify ed (ed_public ed sk) (ed_sign ed sk m) m)"

definition ed_binding :: "ed25519 \<Rightarrow> bool" where
  "ed_binding ed \<longleftrightarrow> (\<forall>sk m m'. length sk = 32 \<longrightarrow>
     ed_verify ed (ed_public ed sk) (ed_sign ed sk m) m' \<longrightarrow> m = m')"

section \<open>Key sources\<close>

record identity_manager =
  im_key_path :: string
  was_loaded :: bool
  private_key :: bytes
  im_public_key :: bytes

type_synonym filesystem = "(string, string) dict"

text \<open>\<^verbatim>\<open>str.strip()\<close>.\<close>

definition is_space :: "char \<Rightarrow> bool" where
  "is_space c \<longleftrightarrow> (let n = of_char c :: int in
     9 \<le> n \<and> n \<le> 13 \<or> 28 \<le> n \<and> n \<le> 32 \<or> n = 133 \<or> n = 160)"

definition py_strip :: "string \<Rightarrow> string" where
  "py_strip s = rev (dropWhile is_space (rev (dropWhile is_space s)))"

text \<open>\<^verbatim>\<open>Ed25519PrivateKey.from_private_bytes\<close> refuses a seed that is not 32 bytes long;
  \<^verbatim>\<open>binascii.Error\<close> is a \<^verbatim>\<open>ValueError\<close>.\<close>

definition from_private_bytes :: "bytes \<Rightarrow> py_exn + bytes" where
  "from_private_bytes b =
     (if length b = 32 then Inr b
      else Inl (ValueError ''An Ed25519 private key is 32 bytes long''))"

definition decode_key :: "string \<Rightarrow> py_exn + bytes" where
  "decode_key s =
     (case b64decode False s of
        None \<Rightarrow> Inl (ValueError ''Incorrect padding'')
      | Some raw \<Rightarrow> from_private_bytes raw)"

definition load_key_from_file :: "filesystem \<Rightarrow> string \<Rightarrow> py_exn + bytes" where
  "load_key_from_file fs path =
     (case map_of fs path of
        None \<Rightarrow> Inl (FileNotFoundError path)
      | Some text \<Rightarrow> decode_key (py_strip text))"

definition get_public_key_string :: "identity_manager \<Rightarrow> string" where
  "get_public_key_string m = b64encode (im_public_key m)"

definition get_private_key_bytes :: "identity_manager \<Rightarrow> bytes" where
  "get_private_key_bytes m = private_key m"

text \<open>Writing the file; returns the new file system and the path (the \<^verbatim>\<open>chmod\<close> is left out).\<close>

definition save_key :: "identity_manager \<Rightarrow> string option \<Rightarrow> filesystem \<Rightarrow> filesystem \<times> string" where
  "save_key m path fs =
     (let target = (case path of Some p \<Rightarrow> p | None \<Rightarrow> im_key_path m)
      in (AList.update target (b64encode (get_private_key_bytes m)) fs, target))"

definition DEFAULT_KEY_FILE :: string where
  "DEFAULT_KEY_FILE = ''~/.tpcp/identity.key''"

text \<open>
  The constructor: the seed from the argument, the environment variable, the key file or a fresh
  one (\<open>fresh\<close>), in this order, then the sign/verify self-test.
\<close>

definition new_manager ::
  "ed25519 \<Rightarrow> string option \<Rightarrow> bytes \<Rightarrow> bytes option \<Rightarrow> string option \<Rightarrow> bool \<Rightarrow> filesystem
   \<Rightarrow> filesystem \<times> (py_exn + identity_manager)" where
  "new_manager ed env_key fresh private_key_bytes kp auto_save fs =
     (let path = (case kp of Some p \<Rightarrow> p | None \<Rightarrow> DEFAULT_KEY_FILE);
          seed = (case private_key_bytes of
              Some b \<Rightarrow> map_sum id (\<lambda>k. (k, True)) (from_private_bytes b)
            | None \<Rightarrow>
                if env_key \<noteq> None \<and> env_key \<noteq> Some []
                then map_sum id (\<lambda>k. (k, True)) (decode_key (the env_key))
                else if map_of fs path \<noteq> None
                then map_sum id (\<lambda>k. (k, True)) (load_key_from_file fs path)
                else Inr (fresh, False))
      in case seed of
           Inl e \<Rightarrow> (fs, Inl e)
         | Inr (sk, loaded) \<Rightarrow>
             (let m = \<lparr>im_key_path = path, was_loaded = loaded, private_key = sk,
                       im_public_key = ed_public ed sk\<rparr>;
                  fs' = (if \<not> loaded \<and> auto_save then fst (save_key m (Some path) fs) else fs);
                  test_data = utf8 ''tpcp-key-validation''
              in (fs', if ed_verify ed (im_public_key m) (ed_sign ed sk test_data) test_data
                       then Inr m
                       else Inl (RuntimeError ''Invalid Ed25519 key: sign/verify roundtrip failed''))))"

definition from_file ::
  "ed25519 \<Rightarrow> string option \<Rightarrow> bytes \<Rightarrow> string \<Rightarrow> filesystem
   \<Rightarrow> filesystem \<times> (py_exn + identity_manager)" where
  "from_file ed env_key fresh path fs =
     (if map_of fs path = None
      then (fs, Inl (FileNotFoundError (''Key file not found: '' @ path)))
      else new_manager ed env_key fresh None (Some path) False fs)"

definition from_env ::
  "ed25519 \<Rightarrow> string option \<Rightarrow> bytes \<Rightarrow> filesystem \<Rightarrow> filesystem \<times> (py_exn + identity_manager)" where
  "from_env ed env_key fresh fs =
     (if env_key = None \<or> env_key = Some []
      then (fs, Inl (EnvironmentError ''Environment variable TPCP_PRIVATE_KEY is not set.''))
      else case b64decode False (the env_key) of
          None \<Rightarrow> (fs, Inl (ValueError ''Incorrect padding''))
        | Some raw \<Rightarrow> new_manager ed env_key fresh (Some raw) None False fs)"

text \<open>What the constructor establishes and every later use relies on.\<close>

definition manager_wf :: "ed25519 \<Rightarrow> identity_manager \<Rightarrow> bool" where
  "manager_wf ed m \<longleftrightarrow>
     length (private_key m) = 32 \<and> im_public_key m = ed_public ed (private_key m)"

section \<open>Signing and verification\<close>

definition sign_opts :: dump_opts where
  "sign_opts = \<lparr>item_sep = '','', key_sep = '':'', ensure_ascii = False, default_str = False\<rparr>"

definition sign_bytes :: "ed25519 \<Rightarrow> identity_manager \<Rightarrow> bytes \<Rightarrow> string" where
  "sign_bytes ed m data = b64encode (ed_sign ed (private_key m) data)"

definition sign_payload ::
  "ed25519 \<Rightarrow> identity_manager \<Rightarrow> (string, pyval) dict \<Rightarrow> py_exn + string" where
  "sign_payload ed m d =
     (case json_dumps sign_opts (PDict d) of
        Inl e \<Rightarrow> Inl e
      | Inr serialized \<Rightarrow> Inr (b64encode (ed_sign ed (private_key m) (utf8 serialized))))"

text \<open>\<^verbatim>\<open>verify_bytes\<close> and \<^verbatim>\<open>verify_signature\<close>: every \<^verbatim>\<open>ValueError\<close>, \<^verbatim>\<open>InvalidSignature\<close> and
  \<^verbatim>\<open>TypeError\<close> is \<^verbatim>\<open>False\<close>. \<^verbatim>\<open>from_public_bytes\<close> refuses a key that is not 32 bytes long.\<close>

definition verify_bytes :: "ed25519 \<Rightarrow> string \<Rightarrow> string \<Rightarrow> bytes \<Rightarrow> bool" where
  "verify_bytes ed pk sig data =
     (case b64decode False pk of
        None \<Rightarrow> False
      | Some pkb \<Rightarrow> (case b64decode False sig of
            None \<Rightarrow> False
          | Some sigb \<Rightarrow> length pkb = 32 \<and> ed_verify ed pkb sigb data))"

definition verify_signature ::
  "ed25519 \<Rightarrow> string \<Rightarrow> string \<Rightarrow> (string, pyval) dict \<Rightarrow> bool" where
  "verify_signature ed pk sig d =
     (case b64decode False pk of
        None \<Rightarrow> False
      | Some pkb \<Rightarrow> (case b64decode False sig of
            None \<Rightarrow> False
          | Some sigb \<Rightarrow> length pkb = 32 \<and>
              (case json_dumps sign_opts (PDict d) of
                 Inl e \<Rightarrow> False
               | Inr serialized \<Rightarrow> ed_verify ed pkb sigb (utf8 serialized))))"

lemma std_sign_opts: "std_opts sign_opts"
  by (simp add: std_opts_def sign_opts_def)

lemma sign_payload_uuid:
  "\<not> jsonable (PDict d) \<Longrightarrow>
   sign_payload ed m d = Inl (TypeError ''Object of type UUID is not JSON serializable'')"
  by (simp add: sign_payload_def json_dumps_def sign_opts_def)

lemma sign_payload_jsonable:
  "jsonable (PDict d) \<Longrightarrow>
   sign_payload ed m d = Inr (b64encode (ed_sign ed (private_key m) (utf8 (enc sign_opts (PDict d)))))"
  by (simp add: sign_payload_def)

lemma verify_signature_jsonable:
  "jsonable (PDict d) \<Longrightarrow> verify_signature ed pk sig d = verify_bytes ed pk sig (utf8 (enc sign_opts (PDict d)))"
  by (simp add: verify_signature_def verify_bytes_def split: option.splits)

lemma verify_signed_bytes:
  "manager_wf ed m \<Longrightarrow>
   verify_bytes ed (get_public_key_string m) (b64encode (ed_sign ed (private_key m) data)) data' \<longleftrightarrow>
   length (im_public_key m) = 32 \<and>
   ed_verify ed (im_public_key m) (ed_sign ed (private_key m) data) data'"
  by (simp add: verify_bytes_def get_public_key_string_def b64decode_encode)

lemma new_manager_wf:
  assumes "new_manager ed env_key fresh b kp auto fs = (fs', Inr m)" "length fresh = 32"
  shows "manager_wf ed m"
  using assms
  by (auto simp: new_manager_def manager_wf_def Let_def from_private_bytes_def decode_key_def
        load_key_from_file_def split: sum.splits option.splits if_splits prod.splits)

section \<open>Properties\<close>

text \<open>A transparent scheme that satisfies both laws, for the witnesses.\<close>

definition plain_ed :: ed25519 where
  "plain_ed = \<lparr>ed_public = (\<lambda>sk. sk), ed_sign = (\<lambda>sk m. sk @ m), ed_verify = (\<lambda>pk sig m. sig = pk @ m)\<rparr>"

lemma plain_ed_laws: "ed_correct plain_ed" "ed_binding plain_ed"
  by (auto simp: plain_ed_def ed_correct_def ed_binding_def)

definition sample_manager :: identity_manager where
  "sample_manager = \<lparr>im_key_path = ''k'', was_loaded = True, private_key = replicate 32 7,
     im_public_key = replicate 32 7\<rparr>"

lemma sample_manager_wf: "manager_wf plain_ed sample_manager"
  by (simp add: manager_wf_def sample_manager_def plain_ed_def)

lemma signed_verifies:
  assumes "ed_correct ed" "manager_wf ed m" "wf_payload p"
  shows "\<exists>sig. sign_payload ed m (model_dump p) = Inr sig \<and>
    verify_signature ed (get_public_key_string m) sig (model_dump p)"
proof -
  have j: "jsonable (PDict (model_dump p))" by (rule jsonable_model_dump [OF assms(3)])
  from assms(1,2) show ?thesis
    by (simp add: sign_payload_jsonable [OF j] verify_signature_jsonable [OF j]
          verify_signed_bytes manager_wf_def ed_correct_def)
qed

text \<open>A payload signed with \<^verbatim>\<open>sign_payload\<close> verifies: for every manager built by the
  constructor and every payload, signing succeeds, and \<^verbatim>\<open>verify_signature\<close> accepts the base64
  signature under the base64 public key for the same payload dictionary.\<close>

theorem sign_then_verify:
  assumes "ed_correct ed" "new_manager ed env_key fresh b kp auto fs = (fs', Inr m)"
    "length fresh = 32" "wf_payload p"
  shows "\<exists>sig. sign_payload ed m (model_dump p) = Inr sig \<and>
    verify_signature ed (get_public_key_string m) sig (model_dump p)"
  by (rule signed_verifies [OF assms(1) new_manager_wf [OF assms(2,3)] assms(4)])

theorem sign_then_verify_witness:
  "\<exists>m sig. new_manager plain_ed None (replicate 32 7) None None False [] = ([], Inr m) \<and>
     sign_payload plain_ed m (model_dump (TextP (text_of ''hi''))) = Inr sig \<and>
     verify_signature plain_ed (get_public_key_string m) sig (model_dump (TextP (text_of ''hi'')))"
proof -
  let ?m = "\<lparr>im_key_path = DEFAULT_KEY_FILE, was_loaded = False, private_key = replicate 32 7,
     im_public_key = replicate 32 7\<rparr>"
  have new: "new_manager plain_ed None (replicate 32 7) None None False [] = ([], Inr ?m)"
    by (simp add: new_manager_def plain_ed_def Let_def)
  show ?thesis
    using sign_then_verify [OF plain_ed_laws(1) new, of "TextP (text_of ''hi'')"] new by auto
qed

lemma signed_canon:
  assumes "ed_binding ed" "manager_wf ed m" "wf_payload p" "wf_payload q"
    "sign_payload ed m (model_dump p) = Inr sig"
    "verify_signature ed (get_public_key_string m) sig (model_dump q)"
  shows "canon (PDict (model_dump p)) = canon (PDict (model_dump q))"
proof -
  note jp = jsonable_model_dump [OF assms(3)] and jq = jsonable_model_dump [OF assms(4)]
  from assms(5) have sig:
    "sig = b64encode (ed_sign ed (private_key m) (utf8 (enc sign_opts (PDict (model_dump p)))))"
    by (simp add: sign_payload_jsonable [OF jp])
  from assms(1,2,6) have "utf8 (enc sign_opts (PDict (model_dump p))) =
      utf8 (enc sign_opts (PDict (model_dump q)))"
    unfolding sig verify_signature_jsonable [OF jq] verify_signed_bytes [OF assms(2)]
    by (auto simp: ed_binding_def manager_wf_def)
  then show ?thesis
    using enc_inj [OF std_sign_opts wf_model_dump [OF assms(3)] wf_model_dump [OF assms(4)]]
    by (simp only: utf8_inj)
qed

text \<open>C8: A signature binds the payload: if a signature made for payload \<open>p\<close> verifies for payload
  \<open>q\<close>, the two have the same canonical content (equal up to the order of dictionary keys), the
  same type, and a text payload is exactly the one signed.\<close>

theorem signature_binds_payload:
  assumes "ed_binding ed" "manager_wf ed m" "wf_payload p" "wf_payload q"
    "sign_payload ed m (model_dump p) = Inr sig"
    "verify_signature ed (get_public_key_string m) sig (model_dump q)"
  shows "canon (PDict (model_dump p)) = canon (PDict (model_dump q)) \<and>
    payload_type p = payload_type q \<and> (\<forall>t. p = TextP t \<longrightarrow> q = p)"
proof -
  note eq = signed_canon [OF assms]
  moreover have "q = p" if "p = TextP t" for t
    using canon_model_dump_text [of t q] eq unfolding that by blast
  ultimately show ?thesis using canon_model_dump_type [OF eq] by blast
qed

theorem signature_binds_payload_witness:
  "\<exists>sig. sign_payload plain_ed sample_manager (model_dump (TextP (text_of ''hi''))) = Inr sig \<and>
     \<not> verify_signature plain_ed (get_public_key_string sample_manager) sig
         (model_dump (TextP (text_of ''ho'')))"
proof -
  obtain sig where s: "sign_payload plain_ed sample_manager (model_dump (TextP (text_of ''hi''))) = Inr sig"
    using sign_payload_jsonable [OF jsonable_model_dump [of "TextP (text_of ''hi'')"]] by auto
  have "\<not> verify_signature plain_ed (get_public_key_string sample_manager) sig
         (model_dump (TextP (text_of ''ho'')))"
    using signature_binds_payload [OF plain_ed_laws(2) sample_manager_wf _ _ s, of "TextP (text_of ''ho'')"]
    by (auto simp: text_of_def)
  with s show ?thesis by blast
qed

lemma b64encode_no_space: "c \<in> set (b64encode bs) \<Longrightarrow> \<not> is_space c"
proof -
  have ch: "\<not> is_space (b64_char v)" if "0 \<le> v" "v < 64" for v
    using that by (auto simp: is_space_def Let_def b64_char_code)
  have eq: "\<not> is_space (CHR ''='')" by code_simp
  show "c \<in> set (b64encode bs) \<Longrightarrow> \<not> is_space c"
    by (induction bs rule: b64encode.induct) (auto simp: ch sextet_bounds eq)
qed

lemma py_strip_id: "\<forall>c \<in> set s. \<not> is_space c \<Longrightarrow> py_strip s = s"
  by (simp add: py_strip_def dropWhile_none)

text \<open>Key persistence: a key generated with \<^verbatim>\<open>auto_save\<close> is the key that the next start with
  the same path loads, marked as loaded, with the same public key string (no environment
  variable set, no key file before the first start).\<close>

theorem saved_key_is_loaded:
  assumes "ed_correct ed" "length fresh = 32" "map_of fs path = None"
    "new_manager ed None fresh None (Some path) True fs = (fs', Inr m)"
  shows "\<exists>m'. new_manager ed None fresh' None (Some path) auto fs' = (fs', Inr m') \<and>
    private_key m' = private_key m \<and> was_loaded m' \<and>
    get_public_key_string m' = get_public_key_string m"
proof -
  from assms have fs': "map_of fs' path = Some (b64encode fresh)" and m: "private_key m = fresh"
      "im_public_key m = ed_public ed fresh"
    by (auto simp: new_manager_def Let_def save_key_def get_private_key_bytes_def dict_get_set
          split: if_splits)
  have "load_key_from_file fs' path = Inr fresh"
    using fs' assms(2) py_strip_id [of "b64encode fresh"] b64encode_no_space
    by (simp add: load_key_from_file_def decode_key_def from_private_bytes_def b64decode_encode)
  with fs' m assms(1,2) show ?thesis
    by (simp add: new_manager_def Let_def get_public_key_string_def ed_correct_def)
qed

theorem saved_key_is_loaded_witness:
  "\<exists>fs' m m'. new_manager plain_ed None (replicate 32 7) None (Some ''k'') True [] = (fs', Inr m) \<and>
     new_manager plain_ed None (replicate 32 9) None (Some ''k'') True fs' = (fs', Inr m') \<and>
     private_key m' = private_key m \<and> was_loaded m'"
proof -
  let ?m = "\<lparr>im_key_path = ''k'', was_loaded = False, private_key = replicate 32 7,
     im_public_key = replicate 32 7\<rparr>"
  have new: "new_manager plain_ed None (replicate 32 7) None (Some ''k'') True []
      = (fst (save_key ?m (Some ''k'') []), Inr ?m)"
    by (simp add: new_manager_def plain_ed_def Let_def)
  from saved_key_is_loaded [OF plain_ed_laws(1) _ _ new, of "replicate 32 9" True] new
  show ?thesis by fastforce
qed

end
