(* ===== verification/JsonDoc.thy ===== *)
theory JsonDoc
  imports JsonLoads
begin

text \<open>
  What the relay and the node do with a decoded JSON document before they trust its shape:
  \<^verbatim>\<open>dict.get\<close> on a value that may be no dictionary, truth values, and hashability (a key of a
  Python dictionary). Two keys are equal when they are equal as JSON values.
\<close>

text \<open>\<^verbatim>\<open>d.get(k, default)\<close>, truth values and hashability of decoded JSON.\<close>

fun py_get :: "pyval \<Rightarrow> string \<Rightarrow> pyval \<Rightarrow> py_exn + pyval" where
  "py_get (PDict d) k dflt = Inr (case map_of d k of None \<Rightarrow> dflt | Some v \<Rightarrow> v)"
| "py_get _ k dflt = Inl (AttributeError ''object has no attribute get'')"

fun truthy :: "pyval \<Rightarrow> bool" where
  "truthy PNone = False"
| "truthy (PBool b) = b"
| "truthy (PInt i) = (i \<noteq> 0)"
| "truthy (PFloat r) = (r \<notin> set [''0.0'', ''-0.0''])"
| "truthy (PStr s) = (s \<noteq> [])"
| "truthy (PUuid u) = True"
| "truthy (PList vs) = (vs \<noteq> [])"
| "truthy (PDict kvs) = (kvs \<noteq> [])"

fun hashable :: "pyval \<Rightarrow> bool" where
  "hashable (PList vs) = False"
| "hashable (PDict kvs) = False"
| "hashable _ = True"

lemma py_get_PDict: "py_get v k dflt = Inr w \<Longrightarrow> \<exists>d. v = PDict d \<and> w = (case map_of d k of None \<Rightarrow> dflt | Some x \<Rightarrow> x)"
  by (cases v) simp_all

end
