(* ===== verification/TokenBucket.thy ===== *)
theory TokenBucket
  imports Prelude
begin

text \<open>
  \<^verbatim>\<open>TokenBucket\<close> of \<^verbatim>\<open>tpcp/relay/server.py\<close>, the relay's rate limiter per connection. The clock is
  an argument; tokens and times are exact rationals.
\<close>

record token_bucket =
  tb_rate :: rat
  tb_burst :: rat
  tb_tokens :: rat
  last_refill :: seconds

definition new_bucket :: "rat \<Rightarrow> int \<Rightarrow> seconds \<Rightarrow> token_bucket" where
  "new_bucket rate burst now =
     \<lparr>tb_rate = rate, tb_burst = of_int burst, tb_tokens = of_int burst, last_refill = now\<rparr>"

definition consume :: "seconds \<Rightarrow> rat \<Rightarrow> token_bucket \<Rightarrow> token_bucket \<times> bool" where
  "consume now n b =
     (let elapsed = now - last_refill b;
          tokens = min (tb_burst b) (tb_tokens b + elapsed * tb_rate b);
          b' = b\<lparr>last_refill := now, tb_tokens := tokens\<rparr>
      in if n \<le> tokens then (b'\<lparr>tb_tokens := tokens - n\<rparr>, True) else (b', False))"

text \<open>The bucket over a sequence of requests for one token, each at its time; counts the grants.\<close>

fun grants :: "seconds list \<Rightarrow> token_bucket \<Rightarrow> token_bucket \<times> nat" where
  "grants [] b = (b, 0)"
| "grants (t # ts) b =
     (let (b1, ok) = consume t 1 b; (b2, n) = grants ts b1 in (b2, if ok then Suc n else n))"

definition bucket_inv :: "token_bucket \<Rightarrow> bool" where
  "bucket_inv b \<longleftrightarrow> 0 \<le> tb_rate b \<and> 0 \<le> tb_tokens b \<and> tb_tokens b \<le> tb_burst b"

lemma new_bucket_inv: "0 \<le> rate \<Longrightarrow> 0 \<le> burst \<Longrightarrow> bucket_inv (new_bucket rate burst now)"
  by (simp add: bucket_inv_def new_bucket_def)

lemma consume_const [simp]:
  "tb_rate (fst (consume now n b)) = tb_rate b" "tb_burst (fst (consume now n b)) = tb_burst b"
  "last_refill (fst (consume now n b)) = now"
  by (simp_all add: consume_def Let_def)

lemma consume_inv:
  assumes "bucket_inv b" "last_refill b \<le> now" "0 \<le> n"
  shows "bucket_inv (fst (consume now n b))"
proof -
  have "0 \<le> (now - last_refill b) * tb_rate b" using assms by (simp add: bucket_inv_def)
  with assms show ?thesis by (auto simp: bucket_inv_def consume_def Let_def)
qed

lemma consume_tokens:
  "tb_tokens (fst (consume now 1 b)) \<le>
   tb_tokens b + (now - last_refill b) * tb_rate b - (if snd (consume now 1 b) then 1 else 0)"
  by (simp add: consume_def Let_def)

text \<open>Grants are paid for by tokens.\<close>

lemma grants_paid:
  assumes "bucket_inv b" "sorted (last_refill b # ts)"
  shows "bucket_inv (fst (grants ts b)) \<and>
    of_nat (snd (grants ts b)) + tb_tokens (fst (grants ts b)) \<le>
      tb_tokens b + (last (last_refill b # ts) - last_refill b) * tb_rate b"
  using assms
proof (induction ts arbitrary: b)
  case Nil
  then show ?case by simp
next
  case (Cons t ts)
  let ?b = "fst (consume t 1 b)"
  have "bucket_inv ?b" using Cons.prems by (intro consume_inv) auto
  with Cons.IH [of ?b] Cons.prems have ih: "bucket_inv (fst (grants ts ?b))"
    "of_nat (snd (grants ts ?b)) + tb_tokens (fst (grants ts ?b)) \<le> tb_tokens ?b + (last (t # ts) - t) * tb_rate b"
    by simp_all
  moreover have "fst (grants (t # ts) b) = fst (grants ts ?b)"
    "snd (grants (t # ts) b) = (if snd (consume t 1 b) then Suc (snd (grants ts ?b)) else snd (grants ts ?b))"
    by (simp_all add: Let_def case_prod_beta)
  moreover have "last (last_refill b # t # ts) = last (t # ts)" by simp
  moreover have "(last (t # ts) - last_refill b) * tb_rate b =
      (last (t # ts) - t) * tb_rate b + (t - last_refill b) * tb_rate b"
    by (simp add: left_diff_distrib)
  ultimately show ?case
    using consume_tokens [of t b] by (cases "snd (consume t 1 b)") (simp_all del: last.simps)
qed

section \<open>Properties\<close>

text \<open>C25: The rate limit holds: of any sequence of requests on one connection, at most the burst plus
  the rate times the time that passes from the first to the last are granted.\<close>

theorem grants_bounded:
  assumes "bucket_inv b" "sorted (t # ts)" "last_refill b \<le> t"
  shows "of_nat (snd (grants (t # ts) b)) \<le> tb_burst b + (last (t # ts) - t) * tb_rate b"
proof -
  let ?b = "fst (consume t 1 b)"
  have c: "bucket_inv ?b" using assms by (intro consume_inv) auto
  have g: "snd (grants (t # ts) b) = (if snd (consume t 1 b) then Suc (snd (grants ts ?b)) else snd (grants ts ?b))"
    by (simp add: Let_def case_prod_beta)
  have "of_nat (snd (grants ts ?b)) + tb_tokens (fst (grants ts ?b)) \<le> tb_tokens ?b + (last (t # ts) - t) * tb_rate b"
    using grants_paid [OF c, of ts] assms(2) by simp
  moreover have "0 \<le> tb_tokens (fst (grants ts ?b))"
    using grants_paid [OF c, of ts] assms(2) by (simp add: bucket_inv_def)
  moreover have "tb_tokens ?b + (if snd (consume t 1 b) then 1 else 0) \<le> tb_burst b"
    by (simp add: consume_def Let_def)
  ultimately show ?thesis unfolding g by (cases "snd (consume t 1 b)") (simp_all del: last.simps)
qed

theorem grants_bounded_witness:
  "of_nat (snd (grants [0, 0, 0, 1] (new_bucket 1 2 0))) \<le> (3 :: rat)"
proof -
  have "bucket_inv (new_bucket 1 2 0)" by (rule new_bucket_inv) simp_all
  from grants_bounded [OF this, of 0 "[0, 0, 1]"] show ?thesis by (simp add: new_bucket_def)
qed

text \<open>The limiter is not stricter than it says: while a connection has used fewer tokens than its
  burst, or waits at least one token's time between requests, every request is granted.\<close>

theorem paced_requests_granted:
  assumes "bucket_inv b" "1 \<le> tb_burst b" "1 \<le> tb_tokens b \<or> 1 \<le> (now - last_refill b) * tb_rate b" "last_refill b \<le> now"
  shows "snd (consume now 1 b)"
proof -
  have "0 \<le> (now - last_refill b) * tb_rate b" "0 \<le> tb_tokens b" using assms by (simp_all add: bucket_inv_def)
  with assms(3) have "1 \<le> tb_tokens b + (now - last_refill b) * tb_rate b" by linarith
  with assms(2) show ?thesis by (simp add: consume_def Let_def)
qed

theorem paced_requests_granted_witness:
  "snd (consume 2 1 (fst (consume 1 1 (new_bucket 1 1 0))))"
proof -
  have "bucket_inv (fst (consume 1 1 (new_bucket 1 1 0)))"
    by (intro consume_inv new_bucket_inv) (simp_all add: new_bucket_def)
  then show ?thesis by (rule paced_requests_granted) (simp_all add: new_bucket_def)
qed

end
