(* ===== verification/Relay.thy ===== *)
theory Relay
  imports Crypto JsonDoc TokenBucket
begin

text \<open>
  \<^verbatim>\<open>ADNSRelayServer\<close> of \<^verbatim>\<open>tpcp/relay/server.py\<close>: challenge-response registration, verified
  routing with TTL enforcement, rate limits and clean-up. Each event of a connection (it opens, it
  delivers a message, it closes) is one step of the state machine; the messages that the relay sends
  and the connections it closes are outputs, sent documents as JSON values (the text is
  \<^verbatim>\<open>json.dumps\<close> of them).

  What a step takes from outside is its environment: the clock, the remote address, the 32 random
  bytes, and whether a send on a connection succeeds. Every exception inside the message handler is
  caught and logged, so it ends the handling with the effects so far. A frame is its text.
\<close>

section \<open>State\<close>

record challenge =
  ch_ws :: conn
  nonce :: string
  ch_public_key :: string
  ch_timestamp :: seconds

record registration =
  reg_ws :: conn
  reg_public_key :: string

record relay =
  rate_limit :: rat
  burst_limit :: int
  registry :: "(pyval, registration) dict"
  pending_challenges :: "(pyval, challenge) dict"
  rate_limiters :: "(conn, token_bucket) dict"
  challenge_rate_limits :: "(string, seconds list) dict"

definition new_relay :: "rat \<Rightarrow> int \<Rightarrow> relay" where
  "new_relay rate burst = \<lparr>rate_limit = rate, burst_limit = burst, registry = [],
     pending_challenges = [], rate_limiters = [], challenge_rate_limits = []\<rparr>"

datatype send_result = SendOk | SendClosed | SendError

record env =
  now :: seconds
  remote_ip :: string
  urandom :: bytes
  send_result :: "conn \<Rightarrow> send_result"

datatype relay_out = SendTo conn pyval | CloseConn conn nat

section \<open>Identifiers\<close>

definition BROADCAST_ID :: string where
  "BROADCAST_ID = ''00000000-0000-0000-0000-000000000000''"

lemma BROADCAST_ID_uuid: "BROADCAST_ID = uuid_str 0"
  by code_simp

definition hex_of_bytes :: "bytes \<Rightarrow> string" where
  "hex_of_bytes bs = concat (map (\<lambda>b. hex_fixed 2 (uint b)) bs)"

section \<open>Registration\<close>

definition cleanup_stale_challenges :: "env \<Rightarrow> relay \<Rightarrow> relay" where
  "cleanup_stale_challenges env r =
     (let stale = map fst (filter (\<lambda>(aid, info). 300 < now env - ch_timestamp info) (pending_challenges r))
      in r\<lparr>pending_challenges := dict_del_all stale (pending_challenges r)\<rparr>)"

text \<open>The public key in the identity document of a handshake: \<^verbatim>\<open>None\<close> when the doc_text is no JSON
  text, an error when it is JSON but no object.\<close>

definition claimed_key :: "pyval \<Rightarrow> py_exn + pyval" where
  "claimed_key doc_text =
     (case doc_text of
        PStr s \<Rightarrow> (case json_loads s of None \<Rightarrow> Inr PNone | Some doc \<Rightarrow> py_get doc ''public_key'' PNone)
      | _ \<Rightarrow> Inr PNone)"

definition challenge_msg :: "pyval \<Rightarrow> string \<Rightarrow> pyval" where
  "challenge_msg sid n = PDict [(''type'', PStr ''ADNS_CHALLENGE''), (''agent_id'', sid), (''nonce'', PStr n)]"

definition confirm_msg :: "pyval \<Rightarrow> pyval" where
  "confirm_msg sid = PDict [(''type'', PStr ''ADNS_REGISTERED''), (''agent_id'', sid)]"

text \<open>The part of \<^verbatim>\<open>_initiate_challenge\<close> after the rate limit.\<close>

definition send_challenge :: "env \<Rightarrow> pyval \<Rightarrow> string \<Rightarrow> conn \<Rightarrow> relay \<Rightarrow> relay \<times> relay_out list" where
  "send_challenge env sid key ws r =
     (case b64decode False key of
        None \<Rightarrow> (r, [])
      | Some decoded \<Rightarrow>
          if length decoded \<noteq> 32 then (r, [])
          else
            let n = hex_of_bytes (urandom env);
                r = r\<lparr>pending_challenges := AList.update sid
                      \<lparr>ch_ws = ws, nonce = n, ch_public_key = key, ch_timestamp = now env\<rparr>
                      (pending_challenges r)\<rparr>
            in if send_result env ws = SendOk then (r, [SendTo ws (challenge_msg sid n)])
               else (r\<lparr>pending_challenges := AList.delete sid (pending_challenges r)\<rparr>, []))"

definition recent_challenges :: "env \<Rightarrow> relay \<Rightarrow> seconds list" where
  "recent_challenges env r =
     filter (\<lambda>t. now env - t < 60)
       (case map_of (challenge_rate_limits r) (remote_ip env) of None \<Rightarrow> [] | Some ts \<Rightarrow> ts)"

definition initiate_challenge :: "env \<Rightarrow> pyval \<Rightarrow> pyval \<Rightarrow> conn \<Rightarrow> relay \<Rightarrow> relay \<times> relay_out list" where
  "initiate_challenge env sid data ws r =
     (let r = cleanup_stale_challenges env r;
          times = recent_challenges env r
      in if 10 \<le> length times
         then (r\<lparr>challenge_rate_limits := AList.update (remote_ip env) times (challenge_rate_limits r)\<rparr>, [])
         else
           let r = r\<lparr>challenge_rate_limits :=
                       AList.update (remote_ip env) (times @ [now env]) (challenge_rate_limits r)\<rparr>
           in case py_get data ''payload'' (PDict []) of
                Inl _ \<Rightarrow> (r, [])
              | Inr pl \<Rightarrow> (case py_get pl ''content'' (PStr []) of
                    Inl _ \<Rightarrow> (r, [])
                  | Inr doc_text \<Rightarrow> (case claimed_key doc_text of
                        Inl _ \<Rightarrow> (r, [])
                      | Inr key \<Rightarrow>
                          if \<not> truthy key then (r, [])
                          else (case key of
                              PStr k \<Rightarrow> send_challenge env sid k ws r
                            | _ \<Rightarrow> (r, [])))))"

definition handle_challenge_response ::
  "ed25519 \<Rightarrow> env \<Rightarrow> pyval \<Rightarrow> pyval \<Rightarrow> conn \<Rightarrow> relay \<Rightarrow> relay \<times> relay_out list" where
  "handle_challenge_response ed env sid data ws r =
     (if \<not> hashable sid then (r, [])
      else case map_of (pending_challenges r) sid of
          None \<Rightarrow> (r, [])
        | Some ch \<Rightarrow>
            (case py_get data ''payload'' (PDict []) of
               Inl _ \<Rightarrow> (r, [])
             | Inr pl \<Rightarrow> (case py_get pl ''content'' (PStr []) of
                   Inl _ \<Rightarrow> (r, [])
                 | Inr signed_nonce \<Rightarrow>
                     let done = r\<lparr>pending_challenges := AList.delete sid (pending_challenges r)\<rparr>
                     in if \<not> truthy signed_nonce then (done, [])
                        else if (case signed_nonce of
                            PStr s \<Rightarrow> verify_bytes ed (ch_public_key ch) s (utf8 (nonce ch))
                          | _ \<Rightarrow> False)
                        then (done\<lparr>registry := AList.update sid
                                \<lparr>reg_ws = ws, reg_public_key = ch_public_key ch\<rparr> (registry r)\<rparr>,
                              if send_result env ws = SendOk then [SendTo ws (confirm_msg sid)] else [])
                        else (done, [CloseConn ws 1008]))))"

section \<open>Routing\<close>

text \<open>The fan-out: what is delivered, and the peers whose send failed.\<close>

definition fan_out :: "env \<Rightarrow> pyval \<Rightarrow> pyval \<Rightarrow> relay \<Rightarrow> relay \<times> relay_out list" where
  "fan_out env sid msg r =
     (let peers = filter (\<lambda>(peer, info). peer \<noteq> sid) (registry r);
          (ok, failed) = partition (\<lambda>(peer, info). send_result env (reg_ws info) = SendOk) peers
      in (r\<lparr>registry := dict_del_all (map fst failed) (registry r)\<rparr>,
          map (\<lambda>(peer, info). SendTo (reg_ws info) msg) ok))"

definition route_to :: "env \<Rightarrow> pyval \<Rightarrow> registration \<Rightarrow> pyval \<Rightarrow> relay \<Rightarrow> relay \<times> relay_out list" where
  "route_to env target info msg r =
     (case send_result env (reg_ws info) of
        SendOk \<Rightarrow> (r, [SendTo (reg_ws info) msg])
      | SendClosed \<Rightarrow> (r\<lparr>registry := AList.delete target (registry r)\<rparr>, [])
      | SendError \<Rightarrow> (r, []))"

text \<open>\<^verbatim>\<open>ttl <= 0\<close>, which raises for anything but a number, and \<^verbatim>\<open>ttl - 1\<close>. A float is a number too, and \<^verbatim>\<open>NaN\<close> never
  expires.\<close>

fun ttl_expired :: "pyval \<Rightarrow> bool option" where
  "ttl_expired (PInt i) = Some (i \<le> 0)"
| "ttl_expired (PBool b) = Some (\<not> b)"
| "ttl_expired (PFloat r) = Some (float_le_0 r)"
| "ttl_expired _ = None"

fun ttl_pred :: "pyval \<Rightarrow> pyval" where
  "ttl_pred (PInt i) = PInt (i - 1)"
| "ttl_pred (PBool b) = PInt (if b then 0 else - 1)"
| "ttl_pred (PFloat r) = PFloat (float_pred r)"
| "ttl_pred v = v"

definition forwarded :: "(string, pyval) dict \<Rightarrow> (string, pyval) dict \<Rightarrow> pyval \<Rightarrow> pyval" where
  "forwarded data hdr t =
     PDict (AList.update ''header'' (PDict (AList.update ''ttl'' (ttl_pred t) hdr)) data)"

definition route ::
  "env \<Rightarrow> pyval \<Rightarrow> (string, pyval) dict \<Rightarrow> (string, pyval) dict \<Rightarrow> relay \<Rightarrow> relay \<times> relay_out list" where
  "route env sid data hdr r =
     (let target = (case map_of hdr ''receiver_id'' of None \<Rightarrow> PNone | Some t \<Rightarrow> t);
          ttl = (case map_of hdr ''ttl'' of None \<Rightarrow> PInt 30 | Some t \<Rightarrow> t)
      in case ttl_expired ttl of
           None \<Rightarrow> (r, [])
         | Some expired \<Rightarrow>
             if expired then (r, [])
             else
               let msg = forwarded data hdr ttl
               in if target = PStr BROADCAST_ID then fan_out env sid msg r
                  else if truthy target \<and> hashable target \<and> target \<noteq> sid
                  then (case map_of (registry r) target of
                      None \<Rightarrow> (r, [])
                    | Some info \<Rightarrow> route_to env target info msg r)
                  else (r, []))"

section \<open>Events\<close>

text \<open>The body of the message loop, from the decoded document on.\<close>

definition process_message :: "ed25519 \<Rightarrow> env \<Rightarrow> conn \<Rightarrow> pyval \<Rightarrow> relay \<Rightarrow> relay \<times> relay_out list" where
  "process_message ed env ws data r =
     (case data of
        PDict dd \<Rightarrow>
          (case (case map_of dd ''header'' of None \<Rightarrow> PDict [] | Some h \<Rightarrow> h) of
             PDict hdr \<Rightarrow>
               (let intent = (case map_of hdr ''intent'' of None \<Rightarrow> PNone | Some v \<Rightarrow> v);
                    sid = (case map_of hdr ''sender_id'' of None \<Rightarrow> PNone | Some v \<Rightarrow> v)
                in if \<not> truthy sid then (r, [])
                   else if intent = PStr ''Challenge_Response''
                   then handle_challenge_response ed env sid data ws r
                   else if \<not> hashable sid then (r, [])
                   else (case map_of (registry r) sid of
                       None \<Rightarrow>
                         if map_of (pending_challenges r) sid = None
                         then initiate_challenge env sid data ws r
                         else (r, [])
                     | Some info \<Rightarrow>
                         if reg_ws info \<noteq> ws then initiate_challenge env sid data ws r
                         else route env sid dd hdr r))
           | _ \<Rightarrow> (r, []))
      | _ \<Rightarrow> (r, []))"

text \<open>The \<^verbatim>\<open>finally\<close> block.\<close>

definition cleanup_connection :: "conn \<Rightarrow> relay \<Rightarrow> relay" where
  "cleanup_connection ws r =
     r\<lparr>rate_limiters := AList.delete ws (rate_limiters r),
       registry := dict_del_all (map fst (filter (\<lambda>(aid, info). reg_ws info = ws) (registry r))) (registry r),
       pending_challenges :=
         dict_del_all (map fst (filter (\<lambda>(aid, info). ch_ws info = ws) (pending_challenges r)))
           (pending_challenges r)\<rparr>"

definition MAX_MESSAGE :: nat where
  "MAX_MESSAGE = 1048576"

text \<open>One message; a connection without a limiter is one whose loop has ended.\<close>

definition handle_message :: "ed25519 \<Rightarrow> env \<Rightarrow> conn \<Rightarrow> string \<Rightarrow> relay \<Rightarrow> relay \<times> relay_out list" where
  "handle_message ed env ws msg r =
     (case map_of (rate_limiters r) ws of
        None \<Rightarrow> (r, [])
      | Some limiter \<Rightarrow>
          (let (limiter', granted) = consume (now env) 1 limiter;
               r = r\<lparr>rate_limiters := AList.update ws limiter' (rate_limiters r)\<rparr>
           in if \<not> granted then (cleanup_connection ws r, [CloseConn ws 1008])
              else if MAX_MESSAGE < length msg then (cleanup_connection ws r, [CloseConn ws 1009])
              else (case json_loads msg of
                  None \<Rightarrow> (r, [])
                | Some data \<Rightarrow> process_message ed env ws data r)))"

definition open_connection :: "seconds \<Rightarrow> conn \<Rightarrow> relay \<Rightarrow> relay" where
  "open_connection t ws r =
     r\<lparr>rate_limiters := AList.update ws (new_bucket (rate_limit r) (burst_limit r) t) (rate_limiters r)\<rparr>"

text \<open>\<^verbatim>\<open>GET /health\<close> before the upgrade.\<close>

definition process_request :: "string \<Rightarrow> relay \<Rightarrow> (nat \<times> pyval) option" where
  "process_request path r =
     (if path = ''/health''
      then Some (200, PDict [(''status'', PStr ''ok''),
             (''registered_nodes'', PInt (int (length (registry r))))])
      else None)"

datatype relay_event =
    Opened seconds conn
  | Message env conn string
  | Closed conn

fun relay_step :: "ed25519 \<Rightarrow> relay_event \<Rightarrow> relay \<Rightarrow> relay \<times> relay_out list" where
  "relay_step ed (Opened t ws) r = (open_connection t ws r, [])"
| "relay_step ed (Message env ws msg) r = handle_message ed env ws msg r"
| "relay_step ed (Closed ws) r = (cleanup_connection ws r, [])"

text \<open>A run from a state, with the outputs of every event.\<close>

inductive relay_run :: "ed25519 \<Rightarrow> relay \<Rightarrow> (relay_event \<times> relay_out list) list \<Rightarrow> relay \<Rightarrow> bool"
  for ed r0 where
  start: "relay_run ed r0 [] r0"
| step: "relay_run ed r0 tr r \<Longrightarrow> relay_step ed ev r = (r', outs) \<Longrightarrow>
    relay_run ed r0 (tr @ [(ev, outs)]) r'"

inductive_cases relay_run_snocE: "relay_run ed r0 (tr @ [x]) r"


section \<open>What a step adds to the tables\<close>

lemmas relay_splits = option.splits sum.splits pyval.splits if_splits send_result.splits prod.splits

lemma send_challenge_tables:
  "send_challenge env sid key ws r = (r', outs) \<Longrightarrow> registry r' = registry r \<and>
   (map_of (pending_challenges r') a = Some ch \<longrightarrow>
      map_of (pending_challenges r) a = Some ch \<or>
      a = sid \<and> ch_public_key ch = key \<and> ch_ws ch = ws \<and> outs = [SendTo ws (challenge_msg sid (nonce ch))])"
  by (auto simp: send_challenge_def Let_def dict_simps split: option.splits if_splits)

lemma cleanup_stale_tables:
  "registry (cleanup_stale_challenges env r) = registry r"
  "map_of (pending_challenges (cleanup_stale_challenges env r)) a = Some ch \<Longrightarrow>
   map_of (pending_challenges r) a = Some ch"
  by (auto simp: cleanup_stale_challenges_def Let_def dict_simps split: if_splits)

text \<open>\<^verbatim>\<open>_initiate_challenge\<close> either sends a challenge from a cleaned-up state or sends none.\<close>

lemma initiate_cases:
  obtains r1 where "initiate_challenge env sid data ws r = (r1, [])"
    "registry r1 = registry r" "pending_challenges r1 = pending_challenges (cleanup_stale_challenges env r)"
    "rate_limiters r1 = rate_limiters r"
  | key r1 where "initiate_challenge env sid data ws r = send_challenge env sid key ws r1"
    "registry r1 = registry r" "pending_challenges r1 = pending_challenges (cleanup_stale_challenges env r)"
    "rate_limiters r1 = rate_limiters r" "key \<noteq> []"
    "length (recent_challenges env (cleanup_stale_challenges env r)) < 10"
proof -
  let ?r = "cleanup_stale_challenges env r" and ?times = "recent_challenges env (cleanup_stale_challenges env r)"
  let ?lim = "\<lambda>ts. ?r\<lparr>challenge_rate_limits := AList.update (remote_ip env) ts (challenge_rate_limits ?r)\<rparr>"
  have same: "registry (?lim ts) = registry r" "pending_challenges (?lim ts) = pending_challenges ?r"
    "rate_limiters (?lim ts) = rate_limiters r" for ts
    by (simp_all add: cleanup_stale_challenges_def Let_def)
  have "(\<exists>ts. initiate_challenge env sid data ws r = (?lim ts, [])) \<or>
      (\<exists>ts key. initiate_challenge env sid data ws r = send_challenge env sid key ws (?lim ts) \<and> key \<noteq> [] \<and>
        length ?times < 10)"
    by (simp add: initiate_challenge_def Let_def split: sum.split pyval.split) blast
  with that same show thesis by metis
qed


lemma initiate_tables:
  assumes "initiate_challenge env sid data ws r = (r', outs)"
  shows "registry r' = registry r"
    "map_of (pending_challenges r') a = Some ch \<Longrightarrow> map_of (pending_challenges r) a = Some ch \<or>
       SendTo (ch_ws ch) (challenge_msg a (nonce ch)) \<in> set outs"
proof -
  have "registry r' = registry r \<and> (map_of (pending_challenges r') a = Some ch \<longrightarrow>
      map_of (pending_challenges r) a = Some ch \<or> SendTo (ch_ws ch) (challenge_msg a (nonce ch)) \<in> set outs)"
  proof (rule initiate_cases [of env sid data ws r])
    fix r1 assume "initiate_challenge env sid data ws r = (r1, [])" "registry r1 = registry r"
      "pending_challenges r1 = pending_challenges (cleanup_stale_challenges env r)"
    with assms cleanup_stale_tables(2) [of env r a ch] show ?thesis by auto
  next
    fix key r1 assume i: "initiate_challenge env sid data ws r = send_challenge env sid key ws r1"
      "registry r1 = registry r" "pending_challenges r1 = pending_challenges (cleanup_stale_challenges env r)"
    with assms have "send_challenge env sid key ws r1 = (r', outs)" by simp
    from send_challenge_tables [OF this, of a ch] i(2,3) cleanup_stale_tables(2) [of env r a ch]
    show ?thesis by auto
  qed
  then show "registry r' = registry r"
    "map_of (pending_challenges r') a = Some ch \<Longrightarrow> map_of (pending_challenges r) a = Some ch \<or>
       SendTo (ch_ws ch) (challenge_msg a (nonce ch)) \<in> set outs" by simp_all
qed

lemma fan_out_tables:
  "fan_out env sid msg r = (r', outs) \<Longrightarrow> pending_challenges r' = pending_challenges r \<and>
   (map_of (registry r') a = Some reg \<longrightarrow> map_of (registry r) a = Some reg)"
  by (auto simp: fan_out_def Let_def dict_simps split: if_splits)

lemma route_tables:
  "route env sid dd hdr r = (r', outs) \<Longrightarrow> pending_challenges r' = pending_challenges r \<and>
   (map_of (registry r') a = Some reg \<longrightarrow> map_of (registry r) a = Some reg)"
  using fan_out_tables [of env sid _ r r' outs a reg]
  by (auto simp: route_def route_to_def Let_def dict_simps split: option.splits if_splits send_result.splits)

text \<open>A challenge response for \<open>sid\<close> that carries \<open>sig\<close>.\<close>

definition response_doc :: "pyval \<Rightarrow> pyval \<Rightarrow> string \<Rightarrow> bool" where
  "response_doc data sid sig \<longleftrightarrow> (\<exists>dd hdr pl. data = PDict dd \<and> map_of dd ''header'' = Some (PDict hdr) \<and>
     map_of hdr ''intent'' = Some (PStr ''Challenge_Response'') \<and> map_of hdr ''sender_id'' = Some sid \<and>
     map_of dd ''payload'' = Some (PDict pl) \<and> map_of pl ''content'' = Some (PStr sig))"

lemma response_tables:
  assumes "handle_challenge_response ed env sid (PDict dd) ws r = (r', outs)"
  shows "map_of (pending_challenges r') a = Some ch \<longrightarrow> map_of (pending_challenges r) a = Some ch"
    "map_of (registry r') a = Some reg \<Longrightarrow> map_of (registry r) a = Some reg \<or>
       a = sid \<and> reg_ws reg = ws \<and> (\<exists>ch pl sig. map_of (pending_challenges r) sid = Some ch \<and>
         map_of dd ''payload'' = Some (PDict pl) \<and> map_of pl ''content'' = Some (PStr sig) \<and>
         reg_public_key reg = ch_public_key ch \<and> verify_bytes ed (ch_public_key ch) sig (utf8 (nonce ch)))"
proof -
  have get: "py_get d k (PDict []) = Inr pl \<Longrightarrow> py_get pl k' (PStr []) = Inr v \<Longrightarrow> truthy v \<Longrightarrow>
      \<exists>dd' pd. d = PDict dd' \<and> map_of dd' k = Some pl \<and> pl = PDict pd \<and> map_of pd k' = Some v" for d k k' pl v
    by (cases d; cases pl) (auto split: option.splits)
  show "map_of (pending_challenges r') a = Some ch \<longrightarrow> map_of (pending_challenges r) a = Some ch"
    using assms by (auto simp: handle_challenge_response_def Let_def dict_simps split: option.splits sum.splits if_splits)
  assume a: "map_of (registry r') a = Some reg"
  consider (same) "registry r' = registry r"
    | (new) ch pl sig where "map_of (pending_challenges r) sid = Some ch"
        "py_get (PDict dd) ''payload'' (PDict []) = Inr pl" "py_get pl ''content'' (PStr []) = Inr (PStr sig)"
        "truthy (PStr sig)" "verify_bytes ed (ch_public_key ch) sig (utf8 (nonce ch))"
        "registry r' = AList.update sid \<lparr>reg_ws = ws, reg_public_key = ch_public_key ch\<rparr> (registry r)"
    using assms unfolding handle_challenge_response_def Let_def
    by (auto split: option.splits sum.splits if_splits pyval.splits)
  then show "map_of (registry r) a = Some reg \<or> a = sid \<and> reg_ws reg = ws \<and>
      (\<exists>ch pl sig. map_of (pending_challenges r) sid = Some ch \<and>
         map_of dd ''payload'' = Some (PDict pl) \<and> map_of pl ''content'' = Some (PStr sig) \<and>
         reg_public_key reg = ch_public_key ch \<and> verify_bytes ed (ch_public_key ch) sig (utf8 (nonce ch)))"
  proof cases
    case same
    with a show ?thesis by simp
  next
    case new
    from get [OF new(2,3,4)] new a show ?thesis by (auto simp: dict_simps split: if_splits)
  qed
qed

lemma process_tables:
  assumes "process_message ed env ws data r = (r', outs)"
  shows "map_of (pending_challenges r') a = Some ch \<Longrightarrow> map_of (pending_challenges r) a = Some ch \<or>
       SendTo (ch_ws ch) (challenge_msg a (nonce ch)) \<in> set outs"
    "map_of (registry r') a = Some reg \<Longrightarrow> map_of (registry r) a = Some reg \<or>
       reg_ws reg = ws \<and> (\<exists>ch sig. map_of (pending_challenges r) a = Some ch \<and> response_doc data a sig \<and>
         reg_public_key reg = ch_public_key ch \<and> verify_bytes ed (ch_public_key ch) sig (utf8 (nonce ch)))"
proof -
  consider (idle) "r' = r"
    | (init) sid where "initiate_challenge env sid data ws r = (r', outs)"
    | (route) sid dd hdr where "route env sid dd hdr r = (r', outs)"
    | (resp) sid dd hdr where "handle_challenge_response ed env sid (PDict dd) ws r = (r', outs)"
        "data = PDict dd" "map_of dd ''header'' = Some (PDict hdr)"
        "map_of hdr ''intent'' = Some (PStr ''Challenge_Response'')" "map_of hdr ''sender_id'' = Some sid"
    using assms unfolding process_message_def Let_def
    by (auto split: pyval.splits option.splits if_splits)
  then have "(map_of (pending_challenges r') a = Some ch \<longrightarrow> map_of (pending_challenges r) a = Some ch \<or>
       SendTo (ch_ws ch) (challenge_msg a (nonce ch)) \<in> set outs) \<and>
    (map_of (registry r') a = Some reg \<longrightarrow> map_of (registry r) a = Some reg \<or>
       reg_ws reg = ws \<and> (\<exists>ch sig. map_of (pending_challenges r) a = Some ch \<and> response_doc data a sig \<and>
         reg_public_key reg = ch_public_key ch \<and> verify_bytes ed (ch_public_key ch) sig (utf8 (nonce ch))))"
  proof cases
    case init
    from initiate_tables [OF this] show ?thesis by auto
  next
    case route
    from route_tables [OF this, of a reg] show ?thesis by auto
  next
    case resp
    have doc: "response_doc data sid sig" if "map_of dd ''payload'' = Some (PDict pl)"
      "map_of pl ''content'' = Some (PStr sig)" for pl sig
      using resp(2-) that by (auto simp: response_doc_def)
    show ?thesis
      using response_tables(1) [OF resp(1), of a ch] response_tables(2) [OF resp(1), of a reg]
      by (metis doc)
  qed simp
  then show "map_of (pending_challenges r') a = Some ch \<Longrightarrow> map_of (pending_challenges r) a = Some ch \<or>
       SendTo (ch_ws ch) (challenge_msg a (nonce ch)) \<in> set outs"
    "map_of (registry r') a = Some reg \<Longrightarrow> map_of (registry r) a = Some reg \<or>
       reg_ws reg = ws \<and> (\<exists>ch sig. map_of (pending_challenges r) a = Some ch \<and> response_doc data a sig \<and>
         reg_public_key reg = ch_public_key ch \<and> verify_bytes ed (ch_public_key ch) sig (utf8 (nonce ch)))"
    by blast+
qed

lemma cleanup_tables:
  "map_of (registry (cleanup_connection ws r)) a = Some reg \<Longrightarrow> map_of (registry r) a = Some reg"
  "map_of (pending_challenges (cleanup_connection ws r)) a = Some ch \<Longrightarrow> map_of (pending_challenges r) a = Some ch"
  by (auto simp: cleanup_connection_def dict_simps split: if_splits)

lemma step_tables:
  assumes "relay_step ed ev r = (r', outs)"
  shows "map_of (pending_challenges r') a = Some ch \<Longrightarrow> map_of (pending_challenges r) a = Some ch \<or>
       SendTo (ch_ws ch) (challenge_msg a (nonce ch)) \<in> set outs"
    "map_of (registry r') a = Some reg \<Longrightarrow> map_of (registry r) a = Some reg \<or>
       (\<exists>env msg data ch sig. ev = Message env (reg_ws reg) msg \<and> json_loads msg = Some data \<and>
         map_of (pending_challenges r) a = Some ch \<and> response_doc data a sig \<and>
         reg_public_key reg = ch_public_key ch \<and> verify_bytes ed (ch_public_key ch) sig (utf8 (nonce ch)))"
proof -
  let ?P = "map_of (pending_challenges r') a = Some ch \<longrightarrow> map_of (pending_challenges r) a = Some ch \<or>
       SendTo (ch_ws ch) (challenge_msg a (nonce ch)) \<in> set outs"
  let ?R = "map_of (registry r') a = Some reg \<longrightarrow> map_of (registry r) a = Some reg \<or>
       (\<exists>env msg data ch sig. ev = Message env (reg_ws reg) msg \<and> json_loads msg = Some data \<and>
         map_of (pending_challenges r) a = Some ch \<and> response_doc data a sig \<and>
         reg_public_key reg = ch_public_key ch \<and> verify_bytes ed (ch_public_key ch) sig (utf8 (nonce ch)))"
  have "?P \<and> ?R"
  proof (cases ev)
    case (Message env ws msg)
    show ?thesis
    proof (cases "map_of (rate_limiters r) ws")
      case None
      with assms Message show ?thesis by (simp add: handle_message_def)
    next
      case (Some limiter)
      let ?r = "r\<lparr>rate_limiters := AList.update ws (fst (consume (now env) 1 limiter)) (rate_limiters r)\<rparr>"
      consider "r' = cleanup_connection ws ?r" | "r' = ?r"
        | data where "json_loads msg = Some data" "process_message ed env ws data ?r = (r', outs)"
        using assms Message Some
        by (auto simp: handle_message_def Let_def case_prod_beta split: if_splits option.splits)
      then show ?thesis
      proof cases
        case 1
        with cleanup_tables [of ws ?r a] show ?thesis by simp
      next
        case 2
        then show ?thesis by simp
      next
        case 3
        with process_tables [OF 3(2), of a] Message show ?thesis by auto
      qed
    qed
  next
    case (Closed ws)
    with assms cleanup_tables [of ws r a] show ?thesis by auto
  qed (use assms in \<open>auto simp: open_connection_def\<close>)
  then show "map_of (pending_challenges r') a = Some ch \<Longrightarrow> map_of (pending_challenges r) a = Some ch \<or>
       SendTo (ch_ws ch) (challenge_msg a (nonce ch)) \<in> set outs"
    "map_of (registry r') a = Some reg \<Longrightarrow> map_of (registry r) a = Some reg \<or>
       (\<exists>env msg data ch sig. ev = Message env (reg_ws reg) msg \<and> json_loads msg = Some data \<and>
         map_of (pending_challenges r) a = Some ch \<and> response_doc data a sig \<and>
         reg_public_key reg = ch_public_key ch \<and> verify_bytes ed (ch_public_key ch) sig (utf8 (nonce ch)))"
    by simp_all
qed


section \<open>Invariant\<close>

text \<open>Every entry belongs to an open connection, and the limiters are consistent.\<close>

definition relay_inv :: "relay \<Rightarrow> bool" where
  "relay_inv r \<longleftrightarrow>
     (\<forall>a reg. map_of (registry r) a = Some reg \<longrightarrow> map_of (rate_limiters r) (reg_ws reg) \<noteq> None) \<and>
     (\<forall>a ch. map_of (pending_challenges r) a = Some ch \<longrightarrow> map_of (rate_limiters r) (ch_ws ch) \<noteq> None)"

lemma send_challenge_rest:
  "send_challenge env sid key ws r = (r', outs) \<Longrightarrow> rate_limiters r' = rate_limiters r \<and>
   (map_of (pending_challenges r') a = Some ch \<longrightarrow> map_of (pending_challenges r) a = Some ch \<or> ch_ws ch = ws)"
  by (auto simp: send_challenge_def Let_def dict_simps split: option.splits if_splits)

lemma initiate_rest:
  assumes "initiate_challenge env sid data ws r = (r', outs)"
  shows "rate_limiters r' = rate_limiters r \<and>
   (map_of (pending_challenges r') a = Some ch \<longrightarrow> map_of (pending_challenges r) a = Some ch \<or> ch_ws ch = ws)"
proof (rule initiate_cases [of env sid data ws r])
  fix r1 assume "initiate_challenge env sid data ws r = (r1, [])" "rate_limiters r1 = rate_limiters r"
    "pending_challenges r1 = pending_challenges (cleanup_stale_challenges env r)"
  with assms cleanup_stale_tables(2) [of env r a ch] show ?thesis by auto
next
  fix key r1 assume i: "initiate_challenge env sid data ws r = send_challenge env sid key ws r1"
    "rate_limiters r1 = rate_limiters r" "pending_challenges r1 = pending_challenges (cleanup_stale_challenges env r)"
  with assms have "send_challenge env sid key ws r1 = (r', outs)" by simp
  from send_challenge_rest [OF this, of a ch] i(2,3) cleanup_stale_tables(2) [of env r a ch]
  show ?thesis by auto
qed

lemma response_rest:
  "handle_challenge_response ed env sid data ws r = (r', outs) \<Longrightarrow> rate_limiters r' = rate_limiters r \<and>
   (map_of (pending_challenges r') a = Some ch \<longrightarrow> map_of (pending_challenges r) a = Some ch)"
  by (auto simp: handle_challenge_response_def Let_def dict_simps split: option.splits sum.splits if_splits)

lemma route_rest:
  "route env sid dd hdr r = (r', outs) \<Longrightarrow> rate_limiters r' = rate_limiters r"
  by (auto simp: route_def route_to_def fan_out_def Let_def split: option.splits if_splits send_result.splits)

lemma process_rest:
  assumes "process_message ed env ws data r = (r', outs)"
  shows "rate_limiters r' = rate_limiters r"
    "map_of (pending_challenges r') a = Some ch \<Longrightarrow> map_of (pending_challenges r) a = Some ch \<or> ch_ws ch = ws"
proof -
  consider (idle) "r' = r"
    | (init) sid where "initiate_challenge env sid data ws r = (r', outs)"
    | (route) sid dd hdr where "route env sid dd hdr r = (r', outs)"
    | (resp) sid where "handle_challenge_response ed env sid data ws r = (r', outs)"
    using assms unfolding process_message_def Let_def
    by (auto split: pyval.splits option.splits if_splits)
  then have "rate_limiters r' = rate_limiters r \<and> (map_of (pending_challenges r') a = Some ch \<longrightarrow>
      map_of (pending_challenges r) a = Some ch \<or> ch_ws ch = ws)"
  proof cases
    case init
    then show ?thesis by (rule initiate_rest)
  next
    case route
    from route_rest [OF this] route_tables [OF this] show ?thesis by auto
  next
    case resp
    from response_rest [OF this, of a ch] show ?thesis by auto
  qed simp
  then show "rate_limiters r' = rate_limiters r"
    "map_of (pending_challenges r') a = Some ch \<Longrightarrow> map_of (pending_challenges r) a = Some ch \<or> ch_ws ch = ws"
    by simp_all
qed

lemma cleanup_forgets:
  "map_of (registry (cleanup_connection ws r)) a = Some reg \<Longrightarrow> reg_ws reg \<noteq> ws"
  "map_of (pending_challenges (cleanup_connection ws r)) a = Some ch \<Longrightarrow> ch_ws ch \<noteq> ws"
  using map_of_SomeD [of "registry r" a reg] map_of_SomeD [of "pending_challenges r" a ch]
  by (force simp: cleanup_connection_def dict_simps split: if_splits)+

lemma cleanup_inv: "relay_inv r \<Longrightarrow> relay_inv (cleanup_connection ws r)"
proof -
  assume r: "relay_inv r"
  have "rate_limiters (cleanup_connection ws r) = AList.delete ws (rate_limiters r)"
    by (simp add: cleanup_connection_def)
  with r cleanup_tables [of ws r] cleanup_forgets [of ws r] show ?thesis
    unfolding relay_inv_def by (metis dict_get_del fun_upd_other)
qed

lemma limiter_inv: "relay_inv r \<Longrightarrow> relay_inv (r\<lparr>rate_limiters := AList.update ws b (rate_limiters r)\<rparr>)"
  by (auto simp: relay_inv_def dict_simps)

lemma process_inv:
  assumes "relay_inv r" "map_of (rate_limiters r) ws \<noteq> None" "process_message ed env ws data r = (r', outs)"
  shows "relay_inv r'"
  unfolding relay_inv_def process_rest(1) [OF assms(3)]
proof (intro conjI allI impI)
  fix a reg
  assume "map_of (registry r') a = Some reg"
  with process_tables(2) [OF assms(3)] have "map_of (registry r) a = Some reg \<or> reg_ws reg = ws" by blast
  with assms(1,2) show "map_of (rate_limiters r) (reg_ws reg) \<noteq> None" unfolding relay_inv_def by blast
next
  fix a ch
  assume "map_of (pending_challenges r') a = Some ch"
  with process_rest(2) [OF assms(3)] assms(1,2) show "map_of (rate_limiters r) (ch_ws ch) \<noteq> None"
    unfolding relay_inv_def by blast
qed

lemma handle_message_cases:
  assumes "handle_message ed env ws msg r = (r', outs)"
  obtains "r' = r" "outs = []"
  | limiter code where "map_of (rate_limiters r) ws = Some limiter"
      "r' = cleanup_connection ws (r\<lparr>rate_limiters := AList.update ws (fst (consume (now env) 1 limiter)) (rate_limiters r)\<rparr>)"
      "outs = [CloseConn ws code]"
  | limiter where "map_of (rate_limiters r) ws = Some limiter"
      "r' = r\<lparr>rate_limiters := AList.update ws (fst (consume (now env) 1 limiter)) (rate_limiters r)\<rparr>"
      "outs = []"
  | limiter data where "map_of (rate_limiters r) ws = Some limiter" "json_loads msg = Some data"
      "snd (consume (now env) 1 limiter)" "length msg \<le> MAX_MESSAGE"
      "process_message ed env ws data
        (r\<lparr>rate_limiters := AList.update ws (fst (consume (now env) 1 limiter)) (rate_limiters r)\<rparr>) = (r', outs)"
proof (cases "map_of (rate_limiters r) ws")
  case None
  with assms that(1) show thesis by (simp add: handle_message_def)
next
  case (Some limiter)
  let ?r = "r\<lparr>rate_limiters := AList.update ws (fst (consume (now env) 1 limiter)) (rate_limiters r)\<rparr>"
  have h: "handle_message ed env ws msg r =
    (if \<not> snd (consume (now env) 1 limiter) then (cleanup_connection ws ?r, [CloseConn ws 1008])
     else if MAX_MESSAGE < length msg then (cleanup_connection ws ?r, [CloseConn ws 1009])
     else (case json_loads msg of None \<Rightarrow> (?r, []) | Some data \<Rightarrow> process_message ed env ws data ?r))"
    by (simp add: handle_message_def Some Let_def case_prod_beta)
  show thesis
  proof (cases "\<not> snd (consume (now env) 1 limiter) \<or> MAX_MESSAGE < length msg")
    case True
    with h assms that(2) [OF Some] show thesis by (auto split: if_splits)
  next
    case False
    with h assms that(3) [OF Some] that(4) [OF Some] show thesis by (cases "json_loads msg") auto
  qed
qed

lemma step_inv:
  assumes "relay_inv r" "relay_step ed ev r = (r', outs)"
  shows "relay_inv r'"
proof (cases ev)
  case (Opened t ws)
  with assms limiter_inv show ?thesis by (auto simp: open_connection_def)
next
  case (Closed ws)
  with assms cleanup_inv show ?thesis by auto
next
  case (Message env ws msg)
  with assms(2) have "handle_message ed env ws msg r = (r', outs)" by simp
  then show ?thesis
  proof (cases rule: handle_message_cases)
    case 1
    with assms show ?thesis by simp
  next
    case 2
    with assms limiter_inv cleanup_inv show ?thesis by simp
  next
    case 3
    with assms limiter_inv show ?thesis by simp
  next
    case (4 limiter data)
    from limiter_inv [OF assms(1)] _ 4(5) show ?thesis
      by (rule process_inv) (simp add: dict_simps)
  qed
qed

lemma new_relay_inv: "relay_inv (new_relay rate burst)"
  by (simp add: relay_inv_def new_relay_def)

lemma run_inv: "relay_run ed r0 tr r \<Longrightarrow> relay_inv r0 \<Longrightarrow> relay_inv r"
  by (induction rule: relay_run.induct) (auto intro: step_inv)

end
