(* ===== verification/RelayAuth.thy ===== *)
theory RelayAuth
  imports Relay
begin

text \<open>
  What the A-DNS relay of theory \<open>Relay\<close> guarantees: who gets registered, who may send through it and
  what it delivers; and what it does not guarantee (a registered id can be taken over).
\<close>

section \<open>Runs\<close>

lemma run_pending:
  "relay_run ed (new_relay rate burst) tr r \<Longrightarrow> map_of (pending_challenges r) a = Some ch \<Longrightarrow>
   \<exists>x \<in> set tr. SendTo (ch_ws ch) (challenge_msg a (nonce ch)) \<in> set (snd x)"
proof (induction arbitrary: ch rule: relay_run.induct)
  case start
  then show ?case by (simp add: new_relay_def)
next
  case (step tr r ev r' outs)
  from step_tables(1) [OF step.hyps(2) step.prems] step.IH show ?case by auto
qed

text \<open>The document of a message.\<close>

definition header_of :: "pyval \<Rightarrow> (string, pyval) dict" where
  "header_of data = (case data of
     PDict dd \<Rightarrow> (case map_of dd ''header'' of Some (PDict h) \<Rightarrow> h | _ \<Rightarrow> []) | _ \<Rightarrow> [])"

text \<open>A message that the relay routes comes from a sender that is registered on its connection.\<close>

lemma fan_out_outs:
  "fan_out env sid msg r = (r', outs) \<Longrightarrow> SendTo c m \<in> set outs \<Longrightarrow>
   m = msg \<and> (\<exists>peer info. (peer, info) \<in> set (registry r) \<and> peer \<noteq> sid \<and> reg_ws info = c)"
  by (auto simp: fan_out_def Let_def) blast

lemma route_outs:
  assumes "route env sid dd hdr r = (r', outs)" "SendTo c m \<in> set outs"
  shows "\<exists>t. t = (case map_of hdr ''ttl'' of None \<Rightarrow> PInt 30 | Some t \<Rightarrow> t) \<and> ttl_expired t = Some False \<and>
    m = forwarded dd hdr t \<and>
    (\<exists>peer info. (peer, info) \<in> set (registry r) \<and> peer \<noteq> sid \<and> reg_ws info = c \<and>
        map_of hdr ''receiver_id'' \<in> {Some peer, Some (PStr BROADCAST_ID)})"
proof -
  let ?t = "case map_of hdr ''receiver_id'' of None \<Rightarrow> PNone | Some t \<Rightarrow> t"
  obtain n where n: "n = (case map_of hdr ''ttl'' of None \<Rightarrow> PInt 30 | Some t \<Rightarrow> t)" "ttl_expired n = Some False"
    using assms by (auto simp: route_def Let_def split: option.splits if_splits)
  have "m = forwarded dd hdr n \<and>
    (\<exists>peer info. (peer, info) \<in> set (registry r) \<and> peer \<noteq> sid \<and> reg_ws info = c \<and>
        map_of hdr ''receiver_id'' \<in> {Some peer, Some (PStr BROADCAST_ID)})"
  proof (cases "?t = PStr BROADCAST_ID")
    case True
    with assms n have "fan_out env sid (forwarded dd hdr n) r = (r', outs)" by (simp add: route_def Let_def)
    moreover have "map_of hdr ''receiver_id'' = Some (PStr BROADCAST_ID)" using True by (auto split: option.splits)
    ultimately show ?thesis using fan_out_outs assms(2) by blast
  next
    case False
    with assms n obtain info where i: "map_of (registry r) ?t = Some info" "?t \<noteq> sid"
      "route_to env ?t info (forwarded dd hdr n) r = (r', outs)" "truthy ?t"
      by (auto simp: route_def Let_def split: if_splits option.splits)
    then have "m = forwarded dd hdr n" "c = reg_ws info"
      using assms(2) by (auto simp: route_to_def split: send_result.splits)
    moreover have "map_of hdr ''receiver_id'' = Some ?t" using i(4) by (auto split: option.splits)
    ultimately show ?thesis using i(2) map_of_SomeD [OF i(1)] by blast
  qed
  with n show ?thesis by blast
qed

lemma initiate_outs:
  assumes "initiate_challenge env sid data ws r = (r', outs)" "SendTo c m \<in> set outs"
  shows "c = ws \<and> (\<exists>n. m = challenge_msg sid n)"
proof (rule initiate_cases [of env sid data ws r])
  fix r1 assume "initiate_challenge env sid data ws r = (r1, [])"
  with assms show ?thesis by simp
next
  fix key r1 assume "initiate_challenge env sid data ws r = send_challenge env sid key ws r1"
  with assms show ?thesis by (auto simp: send_challenge_def Let_def split: option.splits if_splits)
qed

lemma response_outs:
  "handle_challenge_response ed env sid data ws r = (r', outs) \<Longrightarrow> SendTo c m \<in> set outs \<Longrightarrow>
   c = ws \<and> m = confirm_msg sid"
  by (auto simp: handle_challenge_response_def Let_def split: option.splits sum.splits if_splits)

lemma process_message_cases:
  assumes "process_message ed env ws data r = (r', outs)"
  obtains (idle) "r' = r" "outs = []"
    | (init) sid where "initiate_challenge env sid data ws r = (r', outs)"
    | (resp) sid where "handle_challenge_response ed env sid data ws r = (r', outs)"
    | (route) sid dd hdr info where "route env sid dd hdr r = (r', outs)" "data = PDict dd"
        "map_of dd ''header'' = Some (PDict hdr)" "map_of hdr ''sender_id'' = Some sid"
        "map_of (registry r) sid = Some info" "reg_ws info = ws"
proof -
  have idle': thesis if "process_message ed env ws data r = (r, [])" using that assms idle by simp
  show thesis
  proof (cases "\<exists>dd hdr. data = PDict dd \<and> map_of dd ''header'' = Some (PDict hdr)")
    case False
    then have "process_message ed env ws data r = (r, [])"
      by (auto simp: process_message_def Let_def split: pyval.split option.split)
    then show thesis by (rule idle')
  next
    case True
    then obtain dd hdr where d: "data = PDict dd" "map_of dd ''header'' = Some (PDict hdr)" by blast
    define sid where "sid = (case map_of hdr ''sender_id'' of None \<Rightarrow> PNone | Some v \<Rightarrow> v)"
    note shape = process_message_def [of ed env ws data r, unfolded d(1) pyval.case d(2) option.case Let_def sid_def [symmetric], folded d(1)]
    show thesis
    proof (cases "truthy sid \<and> map_of hdr ''intent'' \<noteq> Some (PStr ''Challenge_Response'') \<and> hashable sid")
      case False
      then have "process_message ed env ws data r = (r, []) \<or> process_message ed env ws data r = handle_challenge_response ed env sid data ws r"
        unfolding shape by (auto split: option.splits)
      then show thesis using idle' resp [of sid] assms by auto
    next
      case True
      then have sid: "map_of hdr ''sender_id'' = Some sid" by (auto simp: sid_def split: option.splits)
      have p: "process_message ed env ws data r = (case map_of (registry r) sid of
          None \<Rightarrow> if map_of (pending_challenges r) sid = None then initiate_challenge env sid data ws r else (r, [])
        | Some info \<Rightarrow> if reg_ws info \<noteq> ws then initiate_challenge env sid data ws r else route env sid dd hdr r)"
        using True unfolding shape by (auto split: option.split)
      show thesis
      proof (cases "map_of (registry r) sid")
        case None
        then show thesis using p assms idle' init [of sid] by (auto split: if_splits)
      next
        case (Some info)
        then show thesis using p assms init [of sid] route [OF _ d sid Some] by (auto split: if_splits)
      qed
    qed
  qed
qed

lemma process_outs:
  assumes "process_message ed env ws data r = (r', outs)" "SendTo c m \<in> set outs"
  shows "(c = ws \<and> (\<exists>sid n. m = challenge_msg sid n \<or> m = confirm_msg sid)) \<or>
    (\<exists>dd hdr sid info t. data = PDict dd \<and> hdr = header_of data \<and>
       map_of hdr ''sender_id'' = Some sid \<and> map_of (registry r) sid = Some info \<and> reg_ws info = ws \<and>
       t = (case map_of hdr ''ttl'' of None \<Rightarrow> PInt 30 | Some t \<Rightarrow> t) \<and> ttl_expired t = Some False \<and>
       m = forwarded dd hdr t \<and>
       (\<exists>peer pinfo. (peer, pinfo) \<in> set (registry r) \<and> peer \<noteq> sid \<and> reg_ws pinfo = c \<and>
         map_of hdr ''receiver_id'' \<in> {Some peer, Some (PStr BROADCAST_ID)}))"
proof -
  from assms(1) show ?thesis
  proof (cases rule: process_message_cases)
    case init
    from initiate_outs [OF this assms(2)] show ?thesis by blast
  next
    case resp
    from response_outs [OF this assms(2)] show ?thesis by blast
  next
    case (route sid dd hdr info)
    then have "hdr = header_of data" by (simp add: header_of_def)
    with route_outs [OF route(1) assms(2)] route(2-) show ?thesis by blast
  qed (use assms(2) in simp)
qed

text \<open>The trace holds a challenge for \<open>a\<close> and, later, a response to it from the connection of \<open>reg\<close> whose
  signature verifies under the key of \<open>reg\<close>.\<close>

definition verified_in :: "ed25519 \<Rightarrow> (relay_event \<times> relay_out list) list \<Rightarrow> pyval \<Rightarrow> registration \<Rightarrow> bool" where
  "verified_in ed tr a reg \<longleftrightarrow>
     (\<exists>tr1 tr2 env msg outs data sig n c. tr = tr1 @ (Message env (reg_ws reg) msg, outs) # tr2 \<and>
        json_loads msg = Some data \<and> response_doc data a sig \<and>
        verify_bytes ed (reg_public_key reg) sig (utf8 n) \<and>
        (\<exists>x \<in> set tr1. SendTo c (challenge_msg a n) \<in> set (snd x)))"

lemma verified_in_append: "verified_in ed tr a reg \<Longrightarrow> verified_in ed (tr @ tr') a reg"
  unfolding verified_in_def by (metis append_Cons append_assoc)

section \<open>Properties\<close>

text \<open>Authenticated registration: in every run of the relay from its start, an id is registered on a
  connection with a public key only if, earlier in the run, the relay sent a challenge for that id,
  and later that connection answered with a challenge response for the id whose signature over the
  challenge's nonce verifies under that public key.\<close>

theorem registered_only_if_verified:
  assumes "relay_run ed (new_relay rate burst) tr r" "map_of (registry r) a = Some reg"
  shows "verified_in ed tr a reg"
  using assms
proof (induction rule: relay_run.induct)
  case start
  then show ?case by (simp add: new_relay_def)
next
  case (step tr r ev r' outs)
  from step_tables(2) [OF step.hyps(2) step.prems] show ?case
  proof (elim disjE exE conjE)
    assume "map_of (registry r) a = Some reg"
    from verified_in_append [OF step.IH [OF this]] show ?thesis .
  next
    fix env msg data ch sig
    assume m: "ev = Message env (reg_ws reg) msg" "json_loads msg = Some data"
      "map_of (pending_challenges r) a = Some ch" "response_doc data a sig"
      "reg_public_key reg = ch_public_key ch" "verify_bytes ed (ch_public_key ch) sig (utf8 (nonce ch))"
    from run_pending [OF step.hyps(1) m(3)] m show ?thesis
      unfolding verified_in_def
      by (intro exI [of _ tr] exI [of _ "[]"] exI [of _ env] exI [of _ msg] exI [of _ outs] exI [of _ data]
          exI [of _ sig] exI [of _ "nonce ch"] exI [of _ "ch_ws ch"]) simp
  qed
qed

text \<open>Only open connections are known: in every reachable state, each registered agent and each
  pending challenge belongs to a connection that is open, and closing a connection (by the peer, by the
  rate limit or by an oversized message) leaves no trace of it.\<close>

theorem entries_belong_to_open_connections:
  assumes "relay_run ed (new_relay rate burst) tr r"
  shows "(\<forall>a reg. map_of (registry r) a = Some reg \<longrightarrow> map_of (rate_limiters r) (reg_ws reg) \<noteq> None) \<and>
    (\<forall>a ch. map_of (pending_challenges r) a = Some ch \<longrightarrow> map_of (rate_limiters r) (ch_ws ch) \<noteq> None) \<and>
    (\<forall>a reg. map_of (registry (cleanup_connection ws r)) a = Some reg \<longrightarrow> reg_ws reg \<noteq> ws) \<and>
    (\<forall>a ch. map_of (pending_challenges (cleanup_connection ws r)) a = Some ch \<longrightarrow> ch_ws ch \<noteq> ws)"
  using run_inv [OF assms new_relay_inv] cleanup_forgets [of ws r] unfolding relay_inv_def by blast

text \<open>C15: Verified routing: whatever a message makes the relay send is either a challenge or a
  confirmation back on the message's own connection, or the message itself with its TTL, which was
  not expired (a positive integer, \<open>True\<close>, or a float that is not \<open>\<le> 0\<close>, which NaN is not), decremented, delivered to the
  connection of another registered agent, its receiver unless it is a broadcast; and then its sender is registered on the
  connection that it came from.\<close>

theorem only_verified_senders_are_routed:
  assumes "handle_message ed env ws msg r = (r', outs)" "SendTo c m \<in> set outs"
  shows "(c = ws \<and> (\<exists>sid n. m = challenge_msg sid n \<or> m = confirm_msg sid)) \<or>
    (\<exists>dd hdr sid info t. json_loads msg = Some (PDict dd) \<and> hdr = header_of (PDict dd) \<and>
       map_of hdr ''sender_id'' = Some sid \<and> map_of (registry r) sid = Some info \<and> reg_ws info = ws \<and>
       t = (case map_of hdr ''ttl'' of None \<Rightarrow> PInt 30 | Some t \<Rightarrow> t) \<and> ttl_expired t = Some False \<and>
       m = forwarded dd hdr t \<and>
       (\<forall>i. t = PInt i \<longrightarrow> 0 < i \<and>
         m = PDict (AList.update ''header'' (PDict (AList.update ''ttl'' (PInt (i - 1)) hdr)) dd)) \<and>
       (\<exists>peer pinfo. (peer, pinfo) \<in> set (registry r) \<and> peer \<noteq> sid \<and> reg_ws pinfo = c \<and>
         map_of hdr ''receiver_id'' \<in> {Some peer, Some (PStr BROADCAST_ID)}))"
  using assms(1)
proof (cases rule: handle_message_cases)
  case (4 limiter data)
  have expired: "ttl_expired t = Some False \<longleftrightarrow> ttl_expired t = Some False \<and>
      (\<forall>i. t = PInt i \<longrightarrow> 0 < i \<and> (forwarded dd hdr t =
         PDict (AList.update ''header'' (PDict (AList.update ''ttl'' (PInt (i - 1)) hdr)) dd)))" for t dd hdr
    by (auto simp: forwarded_def)
  from process_outs [OF 4(5) assms(2)] 4(2) expired show ?thesis by fastforce
qed (use assms(2) in simp_all)

section \<open>Registration and take-over\<close>

text \<open>A handshake document for \<open>sid\<close> that claims the public key \<open>key\<close>.\<close>

definition handshake_doc :: "pyval \<Rightarrow> pyval \<Rightarrow> string \<Rightarrow> bool" where
  "handshake_doc data sid key \<longleftrightarrow> (\<exists>dd hdr pl c idoc. data = PDict dd \<and>
     map_of dd ''header'' = Some (PDict hdr) \<and> map_of hdr ''sender_id'' = Some sid \<and>
     map_of hdr ''intent'' \<noteq> Some (PStr ''Challenge_Response'') \<and>
     map_of dd ''payload'' = Some (PDict pl) \<and> map_of pl ''content'' = Some (PStr c) \<and>
     json_loads c = Some (PDict idoc) \<and> map_of idoc ''public_key'' = Some (PStr key))"

text \<open>The states in which a message of \<open>sid\<close> on \<open>ws\<close> starts a challenge.\<close>

definition challengeable :: "pyval \<Rightarrow> conn \<Rightarrow> relay \<Rightarrow> bool" where
  "challengeable sid ws r \<longleftrightarrow>
     (case map_of (registry r) sid of
        None \<Rightarrow> map_of (pending_challenges r) sid = None
      | Some info \<Rightarrow> reg_ws info \<noteq> ws)"

lemma handshake_challenged:
  assumes "handshake_doc data sid key" "truthy sid" "hashable sid" "challengeable sid ws r"
    and "length (recent_challenges env (cleanup_stale_challenges env r)) < 10"
    and "b64decode False key = Some pkb" "length pkb = 32" "send_result env ws = SendOk"
  shows "\<exists>r1. process_message ed env ws data r = (r1, [SendTo ws (challenge_msg sid (hex_of_bytes (urandom env)))]) \<and>
    registry r1 = registry r \<and> rate_limiters r1 = rate_limiters r \<and>
    map_of (pending_challenges r1) sid =
      Some \<lparr>ch_ws = ws, nonce = hex_of_bytes (urandom env), ch_public_key = key, ch_timestamp = now env\<rparr>"
proof -
  from assms(1) obtain dd hdr pl c idoc where d: "data = PDict dd" "map_of dd ''header'' = Some (PDict hdr)"
    "map_of hdr ''sender_id'' = Some sid" "map_of hdr ''intent'' \<noteq> Some (PStr ''Challenge_Response'')"
    "map_of dd ''payload'' = Some (PDict pl)" "map_of pl ''content'' = Some (PStr c)"
    "json_loads c = Some (PDict idoc)" "map_of idoc ''public_key'' = Some (PStr key)"
    unfolding handshake_doc_def by blast
  have "process_message ed env ws data r = initiate_challenge env sid data ws r"
    using assms(2-4) d by (auto simp: process_message_def Let_def challengeable_def split: option.splits)
  moreover have "key \<noteq> []" using assms(6,7) by (auto simp: b64decode_def)
  ultimately show ?thesis
    using assms(5-8) d
    by (simp add: initiate_challenge_def Let_def claimed_key_def send_challenge_def dict_simps
        cleanup_stale_challenges_def)
qed

lemma response_registers:
  assumes "response_doc data sid sig" "sig \<noteq> []" "truthy sid" "hashable sid"
    and "map_of (pending_challenges r) sid = Some ch" "verify_bytes ed (ch_public_key ch) sig (utf8 (nonce ch))"
    and "send_result env ws = SendOk"
  shows "\<exists>r1. process_message ed env ws data r = (r1, [SendTo ws (confirm_msg sid)]) \<and>
    map_of (registry r1) = (map_of (registry r))(sid \<mapsto> \<lparr>reg_ws = ws, reg_public_key = ch_public_key ch\<rparr>)"
proof -
  from assms(1) obtain dd hdr pl where d: "data = PDict dd" "map_of dd ''header'' = Some (PDict hdr)"
    "map_of hdr ''sender_id'' = Some sid" "map_of hdr ''intent'' = Some (PStr ''Challenge_Response'')"
    "map_of dd ''payload'' = Some (PDict pl)" "map_of pl ''content'' = Some (PStr sig)"
    unfolding response_doc_def by blast
  with assms(2-) show ?thesis
    by (simp add: process_message_def Let_def handle_challenge_response_def dict_simps)
qed

lemma signed_nonce_verifies:
  assumes "ed_correct ed" "manager_wf ed m"
  shows "verify_bytes ed (get_public_key_string m) (sign_bytes ed m data) data"
    "\<exists>pkb. b64decode False (get_public_key_string m) = Some pkb \<and> length pkb = 32"
proof -
  have "length (im_public_key m) = 32" "ed_verify ed (im_public_key m) (ed_sign ed (private_key m) data) data"
    using assms by (auto simp: manager_wf_def ed_correct_def)
  then show "verify_bytes ed (get_public_key_string m) (sign_bytes ed m data) data"
    "\<exists>pkb. b64decode False (get_public_key_string m) = Some pkb \<and> length pkb = 32"
    using verify_signed_bytes [OF assms(2), of data data]
    by (simp_all add: sign_bytes_def get_public_key_string_def b64decode_encode)
qed

text \<open>The challenge flow works for an honest agent: from any state in which its id is neither
  registered nor challenged, its handshake is answered with a challenge, and the response that signs
  the challenge's nonce with its key is answered with a confirmation and registers it on its
  connection (fewer than ten recent challenges from its address, sends succeed).\<close>

theorem honest_agent_registers:
  assumes "ed_correct ed" "manager_wf ed m" "truthy sid" "hashable sid"
    and "map_of (registry r) sid = None" "map_of (pending_challenges r) sid = None"
    and "handshake_doc data sid (get_public_key_string m)"
    and "length (recent_challenges env (cleanup_stale_challenges env r)) < 10"
    and "send_result env ws = SendOk" "send_result env' ws = SendOk"
    and "n = hex_of_bytes (urandom env)" "response_doc data' sid (sign_bytes ed m (utf8 n))"
    and "ed_sign ed (private_key m) (utf8 n) \<noteq> []"
  shows "\<exists>r1 r2. process_message ed env ws data r = (r1, [SendTo ws (challenge_msg sid n)]) \<and>
    process_message ed env' ws data' r1 = (r2, [SendTo ws (confirm_msg sid)]) \<and>
    map_of (registry r2) = (map_of (registry r))(sid \<mapsto> \<lparr>reg_ws = ws, reg_public_key = get_public_key_string m\<rparr>)"
proof -
  have c: "challengeable sid ws r" using assms(5,6) by (simp add: challengeable_def)
  from signed_nonce_verifies(2) [OF assms(1,2)] obtain pkb where
    pk: "b64decode False (get_public_key_string m) = Some pkb" "length pkb = 32" by blast
  from handshake_challenged [OF assms(7,3,4) c assms(8) pk assms(9), of ed] obtain r1 where r1:
    "process_message ed env ws data r = (r1, [SendTo ws (challenge_msg sid n)])" "registry r1 = registry r"
    "map_of (pending_challenges r1) sid = Some \<lparr>ch_ws = ws, nonce = n,
       ch_public_key = get_public_key_string m, ch_timestamp = now env\<rparr>"
    unfolding assms(11) by blast
  have "sign_bytes ed m (utf8 n) \<noteq> []" using assms(13) by (simp add: sign_bytes_def)
  from response_registers [OF assms(12) this assms(3,4) r1(3), of ed env' ws] signed_nonce_verifies(1) [OF assms(1,2)]
    assms(10) r1(1,2)
  show ?thesis by auto
qed

text \<open>A registered id can be taken over: when \<open>sid\<close> is registered on one connection, whoever sends a
  handshake for \<open>sid\<close> with another key on another connection is challenged on that key, and with two
  messages replaces the registered connection and key. Registration proves possession of the key that
  the sender claims, not of the key that the id was registered with.\<close>

theorem registered_id_can_be_taken_over:
  assumes "ed_correct ed" "manager_wf ed attacker" "truthy sid" "hashable sid"
    and "map_of (registry r) sid = Some victim" "reg_ws victim \<noteq> ws"
    and "handshake_doc data sid (get_public_key_string attacker)"
    and "length (recent_challenges env (cleanup_stale_challenges env r)) < 10"
    and "send_result env ws = SendOk" "send_result env' ws = SendOk"
    and "n = hex_of_bytes (urandom env)" "response_doc data' sid (sign_bytes ed attacker (utf8 n))"
    and "ed_sign ed (private_key attacker) (utf8 n) \<noteq> []"
  shows "\<exists>r1 r2. process_message ed env ws data r = (r1, [SendTo ws (challenge_msg sid n)]) \<and>
    process_message ed env' ws data' r1 = (r2, [SendTo ws (confirm_msg sid)]) \<and>
    map_of (registry r2) sid = Some \<lparr>reg_ws = ws, reg_public_key = get_public_key_string attacker\<rparr>"
proof -
  have c: "challengeable sid ws r" using assms(5,6) by (simp add: challengeable_def)
  from signed_nonce_verifies(2) [OF assms(1,2)] obtain pkb where
    pk: "b64decode False (get_public_key_string attacker) = Some pkb" "length pkb = 32" by blast
  from handshake_challenged [OF assms(7,3,4) c assms(8) pk assms(9), of ed] obtain r1 where r1:
    "process_message ed env ws data r = (r1, [SendTo ws (challenge_msg sid n)])"
    "map_of (pending_challenges r1) sid = Some \<lparr>ch_ws = ws, nonce = n,
       ch_public_key = get_public_key_string attacker, ch_timestamp = now env\<rparr>"
    unfolding assms(11) by blast
  have "sign_bytes ed attacker (utf8 n) \<noteq> []" using assms(13) by (simp add: sign_bytes_def)
  from response_registers [OF assms(12) this assms(3,4) r1(2), of ed env' ws] signed_nonce_verifies(1) [OF assms(1,2)]
    assms(10) r1(1)
  show ?thesis by auto
qed

lemma relay_forwards_any:
  assumes "map_of dd ''header'' = Some (PDict hdr)" "map_of hdr ''sender_id'' = Some sid"
    and "map_of hdr ''intent'' \<noteq> Some (PStr ''Challenge_Response'')" "truthy sid" "hashable sid"
    and "map_of (registry r) sid = Some info" "reg_ws info = ws"
    and "map_of hdr ''receiver_id'' = Some target" "target \<noteq> PStr BROADCAST_ID" "truthy target" "hashable target"
    and "target \<noteq> sid" "map_of (registry r) target = Some tinfo" "send_result env (reg_ws tinfo) = SendOk"
    and "map_of hdr ''ttl'' = Some t" "ttl_expired t = Some b"
  shows "process_message ed env ws (PDict dd) r = (r, if b then [] else [SendTo (reg_ws tinfo) (forwarded dd hdr t)])"
proof -
  have "(case map_of hdr ''intent'' of None \<Rightarrow> PNone | Some v \<Rightarrow> v) \<noteq> PStr ''Challenge_Response''"
    using assms(3) by (auto split: option.split)
  with assms show ?thesis by (simp add: process_message_def Let_def route_def route_to_def)
qed

lemma relay_forwards:
  assumes "map_of dd ''header'' = Some (PDict hdr)" "map_of hdr ''sender_id'' = Some sid"
    and "map_of hdr ''intent'' \<noteq> Some (PStr ''Challenge_Response'')" "truthy sid" "hashable sid"
    and "map_of (registry r) sid = Some info" "reg_ws info = ws"
    and "map_of hdr ''receiver_id'' = Some target" "target \<noteq> PStr BROADCAST_ID" "truthy target" "hashable target"
    and "target \<noteq> sid" "map_of (registry r) target = Some tinfo" "send_result env (reg_ws tinfo) = SendOk"
    and "map_of hdr ''ttl'' = Some (PInt n)"
  shows "process_message ed env ws (PDict dd) r = (r, if 0 < n then [SendTo (reg_ws tinfo) (forwarded dd hdr (PInt n))] else [])"
  using relay_forwards_any [OF assms, of "n \<le> 0" ed] by auto

text \<open>A TTL of \<^verbatim>\<open>NaN\<close>, which \<^verbatim>\<open>json.loads\<close> accepts, never runs out: the relay forwards the message with the TTL it had,
  however often it comes by.\<close>

lemma nan_ttl_never_expires:
  assumes "map_of dd ''header'' = Some (PDict hdr)" "map_of hdr ''sender_id'' = Some sid"
    and "map_of hdr ''intent'' \<noteq> Some (PStr ''Challenge_Response'')" "truthy sid" "hashable sid"
    and "map_of (registry r) sid = Some info" "reg_ws info = ws"
    and "map_of hdr ''receiver_id'' = Some target" "target \<noteq> PStr BROADCAST_ID" "truthy target" "hashable target"
    and "target \<noteq> sid" "map_of (registry r) target = Some tinfo" "send_result env (reg_ws tinfo) = SendOk"
    and "map_of hdr ''ttl'' = Some (PFloat ''NaN'')"
  shows "\<exists>dd' hdr'. process_message ed env ws (PDict dd) r = (r, [SendTo (reg_ws tinfo) (PDict dd')]) \<and>
    map_of dd' ''header'' = Some (PDict hdr') \<and> map_of hdr' = map_of hdr"
proof -
  have "process_message ed env ws (PDict dd) r = (r, [SendTo (reg_ws tinfo) (forwarded dd hdr (PFloat ''NaN''))])"
    using relay_forwards_any [OF assms, of False ed] by (simp add: float_le_0_def)
  moreover have "map_of (AList.update ''ttl'' (PFloat ''NaN'') hdr) = map_of hdr"
    using assms(15) by (simp add: update_conv' fun_upd_idem)
  ultimately show ?thesis by (auto simp: forwarded_def float_pred_def dict_simps)
qed

text \<open>Routing delivers: a message of a verified sender with a positive TTL to another registered agent
  reaches exactly that agent's connection, and all that changes in the message is its TTL, which is one
  less; with a TTL of zero or less nothing is sent.\<close>

theorem verified_message_is_delivered:
  assumes "map_of dd ''header'' = Some (PDict hdr)" "map_of hdr ''sender_id'' = Some sid"
    and "map_of hdr ''intent'' \<noteq> Some (PStr ''Challenge_Response'')" "truthy sid" "hashable sid"
    and "map_of (registry r) sid = Some info" "reg_ws info = ws"
    and "map_of hdr ''receiver_id'' = Some target" "target \<noteq> PStr BROADCAST_ID" "truthy target" "hashable target"
    and "target \<noteq> sid" "map_of (registry r) target = Some tinfo" "send_result env (reg_ws tinfo) = SendOk"
    and "map_of hdr ''ttl'' = Some (PInt n)"
  shows "process_message ed env ws (PDict dd) r =
      (r, if 0 < n then [SendTo (reg_ws tinfo) (forwarded dd hdr (PInt n))] else []) \<and>
    (\<exists>dd' hdr'. forwarded dd hdr (PInt n) = PDict dd' \<and> map_of dd' ''header'' = Some (PDict hdr') \<and>
       map_of hdr' = (map_of hdr)(''ttl'' \<mapsto> PInt (n - 1)) \<and> (\<forall>k. k \<noteq> ''header'' \<longrightarrow> map_of dd' k = map_of dd k))"
  using relay_forwards [OF assms] by (simp add: forwarded_def dict_simps)

text \<open>The relay keeps nothing: a message of a verified sender to an agent that is not registered (or to the
  sender itself) leaves the relay as it was, so that it cannot be delivered when the target registers later, and no
  refusal goes to the sender.\<close>

theorem message_to_unregistered_is_lost:
  assumes "map_of dd ''header'' = Some (PDict hdr)" "map_of hdr ''sender_id'' = Some sid"
    and "map_of hdr ''intent'' \<noteq> Some (PStr ''Challenge_Response'')" "truthy sid" "hashable sid"
    and "map_of (registry r) sid = Some info" "reg_ws info = ws"
    and "map_of hdr ''receiver_id'' = Some target" "target \<noteq> PStr BROADCAST_ID" "hashable target"
    and "target = sid \<or> map_of (registry r) target = None"
  shows "process_message ed env ws (PDict dd) r = (r, [])"
proof -
  have "(case map_of hdr ''intent'' of None \<Rightarrow> PNone | Some v \<Rightarrow> v) \<noteq> PStr ''Challenge_Response''"
    using assms(3) by (auto split: option.split)
  with assms show ?thesis
    by (auto simp: process_message_def Let_def route_def route_to_def split: option.split pyval.split)
qed

text \<open>Broadcast: a message to the broadcast id from a verified sender goes once to the connection of every
  other registered agent whose send succeeds, and the agents whose send fails, and only those, are
  deregistered.\<close>

theorem broadcast_reaches_every_peer:
  assumes "map_of dd ''header'' = Some (PDict hdr)" "map_of hdr ''sender_id'' = Some sid"
    and "map_of hdr ''intent'' \<noteq> Some (PStr ''Challenge_Response'')" "truthy sid" "hashable sid"
    and "dict_wf (registry r)" "map_of (registry r) sid = Some info" "reg_ws info = ws"
    and "map_of hdr ''receiver_id'' = Some (PStr BROADCAST_ID)" "map_of hdr ''ttl'' = Some (PInt n)" "0 < n"
  shows "\<exists>r' outs. process_message ed env ws (PDict dd) r = (r', outs) \<and>
    outs = map (\<lambda>x. SendTo (reg_ws (snd x)) (forwarded dd hdr (PInt n)))
      (filter (\<lambda>x. fst x \<noteq> sid \<and> send_result env (reg_ws (snd x)) = SendOk) (registry r)) \<and>
    map_of (registry r') = (\<lambda>a. case map_of (registry r) a of None \<Rightarrow> None
      | Some i \<Rightarrow> if a = sid \<or> send_result env (reg_ws i) = SendOk then Some i else None)"
proof -
  let ?failed = "filter (\<lambda>x. fst x \<noteq> sid \<and> send_result env (reg_ws (snd x)) \<noteq> SendOk) (registry r)"
  have p: "process_message ed env ws (PDict dd) r = fan_out env sid (forwarded dd hdr (PInt n)) r"
  proof -
    have "(case map_of hdr ''intent'' of None \<Rightarrow> PNone | Some v \<Rightarrow> v) \<noteq> PStr ''Challenge_Response''"
      using assms(3) by (auto split: option.split)
    with assms show ?thesis by (simp add: process_message_def Let_def route_def)
  qed
  have f: "fan_out env sid (forwarded dd hdr (PInt n)) r =
    (r\<lparr>registry := dict_del_all (map fst ?failed) (registry r)\<rparr>,
     map (\<lambda>x. SendTo (reg_ws (snd x)) (forwarded dd hdr (PInt n)))
      (filter (\<lambda>x. fst x \<noteq> sid \<and> send_result env (reg_ws (snd x)) = SendOk) (registry r)))"
    by (simp add: fan_out_def Let_def case_prod_beta' comp_def)
  have "a \<in> set (map fst ?failed) \<longleftrightarrow> (\<exists>i. map_of (registry r) a = Some i \<and> a \<noteq> sid \<and> send_result env (reg_ws i) \<noteq> SendOk)" for a
    using dict_wf_get_iff [OF assms(6), of a] by force
  then have "map_of (dict_del_all (map fst ?failed) (registry r)) a = (case map_of (registry r) a of None \<Rightarrow> None
      | Some i \<Rightarrow> if a = sid \<or> send_result env (reg_ws i) = SendOk then Some i else None)" for a
    by (cases "map_of (registry r) a") (simp_all only: dict_del_all_get, auto)
  with p f show ?thesis by auto
qed


section \<open>Concrete runs\<close>

definition demo_env :: env where
  "demo_env = \<lparr>now = 0, remote_ip = ''h'', urandom = replicate 32 0, send_result = (\<lambda>_. SendOk)\<rparr>"

definition demo_nonce :: string where
  "demo_nonce = hex_of_bytes (urandom demo_env)"

definition demo_handshake :: pyval where
  "demo_handshake = PDict [(''header'', PDict [(''intent'', PStr ''Handshake''), (''sender_id'', PStr ''a'')]),
     (''payload'', PDict [(''content'',
        PStr (enc sign_opts (PDict [(''public_key'', PStr (get_public_key_string sample_manager))])))])]"

definition demo_response :: pyval where
  "demo_response = PDict [(''header'', PDict [(''intent'', PStr ''Challenge_Response''), (''sender_id'', PStr ''a'')]),
     (''payload'', PDict [(''content'', PStr (sign_bytes plain_ed sample_manager (utf8 demo_nonce)))])]"

lemma demo_handshake_doc: "handshake_doc demo_handshake (PStr ''a'') (get_public_key_string sample_manager)"
proof -
  have "json_loads (enc sign_opts (PDict [(''public_key'', PStr k)])) = Some (PDict [(''public_key'', PStr k)])" for k
    using loads_enc [OF std_sign_opts, of "PDict [(''public_key'', PStr k)]"] by (simp add: dict_wf_def)
  then show ?thesis unfolding handshake_doc_def demo_handshake_def by simp
qed

lemma demo_response_doc: "response_doc demo_response (PStr ''a'') (sign_bytes plain_ed sample_manager (utf8 demo_nonce))"
  unfolding response_doc_def demo_response_def by simp

lemma demo_signature: "ed_sign plain_ed (private_key sample_manager) x \<noteq> []"
  by (simp add: plain_ed_def sample_manager_def)

lemma demo_env_simps [simp]: "send_result demo_env ws = SendOk" "urandom demo_env = replicate 32 0" "now demo_env = 0"
  by (simp_all add: demo_env_def)

definition victim_relay :: relay where
  "victim_relay = (new_relay 30 60)\<lparr>registry := [(PStr ''a'', \<lparr>reg_ws = 1, reg_public_key = ''victim key''\<rparr>),
     (PStr ''b'', \<lparr>reg_ws = 2, reg_public_key = ''other key''\<rparr>)]\<rparr>"

theorem honest_agent_registers_witness:
  "\<exists>r1 r2. process_message plain_ed demo_env 7 demo_handshake (new_relay 30 60) =
      (r1, [SendTo 7 (challenge_msg (PStr ''a'') demo_nonce)]) \<and>
    process_message plain_ed demo_env 7 demo_response r1 = (r2, [SendTo 7 (confirm_msg (PStr ''a''))]) \<and>
    map_of (registry r2) = [PStr ''a'' \<mapsto> \<lparr>reg_ws = 7, reg_public_key = get_public_key_string sample_manager\<rparr>]"
  using honest_agent_registers [OF plain_ed_laws(1) sample_manager_wf _ _ _ _ demo_handshake_doc _ _ _ demo_nonce_def
      demo_response_doc demo_signature, of "new_relay 30 60" 7 demo_env]
  by (simp add: new_relay_def cleanup_stale_challenges_def recent_challenges_def)

theorem registered_id_can_be_taken_over_witness:
  "\<exists>r1 r2. process_message plain_ed demo_env 7 demo_handshake victim_relay =
      (r1, [SendTo 7 (challenge_msg (PStr ''a'') demo_nonce)]) \<and>
    process_message plain_ed demo_env 7 demo_response r1 = (r2, [SendTo 7 (confirm_msg (PStr ''a''))]) \<and>
    map_of (registry r2) (PStr ''a'') = Some \<lparr>reg_ws = 7, reg_public_key = get_public_key_string sample_manager\<rparr>"
  by (rule registered_id_can_be_taken_over [OF plain_ed_laws(1) sample_manager_wf _ _ _ _ demo_handshake_doc _ _ _
        demo_nonce_def demo_response_doc demo_signature,
        where victim = "\<lparr>reg_ws = 1, reg_public_key = ''victim key''\<rparr>"])
    (simp_all add: victim_relay_def new_relay_def cleanup_stale_challenges_def recent_challenges_def)

definition demo_header :: "string \<Rightarrow> (string, pyval) dict" where
  "demo_header target = [(''sender_id'', PStr ''a''), (''receiver_id'', PStr target), (''ttl'', PInt 1)]"

theorem verified_message_is_delivered_witness:
  "process_message plain_ed demo_env 1 (PDict [(''header'', PDict (demo_header ''b''))]) victim_relay =
   (victim_relay, [SendTo 2 (forwarded [(''header'', PDict (demo_header ''b''))] (demo_header ''b'') (PInt 1))])"
  using verified_message_is_delivered [of "[(''header'', PDict (demo_header ''b''))]" "demo_header ''b''" "PStr ''a''"
      victim_relay "\<lparr>reg_ws = 1, reg_public_key = ''victim key''\<rparr>" 1 "PStr ''b''"
      "\<lparr>reg_ws = 2, reg_public_key = ''other key''\<rparr>" demo_env 1 plain_ed]
  by (simp add: victim_relay_def new_relay_def demo_header_def BROADCAST_ID_def)

theorem message_to_unregistered_is_lost_witness:
  "process_message plain_ed demo_env 1 (PDict [(''header'', PDict (demo_header ''c''))]) victim_relay = (victim_relay, [])"
  by (rule message_to_unregistered_is_lost [where hdr = "demo_header ''c''" and sid = "PStr ''a''"
        and info = "\<lparr>reg_ws = 1, reg_public_key = ''victim key''\<rparr>" and target = "PStr ''c''"])
    (simp_all add: victim_relay_def new_relay_def demo_header_def BROADCAST_ID_def)

theorem broadcast_reaches_every_peer_witness:
  "\<exists>r'. process_message plain_ed demo_env 1 (PDict [(''header'', PDict (demo_header BROADCAST_ID))]) victim_relay =
     (r', [SendTo 2 (forwarded [(''header'', PDict (demo_header BROADCAST_ID))] (demo_header BROADCAST_ID) (PInt 1))])"
proof -
  let ?hdr = "demo_header BROADCAST_ID" and ?info = "\<lparr>reg_ws = 1, reg_public_key = ''victim key''\<rparr>"
  have h: "map_of ?hdr ''sender_id'' = Some (PStr ''a'')" "map_of ?hdr ''intent'' = None"
    "map_of ?hdr ''receiver_id'' = Some (PStr BROADCAST_ID)" "map_of ?hdr ''ttl'' = Some (PInt 1)"
    by (simp_all add: demo_header_def)
  have v: "dict_wf (registry victim_relay)" "map_of (registry victim_relay) (PStr ''a'') = Some ?info"
    "registry victim_relay = [(PStr ''a'', ?info), (PStr ''b'', \<lparr>reg_ws = 2, reg_public_key = ''other key''\<rparr>)]"
    by (simp_all add: victim_relay_def dict_wf_def)
  from broadcast_reaches_every_peer [of "[(''header'', PDict ?hdr)]" ?hdr "PStr ''a''" victim_relay ?info 1 1 plain_ed demo_env]
    h v(1,2)
  obtain r' outs where "process_message plain_ed demo_env 1 (PDict [(''header'', PDict ?hdr)]) victim_relay = (r', outs)"
    "outs = map (\<lambda>x. SendTo (reg_ws (snd x)) (forwarded [(''header'', PDict ?hdr)] ?hdr (PInt 1)))
      (filter (\<lambda>x. fst x \<noteq> PStr ''a'' \<and> send_result demo_env (reg_ws (snd x)) = SendOk) (registry victim_relay))"
    by auto
  then show ?thesis by (simp add: v(3))
qed

subsection \<open>A complete run\<close>

lemma key_order: "''header'' < ''payload''" "''intent'' < ''sender_id''"
  by code_simp+

lemma demo_canon: "canon demo_handshake = demo_handshake" "canon demo_response = demo_response"
  using key_order by (simp_all add: demo_handshake_def demo_response_def)

lemma demo_json: "json_val demo_handshake" "json_val demo_response"
  by (simp_all add: demo_handshake_def demo_response_def dict_wf_def)

lemma demo_loads:
  "json_loads (enc sign_opts demo_handshake) = Some demo_handshake"
  "json_loads (enc sign_opts demo_response) = Some demo_response"
  using loads_enc [OF std_sign_opts demo_json(1)] loads_enc [OF std_sign_opts demo_json(2)] by (simp_all only: demo_canon)

lemma demo_lengths:
  "length (enc sign_opts demo_handshake) \<le> MAX_MESSAGE" "length (enc sign_opts demo_response) \<le> MAX_MESSAGE"
proof -
  have "length (enc sign_opts demo_handshake) < 400" "length (enc sign_opts demo_response) < 400"
    by code_simp+
  then show "length (enc sign_opts demo_handshake) \<le> MAX_MESSAGE" "length (enc sign_opts demo_response) \<le> MAX_MESSAGE"
    by (simp_all add: MAX_MESSAGE_def)
qed

lemma demo_message:
  assumes "map_of (rate_limiters r) 7 = Some b" "2 \<le> tb_tokens b" "2 \<le> tb_burst b" "last_refill b = 0"
    and "json_loads msg = Some data" "length msg \<le> MAX_MESSAGE"
    and "process_message ed demo_env 7 data (r\<lparr>rate_limiters := AList.update 7 (b\<lparr>last_refill := 0,
       tb_tokens := min (tb_burst b) (tb_tokens b) - 1\<rparr>) (rate_limiters r)\<rparr>) = (r', outs)"
  shows "relay_step ed (Message demo_env 7 msg) r = (r', outs)"
  using assms by (simp add: handle_message_def consume_def Let_def)


lemma demo_run:
  "\<exists>tr r. relay_run plain_ed (new_relay 30 60) tr r \<and>
     map_of (registry r) = [PStr ''a'' \<mapsto> \<lparr>reg_ws = 7, reg_public_key = get_public_key_string sample_manager\<rparr>]"
proof -
  let ?ed = plain_ed and ?hs = "enc sign_opts demo_handshake" and ?rs = "enc sign_opts demo_response"
  let ?reg = "\<lparr>reg_ws = 7, reg_public_key = get_public_key_string sample_manager\<rparr>"
  let ?b = "\<lambda>x. (new_bucket 30 60 0)\<lparr>last_refill := 0, tb_tokens := x\<rparr>"
  let ?r0 = "open_connection 0 7 (new_relay 30 60)"
  let ?ra = "?r0\<lparr>rate_limiters := AList.update 7 (?b 59) (rate_limiters ?r0)\<rparr>"
  have lim0: "map_of (rate_limiters ?r0) 7 = Some (new_bucket 30 60 0)"
    by (simp add: open_connection_def new_relay_def)
  have 0: "relay_run ?ed (new_relay 30 60) [(Opened 0 7, [])] ?r0"
    using relay_run.step [OF relay_run.start, of ?ed "Opened 0 7" "new_relay 30 60" ?r0 "[]"] by simp
  have c: "challengeable (PStr ''a'') 7 ?ra"
    by (simp add: challengeable_def open_connection_def new_relay_def)
  from signed_nonce_verifies(2) [OF plain_ed_laws(1) sample_manager_wf] obtain pkb where
    pk: "b64decode False (get_public_key_string sample_manager) = Some pkb" "length pkb = 32" by blast
  from handshake_challenged [OF demo_handshake_doc _ _ c _ pk, of demo_env ?ed] obtain r1 outs where r1:
    "process_message ?ed demo_env 7 demo_handshake ?ra = (r1, outs)"
    "rate_limiters r1 = rate_limiters ?ra" "registry r1 = registry ?ra"
    "map_of (pending_challenges r1) (PStr ''a'') = Some \<lparr>ch_ws = 7, nonce = demo_nonce,
       ch_public_key = get_public_key_string sample_manager, ch_timestamp = 0\<rparr>"
    by (auto simp: recent_challenges_def cleanup_stale_challenges_def open_connection_def new_relay_def demo_nonce_def)
  have s1: "relay_step ?ed (Message demo_env 7 ?hs) ?r0 = (r1, outs)"
    by (rule demo_message [OF lim0 _ _ _ demo_loads(1) demo_lengths(1)])
      (use r1(1) in \<open>simp_all add: new_bucket_def\<close>)
  have lim1: "map_of (rate_limiters r1) 7 = Some (?b 59)"
    unfolding r1(2) by (simp add: dict_simps)
  let ?rb = "r1\<lparr>rate_limiters := AList.update 7 (?b 58) (rate_limiters r1)\<rparr>"
  have "sign_bytes ?ed sample_manager (utf8 demo_nonce) \<noteq> []" by (simp add: sign_bytes_def demo_signature)
  from response_registers [OF demo_response_doc this, of ?rb _ ?ed demo_env 7] r1(3,4)
    signed_nonce_verifies(1) [OF plain_ed_laws(1) sample_manager_wf]
  obtain r2 outs2 where r2: "process_message ?ed demo_env 7 demo_response ?rb = (r2, outs2)"
    "map_of (registry r2) = [PStr ''a'' \<mapsto> ?reg]"
    by (auto simp: open_connection_def new_relay_def)
  have s2: "relay_step ?ed (Message demo_env 7 ?rs) r1 = (r2, outs2)"
    by (rule demo_message [OF lim1 _ _ _ demo_loads(2) demo_lengths(2)])
      (use r2(1) in \<open>simp_all add: new_bucket_def\<close>)
  from relay_run.step [OF relay_run.step [OF 0 s1] s2] r2(2) show ?thesis by blast
qed

theorem registered_only_if_verified_witness:
  "\<exists>tr r. relay_run plain_ed (new_relay 30 60) tr r \<and> map_of (registry r) (PStr ''a'') \<noteq> None \<and>
     verified_in plain_ed tr (PStr ''a'') \<lparr>reg_ws = 7, reg_public_key = get_public_key_string sample_manager\<rparr>"
proof -
  from demo_run obtain tr r where t: "relay_run plain_ed (new_relay 30 60) tr r"
    "map_of (registry r) = [PStr ''a'' \<mapsto> \<lparr>reg_ws = 7, reg_public_key = get_public_key_string sample_manager\<rparr>]"
    by blast
  with registered_only_if_verified [OF t(1), of "PStr ''a''"] show ?thesis by fastforce
qed

theorem entries_belong_to_open_connections_witness:
  "\<exists>tr r. relay_run plain_ed (new_relay 30 60) tr r \<and> map_of (registry r) (PStr ''a'') \<noteq> None \<and>
     map_of (rate_limiters r) 7 \<noteq> None"
proof -
  from demo_run obtain tr r where t: "relay_run plain_ed (new_relay 30 60) tr r"
    "map_of (registry r) = [PStr ''a'' \<mapsto> \<lparr>reg_ws = 7, reg_public_key = get_public_key_string sample_manager\<rparr>]"
    by blast
  then have "map_of (registry r) (PStr ''a'') =
      Some \<lparr>reg_ws = 7, reg_public_key = get_public_key_string sample_manager\<rparr>" by simp
  with conjunct1 [OF entries_belong_to_open_connections [OF t(1), of 7]]
  have "map_of (rate_limiters r) 7 \<noteq> None" by fastforce
  with t show ?thesis by (intro exI [of _ tr] exI [of _ r]) simp
qed

lemma demo_challenged:
  "\<exists>r1. handle_message plain_ed demo_env 7 (enc sign_opts demo_handshake) (open_connection 0 7 (new_relay 30 60)) =
     (r1, [SendTo 7 (challenge_msg (PStr ''a'') demo_nonce)])"
proof -
  let ?r0 = "open_connection 0 7 (new_relay 30 60)"
  let ?ra = "?r0\<lparr>rate_limiters := AList.update 7 ((new_bucket 30 60 0)\<lparr>last_refill := 0, tb_tokens := 59\<rparr>) (rate_limiters ?r0)\<rparr>"
  have c: "challengeable (PStr ''a'') 7 ?ra"
    by (simp add: challengeable_def open_connection_def new_relay_def)
  from signed_nonce_verifies(2) [OF plain_ed_laws(1) sample_manager_wf] obtain pkb where
    pk: "b64decode False (get_public_key_string sample_manager) = Some pkb" "length pkb = 32" by blast
  have rc: "length (recent_challenges demo_env (cleanup_stale_challenges demo_env ?ra)) < 10"
    by (simp add: recent_challenges_def cleanup_stale_challenges_def open_connection_def new_relay_def)
  have th: "truthy (PStr ''a'')" "hashable (PStr ''a'')" by simp_all
  from handshake_challenged [OF demo_handshake_doc th c rc pk demo_env_simps(1), of plain_ed] obtain r1 where
    "process_message plain_ed demo_env 7 demo_handshake ?ra = (r1, [SendTo 7 (challenge_msg (PStr ''a'') demo_nonce)])"
    unfolding demo_nonce_def by blast
  then show ?thesis
    using demo_message [OF _ _ _ _ demo_loads(1) demo_lengths(1), of ?r0 "new_bucket 30 60 0" plain_ed r1
        "[SendTo 7 (challenge_msg (PStr ''a'') demo_nonce)]"]
    by (simp add: open_connection_def new_relay_def new_bucket_def)
qed

theorem only_verified_senders_are_routed_witness:
  "\<exists>r1 c m. handle_message plain_ed demo_env 7 (enc sign_opts demo_handshake) (open_connection 0 7 (new_relay 30 60)) =
     (r1, [SendTo c m]) \<and> c = 7 \<and> (\<exists>sid n. m = challenge_msg sid n \<or> m = confirm_msg sid)"
proof -
  obtain r1 where s: "handle_message plain_ed demo_env 7 (enc sign_opts demo_handshake) (open_connection 0 7 (new_relay 30 60)) =
     (r1, [SendTo 7 (challenge_msg (PStr ''a'') demo_nonce)])"
    using demo_challenged by blast
  have "registry (open_connection 0 7 (new_relay 30 60)) = []" by (simp add: open_connection_def new_relay_def)
  with only_verified_senders_are_routed [OF s, of 7 "challenge_msg (PStr ''a'') demo_nonce"] s show ?thesis by auto
qed

end
