(* ===== verification/RelayTasks.thy ===== *)
theory RelayTasks
  imports RelayAuth
begin

text \<open>
  The relay between its awaits. Every handler of \<^verbatim>\<open>relay/server.py\<close> suspends while a send or a close is under way, and
  the handlers of other connections run in the meantime. Here a message is handled up to its first await, and what
  is left of the handler is kept with its connection until the outcome of the send is known. Theory \<open>Relay\<close> is the
  special case in which nothing comes between (\<open>uninterrupted_is_atomic\<close>).
\<close>

section \<open>Handlers that wait\<close>

text \<open>What a handler waits for: the send of a routed message, the sends of a fan-out (the one under way first, then the
  peers that are left, and the peers whose send has failed), the send of a challenge, a reply after which nothing
  is left to do, and the close after which the loop breaks.\<close>

datatype awaiting =
    AwaitRoute pyval conn
  | AwaitFan pyval "(pyval \<times> registration) list" "pyval list"
  | AwaitChallenge pyval
  | AwaitReply
  | AwaitBreak

text \<open>Up to its first await a handler has done what it does when the send succeeds.\<close>

definition sends_pass :: "env \<Rightarrow> env" where
  "sends_pass env = env\<lparr>send_result := (\<lambda>_. SendOk)\<rparr>"

type_synonym begun = "relay \<times> relay_out list \<times> awaiting option"

definition begin_challenge :: "env \<Rightarrow> pyval \<Rightarrow> pyval \<Rightarrow> conn \<Rightarrow> relay \<Rightarrow> begun" where
  "begin_challenge env sid data ws r =
     (case initiate_challenge (sends_pass env) sid data ws r of
        (r, outs) \<Rightarrow> (r, outs, if outs = [] then None else Some (AwaitChallenge sid)))"

definition begin_response :: "ed25519 \<Rightarrow> env \<Rightarrow> pyval \<Rightarrow> pyval \<Rightarrow> conn \<Rightarrow> relay \<Rightarrow> begun" where
  "begin_response ed env sid data ws r =
     (case handle_challenge_response ed (sends_pass env) sid data ws r of
        (r, outs) \<Rightarrow> (r, outs, if outs = [] then None else Some AwaitReply))"

text \<open>The first send of a fan-out to these peers.\<close>

definition begin_fan :: "pyval \<Rightarrow> (pyval \<times> registration) list \<Rightarrow> relay \<Rightarrow> begun" where
  "begin_fan msg peers r =
     (case peers of [] \<Rightarrow> (r, [], None) | (peer, info) # rest \<Rightarrow> (r, [SendTo (reg_ws info) msg], Some (AwaitFan msg peers [])))"

definition begin_route :: "pyval \<Rightarrow> (string, pyval) dict \<Rightarrow> (string, pyval) dict \<Rightarrow> relay \<Rightarrow> begun" where
  "begin_route sid data hdr r =
     (let target = (case map_of hdr ''receiver_id'' of None \<Rightarrow> PNone | Some t \<Rightarrow> t);
          ttl = (case map_of hdr ''ttl'' of None \<Rightarrow> PInt 30 | Some t \<Rightarrow> t)
      in case ttl_expired ttl of
           None \<Rightarrow> (r, [], None)
         | Some expired \<Rightarrow>
             if expired then (r, [], None)
             else
               let msg = forwarded data hdr ttl
               in if target = PStr BROADCAST_ID then begin_fan msg (filter (\<lambda>(peer, info). peer \<noteq> sid) (registry r)) r
                  else if truthy target \<and> hashable target \<and> target \<noteq> sid
                  then (case map_of (registry r) target of
                      None \<Rightarrow> (r, [], None)
                    | Some info \<Rightarrow> (r, [SendTo (reg_ws info) msg], Some (AwaitRoute target (reg_ws info))))
                  else (r, [], None))"

definition begin_process :: "ed25519 \<Rightarrow> env \<Rightarrow> conn \<Rightarrow> pyval \<Rightarrow> relay \<Rightarrow> begun" where
  "begin_process ed env ws data r =
     (case data of
        PDict dd \<Rightarrow>
          (case (case map_of dd ''header'' of None \<Rightarrow> PDict [] | Some h \<Rightarrow> h) of
             PDict hdr \<Rightarrow>
               (let intent = (case map_of hdr ''intent'' of None \<Rightarrow> PNone | Some v \<Rightarrow> v);
                    sid = (case map_of hdr ''sender_id'' of None \<Rightarrow> PNone | Some v \<Rightarrow> v)
                in if \<not> truthy sid then (r, [], None)
                   else if intent = PStr ''Challenge_Response'' then begin_response ed env sid data ws r
                   else if \<not> hashable sid then (r, [], None)
                   else (case map_of (registry r) sid of
                       None \<Rightarrow>
                         if map_of (pending_challenges r) sid = None then begin_challenge env sid data ws r
                         else (r, [], None)
                     | Some info \<Rightarrow>
                         if reg_ws info \<noteq> ws then begin_challenge env sid data ws r
                         else begin_route sid dd hdr r))
           | _ \<Rightarrow> (r, [], None))
      | _ \<Rightarrow> (r, [], None))"

definition begin_message :: "ed25519 \<Rightarrow> env \<Rightarrow> conn \<Rightarrow> string \<Rightarrow> relay \<Rightarrow> begun" where
  "begin_message ed env ws msg r =
     (case map_of (rate_limiters r) ws of
        None \<Rightarrow> (r, [], None)
      | Some limiter \<Rightarrow>
          (let (limiter', granted) = consume (now env) 1 limiter;
               r = r\<lparr>rate_limiters := AList.update ws limiter' (rate_limiters r)\<rparr>
           in if \<not> granted then (r, [CloseConn ws 1008], Some AwaitBreak)
              else if MAX_MESSAGE < length msg then (r, [CloseConn ws 1009], Some AwaitBreak)
              else (case json_loads msg of None \<Rightarrow> (r, [], None) | Some data \<Rightarrow> begin_process ed env ws data r)))"

text \<open>\<^verbatim>\<open>del self.registry[stale_id]\<close> for each in turn; the first that is gone raises a \<^verbatim>\<open>KeyError\<close>, which ends the handling
  of the message.\<close>

fun deregister :: "pyval list \<Rightarrow> (pyval, registration) dict \<Rightarrow> (pyval, registration) dict" where
  "deregister [] reg = reg"
| "deregister (a # as) reg = (if map_of reg a = None then reg else deregister as (AList.delete a reg))"

text \<open>The rest of a handler, from the outcome of what it waits for to the next await.\<close>

definition resume :: "conn \<Rightarrow> awaiting \<Rightarrow> send_result \<Rightarrow> relay \<Rightarrow> begun" where
  "resume ws a res r =
     (case a of
        AwaitRoute target c \<Rightarrow>
          (if res = SendClosed then r\<lparr>registry := deregister [target] (registry r)\<rparr> else r, [], None)
      | AwaitFan msg [] stale \<Rightarrow> (r, [], None)
      | AwaitFan msg ((peer, info) # rest) stale \<Rightarrow>
          (let stale = (if res = SendOk then stale else stale @ [peer])
           in case rest of
                [] \<Rightarrow> (r\<lparr>registry := deregister stale (registry r)\<rparr>, [], None)
              | (peer', info') # rest' \<Rightarrow> (r, [SendTo (reg_ws info') msg], Some (AwaitFan msg rest stale)))
      | AwaitChallenge sid \<Rightarrow>
          (if res = SendOk then r else r\<lparr>pending_challenges := AList.delete sid (pending_challenges r)\<rparr>, [], None)
      | AwaitReply \<Rightarrow> (r, [], None)
      | AwaitBreak \<Rightarrow> (cleanup_connection ws r, [], None))"

section \<open>Runs\<close>

record relay_tasks =
  rt_relay :: relay
  rt_waiting :: "conn \<Rightarrow> awaiting option"

datatype task_event =
    Connects seconds conn
  | Receives env conn string
  | Resumes conn send_result
  | Leaves conn

text \<open>A connection handles one message at a time and ends when its handler does; another handler, or the send of
  another one, may come first.\<close>

fun can_happen :: "relay_tasks \<Rightarrow> task_event \<Rightarrow> bool" where
  "can_happen s (Connects t ws) = (map_of (rate_limiters (rt_relay s)) ws = None \<and> rt_waiting s ws = None)"
| "can_happen s (Receives env ws msg) = (map_of (rate_limiters (rt_relay s)) ws \<noteq> None \<and> rt_waiting s ws = None)"
| "can_happen s (Resumes ws res) = (rt_waiting s ws \<noteq> None)"
| "can_happen s (Leaves ws) = (map_of (rate_limiters (rt_relay s)) ws \<noteq> None \<and> rt_waiting s ws = None)"

definition goes_on :: "conn \<Rightarrow> relay_tasks \<Rightarrow> begun \<Rightarrow> relay_tasks \<times> relay_out list" where
  "goes_on ws s b = (case b of (r, outs, a) \<Rightarrow> (\<lparr>rt_relay = r, rt_waiting = (rt_waiting s)(ws := a)\<rparr>, outs))"

fun task_step :: "ed25519 \<Rightarrow> task_event \<Rightarrow> relay_tasks \<Rightarrow> relay_tasks \<times> relay_out list" where
  "task_step ed (Connects t ws) s = goes_on ws s (open_connection t ws (rt_relay s), [], None)"
| "task_step ed (Receives env ws msg) s = goes_on ws s (begin_message ed env ws msg (rt_relay s))"
| "task_step ed (Resumes ws res) s =
     (case rt_waiting s ws of None \<Rightarrow> (s, []) | Some a \<Rightarrow> goes_on ws s (resume ws a res (rt_relay s)))"
| "task_step ed (Leaves ws) s = goes_on ws s (cleanup_connection ws (rt_relay s), [], None)"

definition new_tasks :: "rat \<Rightarrow> int \<Rightarrow> relay_tasks" where
  "new_tasks rate burst = \<lparr>rt_relay = new_relay rate burst, rt_waiting = (\<lambda>_. None)\<rparr>"

inductive tasks_run :: "ed25519 \<Rightarrow> relay_tasks \<Rightarrow> (task_event \<times> relay_out list) list \<Rightarrow> relay_tasks \<Rightarrow> bool"
  for ed s0 where
  start: "tasks_run ed s0 [] s0"
| step: "tasks_run ed s0 tr s \<Longrightarrow> can_happen s ev \<Longrightarrow> task_step ed ev s = (s', outs) \<Longrightarrow>
    tasks_run ed s0 (tr @ [(ev, outs)]) s'"

section \<open>Without interruption\<close>

lemma sends_pass_simps [simp]:
  "now (sends_pass env) = now env" "remote_ip (sends_pass env) = remote_ip env" "urandom (sends_pass env) = urandom env"
  "send_result (sends_pass env) ws = SendOk"
  by (simp_all add: sends_pass_def)

text \<open>The connection that the send under way goes to.\<close>

fun under_way :: "conn \<Rightarrow> awaiting \<Rightarrow> conn" where
  "under_way ws (AwaitRoute target c) = c"
| "under_way ws (AwaitFan msg ((peer, info) # rest) stale) = reg_ws info"
| "under_way ws a = ws"

fun sends_left :: "awaiting option \<Rightarrow> nat" where
  "sends_left (Some (AwaitFan msg peers stale)) = Suc (length peers)"
| "sends_left (Some a) = 1"
| "sends_left None = 0"

lemma resume_progress: "resume ws a res r = (r', outs, a') \<Longrightarrow> sends_left a' < sends_left (Some a)"
  by (cases a) (auto simp: resume_def Let_def split: list.splits)

text \<open>A handler runs to its end, every send ending as the environment says.\<close>

function finish :: "env \<Rightarrow> conn \<Rightarrow> awaiting option \<Rightarrow> relay \<Rightarrow> relay \<times> relay_out list" where
  "finish env ws None r = (r, [])"
| "finish env ws (Some a) r =
     (case resume ws a (send_result env (under_way ws a)) r of
        (r', outs, a') \<Rightarrow> (case finish env ws a' r' of (r'', rest) \<Rightarrow> (r'', outs @ rest)))"
  by pat_completeness auto
termination
  by (relation "measure (\<lambda>(env, ws, a, r). sends_left a)") (auto dest: resume_progress [OF sym])

definition goes_out :: "env \<Rightarrow> relay_out \<Rightarrow> bool" where
  "goes_out env out = (case out of SendTo c m \<Rightarrow> send_result env c = SendOk | CloseConn c code \<Rightarrow> True)"

definition completes :: "env \<Rightarrow> conn \<Rightarrow> begun \<Rightarrow> relay \<times> relay_out list" where
  "completes env ws b =
     (case b of (r, outs, a) \<Rightarrow> case finish env ws a r of (r', rest) \<Rightarrow> (r', filter (goes_out env) (outs @ rest)))"

lemma completes_idle [simp]: "completes env ws (r, [], None) = (r, [])"
  by (simp add: completes_def)

lemma send_challenge_completes:
  "send_challenge env sid key ws r =
     (case send_challenge (sends_pass env) sid key ws r of (r', outs) \<Rightarrow>
        completes env ws (r', outs, if outs = [] then None else Some (AwaitChallenge sid)))"
  by (auto simp: send_challenge_def completes_def goes_out_def resume_def Let_def split: option.split)

lemma challenge_completes: "completes env ws (begin_challenge env sid data ws r) = initiate_challenge env sid data ws r"
proof -
  have same: "cleanup_stale_challenges (sends_pass env) r = cleanup_stale_challenges env r"
    "recent_challenges (sends_pass env) r = recent_challenges env r" for r
    by (simp_all add: cleanup_stale_challenges_def recent_challenges_def)
  show ?thesis
    unfolding begin_challenge_def initiate_challenge_def Let_def same sends_pass_simps
    by (auto simp: send_challenge_completes [of env] case_prod_beta split: sum.split pyval.split)
qed

lemma response_completes: "completes env ws (begin_response ed env sid data ws r) = handle_challenge_response ed env sid data ws r"
  unfolding begin_response_def handle_challenge_response_def Let_def sends_pass_simps
  by (auto simp: completes_def resume_def goes_out_def split: sum.split pyval.split option.split)

lemma finish_fan:
  "finish env ws (Some (AwaitFan msg (p # ps) stale)) r =
     (r\<lparr>registry := deregister (stale @ map fst (filter (\<lambda>(peer, info). send_result env (reg_ws info) \<noteq> SendOk) (p # ps))) (registry r)\<rparr>,
      map (\<lambda>(peer, info). SendTo (reg_ws info) msg) ps)"
proof (induction ps arbitrary: p stale)
  case Nil
  show ?case by (cases p) (simp add: resume_def Let_def)
next
  case (Cons q qs)
  show ?case
    by (cases p; cases q; subst finish.simps(2)) (simp add: resume_def Let_def Cons.IH del: finish.simps)
qed

lemma deregister_all: "distinct as \<Longrightarrow> set as \<subseteq> fst ` set reg \<Longrightarrow> deregister as reg = dict_del_all as reg"
proof (induction as arbitrary: reg)
  case (Cons a as)
  then have "map_of reg a \<noteq> None" "set as \<subseteq> fst ` set (AList.delete a reg)"
    by (auto simp: map_of_eq_None_iff dict_del_set image_iff) force
  with Cons show ?case by (auto simp: dict_del_all_def)
qed (simp add: dict_del_all_def)

lemma fan_completes:
  assumes "dict_wf (registry r)"
  shows "completes env ws (begin_fan msg (filter (\<lambda>(peer, info). peer \<noteq> sid) (registry r)) r) = fan_out env sid msg r"
proof -
  let ?ps = "filter (\<lambda>(peer, info). peer \<noteq> sid) (registry r)"
  let ?failed = "filter (\<lambda>(peer, info). send_result env (reg_ws info) \<noteq> SendOk) ?ps"
  have fan: "fan_out env sid msg r = (r\<lparr>registry := dict_del_all (map fst ?failed) (registry r)\<rparr>,
      map (\<lambda>(peer, info). SendTo (reg_ws info) msg) (filter (\<lambda>(peer, info). send_result env (reg_ws info) = SendOk) ?ps))"
    by (simp add: fan_out_def Let_def comp_def case_prod_beta')
  have all: "deregister (map fst ?failed) (registry r) = dict_del_all (map fst ?failed) (registry r)"
  proof (rule deregister_all)
    show "distinct (map fst ?failed)" using assms by (simp add: dict_wf_def distinct_map_filter)
  qed auto
  have out: "filter (goes_out env) (map (\<lambda>(peer, info). SendTo (reg_ws info) msg) xs) =
      map (\<lambda>(peer, info). SendTo (reg_ws info) msg) (filter (\<lambda>(peer, info). send_result env (reg_ws info) = SendOk) xs)" for xs
    by (induction xs) (auto simp: goes_out_def)
  show ?thesis
  proof (cases ?ps)
    case Nil
    then show ?thesis by (simp add: fan begin_fan_def dict_del_all_def)
  next
    case (Cons p ps)
    have "completes env ws (begin_fan msg ?ps r) =
        (r\<lparr>registry := deregister (map fst ?failed) (registry r)\<rparr>, filter (goes_out env) (map (\<lambda>(peer, info). SendTo (reg_ws info) msg) ?ps))"
      unfolding Cons by (cases p) (simp add: begin_fan_def completes_def finish_fan del: finish.simps)
    then show ?thesis unfolding out all fan by simp
  qed
qed

lemma route_to_completes:
  "map_of (registry r) target = Some info \<Longrightarrow>
   completes env ws (r, [SendTo (reg_ws info) msg], Some (AwaitRoute target (reg_ws info))) = route_to env target info msg r"
  by (auto simp: completes_def route_to_def resume_def goes_out_def split: send_result.split)

lemma route_completes:
  assumes "dict_wf (registry r)"
  shows "completes env ws (begin_route sid dd hdr r) = route env sid dd hdr r"
  unfolding begin_route_def route_def Let_def using assms
  by (auto simp: fan_completes route_to_completes split: option.split)

lemma process_completes:
  "dict_wf (registry r) \<Longrightarrow> completes env ws (begin_process ed env ws data r) = process_message ed env ws data r"
  by (auto simp: begin_process_def process_message_def Let_def challenge_completes response_completes route_completes
      split: pyval.split option.split)

text \<open>The relay between its awaits agrees with the relay of theory \<open>Relay\<close>: a message whose handler is not
  interrupted, every send ending as the environment says, changes the relay and sends what \<open>handle_message\<close> says.\<close>

theorem uninterrupted_is_atomic:
  assumes "dict_wf (registry r)"
  shows "completes env ws (begin_message ed env ws msg r) = handle_message ed env ws msg r"
proof (cases "map_of (rate_limiters r) ws")
  case None
  then show ?thesis by (simp add: begin_message_def handle_message_def)
next
  case (Some limiter)
  with assms show ?thesis
    by (auto simp: begin_message_def handle_message_def Let_def case_prod_beta process_completes completes_def [of env ws "(_, _, Some AwaitBreak)"]
        resume_def goes_out_def split: option.split)
qed

section \<open>What a step adds to the tables\<close>

lemma deregister_shrinks: "map_of (deregister as reg) a = Some x \<Longrightarrow> map_of reg a = Some x"
proof (induction as arbitrary: reg)
  case (Cons b as)
  show ?case
  proof (cases "map_of reg b = None")
    case True
    with Cons.prems show ?thesis by simp
  next
    case False
    with Cons.prems have "map_of (deregister as (AList.delete b reg)) a = Some x" by simp
    then have "map_of (AList.delete b reg) a = Some x" by (rule Cons.IH)
    then show ?thesis by (simp add: dict_get_del split: if_splits)
  qed
qed simp

lemma resume_shrinks:
  assumes "resume ws w res r = (r', outs, w')"
  shows "map_of (registry r') a = Some reg \<Longrightarrow> map_of (registry r) a = Some reg"
    "map_of (pending_challenges r') a = Some ch \<Longrightarrow> map_of (pending_challenges r) a = Some ch"
proof -
  have "r' = r \<or> (\<exists>as. r' = r\<lparr>registry := deregister as (registry r)\<rparr>) \<or>
      (\<exists>sid. r' = r\<lparr>pending_challenges := AList.delete sid (pending_challenges r)\<rparr>) \<or> r' = cleanup_connection ws r"
  proof (cases w)
    case (AwaitRoute t c)
    with assms have "r' = r \<or> r' = r\<lparr>registry := deregister [t] (registry r)\<rparr>"
      by (simp add: resume_def del: deregister.simps split: if_splits)
    then show ?thesis by blast
  next
    case (AwaitFan msg peers stale)
    with assms have "r' = r \<or> r' = r\<lparr>registry := deregister stale (registry r)\<rparr> \<or>
        (\<exists>p. r' = r\<lparr>registry := deregister (stale @ [p]) (registry r)\<rparr>)"
      by (simp add: resume_def Let_def split: list.splits if_splits prod.splits) metis+
    then show ?thesis by blast
  next
    case (AwaitChallenge sid)
    with assms have "r' = r \<or> r' = r\<lparr>pending_challenges := AList.delete sid (pending_challenges r)\<rparr>"
      by (simp add: resume_def split: if_splits)
    then show ?thesis by blast
  qed (use assms in \<open>simp_all add: resume_def\<close>)
  then consider (same) "r' = r" | (some) as where "r' = r\<lparr>registry := deregister as (registry r)\<rparr>"
    | (challenge) sid where "r' = r\<lparr>pending_challenges := AList.delete sid (pending_challenges r)\<rparr>"
    | (gone) "r' = cleanup_connection ws r" by (elim disjE exE)
  then have "(map_of (registry r') a = Some reg \<longrightarrow> map_of (registry r) a = Some reg) \<and>
    (map_of (pending_challenges r') a = Some ch \<longrightarrow> map_of (pending_challenges r) a = Some ch)"
  proof cases
    case (some as)
    with deregister_shrinks [of as "registry r" a reg] show ?thesis by simp
  next
    case gone
    with cleanup_tables [of ws r a] show ?thesis by simp
  qed (simp_all add: dict_get_del)
  then show "map_of (registry r') a = Some reg \<Longrightarrow> map_of (registry r) a = Some reg"
    "map_of (pending_challenges r') a = Some ch \<Longrightarrow> map_of (pending_challenges r) a = Some ch" by blast+
qed

lemma begin_process_cases:
  assumes "begin_process ed env ws data r = (r', outs, w)"
  obtains (idle) "r' = r"
    | (init) sid where "initiate_challenge (sends_pass env) sid data ws r = (r', outs)"
    | (resp) sid dd hdr where "handle_challenge_response ed (sends_pass env) sid (PDict dd) ws r = (r', outs)"
        "data = PDict dd" "map_of dd ''header'' = Some (PDict hdr)"
        "map_of hdr ''intent'' = Some (PStr ''Challenge_Response'')" "map_of hdr ''sender_id'' = Some sid"
proof -
  have route: "begin_route sid dd hdr r = (r', outs, w) \<Longrightarrow> r' = r" for sid dd hdr
    by (auto simp: begin_route_def begin_fan_def Let_def split: option.splits if_splits list.splits)
  from assms show thesis
    unfolding begin_process_def Let_def
    by (auto simp: begin_challenge_def begin_response_def split: pyval.splits option.splits if_splits prod.splits
        intro: idle init resp dest: route)
qed

lemma begin_process_tables:
  assumes "begin_process ed env ws data r = (r', outs, w)"
  shows "map_of (pending_challenges r') a = Some ch \<Longrightarrow> map_of (pending_challenges r) a = Some ch \<or>
       SendTo (ch_ws ch) (challenge_msg a (nonce ch)) \<in> set outs"
    "map_of (registry r') a = Some reg \<Longrightarrow> map_of (registry r) a = Some reg \<or>
       reg_ws reg = ws \<and> (\<exists>ch sig. map_of (pending_challenges r) a = Some ch \<and> response_doc data a sig \<and>
         reg_public_key reg = ch_public_key ch \<and> verify_bytes ed (ch_public_key ch) sig (utf8 (nonce ch)))"
proof -
  from assms have "(map_of (pending_challenges r') a = Some ch \<longrightarrow> map_of (pending_challenges r) a = Some ch \<or>
       SendTo (ch_ws ch) (challenge_msg a (nonce ch)) \<in> set outs) \<and>
    (map_of (registry r') a = Some reg \<longrightarrow> map_of (registry r) a = Some reg \<or>
       reg_ws reg = ws \<and> (\<exists>ch sig. map_of (pending_challenges r) a = Some ch \<and> response_doc data a sig \<and>
         reg_public_key reg = ch_public_key ch \<and> verify_bytes ed (ch_public_key ch) sig (utf8 (nonce ch))))"
  proof (cases rule: begin_process_cases)
    case init
    from initiate_tables [OF this] show ?thesis by auto
  next
    case (resp sid dd hdr)
    have doc: "response_doc data sid sig" if "map_of dd ''payload'' = Some (PDict pl)"
      "map_of pl ''content'' = Some (PStr sig)" for pl sig
      using resp(2-) that by (auto simp: response_doc_def)
    show ?thesis
      using response_tables(1) [OF resp(1), of a ch] response_tables(2) [OF resp(1), of a reg] by (metis doc)
  qed simp
  then show "map_of (pending_challenges r') a = Some ch \<Longrightarrow> map_of (pending_challenges r) a = Some ch \<or>
       SendTo (ch_ws ch) (challenge_msg a (nonce ch)) \<in> set outs"
    "map_of (registry r') a = Some reg \<Longrightarrow> map_of (registry r) a = Some reg \<or>
       reg_ws reg = ws \<and> (\<exists>ch sig. map_of (pending_challenges r) a = Some ch \<and> response_doc data a sig \<and>
         reg_public_key reg = ch_public_key ch \<and> verify_bytes ed (ch_public_key ch) sig (utf8 (nonce ch)))"
    by blast+
qed

lemma begin_message_cases:
  assumes "begin_message ed env ws msg r = (r', outs, w)"
  obtains (other) "registry r' = registry r" "pending_challenges r' = pending_challenges r"
      "\<And>c. map_of (rate_limiters r') c = None \<longleftrightarrow> map_of (rate_limiters r) c = None"
  | (handled) r1 data where "json_loads msg = Some data" "begin_process ed env ws data r1 = (r', outs, w)"
      "registry r1 = registry r" "pending_challenges r1 = pending_challenges r"
      "\<And>c. map_of (rate_limiters r1) c = None \<longleftrightarrow> map_of (rate_limiters r) c = None"
proof (cases "map_of (rate_limiters r) ws")
  case None
  with assms other show thesis by (simp add: begin_message_def)
next
  case (Some limiter)
  let ?r = "r\<lparr>rate_limiters := AList.update ws (fst (consume (now env) 1 limiter)) (rate_limiters r)\<rparr>"
  have same: "registry ?r = registry r" "pending_challenges ?r = pending_challenges r"
    "map_of (rate_limiters ?r) c = None \<longleftrightarrow> map_of (rate_limiters r) c = None" for c
    using Some by (auto simp: dict_simps)
  from Some assms have "r' = ?r \<or> (\<exists>data. json_loads msg = Some data \<and> begin_process ed env ws data ?r = (r', outs, w))"
    by (auto simp: begin_message_def Let_def case_prod_beta split: if_splits option.splits)
  with same other handled show thesis by metis
qed

lemma task_step_tables:
  assumes "task_step ed ev s = (s', outs)"
  shows "map_of (pending_challenges (rt_relay s')) a = Some ch \<Longrightarrow> map_of (pending_challenges (rt_relay s)) a = Some ch \<or>
       SendTo (ch_ws ch) (challenge_msg a (nonce ch)) \<in> set outs"
    "map_of (registry (rt_relay s')) a = Some reg \<Longrightarrow> map_of (registry (rt_relay s)) a = Some reg \<or>
       (\<exists>env msg data ch sig. ev = Receives env (reg_ws reg) msg \<and> json_loads msg = Some data \<and>
         map_of (pending_challenges (rt_relay s)) a = Some ch \<and> response_doc data a sig \<and>
         reg_public_key reg = ch_public_key ch \<and> verify_bytes ed (ch_public_key ch) sig (utf8 (nonce ch)))"
proof -
  let ?r = "rt_relay s" and ?r' = "rt_relay s'"
  let ?P = "map_of (pending_challenges ?r') a = Some ch \<longrightarrow> map_of (pending_challenges ?r) a = Some ch \<or>
       SendTo (ch_ws ch) (challenge_msg a (nonce ch)) \<in> set outs"
  let ?R = "map_of (registry ?r') a = Some reg \<longrightarrow> map_of (registry ?r) a = Some reg \<or>
       (\<exists>env msg data ch sig. ev = Receives env (reg_ws reg) msg \<and> json_loads msg = Some data \<and>
         map_of (pending_challenges ?r) a = Some ch \<and> response_doc data a sig \<and>
         reg_public_key reg = ch_public_key ch \<and> verify_bytes ed (ch_public_key ch) sig (utf8 (nonce ch)))"
  have "?P \<and> ?R"
  proof (cases ev)
    case (Receives env ws msg)
    obtain w where b: "begin_message ed env ws msg ?r = (?r', outs, w)"
      using assms Receives by (auto simp: goes_on_def split: prod.splits)
    then show ?thesis
    proof (cases rule: begin_message_cases)
      case (handled r1 data)
      from begin_process_tables [OF handled(2), of a] handled(1,3,4) Receives show ?thesis by auto
    qed simp
  next
    case (Resumes ws res)
    with assms resume_shrinks [of ws _ res ?r ?r'] show ?thesis
      by (auto simp: goes_on_def split: option.splits prod.splits)
  next
    case (Leaves ws)
    with assms cleanup_tables [of ws ?r a] show ?thesis by (auto simp: goes_on_def)
  qed (use assms in \<open>auto simp: goes_on_def open_connection_def\<close>)
  then show "map_of (pending_challenges ?r') a = Some ch \<Longrightarrow> map_of (pending_challenges ?r) a = Some ch \<or>
       SendTo (ch_ws ch) (challenge_msg a (nonce ch)) \<in> set outs"
    "map_of (registry ?r') a = Some reg \<Longrightarrow> map_of (registry ?r) a = Some reg \<or>
       (\<exists>env msg data ch sig. ev = Receives env (reg_ws reg) msg \<and> json_loads msg = Some data \<and>
         map_of (pending_challenges ?r) a = Some ch \<and> response_doc data a sig \<and>
         reg_public_key reg = ch_public_key ch \<and> verify_bytes ed (ch_public_key ch) sig (utf8 (nonce ch)))"
    by simp_all
qed

section \<open>Interleaved runs\<close>

lemma tasks_run_pending:
  "tasks_run ed (new_tasks rate burst) tr s \<Longrightarrow> map_of (pending_challenges (rt_relay s)) a = Some ch \<Longrightarrow>
   \<exists>x \<in> set tr. SendTo (ch_ws ch) (challenge_msg a (nonce ch)) \<in> set (snd x)"
proof (induction arbitrary: ch rule: tasks_run.induct)
  case start
  then show ?case by (simp add: new_tasks_def new_relay_def)
next
  case (step tr s ev s' outs)
  from task_step_tables(1) [OF step.hyps(3) step.prems] step.IH show ?case by auto
qed

text \<open>The trace holds the send of a challenge for \<open>a\<close> and, later, a response to it from the connection of \<open>reg\<close> whose
  signature verifies under the key of \<open>reg\<close>.\<close>

definition answered_in :: "ed25519 \<Rightarrow> (task_event \<times> relay_out list) list \<Rightarrow> pyval \<Rightarrow> registration \<Rightarrow> bool" where
  "answered_in ed tr a reg \<longleftrightarrow>
     (\<exists>tr1 tr2 env msg outs data sig n c. tr = tr1 @ (Receives env (reg_ws reg) msg, outs) # tr2 \<and>
        json_loads msg = Some data \<and> response_doc data a sig \<and>
        verify_bytes ed (reg_public_key reg) sig (utf8 n) \<and>
        (\<exists>x \<in> set tr1. SendTo c (challenge_msg a n) \<in> set (snd x)))"

lemma answered_in_append: "answered_in ed tr a reg \<Longrightarrow> answered_in ed (tr @ tr') a reg"
  unfolding answered_in_def by (metis append_Cons append_assoc)

text \<open>C5: Authenticated registration, whatever the interleaving: in every run of the relay, with the handlers of all
  connections interleaved at their awaits and every send ending as it may, an id is registered on a connection
  with a public key only if, earlier in the run, the relay sent a challenge for that id, and later that connection
  answered with a response whose signature over the challenge's nonce verifies under that key.\<close>

theorem registered_only_if_answered:
  assumes "tasks_run ed (new_tasks rate burst) tr s" "map_of (registry (rt_relay s)) a = Some reg"
  shows "answered_in ed tr a reg"
  using assms
proof (induction rule: tasks_run.induct)
  case start
  then show ?case by (simp add: new_tasks_def new_relay_def)
next
  case (step tr s ev s' outs)
  from task_step_tables(2) [OF step.hyps(3) step.prems] show ?case
  proof (elim disjE exE conjE)
    assume "map_of (registry (rt_relay s)) a = Some reg"
    from answered_in_append [OF step.IH [OF this]] show ?thesis .
  next
    fix env msg data ch sig
    assume m: "ev = Receives env (reg_ws reg) msg" "json_loads msg = Some data"
      "map_of (pending_challenges (rt_relay s)) a = Some ch" "response_doc data a sig"
      "reg_public_key reg = ch_public_key ch" "verify_bytes ed (ch_public_key ch) sig (utf8 (nonce ch))"
    from tasks_run_pending [OF step.hyps(1) m(3)] m show ?thesis
      unfolding answered_in_def
      by (intro exI [of _ tr] exI [of _ "[]"] exI [of _ env] exI [of _ msg] exI [of _ outs] exI [of _ data]
          exI [of _ sig] exI [of _ "nonce ch"] exI [of _ "ch_ws ch"]) simp
  qed
qed

section \<open>A failed send and a returning agent\<close>

text \<open>A connection that is open, idle and has a token left at this time.\<close>

definition ready :: "relay_tasks \<Rightarrow> env \<Rightarrow> conn \<Rightarrow> bool" where
  "ready s env ws \<longleftrightarrow> rt_waiting s ws = None \<and>
     (case map_of (rate_limiters (rt_relay s)) ws of None \<Rightarrow> False | Some b \<Rightarrow> snd (consume (now env) 1 b))"

definition charged :: "env \<Rightarrow> conn \<Rightarrow> relay \<Rightarrow> relay" where
  "charged env ws r = (case map_of (rate_limiters r) ws of None \<Rightarrow> r
     | Some b \<Rightarrow> r\<lparr>rate_limiters := AList.update ws (fst (consume (now env) 1 b)) (rate_limiters r)\<rparr>)"

lemma charged_simps [simp]:
  "registry (charged env ws r) = registry r" "pending_challenges (charged env ws r) = pending_challenges r"
  "challenge_rate_limits (charged env ws r) = challenge_rate_limits r"
  "c \<noteq> ws \<Longrightarrow> map_of (rate_limiters (charged env ws r)) c = map_of (rate_limiters r) c"
  by (simp_all add: charged_def dict_simps split: option.split)

lemma ready_receives:
  assumes "ready s env ws" "length msg \<le> MAX_MESSAGE" "json_loads msg = Some data"
  shows "can_happen s (Receives env ws msg)"
    "task_step ed (Receives env ws msg) s = goes_on ws s (begin_process ed env ws data (charged env ws (rt_relay s)))"
proof -
  obtain b where b: "map_of (rate_limiters (rt_relay s)) ws = Some b" "snd (consume (now env) 1 b)" "rt_waiting s ws = None"
    using assms(1) by (auto simp: ready_def split: option.splits)
  with assms(2,3) show "can_happen s (Receives env ws msg)"
    "task_step ed (Receives env ws msg) s = goes_on ws s (begin_process ed env ws data (charged env ws (rt_relay s)))"
    by (auto simp: begin_message_def charged_def Let_def case_prod_beta)
qed

lemma begin_handshake:
  assumes "handshake_doc data sid key" "truthy sid" "hashable sid" "challengeable sid ws r"
  shows "process_message ed env ws data r = initiate_challenge env sid data ws r"
    "begin_process ed env ws data r = begin_challenge env sid data ws r"
proof -
  from assms(1) obtain dd hdr where "data = PDict dd" "map_of dd ''header'' = Some (PDict hdr)"
    "map_of hdr ''sender_id'' = Some sid" "map_of hdr ''intent'' \<noteq> Some (PStr ''Challenge_Response'')"
    unfolding handshake_doc_def by blast
  with assms(2-4) show "process_message ed env ws data r = initiate_challenge env sid data ws r"
    "begin_process ed env ws data r = begin_challenge env sid data ws r"
    by (auto simp: process_message_def begin_process_def Let_def challengeable_def split: option.splits)
qed

lemma begin_answer:
  assumes "response_doc data sid sig" "truthy sid"
  shows "process_message ed env ws data r = handle_challenge_response ed env sid data ws r"
    "begin_process ed env ws data r = begin_response ed env sid data ws r"
proof -
  from assms(1) obtain dd hdr where "data = PDict dd" "map_of dd ''header'' = Some (PDict hdr)"
    "map_of hdr ''sender_id'' = Some sid" "map_of hdr ''intent'' = Some (PStr ''Challenge_Response'')"
    unfolding response_doc_def by blast
  with assms(2) show "process_message ed env ws data r = handle_challenge_response ed env sid data ws r"
    "begin_process ed env ws data r = begin_response ed env sid data ws r"
    by (simp_all add: process_message_def begin_process_def Let_def)
qed

text \<open>An agent registers in four steps of its connection, whatever happens elsewhere before and after.\<close>

definition registers :: "ed25519 \<Rightarrow> identity_manager \<Rightarrow> pyval \<Rightarrow> env \<Rightarrow> env \<Rightarrow> conn \<Rightarrow> string \<Rightarrow> string \<Rightarrow> relay_tasks \<Rightarrow> bool" where
  "registers ed m sid env env' ws hello answer s \<longleftrightarrow>
     ready s env ws \<and> length hello \<le> MAX_MESSAGE \<and> length answer \<le> MAX_MESSAGE \<and>
     challengeable sid ws (rt_relay s) \<and>
     length (recent_challenges env (cleanup_stale_challenges env (rt_relay s))) < 10 \<and>
     (\<exists>data. json_loads hello = Some data \<and> handshake_doc data sid (get_public_key_string m)) \<and>
     (\<exists>data. json_loads answer = Some data \<and> response_doc data sid (sign_bytes ed m (utf8 (hex_of_bytes (urandom env)))))"

lemma registration_steps:
  assumes "ed_correct ed" "manager_wf ed m" "truthy sid" "hashable sid"
    and "\<And>d. ed_sign ed (private_key m) d \<noteq> []"
    and "registers ed m sid env env' ws hello answer s"
    and "case map_of (rate_limiters (charged env ws (rt_relay s))) ws of None \<Rightarrow> False | Some b \<Rightarrow> snd (consume (now env') 1 b)"
  obtains s1 s2 s3 s4 where
    "can_happen s (Receives env ws hello)" "task_step ed (Receives env ws hello) s = (s1, [SendTo ws (challenge_msg sid (hex_of_bytes (urandom env)))])"
    "can_happen s1 (Resumes ws SendOk)" "task_step ed (Resumes ws SendOk) s1 = (s2, [])"
    "can_happen s2 (Receives env' ws answer)" "task_step ed (Receives env' ws answer) s2 = (s3, [SendTo ws (confirm_msg sid)])"
    "can_happen s3 (Resumes ws SendOk)" "task_step ed (Resumes ws SendOk) s3 = (s4, [])"
    "map_of (registry (rt_relay s4)) = (map_of (registry (rt_relay s)))
       (sid \<mapsto> \<lparr>reg_ws = ws, reg_public_key = get_public_key_string m\<rparr>)"
    "rt_waiting s4 = rt_waiting s" "map_of (rate_limiters (rt_relay s4)) ws \<noteq> None"
proof -
  from assms(6) obtain data data' where h: "ready s env ws" "length hello \<le> MAX_MESSAGE" "length answer \<le> MAX_MESSAGE"
    "challengeable sid ws (rt_relay s)" "length (recent_challenges env (cleanup_stale_challenges env (rt_relay s))) < 10"
    "json_loads hello = Some data" "handshake_doc data sid (get_public_key_string m)"
    "json_loads answer = Some data'" "response_doc data' sid (sign_bytes ed m (utf8 (hex_of_bytes (urandom env))))"
    unfolding registers_def by blast
  let ?n = "hex_of_bytes (urandom env)" and ?r = "charged env ws (rt_relay s)"
  have c: "challengeable sid ws ?r" using h(4) by (auto simp: challengeable_def split: option.splits)
  have few: "length (recent_challenges (sends_pass env) (cleanup_stale_challenges (sends_pass env) ?r)) < 10"
    using h(5) by (simp add: recent_challenges_def cleanup_stale_challenges_def Let_def)
  obtain pkb where pk: "b64decode False (get_public_key_string m) = Some pkb" "length pkb = 32"
    using signed_nonce_verifies(2) [OF assms(1,2)] by blast
  obtain r1 where r1: "initiate_challenge (sends_pass env) sid data ws ?r = (r1, [SendTo ws (challenge_msg sid ?n)])"
    "registry r1 = registry (rt_relay s)" "rate_limiters r1 = rate_limiters ?r"
    "map_of (pending_challenges r1) sid = Some \<lparr>ch_ws = ws, nonce = ?n, ch_public_key = get_public_key_string m, ch_timestamp = now env\<rparr>"
    using handshake_challenged [OF h(7) assms(3,4) c few pk, of ed] begin_handshake(1) [OF h(7) assms(3,4) c] by auto
  define s1 where "s1 = \<lparr>rt_relay = r1, rt_waiting = (rt_waiting s)(ws := Some (AwaitChallenge sid))\<rparr>"
  define s2 where "s2 = \<lparr>rt_relay = r1, rt_waiting = (rt_waiting s)(ws := None)\<rparr>"
  have e1: "can_happen s (Receives env ws hello)" "task_step ed (Receives env ws hello) s = (s1, [SendTo ws (challenge_msg sid ?n)])"
    using ready_receives [OF h(1,2,6)]
    by (simp_all add: begin_handshake(2) [OF h(7) assms(3,4) c] begin_challenge_def r1(1) goes_on_def s1_def)
  have e2: "can_happen s1 (Resumes ws SendOk)" "task_step ed (Resumes ws SendOk) s1 = (s2, [])"
    by (simp_all add: s1_def s2_def resume_def goes_on_def)
  have ready2: "ready s2 env' ws" using assms(7) by (simp add: ready_def s2_def r1(3))
  let ?r2 = "charged env' ws r1"
  have sig: "sign_bytes ed m (utf8 ?n) \<noteq> []" using assms(5) by (simp add: sign_bytes_def)
  have "map_of (pending_challenges ?r2) sid = Some \<lparr>ch_ws = ws, nonce = ?n, ch_public_key = get_public_key_string m, ch_timestamp = now env\<rparr>"
    by (simp add: r1(4))
  from response_registers [OF h(9) sig assms(3,4) this, of ed "sends_pass env'" ws] signed_nonce_verifies(1) [OF assms(1,2)]
  obtain r3 where r3: "handle_challenge_response ed (sends_pass env') sid data' ws ?r2 = (r3, [SendTo ws (confirm_msg sid)])"
    "map_of (registry r3) = (map_of (registry (rt_relay s)))(sid \<mapsto> \<lparr>reg_ws = ws, reg_public_key = get_public_key_string m\<rparr>)"
    using begin_answer(1) [OF h(9) assms(3)] r1(2) by auto
  define s3 where "s3 = \<lparr>rt_relay = r3, rt_waiting = (rt_waiting s)(ws := Some AwaitReply)\<rparr>"
  define s4 where "s4 = \<lparr>rt_relay = r3, rt_waiting = (rt_waiting s)(ws := None)\<rparr>"
  have e3: "can_happen s2 (Receives env' ws answer)" "task_step ed (Receives env' ws answer) s2 = (s3, [SendTo ws (confirm_msg sid)])"
    using ready_receives [OF ready2 h(3,8)]
    by (simp_all add: begin_answer(2) [OF h(9) assms(3)] begin_response_def s2_def r3(1) goes_on_def s3_def)
  have e4: "can_happen s3 (Resumes ws SendOk)" "task_step ed (Resumes ws SendOk) s3 = (s4, [])"
    by (simp_all add: s3_def s4_def resume_def goes_on_def)
  have idle: "rt_waiting s4 = rt_waiting s" using h(1) by (auto simp: s4_def ready_def)
  have "rate_limiters r3 = rate_limiters ?r2" using response_rest [OF r3(1)] by simp
  then have "map_of (rate_limiters (rt_relay s4)) ws \<noteq> None"
    using ready2 by (auto simp: s4_def s2_def ready_def charged_def dict_simps split: option.splits)
  with that [OF e1 e2 e3 e4 _ idle] r3(2) show thesis by (simp add: s4_def)
qed

text \<open>A routed message whose send is under way.\<close>

lemma begin_routed:
  assumes "map_of dd ''header'' = Some (PDict hdr)" "map_of hdr ''sender_id'' = Some sid"
    and "map_of hdr ''intent'' \<noteq> Some (PStr ''Challenge_Response'')" "truthy sid" "hashable sid"
    and "map_of (registry r) sid = Some info" "reg_ws info = ws"
    and "map_of hdr ''receiver_id'' = Some target" "target \<noteq> PStr BROADCAST_ID" "truthy target" "hashable target"
    and "target \<noteq> sid" "map_of (registry r) target = Some tinfo" "map_of hdr ''ttl'' = Some (PInt n)" "0 < n"
  shows "begin_process ed env ws (PDict dd) r =
    (r, [SendTo (reg_ws tinfo) (forwarded dd hdr (PInt n))], Some (AwaitRoute target (reg_ws tinfo)))"
proof -
  have "(case map_of hdr ''intent'' of None \<Rightarrow> PNone | Some v \<Rightarrow> v) \<noteq> PStr ''Challenge_Response''"
    using assms(3) by (auto split: option.split)
  with assms show ?thesis by (simp add: begin_process_def Let_def begin_route_def)
qed

text \<open>A message to \<open>target\<close> from a registered sender on \<open>ws\<close>.\<close>

definition message_for :: "relay \<Rightarrow> conn \<Rightarrow> pyval \<Rightarrow> string \<Rightarrow> bool" where
  "message_for r ws target msg \<longleftrightarrow> length msg \<le> MAX_MESSAGE \<and>
     (\<exists>dd hdr sid info n. json_loads msg = Some (PDict dd) \<and> map_of dd ''header'' = Some (PDict hdr) \<and>
        map_of hdr ''sender_id'' = Some sid \<and> map_of hdr ''intent'' \<noteq> Some (PStr ''Challenge_Response'') \<and>
        truthy sid \<and> hashable sid \<and> map_of (registry r) sid = Some info \<and> reg_ws info = ws \<and>
        map_of hdr ''receiver_id'' = Some target \<and> target \<noteq> PStr BROADCAST_ID \<and> target \<noteq> sid \<and>
        map_of hdr ''ttl'' = Some (PInt n) \<and> 0 < n)"

lemma message_steps:
  assumes "message_for (rt_relay s) ws target msg" "ready s env ws" "truthy target" "hashable target"
    and "map_of (registry (rt_relay s)) target = Some tinfo"
  shows "can_happen s (Receives env ws msg)"
    "\<exists>out. task_step ed (Receives env ws msg) s =
       (\<lparr>rt_relay = charged env ws (rt_relay s), rt_waiting = (rt_waiting s)(ws := Some (AwaitRoute target (reg_ws tinfo)))\<rparr>, [out])"
proof -
  from assms(1) obtain dd hdr sid info n where m: "length msg \<le> MAX_MESSAGE" "json_loads msg = Some (PDict dd)"
    "map_of dd ''header'' = Some (PDict hdr)" "map_of hdr ''sender_id'' = Some sid"
    "map_of hdr ''intent'' \<noteq> Some (PStr ''Challenge_Response'')" "truthy sid" "hashable sid"
    "map_of (registry (charged env ws (rt_relay s))) sid = Some info" "reg_ws info = ws"
    "map_of hdr ''receiver_id'' = Some target" "target \<noteq> PStr BROADCAST_ID" "target \<noteq> sid"
    "map_of hdr ''ttl'' = Some (PInt n)" "0 < n"
    unfolding message_for_def charged_simps by blast
  have t: "map_of (registry (charged env ws (rt_relay s))) target = Some tinfo" using assms(5) by simp
  from ready_receives [OF assms(2) m(1,2)] begin_routed [OF m(3-11) assms(3,4) m(12) t m(13,14), of ed env]
  show "can_happen s (Receives env ws msg)"
    "\<exists>out. task_step ed (Receives env ws msg) s =
       (\<lparr>rt_relay = charged env ws (rt_relay s), rt_waiting = (rt_waiting s)(ws := Some (AwaitRoute target (reg_ws tinfo)))\<rparr>, [out])"
    by (simp_all add: goes_on_def)
qed

lemma tasks_run_trans: "tasks_run ed s1 tr' s2 \<Longrightarrow> tasks_run ed s0 tr s1 \<Longrightarrow> tasks_run ed s0 (tr @ tr') s2"
  by (induction rule: tasks_run.induct) (auto intro: tasks_run.step simp flip: append_assoc)

lemma tasks_run_Cons:
  "can_happen s ev \<Longrightarrow> task_step ed ev s = (s1, outs) \<Longrightarrow> tasks_run ed s1 tr s2 \<Longrightarrow> tasks_run ed s ((ev, outs) # tr) s2"
  using tasks_run_trans [of ed s1 tr s2 s "[(ev, outs)]"] tasks_run.step [OF tasks_run.start] by fastforce

lemma returning_agent_challengeable:
  assumes "map_of (registry r) a = Some old" "map_of (pending_challenges r) a = None"
  shows "challengeable a c (open_connection t c (cleanup_connection (reg_ws old) r))"
proof -
  let ?r = "cleanup_connection (reg_ws old) r"
  have "map_of (registry ?r) a = None"
    using cleanup_tables(1) [of "reg_ws old" r a] cleanup_forgets(1) [of "reg_ws old" r a] assms(1)
    by (cases "map_of (registry ?r) a") auto
  moreover have "map_of (pending_challenges ?r) a = None"
    using cleanup_tables(2) [of "reg_ws old" r a] assms(2) by (cases "map_of (pending_challenges ?r) a") auto
  ultimately show ?thesis by (simp add: challengeable_def open_connection_def)
qed

lemma new_bucket_pays_twice:
  assumes "2 \<le> burst"
  shows "snd (consume t 1 (new_bucket rate burst t))" "snd (consume t 1 (fst (consume t 1 (new_bucket rate burst t))))"
  using assms by (simp_all add: consume_def new_bucket_def Let_def)

text \<open>C36: A late failure deregisters an agent that is there: while the relay sends a message to an agent, the agent
  leaves, comes back on a new connection and registers again; when the send to its old connection then fails, the
  relay removes the registration by the agent's id, and the agent, connected and idle, is no longer reachable.\<close>

theorem late_failure_deregisters_live_agent:
  assumes ed: "ed_correct ed" "manager_wf ed m" "\<And>d. ed_sign ed (private_key m) d \<noteq> []"
    and agent: "truthy a" "hashable a" "map_of (registry (rt_relay s)) a = Some old" "map_of (pending_challenges (rt_relay s)) a = None"
    and conns: "rt_waiting s (reg_ws old) = None" "map_of (rate_limiters (rt_relay s)) (reg_ws old) \<noteq> None" "reg_ws old \<noteq> ws"
      "map_of (rate_limiters (rt_relay s)) c = None" "rt_waiting s c = None" "c \<noteq> ws" "c \<noteq> reg_ws old"
    and msg: "ready s env ws" "message_for (rt_relay s) ws a msg"
    and again: "2 \<le> burst_limit (rt_relay s)" "now env1 = t" "now env2 = t"
      "length (recent_challenges env1 (rt_relay s)) < 10" "length hello \<le> MAX_MESSAGE" "length answer \<le> MAX_MESSAGE"
      "json_loads hello = Some data" "handshake_doc data a (get_public_key_string m)"
      "json_loads answer = Some data'" "response_doc data' a (sign_bytes ed m (utf8 (hex_of_bytes (urandom env1))))"
  shows "\<exists>tr s'. tasks_run ed s tr s' \<and>
    map fst tr = [Receives env ws msg, Leaves (reg_ws old), Connects t c, Receives env1 c hello, Resumes c SendOk,
      Receives env2 c answer, Resumes c SendOk, Resumes ws SendClosed] \<and>
    map_of (registry (rt_relay s')) a = None \<and> map_of (rate_limiters (rt_relay s')) c \<noteq> None \<and> rt_waiting s' c = None"
proof -
  let ?r1 = "charged env ws (rt_relay s)"
  define s1 where "s1 = \<lparr>rt_relay = ?r1, rt_waiting = (rt_waiting s)(ws := Some (AwaitRoute a (reg_ws old)))\<rparr>"
  from message_steps(1) [OF msg(2,1) agent(1-3)] message_steps(2) [OF msg(2,1) agent(1-3), of ed] obtain out where
    e1: "can_happen s (Receives env ws msg)" "task_step ed (Receives env ws msg) s = (s1, [out])" unfolding s1_def by blast
  let ?r2 = "cleanup_connection (reg_ws old) ?r1"
  define s2 where "s2 = \<lparr>rt_relay = ?r2, rt_waiting = rt_waiting s1\<rparr>"
  have e2: "can_happen s1 (Leaves (reg_ws old))" "task_step ed (Leaves (reg_ws old)) s1 = (s2, [])"
    using conns(1-3) by (auto simp: s1_def s2_def goes_on_def fun_eq_iff)
  define s3 where "s3 = \<lparr>rt_relay = open_connection t c ?r2, rt_waiting = rt_waiting s1\<rparr>"
  have e3: "can_happen s2 (Connects t c)" "task_step ed (Connects t c) s2 = (s3, [])"
    using conns by (auto simp: s2_def s3_def s1_def goes_on_def fun_eq_iff cleanup_connection_def dict_simps)
  have bucket: "map_of (rate_limiters (rt_relay s3)) c = Some (new_bucket (rate_limit (rt_relay s)) (burst_limit (rt_relay s)) t)"
    by (simp add: s3_def open_connection_def cleanup_connection_def charged_def dict_simps split: option.split)
  note paid = new_bucket_pays_twice [OF again(1), of t]
  have reg: "registers ed m a env1 env2 c hello answer s3"
    unfolding registers_def
  proof (intro conjI exI)
    show "ready s3 env1 c" using bucket paid(1) again(2) conns(5,6) by (simp add: ready_def s3_def s1_def)
    show "challengeable a c (rt_relay s3)" using returning_agent_challengeable [of ?r1 a old] agent(3,4) by (simp add: s3_def)
    have "challenge_rate_limits (cleanup_stale_challenges env1 (rt_relay s3)) = challenge_rate_limits (rt_relay s)"
      by (simp add: s3_def open_connection_def cleanup_connection_def cleanup_stale_challenges_def Let_def)
    with again(4) show "length (recent_challenges env1 (cleanup_stale_challenges env1 (rt_relay s3))) < 10"
      by (simp add: recent_challenges_def)
  qed (fact again)+
  have "case map_of (rate_limiters (charged env1 c (rt_relay s3))) c of None \<Rightarrow> False | Some b \<Rightarrow> snd (consume (now env2) 1 b)"
    using bucket paid(2) again(2,3) by (simp add: charged_def dict_simps)
  from registration_steps [OF ed(1,2) agent(1,2) ed(3) reg this] obtain s4 s5 s6 s7 where
    e4: "can_happen s3 (Receives env1 c hello)" "task_step ed (Receives env1 c hello) s3 = (s4, [SendTo c (challenge_msg a (hex_of_bytes (urandom env1)))])"
      "can_happen s4 (Resumes c SendOk)" "task_step ed (Resumes c SendOk) s4 = (s5, [])"
      "can_happen s5 (Receives env2 c answer)" "task_step ed (Receives env2 c answer) s5 = (s6, [SendTo c (confirm_msg a)])"
      "can_happen s6 (Resumes c SendOk)" "task_step ed (Resumes c SendOk) s6 = (s7, [])"
    and s7: "map_of (registry (rt_relay s7)) a \<noteq> None" "rt_waiting s7 = rt_waiting s3" "map_of (rate_limiters (rt_relay s7)) c \<noteq> None"
    by (metis fun_upd_same option.distinct(1))
  have w: "rt_waiting s7 ws = Some (AwaitRoute a (reg_ws old))" by (simp add: s7(2) s3_def s1_def)
  define s8 where "s8 = \<lparr>rt_relay = rt_relay s7\<lparr>registry := deregister [a] (registry (rt_relay s7))\<rparr>, rt_waiting = (rt_waiting s7)(ws := None)\<rparr>"
  have e8: "can_happen s7 (Resumes ws SendClosed)" "task_step ed (Resumes ws SendClosed) s7 = (s8, [])"
    by (simp_all add: w resume_def goes_on_def s8_def)
  note run = tasks_run_Cons [OF e1 tasks_run_Cons [OF e2 tasks_run_Cons [OF e3 tasks_run_Cons [OF e4(1,2) tasks_run_Cons [OF e4(3,4)
    tasks_run_Cons [OF e4(5,6) tasks_run_Cons [OF e4(7,8) tasks_run_Cons [OF e8 tasks_run.start]]]]]]]]
  have "map_of (registry (rt_relay s8)) a = None" using s7(1) by (simp add: s8_def dict_simps)
  moreover have "map_of (rate_limiters (rt_relay s8)) c \<noteq> None" "rt_waiting s8 c = None"
    using s7(3) conns(5,6) by (simp_all add: s8_def s7(2) s3_def s1_def)
  ultimately show ?thesis by - (rule exI, rule exI, rule conjI [OF run], simp)
qed

definition routed_doc :: pyval where
  "routed_doc = PDict [(''header'', PDict [(''receiver_id'', PStr ''a''), (''sender_id'', PStr ''b''), (''ttl'', PInt 1)])]"

definition busy_relay :: relay_tasks where
  "busy_relay = \<lparr>rt_relay = victim_relay\<lparr>rate_limiters := [(1, new_bucket 30 60 0), (2, new_bucket 30 60 0)]\<rparr>,
     rt_waiting = (\<lambda>_. None)\<rparr>"

lemma routed_doc_text: "json_loads (enc sign_opts routed_doc) = Some routed_doc" "length (enc sign_opts routed_doc) \<le> MAX_MESSAGE"
proof -
  have "json_val routed_doc" "canon routed_doc = routed_doc" "length (enc sign_opts routed_doc) < 400" by code_simp+
  then show "json_loads (enc sign_opts routed_doc) = Some routed_doc" "length (enc sign_opts routed_doc) \<le> MAX_MESSAGE"
    using loads_enc [OF std_sign_opts, of routed_doc] by (simp_all add: MAX_MESSAGE_def)
qed

lemma busy_message: "message_for (rt_relay busy_relay) 2 (PStr ''a'') (enc sign_opts routed_doc)"
proof -
  let ?hdr = "[(''receiver_id'', PStr ''a''), (''sender_id'', PStr ''b''), (''ttl'', PInt 1)]"
  have j: "json_loads (enc sign_opts routed_doc) = Some (PDict [(''header'', PDict ?hdr)])"
    using routed_doc_text(1) by (simp only: routed_doc_def)
  have b: "map_of (registry (rt_relay busy_relay)) (PStr ''b'') = Some \<lparr>reg_ws = 2, reg_public_key = ''other key''\<rparr>"
    by (simp add: busy_relay_def victim_relay_def)
  show ?thesis
    unfolding message_for_def
    by (rule conjI [OF routed_doc_text(2)], rule exI [of _ "[(''header'', PDict ?hdr)]"], rule exI [of _ ?hdr],
        rule exI [of _ "PStr ''b''"], rule exI [of _ "\<lparr>reg_ws = 2, reg_public_key = ''other key''\<rparr>"], rule exI [of _ 1])
      (simp add: j b BROADCAST_ID_def del: enc.simps)
qed

theorem late_failure_deregisters_live_agent_witness:
  "\<exists>tr s'. tasks_run plain_ed busy_relay tr s' \<and>
    map fst tr = [Receives demo_env 2 (enc sign_opts routed_doc), Leaves 1, Connects 0 3,
      Receives demo_env 3 (enc sign_opts demo_handshake), Resumes 3 SendOk,
      Receives demo_env 3 (enc sign_opts demo_response), Resumes 3 SendOk, Resumes 2 SendClosed] \<and>
    map_of (registry (rt_relay s')) (PStr ''a'') = None \<and> map_of (rate_limiters (rt_relay s')) 3 \<noteq> None \<and> rt_waiting s' 3 = None"
proof -
  let ?old = "\<lparr>reg_ws = 1, reg_public_key = ''victim key''\<rparr>"
  have r: "map_of (registry (rt_relay busy_relay)) (PStr ''a'') = Some ?old" "map_of (pending_challenges (rt_relay busy_relay)) (PStr ''a'') = None"
    "rt_waiting busy_relay w = None" "map_of (rate_limiters (rt_relay busy_relay)) 1 \<noteq> None" "map_of (rate_limiters (rt_relay busy_relay)) 3 = None"
    "ready busy_relay demo_env 2" "2 \<le> burst_limit (rt_relay busy_relay)" "length (recent_challenges demo_env (rt_relay busy_relay)) < 10" for w
    by (simp_all add: busy_relay_def victim_relay_def new_relay_def ready_def consume_def new_bucket_def Let_def recent_challenges_def)
  show ?thesis
    by (rule late_failure_deregisters_live_agent [where old = ?old, unfolded registration.simps, OF plain_ed_laws(1) sample_manager_wf demo_signature
          _ _ r(1,2) r(3) r(4) _ r(5) r(3) _ _ r(6) busy_message r(7) _ _ r(8) demo_lengths demo_loads(1) demo_handshake_doc demo_loads(2)
          demo_response_doc [unfolded demo_nonce_def]])
      simp_all
qed

section \<open>Open connections\<close>

definition tasks_inv :: "relay_tasks \<Rightarrow> bool" where
  "tasks_inv s \<longleftrightarrow> relay_inv (rt_relay s) \<and>
     (\<forall>ws. rt_waiting s ws \<noteq> None \<longrightarrow> map_of (rate_limiters (rt_relay s)) ws \<noteq> None)"

lemma begin_process_inv:
  assumes "begin_process ed env ws data r = (r', outs, w)" "relay_inv r" "map_of (rate_limiters r) ws \<noteq> None"
  shows "relay_inv r' \<and> rate_limiters r' = rate_limiters r"
proof -
  have lim: "rate_limiters r' = rate_limiters r" and pend: "map_of (pending_challenges r') a = Some ch \<Longrightarrow>
      map_of (pending_challenges r) a = Some ch \<or> ch_ws ch = ws" for a ch
    using assms(1) by (cases rule: begin_process_cases; auto dest: initiate_rest response_rest)+
  have "map_of (rate_limiters r) (reg_ws reg) \<noteq> None" if "map_of (registry r') a = Some reg" for a reg
    using begin_process_tables(2) [OF assms(1) that] assms(2,3) unfolding relay_inv_def by blast
  moreover have "map_of (rate_limiters r) (ch_ws ch) \<noteq> None" if "map_of (pending_challenges r') a = Some ch" for a ch
    using pend [OF that] assms(2,3) unfolding relay_inv_def by blast
  ultimately show ?thesis using lim unfolding relay_inv_def by simp
qed

lemma begin_message_inv:
  assumes "begin_message ed env ws msg r = (r', outs, w)" "relay_inv r" "map_of (rate_limiters r) ws \<noteq> None"
  shows "relay_inv r' \<and> (\<forall>c. map_of (rate_limiters r') c = None \<longleftrightarrow> map_of (rate_limiters r) c = None)"
  using assms(1)
proof (cases rule: begin_message_cases)
  case other
  with assms(2) show ?thesis unfolding relay_inv_def by metis
next
  case (handled r1 data)
  have "relay_inv r1" using assms(2) handled(3-5) unfolding relay_inv_def by metis
  with begin_process_inv [OF handled(2)] handled(5) assms(3) show ?thesis by metis
qed

lemma resume_inv:
  assumes "resume ws a res r = (r', outs, w)" "relay_inv r"
  shows "relay_inv r'" "w \<noteq> None \<Longrightarrow> rate_limiters r' = rate_limiters r"
    "c \<noteq> ws \<Longrightarrow> map_of (rate_limiters r') c = map_of (rate_limiters r) c"
proof -
  have *: "rate_limiters r' = rate_limiters r \<or> r' = cleanup_connection ws r \<and> w = None"
    using assms(1) by (auto simp: resume_def Let_def split: awaiting.splits list.splits if_splits)
  then show "relay_inv r'"
  proof
    assume "rate_limiters r' = rate_limiters r"
    with assms(2) resume_shrinks [OF assms(1)] show ?thesis unfolding relay_inv_def by metis
  qed (use cleanup_inv [OF assms(2)] in simp)
  from * show "w \<noteq> None \<Longrightarrow> rate_limiters r' = rate_limiters r"
    "c \<noteq> ws \<Longrightarrow> map_of (rate_limiters r') c = map_of (rate_limiters r) c"
    by (auto simp: cleanup_connection_def dict_simps)
qed

lemma task_step_inv:
  assumes "task_step ed ev s = (s', outs)" "can_happen s ev" "tasks_inv s"
  shows "tasks_inv s'"
proof (cases ev)
  case (Connects t ws)
  with assms limiter_inv show ?thesis by (auto simp: tasks_inv_def goes_on_def open_connection_def dict_simps)
next
  case (Receives env ws msg)
  obtain w where b: "begin_message ed env ws msg (rt_relay s) = (rt_relay s', outs, w)" "rt_waiting s' = (rt_waiting s)(ws := w)"
    using assms(1) Receives by (auto simp: goes_on_def split: prod.splits)
  from begin_message_inv [OF b(1)] assms(2,3) Receives show ?thesis by (auto simp: tasks_inv_def b(2))
next
  case (Resumes ws res)
  then obtain a w where b: "rt_waiting s ws = Some a" "resume ws a res (rt_relay s) = (rt_relay s', outs, w)"
      "rt_waiting s' = (rt_waiting s)(ws := w)"
    using assms(1,2) by (auto simp: goes_on_def split: prod.splits)
  have inv: "relay_inv (rt_relay s)" using assms(3) by (simp add: tasks_inv_def)
  note r = resume_inv [OF b(2) inv]
  show ?thesis
    unfolding tasks_inv_def
  proof (intro conjI allI impI r(1))
    fix c assume "rt_waiting s' c \<noteq> None"
    with r(2) r(3) [of c] assms(3) b show "map_of (rate_limiters (rt_relay s')) c \<noteq> None"
      by (cases "c = ws") (auto simp: tasks_inv_def)
  qed
next
  case (Leaves ws)
  with assms cleanup_inv show ?thesis
    by (auto simp: tasks_inv_def goes_on_def cleanup_connection_def dict_simps)
qed

text \<open>C34: Only open connections are known, whatever the interleaving: in every run, each registered agent, each pending
  challenge and each waiting handler belongs to a connection that is open.\<close>

theorem interleaved_entries_are_open:
  assumes "tasks_run ed (new_tasks rate burst) tr s"
  shows "(\<forall>a reg. map_of (registry (rt_relay s)) a = Some reg \<longrightarrow> map_of (rate_limiters (rt_relay s)) (reg_ws reg) \<noteq> None) \<and>
    (\<forall>a ch. map_of (pending_challenges (rt_relay s)) a = Some ch \<longrightarrow> map_of (rate_limiters (rt_relay s)) (ch_ws ch) \<noteq> None) \<and>
    (\<forall>ws. rt_waiting s ws \<noteq> None \<longrightarrow> map_of (rate_limiters (rt_relay s)) ws \<noteq> None)"
proof -
  have "tasks_inv (new_tasks rate burst)" using new_relay_inv by (simp add: tasks_inv_def new_tasks_def)
  with assms have "tasks_inv s" by (induction rule: tasks_run.induct) (auto intro: task_step_inv)
  then show ?thesis unfolding tasks_inv_def relay_inv_def by blast
qed

section \<open>Samples\<close>

lemma demo_tasks:
  "\<exists>tr s. tasks_run plain_ed (new_tasks 30 60) tr s \<and>
     map_of (registry (rt_relay s)) = [PStr ''a'' \<mapsto> \<lparr>reg_ws = 7, reg_public_key = get_public_key_string sample_manager\<rparr>]"
proof -
  define s0 where "s0 = \<lparr>rt_relay = open_connection 0 7 (new_relay 30 60), rt_waiting = (\<lambda>_. None)\<rparr>"
  have e0: "can_happen (new_tasks 30 60) (Connects 0 7)" "task_step plain_ed (Connects 0 7) (new_tasks 30 60) = (s0, [])"
    by (auto simp: new_tasks_def s0_def new_relay_def goes_on_def)
  have reg: "registers plain_ed sample_manager (PStr ''a'') demo_env demo_env 7 (enc sign_opts demo_handshake) (enc sign_opts demo_response) s0"
    unfolding registers_def
  proof (intro conjI exI)
    show "ready s0 demo_env 7"
      by (simp add: ready_def s0_def open_connection_def new_relay_def consume_def new_bucket_def Let_def)
    show "challengeable (PStr ''a'') 7 (rt_relay s0)"
      by (simp add: challengeable_def s0_def open_connection_def new_relay_def)
    show "length (recent_challenges demo_env (cleanup_stale_challenges demo_env (rt_relay s0))) < 10"
      by (simp add: recent_challenges_def cleanup_stale_challenges_def s0_def open_connection_def new_relay_def)
  qed (fact demo_lengths demo_loads demo_handshake_doc demo_response_doc [unfolded demo_nonce_def])+
  have paid: "case map_of (rate_limiters (charged demo_env 7 (rt_relay s0))) 7 of None \<Rightarrow> False | Some b \<Rightarrow> snd (consume (now demo_env) 1 b)"
    by (simp add: charged_def s0_def open_connection_def new_relay_def consume_def new_bucket_def Let_def)
  have agent: "truthy (PStr ''a'')" "hashable (PStr ''a'')" by simp_all
  obtain s1 s2 s3 s4 where
    e: "can_happen s0 (Receives demo_env 7 (enc sign_opts demo_handshake))"
      "task_step plain_ed (Receives demo_env 7 (enc sign_opts demo_handshake)) s0 = (s1, [SendTo 7 (challenge_msg (PStr ''a'') (hex_of_bytes (urandom demo_env)))])"
      "can_happen s1 (Resumes 7 SendOk)" "task_step plain_ed (Resumes 7 SendOk) s1 = (s2, [])"
      "can_happen s2 (Receives demo_env 7 (enc sign_opts demo_response))"
      "task_step plain_ed (Receives demo_env 7 (enc sign_opts demo_response)) s2 = (s3, [SendTo 7 (confirm_msg (PStr ''a''))])"
      "can_happen s3 (Resumes 7 SendOk)" "task_step plain_ed (Resumes 7 SendOk) s3 = (s4, [])"
    and r: "map_of (registry (rt_relay s4)) = (map_of (registry (rt_relay s0)))
       (PStr ''a'' \<mapsto> \<lparr>reg_ws = 7, reg_public_key = get_public_key_string sample_manager\<rparr>)"
    by (rule registration_steps [OF plain_ed_laws(1) sample_manager_wf agent demo_signature reg paid]) (rule that)
  note run = tasks_run_Cons [OF e0 tasks_run_Cons [OF e(1,2) tasks_run_Cons [OF e(3,4) tasks_run_Cons [OF e(5,6)
    tasks_run_Cons [OF e(7,8) tasks_run.start]]]]]
  have "registry (rt_relay s0) = []" by (simp add: s0_def open_connection_def new_relay_def)
  with r have "map_of (registry (rt_relay s4)) = [PStr ''a'' \<mapsto> \<lparr>reg_ws = 7, reg_public_key = get_public_key_string sample_manager\<rparr>]"
    by simp
  then show ?thesis by - (rule exI, rule exI, rule conjI [OF run])
qed

theorem registered_only_if_answered_witness:
  "\<exists>tr s. tasks_run plain_ed (new_tasks 30 60) tr s \<and> map_of (registry (rt_relay s)) (PStr ''a'') \<noteq> None \<and>
     answered_in plain_ed tr (PStr ''a'') \<lparr>reg_ws = 7, reg_public_key = get_public_key_string sample_manager\<rparr>"
proof -
  from demo_tasks obtain tr s where t: "tasks_run plain_ed (new_tasks 30 60) tr s"
    "map_of (registry (rt_relay s)) = [PStr ''a'' \<mapsto> \<lparr>reg_ws = 7, reg_public_key = get_public_key_string sample_manager\<rparr>]"
    by blast
  with registered_only_if_answered [OF t(1), of "PStr ''a''"] show ?thesis by fastforce
qed

theorem interleaved_entries_are_open_witness:
  "\<exists>tr s. tasks_run plain_ed (new_tasks 30 60) tr s \<and> map_of (registry (rt_relay s)) (PStr ''a'') \<noteq> None \<and>
     map_of (rate_limiters (rt_relay s)) 7 \<noteq> None"
proof -
  from demo_tasks obtain tr s where t: "tasks_run plain_ed (new_tasks 30 60) tr s"
    "map_of (registry (rt_relay s)) = [PStr ''a'' \<mapsto> \<lparr>reg_ws = 7, reg_public_key = get_public_key_string sample_manager\<rparr>]"
    by blast
  then have "map_of (registry (rt_relay s)) (PStr ''a'') =
      Some \<lparr>reg_ws = 7, reg_public_key = get_public_key_string sample_manager\<rparr>" by simp
  with conjunct1 [OF interleaved_entries_are_open [OF t(1)]] have "map_of (rate_limiters (rt_relay s)) 7 \<noteq> None" by fastforce
  with t show ?thesis by (intro exI [of _ tr] exI [of _ s]) simp
qed

theorem uninterrupted_is_atomic_witness:
  "completes demo_env 2 (begin_message plain_ed demo_env 2 (enc sign_opts routed_doc) (rt_relay busy_relay)) =
     handle_message plain_ed demo_env 2 (enc sign_opts routed_doc) (rt_relay busy_relay) \<and>
   (snd (snd (begin_message plain_ed demo_env 2 (enc sign_opts routed_doc) (rt_relay busy_relay))) = Some (AwaitRoute (PStr ''a'') 1)) \<and>
   dict_wf (registry (rt_relay busy_relay))"
proof (intro conjI)
  show wf: "dict_wf (registry (rt_relay busy_relay))"
    by (simp add: busy_relay_def victim_relay_def dict_wf_def)
  show "completes demo_env 2 (begin_message plain_ed demo_env 2 (enc sign_opts routed_doc) (rt_relay busy_relay)) =
     handle_message plain_ed demo_env 2 (enc sign_opts routed_doc) (rt_relay busy_relay)"
    by (rule uninterrupted_is_atomic [OF wf])
  have "ready busy_relay demo_env 2" "map_of (registry (rt_relay busy_relay)) (PStr ''a'') = Some \<lparr>reg_ws = 1, reg_public_key = ''victim key''\<rparr>"
    by (simp_all add: busy_relay_def victim_relay_def ready_def consume_def new_bucket_def Let_def)
  from message_steps(2) [OF busy_message this(1) _ _ this(2), of plain_ed]
  show "snd (snd (begin_message plain_ed demo_env 2 (enc sign_opts routed_doc) (rt_relay busy_relay))) = Some (AwaitRoute (PStr ''a'') 1)"
    by (auto simp: goes_on_def split: prod.splits dest: fun_cong [of _ _ 2])
qed

end
