(* ===== verification/Acl.thy ===== *)
theory Acl
  imports Schema
begin

text \<open>
  \<^verbatim>\<open>ACLPolicy\<close> of \<^verbatim>\<open>tpcp/security/acl.py\<close>: the two rule tables, the four operations that write
  them and the lookup. The abstract policy is the history of commands: the last command for the
  agent and intent decides, else the last command for the intent, else the default.
\<close>

record acl_policy =
  default_allow :: bool
  rules :: "(uuid \<times> intent, bool) dict"
  intent_rules :: "(intent, bool) dict"

definition new_policy :: "bool \<Rightarrow> acl_policy" where
  "new_policy d = \<lparr>default_allow = d, rules = [], intent_rules = []\<rparr>"

definition allow :: "uuid \<Rightarrow> intent \<Rightarrow> acl_policy \<Rightarrow> acl_policy" where
  "allow a i p = p\<lparr>rules := AList.update (a, i) True (rules p)\<rparr>"

definition deny :: "uuid \<Rightarrow> intent \<Rightarrow> acl_policy \<Rightarrow> acl_policy" where
  "deny a i p = p\<lparr>rules := AList.update (a, i) False (rules p)\<rparr>"

definition allow_all :: "intent \<Rightarrow> acl_policy \<Rightarrow> acl_policy" where
  "allow_all i p = p\<lparr>intent_rules := AList.update i True (intent_rules p)\<rparr>"

definition deny_all :: "intent \<Rightarrow> acl_policy \<Rightarrow> acl_policy" where
  "deny_all i p = p\<lparr>intent_rules := AList.update i False (intent_rules p)\<rparr>"

definition is_allowed :: "acl_policy \<Rightarrow> uuid \<Rightarrow> intent \<Rightarrow> bool" where
  "is_allowed p a i =
     (case map_of (rules p) (a, i) of
        Some r \<Rightarrow> r
      | None \<Rightarrow> (case map_of (intent_rules p) i of
            Some r \<Rightarrow> r
          | None \<Rightarrow> default_allow p))"

section \<open>The policy as a history of commands\<close>

datatype acl_cmd = Allow uuid intent | Deny uuid intent | AllowAll intent | DenyAll intent

primrec acl_apply :: "acl_cmd \<Rightarrow> acl_policy \<Rightarrow> acl_policy" where
  "acl_apply (Allow a i) = allow a i"
| "acl_apply (Deny a i) = deny a i"
| "acl_apply (AllowAll i) = allow_all i"
| "acl_apply (DenyAll i) = deny_all i"

text \<open>The verdict of a command on a specific pair, and on an intent as a whole.\<close>

fun specific :: "uuid \<Rightarrow> intent \<Rightarrow> acl_cmd \<Rightarrow> bool option" where
  "specific a i (Allow b j) = (if a = b \<and> i = j then Some True else None)"
| "specific a i (Deny b j) = (if a = b \<and> i = j then Some False else None)"
| "specific a i _ = None"

fun intent_wide :: "intent \<Rightarrow> acl_cmd \<Rightarrow> bool option" where
  "intent_wide i (AllowAll j) = (if i = j then Some True else None)"
| "intent_wide i (DenyAll j) = (if i = j then Some False else None)"
| "intent_wide i _ = None"

text \<open>The last verdict of a history, oldest command first.\<close>

fun last_verdict :: "(acl_cmd \<Rightarrow> bool option) \<Rightarrow> acl_cmd list \<Rightarrow> bool option" where
  "last_verdict f [] = None"
| "last_verdict f (c # cs) = (case last_verdict f cs of None \<Rightarrow> f c | Some b \<Rightarrow> Some b)"

definition acl_spec :: "bool \<Rightarrow> acl_cmd list \<Rightarrow> uuid \<Rightarrow> intent \<Rightarrow> bool" where
  "acl_spec d cs a i =
     (case last_verdict (specific a i) cs of
        Some b \<Rightarrow> b
      | None \<Rightarrow> (case last_verdict (intent_wide i) cs of Some b \<Rightarrow> b | None \<Rightarrow> d))"

lemmas acl_ops = allow_def deny_def allow_all_def deny_all_def

lemma acl_apply_rules:
  "map_of (rules (acl_apply c p)) (a, i) =
     (case specific a i c of None \<Rightarrow> map_of (rules p) (a, i) | Some b \<Rightarrow> Some b)"
  by (cases c) (auto simp: acl_ops dict_simps)

lemma acl_apply_intent_rules:
  "map_of (intent_rules (acl_apply c p)) i =
     (case intent_wide i c of None \<Rightarrow> map_of (intent_rules p) i | Some b \<Rightarrow> Some b)"
  by (cases c) (auto simp: acl_ops dict_simps)

lemma acl_apply_default [simp]: "default_allow (acl_apply c p) = default_allow p"
  by (cases c) (simp_all add: acl_ops)

lemma acl_history:
  "map_of (rules (fold acl_apply cs p)) (a, i) =
     (case last_verdict (specific a i) cs of None \<Rightarrow> map_of (rules p) (a, i) | Some b \<Rightarrow> Some b)"
  "map_of (intent_rules (fold acl_apply cs p)) i =
     (case last_verdict (intent_wide i) cs of None \<Rightarrow> map_of (intent_rules p) i | Some b \<Rightarrow> Some b)"
  "default_allow (fold acl_apply cs p) = default_allow p"
  by (induction cs arbitrary: p)
     (simp_all add: acl_apply_rules acl_apply_intent_rules split: option.splits)

text \<open>C18: The access-control table implements the documented precedence: after any sequence of
  \<^verbatim>\<open>allow\<close>, \<^verbatim>\<open>deny\<close>, \<^verbatim>\<open>allow_all\<close> and \<^verbatim>\<open>deny_all\<close> calls, \<^verbatim>\<open>is_allowed\<close> is the last call for
  that agent and intent, if there was one, else the last intent-wide call, else the default.\<close>

theorem acl_refines_history:
  "is_allowed (fold acl_apply cs (new_policy d)) a i = acl_spec d cs a i"
  by (simp add: is_allowed_def acl_spec_def acl_history new_policy_def split: option.splits)

end
