(* ===== verification/Dlq.thy ===== *)
theory Dlq
  imports PyJson
begin

text \<open>
  \<^verbatim>\<open>MessageQueue\<close> of \<^verbatim>\<open>tpcp/core/queue.py\<close>, the dead-letter queue: one bounded deque per target.
  Each operation runs under the queue's lock, so it is one step; it returns the new queue and,
  where \<^verbatim>\<open>popleft\<close> or \<^verbatim>\<open>pop\<close> can be called on an empty deque (a bound below 1), the
  \<^verbatim>\<open>IndexError\<close> raised. The type of the messages is left open.

  What a client may rely on is the locale \<open>fifo_store\<close>: the content per target as a list, and
  what each operation does to it. \<open>dlq\<close> is its interpretation on the model of the class.
\<close>

record 'm message_queue =
  max_size :: int
  dlq :: "(uuid, 'm list) dict"

definition new_queue :: "int \<Rightarrow> 'm message_queue" where
  "new_queue n = \<lparr>max_size = n, dlq = []\<rparr>"

text \<open>\<^verbatim>\<open>if target_id not in self._dlq: self._dlq[target_id] = deque()\<close>\<close>

definition with_deque :: "uuid \<Rightarrow> 'm message_queue \<Rightarrow> (uuid, 'm list) dict" where
  "with_deque t q = (if map_of (dlq q) t = None then AList.update t [] (dlq q) else dlq q)"

definition deque_of :: "'m message_queue \<Rightarrow> uuid \<Rightarrow> 'm list" where
  "deque_of q t = (case map_of (dlq q) t of None \<Rightarrow> [] | Some xs \<Rightarrow> xs)"

definition enqueue :: "uuid \<Rightarrow> 'm \<Rightarrow> 'm message_queue \<Rightarrow> 'm message_queue \<times> py_exn option" where
  "enqueue t e q =
     (let d = with_deque t q; xs = deque_of q t in
      if max_size q \<le> int (length xs)
      then (case xs of
          [] \<Rightarrow> (q\<lparr>dlq := d\<rparr>, Some (IndexError ''pop from an empty deque''))
        | _ # ys \<Rightarrow> (q\<lparr>dlq := AList.update t (ys @ [e]) d\<rparr>, None))
      else (q\<lparr>dlq := AList.update t (xs @ [e]) d\<rparr>, None))"

definition enqueue_front :: "uuid \<Rightarrow> 'm \<Rightarrow> 'm message_queue \<Rightarrow> 'm message_queue \<times> py_exn option" where
  "enqueue_front t e q =
     (let d = with_deque t q; xs = deque_of q t in
      if max_size q \<le> int (length xs)
      then (if xs = [] then (q\<lparr>dlq := d\<rparr>, Some (IndexError ''pop from an empty deque''))
            else (q\<lparr>dlq := AList.update t (e # butlast xs) d\<rparr>, None))
      else (q\<lparr>dlq := AList.update t (e # xs) d\<rparr>, None))"

definition dequeue_one :: "uuid \<Rightarrow> 'm message_queue \<Rightarrow> 'm message_queue \<times> 'm option" where
  "dequeue_one t q =
     (case map_of (dlq q) t of
        Some (m # ms) \<Rightarrow>
          (if ms = [] then q\<lparr>dlq := AList.delete t (dlq q)\<rparr>
           else q\<lparr>dlq := AList.update t ms (dlq q)\<rparr>, Some m)
      | _ \<Rightarrow> (q, None))"

definition drain :: "uuid \<Rightarrow> 'm message_queue \<Rightarrow> 'm message_queue \<times> 'm list" where
  "drain t q =
     (case map_of (dlq q) t of
        Some xs \<Rightarrow> (q\<lparr>dlq := AList.delete t (dlq q)\<rparr>, xs)
      | None \<Rightarrow> (q, []))"

definition has_messages :: "uuid \<Rightarrow> 'm message_queue \<Rightarrow> bool" where
  "has_messages t q =
     (case map_of (dlq q) t of None \<Rightarrow> False | Some xs \<Rightarrow> 0 < length xs)"

definition queue_stats :: "'m message_queue \<Rightarrow> (string, nat) dict" where
  "queue_stats q = map (\<lambda>(k, v). (uuid_str k, length v)) (dlq q)"

section \<open>Invariant\<close>

definition queue_inv :: "'m message_queue \<Rightarrow> bool" where
  "queue_inv q \<longleftrightarrow> 1 \<le> max_size q \<and> dict_wf (dlq q) \<and>
     (\<forall>(t, xs) \<in> set (dlq q). xs \<noteq> [] \<and> int (length xs) \<le> max_size q)"

lemma queue_inv_get:
  "queue_inv q \<Longrightarrow> map_of (dlq q) t = Some xs \<Longrightarrow> xs \<noteq> [] \<and> int (length xs) \<le> max_size q"
  by (auto simp: queue_inv_def dest: map_of_SomeD)

lemma queue_inv_deque: "queue_inv q \<Longrightarrow> int (length (deque_of q t)) \<le> max_size q"
  by (auto simp: deque_of_def queue_inv_def split: option.splits dest: map_of_SomeD)

lemma with_deque_update [simp]:
  "AList.update t xs (with_deque t q) = AList.update t xs (dlq q)"
  by (simp add: with_deque_def)

lemma queue_inv_set:
  "queue_inv q \<Longrightarrow> xs \<noteq> [] \<Longrightarrow> int (length xs) \<le> max_size q \<Longrightarrow>
   queue_inv (q\<lparr>dlq := AList.update t xs (dlq q)\<rparr>)"
  by (auto simp: queue_inv_def dict_set_set intro: dict_wf_set)

lemma queue_inv_del: "queue_inv q \<Longrightarrow> queue_inv (q\<lparr>dlq := AList.delete t (dlq q)\<rparr>)"
  by (auto simp: queue_inv_def dict_del_set intro: dict_wf_del)

lemma queue_inv_new: "1 \<le> n \<Longrightarrow> queue_inv (new_queue n)"
  by (simp add: queue_inv_def new_queue_def)

section \<open>The contract\<close>

definition take_last :: "nat \<Rightarrow> 'a list \<Rightarrow> 'a list" where
  "take_last n xs = drop (length xs - n) xs"

lemma take_last_short [simp]: "length xs \<le> n \<Longrightarrow> take_last n xs = xs"
  by (simp add: take_last_def)

lemma length_take_last: "length (take_last n xs) = min n (length xs)"
  by (simp add: take_last_def)

lemma take_last_nonempty: "0 < n \<Longrightarrow> xs \<noteq> [] \<Longrightarrow> take_last n xs \<noteq> []"
  by (cases xs) (auto simp: take_last_def)

lemma take_last_take_last_snoc:
  "0 < n \<Longrightarrow> take_last n (take_last n xs @ [y]) = take_last n (xs @ [y])"
  by (cases "length xs \<le> n") (auto simp: take_last_def Suc_diff_le)

locale fifo_store =
  fixes content :: "'q \<Rightarrow> uuid \<Rightarrow> 'm list"
    and cap :: "'q \<Rightarrow> nat"
    and inv :: "'q \<Rightarrow> bool"
    and enq :: "uuid \<Rightarrow> 'm \<Rightarrow> 'q \<Rightarrow> 'q"
    and enq_front :: "uuid \<Rightarrow> 'm \<Rightarrow> 'q \<Rightarrow> 'q"
    and deq :: "uuid \<Rightarrow> 'q \<Rightarrow> 'q \<times> 'm option"
    and has :: "uuid \<Rightarrow> 'q \<Rightarrow> bool"
  assumes cap_pos: "inv q \<Longrightarrow> 0 < cap q"
    and content_bound: "inv q \<Longrightarrow> length (content q t) \<le> cap q"
    and enq_inv: "inv q \<Longrightarrow> inv (enq t e q) \<and> cap (enq t e q) = cap q"
    and enq_front_inv: "inv q \<Longrightarrow> inv (enq_front t e q) \<and> cap (enq_front t e q) = cap q"
    and deq_inv: "inv q \<Longrightarrow> inv (fst (deq t q)) \<and> cap (fst (deq t q)) = cap q"
    and enq_content:
      "inv q \<Longrightarrow> content (enq t e q) = (content q)(t := take_last (cap q) (content q t @ [e]))"
    and enq_front_content:
      "inv q \<Longrightarrow> content (enq_front t e q) = (content q)(t := e # take (cap q - 1) (content q t))"
    and deq_content:
      "inv q \<Longrightarrow> snd (deq t q) = (case content q t of [] \<Rightarrow> None | x # xs \<Rightarrow> Some x)"
      "inv q \<Longrightarrow> content (fst (deq t q)) = (content q)(t := tl (content q t))"
    and has_content: "inv q \<Longrightarrow> has t q \<longleftrightarrow> content q t \<noteq> []"
begin

text \<open>Enqueuing a batch keeps the newest \<open>cap\<close> messages, in order.\<close>

lemma enq_batch:
  "inv q \<Longrightarrow> inv (fold (enq t) es q) \<and> cap (fold (enq t) es q) = cap q \<and>
   content (fold (enq t) es q) t = take_last (cap q) (content q t @ es)"
proof (induction es rule: rev_induct)
  case Nil
  then show ?case by (simp add: content_bound)
next
  case (snoc e es)
  then have "inv (fold (enq t) es q)" "cap (fold (enq t) es q) = cap q"
    "content (fold (enq t) es q) t = take_last (cap q) (content q t @ es)" by simp_all
  then show ?case
    using enq_inv enq_content take_last_take_last_snoc [OF cap_pos [OF snoc.prems], of "content q t @ es" e]
    by simp
qed

text \<open>Putting a message back right after taking it restores the content.\<close>

lemma requeue_restores:
  assumes "inv q" "deq t q = (q', Some m)"
  shows "content (enq_front t m q') = content q"
proof -
  from assms deq_content [OF assms(1), of t] obtain xs where
    c: "content q t = m # xs" "content q' = (content q)(t := xs)"
    by (auto split: list.splits)
  have "length xs \<le> cap q - 1" using content_bound [OF assms(1), of t] c(1) by simp
  moreover have "inv q'" "cap q' = cap q" using deq_inv [OF assms(1), of t] assms(2) by simp_all
  ultimately show ?thesis using c enq_front_content by auto
qed

text \<open>Taking a message shortens the content.\<close>

lemma deq_shorter:
  "inv q \<Longrightarrow> has t q \<Longrightarrow> length (content (fst (deq t q)) t) < length (content q t)"
  using deq_content [of q t] has_content [of q t] by (cases "content q t") simp_all

end

text \<open>The model of the class provides it, for a bound of at least 1.\<close>

lemma deque_of_set: "deque_of (q\<lparr>dlq := AList.update t xs (dlq q)\<rparr>) = (deque_of q)(t := xs)"
  by (auto simp: deque_of_def dict_simps fun_eq_iff)

lemma deque_of_del: "deque_of (q\<lparr>dlq := AList.delete t (dlq q)\<rparr>) = (deque_of q)(t := [])"
  by (auto simp: deque_of_def dict_simps fun_eq_iff)

lemma enqueue_eq:
  assumes "queue_inv q"
  shows "enqueue t e q =
    (q\<lparr>dlq := AList.update t (take_last (nat (max_size q)) (deque_of q t @ [e])) (dlq q)\<rparr>, None)"
proof (cases "max_size q \<le> int (length (deque_of q t))")
  case True
  with queue_inv_deque [OF assms, of t] have "nat (max_size q) = length (deque_of q t)" by simp
  moreover from True assms have "deque_of q t \<noteq> []" by (auto simp: queue_inv_def)
  ultimately show ?thesis
    using True by (cases "deque_of q t") (simp_all add: enqueue_def Let_def take_last_def)
qed (simp add: enqueue_def Let_def)

lemma enqueue_front_eq:
  assumes "queue_inv q"
  shows "enqueue_front t e q =
    (q\<lparr>dlq := AList.update t (e # take (nat (max_size q) - 1) (deque_of q t)) (dlq q)\<rparr>, None)"
proof (cases "max_size q \<le> int (length (deque_of q t))")
  case True
  with queue_inv_deque [OF assms, of t] have "nat (max_size q) = length (deque_of q t)" by simp
  moreover from True assms have "deque_of q t \<noteq> []" by (auto simp: queue_inv_def)
  ultimately show ?thesis
    using True by (simp add: enqueue_front_def Let_def butlast_conv_take)
next
  case False
  then have "take (nat (max_size q) - 1) (deque_of q t) = deque_of q t" by simp
  with False show ?thesis by (simp add: enqueue_front_def Let_def)
qed

lemma dequeue_one_eq:
  assumes "queue_inv q"
  shows "snd (dequeue_one t q) = (case deque_of q t of [] \<Rightarrow> None | x # xs \<Rightarrow> Some x)"
    "deque_of (fst (dequeue_one t q)) = (deque_of q)(t := tl (deque_of q t))"
    "queue_inv (fst (dequeue_one t q)) \<and> max_size (fst (dequeue_one t q)) = max_size q"
proof -
  have d: "deque_of q t = (case map_of (dlq q) t of None \<Rightarrow> [] | Some xs \<Rightarrow> xs)"
    by (simp add: deque_of_def)
  show "snd (dequeue_one t q) = (case deque_of q t of [] \<Rightarrow> None | x # xs \<Rightarrow> Some x)"
    by (auto simp: dequeue_one_def d split: option.splits list.splits)
  show "deque_of (fst (dequeue_one t q)) = (deque_of q)(t := tl (deque_of q t))"
    by (auto simp: dequeue_one_def d deque_of_set deque_of_del fun_eq_iff split: option.splits list.splits)
  show "queue_inv (fst (dequeue_one t q)) \<and> max_size (fst (dequeue_one t q)) = max_size q"
    using assms queue_inv_get [OF assms, of t]
    by (auto simp: dequeue_one_def queue_inv_del intro!: queue_inv_set split: option.splits list.splits)
qed

lemma has_messages_eq: "has_messages t q \<longleftrightarrow> deque_of q t \<noteq> []"
  by (simp add: has_messages_def deque_of_def split: option.splits)

interpretation dlq: fifo_store deque_of "\<lambda>q. nat (max_size q)" queue_inv
  "\<lambda>t e q. fst (enqueue t e q)" "\<lambda>t e q. fst (enqueue_front t e q)" dequeue_one has_messages
proof unfold_locales
  fix q :: "'m message_queue" and t e
  assume q: "queue_inv q"
  then show pos: "0 < nat (max_size q)" by (simp add: queue_inv_def)
  show b: "length (deque_of q t) \<le> nat (max_size q)" using queue_inv_deque [OF q, of t] by simp
  show "queue_inv (fst (enqueue t e q)) \<and> nat (max_size (fst (enqueue t e q))) = nat (max_size q)"
    using q pos queue_inv_set [OF q, of "take_last (nat (max_size q)) (deque_of q t @ [e])" t]
    by (simp add: enqueue_eq take_last_nonempty length_take_last)
  have "int (length (e # take (nat (max_size q) - 1) (deque_of q t))) \<le> max_size q"
    using pos by simp
  then show "queue_inv (fst (enqueue_front t e q)) \<and>
      nat (max_size (fst (enqueue_front t e q))) = nat (max_size q)"
    using q pos queue_inv_set [OF q, of "e # take (nat (max_size q) - 1) (deque_of q t)" t]
    by (simp add: enqueue_front_eq)
qed (simp_all add: enqueue_eq enqueue_front_eq deque_of_set dequeue_one_eq has_messages_eq)

section \<open>Properties\<close>

text \<open>First in, first out, with a bound: after any batch of messages is enqueued for a target,
  draining the target returns the newest \<^verbatim>\<open>max_size_per_peer\<close> of the messages that were pending
  or enqueued, in the order they were enqueued, and leaves nothing pending for it.\<close>

theorem enqueue_then_drain:
  assumes "queue_inv q"
  shows "snd (drain t (fold (\<lambda>e q. fst (enqueue t e q)) es q)) =
      take_last (nat (max_size q)) (deque_of q t @ es) \<and>
    deque_of (fst (drain t (fold (\<lambda>e q. fst (enqueue t e q)) es q))) t = []"
proof -
  let ?q = "fold (\<lambda>e q. fst (enqueue t e q)) es q"
  have "snd (drain t ?q) = deque_of ?q t" "deque_of (fst (drain t ?q)) t = []"
    by (auto simp: drain_def deque_of_def deque_of_del dict_simps split: option.splits)
  with dlq.enq_batch [OF assms, of t es] show ?thesis by simp
qed

theorem enqueue_then_drain_witness:
  "snd (drain 5 (fold (\<lambda>e q. fst (enqueue 5 e q)) [1, 2, 3 :: nat] (new_queue 2))) = [2, 3]"
  using enqueue_then_drain [OF queue_inv_new, of 2 5 "[1, 2, 3 :: nat]"]
  by (simp add: new_queue_def deque_of_def take_last_def)

text \<open>Every operation keeps the queue's invariant (at least one message and at most
  \<^verbatim>\<open>max_size_per_peer\<close> per stored target, one entry per target) and none raises.\<close>

theorem queue_ops_invariant:
  assumes "queue_inv q"
  shows "queue_inv (fst (enqueue t e q)) \<and> snd (enqueue t e q) = None \<and>
    queue_inv (fst (enqueue_front t e q)) \<and> snd (enqueue_front t e q) = None \<and>
    queue_inv (fst (dequeue_one t q)) \<and> queue_inv (fst (drain t q))"
  using assms dlq.enq_inv [OF assms, of t e] dlq.enq_front_inv [OF assms, of t e]
    dlq.deq_inv [OF assms, of t]
  by (simp add: enqueue_eq enqueue_front_eq drain_def queue_inv_del split: option.splits)

theorem queue_ops_invariant_witness:
  "queue_inv (fst (enqueue 5 (1 :: nat) (new_queue 2))) \<and>
   snd (enqueue 5 (1 :: nat) (new_queue 2)) = None"
  using queue_ops_invariant [OF queue_inv_new, of 2 5 "1 :: nat"] by simp

text \<open>Taking a message and putting it back in front, as the drain does when a send fails,
  restores the pending messages of every target.\<close>

theorem dequeue_requeue_restores:
  assumes "queue_inv q" "dequeue_one t q = (q', Some m)"
  shows "deque_of (fst (enqueue_front t m q')) = deque_of q"
  using assms by (rule dlq.requeue_restores)

theorem dequeue_requeue_restores_witness:
  "deque_of (fst (enqueue_front 5 1 \<lparr>max_size = 2, dlq = [(5, [2])]\<rparr>)) =
   deque_of \<lparr>max_size = 2, dlq = [(5, [1, 2 :: nat])]\<rparr>"
proof -
  have "queue_inv \<lparr>max_size = 2, dlq = [(5, [1, 2 :: nat])]\<rparr>"
    by (simp add: queue_inv_def dict_wf_def)
  then show ?thesis
    by (rule dequeue_requeue_restores) (simp add: dequeue_one_def)
qed

text \<open>Putting a message in front of a full queue silently discards the newest pending
  message: the documented promise that front-queuing loses no message fails when messages
  arrived while the failed one was in flight.\<close>

theorem enqueue_front_full_drops_newest:
  assumes "queue_inv q" "int (length (deque_of q t)) = max_size q"
  shows "deque_of (fst (enqueue_front t m q)) t = m # butlast (deque_of q t) \<and>
    snd (enqueue_front t m q) = None"
proof -
  from assms(2) have "nat (max_size q) = length (deque_of q t)" by simp
  with assms(1) show ?thesis by (simp add: enqueue_front_eq deque_of_set butlast_conv_take)
qed

theorem enqueue_front_full_drops_newest_witness:
  "deque_of (fst (enqueue_front 5 1 \<lparr>max_size = 2, dlq = [(5, [2, 3 :: nat])]\<rparr>)) 5 = [1, 2]"
  using enqueue_front_full_drops_newest [of "\<lparr>max_size = 2, dlq = [(5, [2, 3 :: nat])]\<rparr>" 5 1]
  by (simp add: queue_inv_def dict_wf_def deque_of_def)

end
