(* ===== verification/VectorStore.thy ===== *)
theory VectorStore
  imports PyJson "HOL-Library.Multiset"
begin

text \<open>
  \<^verbatim>\<open>VectorBank\<close> of \<^verbatim>\<open>tpcp/memory/vector.py\<close>: the embeddings by payload id, each with its norm
  computed when it is stored, and the cosine search over them. The floats are real numbers here,
  so the arithmetic is exact; sorting with \<^verbatim>\<open>reverse=True\<close> is a stable sort by the negated score.
\<close>

section \<open>State and operations\<close>

record vec_entry =
  ent_vector :: "real list"
  ent_norm :: real
  ent_model_id :: string
  ent_raw_text :: "string option"

record vector_bank =
  vb_node_id :: string
  embeddings :: "(uuid, vec_entry) dict"

definition new_bank :: "string \<Rightarrow> vector_bank" where
  "new_bank n = \<lparr>vb_node_id = n, embeddings = []\<rparr>"

definition vec_norm :: "real list \<Rightarrow> real" where
  "vec_norm v = sqrt (sum_list (map (\<lambda>x. x * x) v))"

definition store_vector ::
  "uuid \<Rightarrow> real list \<Rightarrow> string \<Rightarrow> string option \<Rightarrow> vector_bank \<Rightarrow> vector_bank" where
  "store_vector pid v model text b =
     b\<lparr>embeddings := AList.update pid
         \<lparr>ent_vector = v, ent_norm = vec_norm v, ent_model_id = model, ent_raw_text = text\<rparr>
         (embeddings b)\<rparr>"

definition get_vector :: "vector_bank \<Rightarrow> uuid \<Rightarrow> (real list \<times> string \<times> string option) option" where
  "get_vector b pid =
     map_option (\<lambda>e. (ent_vector e, ent_model_id e, ent_raw_text e)) (map_of (embeddings b) pid)"

definition list_vectors :: "vector_bank \<Rightarrow> (string \<times> string \<times> int \<times> bool) list" where
  "list_vectors b =
     map (\<lambda>(pid, e). (uuid_str pid, ent_model_id e, int (length (ent_vector e)),
                      ent_raw_text e \<noteq> None))
       (embeddings b)"

definition total_vectors :: "vector_bank \<Rightarrow> nat" where
  "total_vectors b = length (embeddings b)"

definition dot :: "real list \<Rightarrow> real list \<Rightarrow> real" where
  "dot a b = sum_list (map (\<lambda>(x, y). x * y) (zip a b))"

type_synonym hit = "uuid \<times> real \<times> string option"

text \<open>The loop over the stored entries.\<close>

fun score_all :: "real list \<Rightarrow> real \<Rightarrow> (uuid, vec_entry) dict \<Rightarrow> py_exn + hit list" where
  "score_all q qn [] = Inr []"
| "score_all q qn ((pid, e) # es) =
     (if ent_norm e = 0 then score_all q qn es
      else if length (ent_vector e) \<noteq> length q
      then Inl (ValueError (''Dimension mismatch: query is '' @ show_int (int (length q)) @
             ''d, stored vector '' @ [CHR 0x27] @ uuid_str pid @ [CHR 0x27] @ '' is '' @
             show_int (int (length (ent_vector e))) @ ''d.''))
      else (case score_all q qn es of
          Inl x \<Rightarrow> Inl x
        | Inr hs \<Rightarrow> Inr ((pid, dot q (ent_vector e) / (qn * ent_norm e), ent_raw_text e) # hs)))"

text \<open>The slice \<^verbatim>\<open>xs[:k]\<close>, which counts from the end for a negative \<^verbatim>\<open>k\<close>.\<close>

definition slice_to :: "int \<Rightarrow> 'a list \<Rightarrow> 'a list" where
  "slice_to k xs = (if 0 \<le> k then take (nat k) xs else take (length xs - nat (- k)) xs)"

definition search :: "vector_bank \<Rightarrow> real list \<Rightarrow> int \<Rightarrow> py_exn + hit list" where
  "search b q top_k =
     (if embeddings b = [] then Inr []
      else if vec_norm q = 0 then Inr []
      else (case score_all q (vec_norm q) (embeddings b) of
          Inl e \<Rightarrow> Inl e
        | Inr results \<Rightarrow> Inr (slice_to top_k (sort_key (\<lambda>h. - fst (snd h)) results))))"

section \<open>Dot products and norms\<close>

definition bank_inv :: "vector_bank \<Rightarrow> bool" where
  "bank_inv b \<longleftrightarrow> dict_wf (embeddings b) \<and>
     (\<forall>(pid, e) \<in> set (embeddings b). ent_norm e = vec_norm (ent_vector e))"

lemma bank_inv_new: "bank_inv (new_bank n)"
  by (simp add: bank_inv_def new_bank_def)

lemma bank_inv_store: "bank_inv b \<Longrightarrow> bank_inv (store_vector pid v m t b)"
  by (auto simp: bank_inv_def store_vector_def dict_set_set)

lemma sum_squares_nonneg: "0 \<le> sum_list (map (\<lambda>x. x * x) (v :: real list))"
  by (rule sum_list_nonneg) auto

lemma vec_norm_nonneg: "0 \<le> vec_norm v"
  by (simp add: vec_norm_def sum_squares_nonneg)

lemma vec_norm_Cons: "vec_norm (x # v) = sqrt (x\<^sup>2 + (vec_norm v)\<^sup>2)"
  by (simp add: vec_norm_def sum_squares_nonneg power2_eq_square)

lemma two_term_bound: "p * q + a * b \<le> sqrt (a\<^sup>2 + p\<^sup>2) * sqrt (b\<^sup>2 + q\<^sup>2)"
proof -
  have "(p * q + a * b)\<^sup>2 \<le> (a\<^sup>2 + p\<^sup>2) * (b\<^sup>2 + q\<^sup>2)"
    using zero_le_power2 [of "p * b - q * a"] by (simp add: power2_eq_square algebra_simps)
  then show ?thesis by (simp add: real_sqrt_mult [symmetric] real_le_rsqrt)
qed

lemma dot_bound: "\<bar>dot a b\<bar> \<le> vec_norm a * vec_norm b"
proof (induction a b rule: list_induct2')
  case (4 x a y b)
  have "\<bar>dot (x # a) (y # b)\<bar> \<le> \<bar>x\<bar> * \<bar>y\<bar> + \<bar>dot a b\<bar>"
    by (simp add: dot_def abs_mult [symmetric])
  also have "\<dots> \<le> vec_norm a * vec_norm b + \<bar>x\<bar> * \<bar>y\<bar>" using 4 by simp
  also have "\<dots> \<le> vec_norm (x # a) * vec_norm (y # b)"
    using two_term_bound [of "vec_norm a" "vec_norm b" "\<bar>x\<bar>" "\<bar>y\<bar>"] by (simp add: vec_norm_Cons)
  finally show ?case .
qed (simp_all add: dot_def vec_norm_nonneg)

lemma cosine_bound:
  assumes "vec_norm a \<noteq> 0" "vec_norm b \<noteq> 0"
  shows "- 1 \<le> dot a b / (vec_norm a * vec_norm b) \<and> dot a b / (vec_norm a * vec_norm b) \<le> 1"
proof -
  have "0 < vec_norm a * vec_norm b" using assms vec_norm_nonneg [of a] vec_norm_nonneg [of b] by simp
  then show ?thesis using dot_bound [of a b] by (simp add: field_simps abs_le_iff)
qed

lemma dot_scale: "dot (map ((*) c) v) v = c * (vec_norm v)\<^sup>2"
  by (induction v)
    (simp_all add: dot_def vec_norm_def sum_squares_nonneg power2_eq_square algebra_simps add_nonneg_nonneg)

lemma vec_norm_scale: "vec_norm (map ((*) c) v) = \<bar>c\<bar> * vec_norm v"
proof -
  have "sum_list (map (\<lambda>x. x * x) (map ((*) c) v)) = c\<^sup>2 * sum_list (map (\<lambda>x. x * x) v)"
    by (induction v) (simp_all add: power2_eq_square algebra_simps)
  then show ?thesis by (simp add: vec_norm_def real_sqrt_mult)
qed

lemma vec_norm_zero_iff: "vec_norm v = 0 \<longleftrightarrow> (\<forall>x \<in> set v. x = 0)"
proof (induction v)
  case (Cons x v)
  have "vec_norm (x # v) = 0 \<longleftrightarrow> x = 0 \<and> vec_norm v = 0" by (simp add: vec_norm_Cons sum_power2_eq_zero_iff)
  with Cons show ?case by simp
qed (simp add: vec_norm_def)

section \<open>The score loop\<close>

definition mismatch :: "real list \<Rightarrow> vec_entry \<Rightarrow> bool" where
  "mismatch q e \<longleftrightarrow> ent_norm e \<noteq> 0 \<and> length (ent_vector e) \<noteq> length q"

definition hit_of :: "real list \<Rightarrow> uuid \<times> vec_entry \<Rightarrow> hit" where
  "hit_of q x = (fst x, dot q (ent_vector (snd x)) / (vec_norm q * ent_norm (snd x)), ent_raw_text (snd x))"

lemma score_all_ok:
  "\<forall>x \<in> set es. \<not> mismatch q (snd x) \<Longrightarrow>
   score_all q (vec_norm q) es = Inr (map (hit_of q) (filter (\<lambda>x. ent_norm (snd x) \<noteq> 0) es))"
  by (induction es) (auto simp: mismatch_def hit_of_def)

lemma score_all_mismatch:
  "\<exists>x \<in> set es. mismatch q (snd x) \<Longrightarrow> \<exists>msg. score_all q qn es = Inl (ValueError msg)"
proof (induction es)
  case (Cons x es)
  then have "mismatch q (snd x) \<or> (\<exists>msg. score_all q qn es = Inl (ValueError msg))" by auto
  then show ?case by (cases x) (auto simp: mismatch_def)
qed simp

lemma set_slice_to: "set (slice_to k xs) \<subseteq> set xs"
  by (auto simp: slice_to_def dest: in_set_takeD)

lemma search_hits:
  assumes "search b q k = Inr hs"
  shows "set hs \<subseteq> hit_of q ` {x \<in> set (embeddings b). ent_norm (snd x) \<noteq> 0} \<and>
    (hs \<noteq> [] \<longrightarrow> vec_norm q \<noteq> 0)"
proof (cases "embeddings b = [] \<or> vec_norm q = 0")
  case True
  with assms show ?thesis by (auto simp: search_def split: if_splits)
next
  case False
  then have ok: "\<forall>x \<in> set (embeddings b). \<not> mismatch q (snd x)"
    using assms score_all_mismatch [of "embeddings b" q "vec_norm q"] by (force simp: search_def)
  with assms False have "hs = slice_to k (sort_key (\<lambda>h. - fst (snd h))
      (map (hit_of q) (filter (\<lambda>x. ent_norm (snd x) \<noteq> 0) (embeddings b))))"
    by (simp add: search_def score_all_ok)
  then have "set hs \<subseteq> set (map (hit_of q) (filter (\<lambda>x. ent_norm (snd x) \<noteq> 0) (embeddings b)))"
    using set_slice_to by (metis set_sort)
  with False show ?thesis by auto
qed


section \<open>Properties\<close>

text \<open>Every score that a search returns is a cosine: it lies between -1 and 1, and it belongs to
  an embedding that is stored under that id with a non-zero norm.\<close>

theorem search_scores_bounded:
  assumes "bank_inv b" "search b q k = Inr hs" "(pid, score, text) \<in> set hs"
  shows "- 1 \<le> score \<and> score \<le> 1 \<and>
    (\<exists>e. map_of (embeddings b) pid = Some e \<and> ent_norm e \<noteq> 0 \<and> ent_raw_text e = text \<and>
         score = dot q (ent_vector e) / (vec_norm q * vec_norm (ent_vector e)))"
proof -
  from search_hits [OF assms(2)] assms(3) obtain e where e:
    "(pid, e) \<in> set (embeddings b)" "ent_norm e \<noteq> 0" "hit_of q (pid, e) = (pid, score, text)"
    "vec_norm q \<noteq> 0"
    by (fastforce simp: hit_of_def)
  moreover from e(1) assms(1) have "map_of (embeddings b) pid = Some e" "ent_norm e = vec_norm (ent_vector e)"
    by (auto simp: bank_inv_def dict_wf_get_iff)
  ultimately show ?thesis
    using cosine_bound [of q "ent_vector e"] by (auto simp: hit_of_def)
qed

lemma unit_norms [simp]: "vec_norm [1, 0] = 1" "vec_norm [3, 4] = 5" "vec_norm [0, 1] = 1"
proof -
  have "sqrt 25 = sqrt (5\<^sup>2)" by simp
  then show "vec_norm [3, 4] = 5" unfolding vec_norm_def by (simp only: real_sqrt_abs) simp
qed (simp_all add: vec_norm_def)

definition demo_bank :: vector_bank where
  "demo_bank = store_vector 2 [3, 4] ''m'' (Some ''t'') (store_vector 1 [0, 1] ''m'' None (new_bank ''n''))"

lemma demo_bank_inv: "bank_inv demo_bank"
  by (simp add: demo_bank_def bank_inv_store bank_inv_new)

lemma demo_search: "search demo_bank [1, 0] 5 = Inr [(2, 3 / 5, Some ''t''), (1, 0, None)]"
  by (simp add: demo_bank_def store_vector_def new_bank_def search_def dot_def slice_to_def)

theorem search_scores_bounded_witness: "- 1 \<le> (3 / 5 :: real) \<and> (3 / 5 :: real) \<le> 1"
  using search_scores_bounded [OF demo_bank_inv demo_search, of 2 "3 / 5" "Some ''t''"] by simp

text \<open>A search of a bank without a mismatching embedding returns the best \<^verbatim>\<open>top_k\<close> scores in
  descending order: it returns as many hits as there are (at most \<^verbatim>\<open>top_k\<close>), and no stored
  embedding that it leaves out scores higher than one it returns.\<close>

theorem search_returns_best:
  assumes "vec_norm q \<noteq> 0" "\<forall>x \<in> set (embeddings b). \<not> mismatch q (snd x)" "0 \<le> k"
  shows "\<exists>hs rest. search b q k = Inr hs \<and>
    mset (hs @ rest) = mset (map (hit_of q) (filter (\<lambda>x. ent_norm (snd x) \<noteq> 0) (embeddings b))) \<and>
    sorted_wrt (\<ge>) (map (\<lambda>h. fst (snd h)) hs) \<and>
    (\<forall>h \<in> set hs. \<forall>r \<in> set rest. fst (snd r) \<le> fst (snd h)) \<and>
    length hs = min (nat k) (length (hs @ rest))"
proof -
  let ?all = "map (hit_of q) (filter (\<lambda>x. ent_norm (snd x) \<noteq> 0) (embeddings b))"
  let ?s = "sort_key (\<lambda>h. - fst (snd h)) ?all"
  have s: "search b q k = Inr (take (nat k) ?s)"
    using assms by (simp add: search_def score_all_ok slice_to_def)
  have ord: "sorted_wrt (\<lambda>x y. fst (snd y) \<le> fst (snd x)) ?s"
    using sorted_sort_key [of "\<lambda>h. - fst (snd h)" ?all] by (simp add: sorted_map)
  then have "sorted_wrt (\<lambda>x y. fst (snd y) \<le> fst (snd x)) (take (nat k) ?s @ drop (nat k) ?s)" by simp
  then have "sorted_wrt (\<lambda>x y. fst (snd y) \<le> fst (snd x)) (take (nat k) ?s)"
    "\<forall>h \<in> set (take (nat k) ?s). \<forall>r \<in> set (drop (nat k) ?s). fst (snd r) \<le> fst (snd h)"
    by (simp_all only: sorted_wrt_append) auto
  moreover have "mset (take (nat k) ?s @ drop (nat k) ?s) = mset ?all"
    by (simp only: append_take_drop_id mset_sort)
  ultimately show ?thesis
    by (intro exI [of _ "take (nat k) ?s"] exI [of _ "drop (nat k) ?s"])
      (simp add: s sorted_wrt_map min.commute)
qed

theorem search_returns_best_witness:
  "\<exists>hs rest. search demo_bank [1, 0] 1 = Inr hs \<and>
    mset (hs @ rest) = mset (map (hit_of [1, 0]) (filter (\<lambda>x. ent_norm (snd x) \<noteq> 0) (embeddings demo_bank))) \<and>
    sorted_wrt (\<ge>) (map (\<lambda>h. fst (snd h)) hs) \<and>
    (\<forall>h \<in> set hs. \<forall>r \<in> set rest. fst (snd r) \<le> fst (snd h)) \<and>
    length hs = min (nat 1) (length (hs @ rest))"
  by (rule search_returns_best)
    (simp_all add: demo_bank_def store_vector_def new_bank_def mismatch_def)

text \<open>A stored embedding is found by its direction: after storing a non-zero vector, its positive
  multiples score exactly 1 against it.\<close>

theorem same_direction_scores_one:
  assumes "vec_norm v \<noteq> 0" "0 < c"
  shows "\<exists>e. map_of (embeddings (store_vector pid v m t b)) pid = Some e \<and>
    hit_of (map ((*) c) v) (pid, e) = (pid, 1, t) \<and> get_vector (store_vector pid v m t b) pid = Some (v, m, t)"
  using assms
  by (simp add: store_vector_def dict_simps hit_of_def dot_scale vec_norm_scale get_vector_def power2_eq_square)

theorem same_direction_scores_one_witness:
  "\<exists>e. map_of (embeddings (store_vector 7 [3, 4] ''m'' None (new_bank ''n''))) 7 = Some e \<and>
    hit_of (map ((*) 2) [3, 4]) (7, e) = (7, 1, None) \<and>
    get_vector (store_vector 7 [3, 4] ''m'' None (new_bank ''n'')) 7 = Some ([3, 4], ''m'', None)"
  by (rule same_direction_scores_one) simp_all

text \<open>One stored embedding of another dimension with a non-zero norm makes every search with a
  non-zero query fail with a \<^verbatim>\<open>ValueError\<close>, however many embeddings match; without one, a search
  does not fail.\<close>

theorem search_fails_iff_mismatch:
  assumes "vec_norm q \<noteq> 0"
  shows "(\<exists>msg. search b q k = Inl (ValueError msg)) \<longleftrightarrow> (\<exists>x \<in> set (embeddings b). mismatch q (snd x))"
proof (cases "\<exists>x \<in> set (embeddings b). mismatch q (snd x)")
  case True
  then have "embeddings b \<noteq> []" by auto
  with True score_all_mismatch [OF True, of "vec_norm q"] assms show ?thesis by (auto simp: search_def)
next
  case False
  then show ?thesis by (auto simp: search_def score_all_ok)
qed

theorem search_fails_iff_mismatch_witness:
  "\<exists>msg. search demo_bank [1, 0, 0] 5 = Inl (ValueError msg)"
proof -
  have "vec_norm [1, 0, 0] \<noteq> 0" by (simp add: vec_norm_zero_iff)
  from search_fails_iff_mismatch [OF this, of demo_bank 5] show ?thesis
    by (simp add: demo_bank_def store_vector_def new_bank_def mismatch_def)
qed

end
