(* ===== verification/Chunks.thy ===== *)
theory Chunks
  imports Schema
begin

text \<open>
  Chunked transfers: \<^verbatim>\<open>send_chunked\<close> of \<^verbatim>\<open>tpcp/core/chunker.py\<close> and \<^verbatim>\<open>ChunkReassembler\<close> of
  \<^verbatim>\<open>tpcp/core/reassembler.py\<close>. The node that \<^verbatim>\<open>send_chunked\<close> is given is the argument \<open>send\<close>, a
  state transformer; theory \<open>Node\<close> applies it to the model of \<^verbatim>\<open>send_message\<close>.

  The reassembler's four dictionaries are the state; its abstract specification is one table of
  transfers, each a start time and a finite map from chunk index to data (\<open>spec_ingest\<close>), and
  \<open>ingest_refines\<close> is the refinement. The round trip of a transfer is proved on the specification.
\<close>

section \<open>The sender\<close>

text \<open>\<^verbatim>\<open>math.ceil(len(payload_bytes) / chunk_size_bytes)\<close>; the quotient is exact here, a float in the code, which makes no
  difference for sizes up to \<open>2 ^ 53\<close>.\<close>

definition total_chunks_of :: "bytes \<Rightarrow> int \<Rightarrow> int" where
  "total_chunks_of bs sz = \<lceil>of_int (int (length bs)) / (of_int sz :: rat)\<rceil>"

text \<open>\<^verbatim>\<open>payload_bytes[start:end]\<close>\<close>

definition chunk_bytes :: "bytes \<Rightarrow> int \<Rightarrow> int \<Rightarrow> bytes" where
  "chunk_bytes bs sz i =
     (let start = i * sz; stop = min (start + sz) (int (length bs))
      in drop (nat start) (take (nat stop) bs))"

definition chunk_payload :: "bytes \<Rightarrow> string \<Rightarrow> string \<Rightarrow> int \<Rightarrow> int \<Rightarrow> payload" where
  "chunk_payload bs mime desc sz i =
     BinaryP \<lparr>bin_data_base64 = b64encode (chunk_bytes bs sz i), bin_mime_type = mime,
       filename = None,
       bin_description = Some (if desc \<noteq> [] then desc
         else ''Chunk '' @ show_int (i + 1) @ ''/'' @ show_int (total_chunks_of bs sz))\<rparr>"

definition chunk_infos :: "bytes \<Rightarrow> int \<Rightarrow> uuid \<Rightarrow> chunk_info list" where
  "chunk_infos bs sz tid =
     map (\<lambda>i. \<lparr>chunk_index = i, total_chunks = total_chunks_of bs sz, transfer_id = tid\<rparr>)
       [0..total_chunks_of bs sz - 1]"

fun send_all ::
  "(payload \<Rightarrow> chunk_info \<Rightarrow> 's \<Rightarrow> 's \<times> (py_exn + 'r)) \<Rightarrow> (int \<Rightarrow> payload) \<Rightarrow> chunk_info list \<Rightarrow> 's \<Rightarrow>
   's \<times> py_exn option" where
  "send_all send pl [] s = (s, None)"
| "send_all send pl (c # cs) s =
     (case send (pl (chunk_index c)) c s of
        (s', Inl e) \<Rightarrow> (s', Some e)
      | (s', Inr r) \<Rightarrow> send_all send pl cs s')"

definition send_chunked ::
  "(payload \<Rightarrow> chunk_info \<Rightarrow> 's \<Rightarrow> 's \<times> (py_exn + 'r)) \<Rightarrow> uuid \<Rightarrow> bytes \<Rightarrow> string \<Rightarrow> string \<Rightarrow> int \<Rightarrow>
   's \<Rightarrow> 's \<times> (py_exn + uuid)" where
  "send_chunked send tid bs mime desc sz s =
     (if bs = [] then (s, Inl (ValueError ''payload_bytes cannot be empty''))
      else if sz < 1024 then (s, Inl (ValueError ''chunk_size_bytes must be at least 1024 bytes''))
      else (case send_all send (chunk_payload bs mime desc sz) (chunk_infos bs sz tid) s of
          (s', Some e) \<Rightarrow> (s', Inl e)
        | (s', None) \<Rightarrow> (s', Inr tid)))"

section \<open>The reassembler\<close>

record reassembler =
  timeout_seconds :: seconds
  chunks :: "(uuid, (int \<times> bytes) list) dict"
  received_indices :: "(uuid, int set) dict"
  expected_total :: "(uuid, int) dict"
  timestamps :: "(uuid, seconds) dict"

definition new_reassembler :: "seconds \<Rightarrow> reassembler" where
  "new_reassembler t = \<lparr>timeout_seconds = t, chunks = [], received_indices = [], expected_total = [],
     timestamps = []\<rparr>"

definition purge_stale :: "seconds \<Rightarrow> reassembler \<Rightarrow> reassembler" where
  "purge_stale now r =
     (let stale = map fst (filter (\<lambda>(tid, ts). timeout_seconds r < now - ts) (timestamps r))
      in r\<lparr>chunks := dict_del_all stale (chunks r),
           received_indices := dict_del_all stale (received_indices r),
           expected_total := dict_del_all stale (expected_total r),
           timestamps := dict_del_all stale (timestamps r)\<rparr>)"

definition reassemble :: "uuid \<Rightarrow> reassembler \<Rightarrow> reassembler \<times> (py_exn + bytes)" where
  "reassemble tid r =
     (case map_of (chunks r) tid of
        None \<Rightarrow> (r, Inl (KeyError (uuid_str tid)))
      | Some cs \<Rightarrow>
          (r\<lparr>chunks := AList.delete tid (chunks r),
             received_indices := AList.delete tid (received_indices r),
             expected_total := AList.delete tid (expected_total r),
             timestamps := AList.delete tid (timestamps r)\<rparr>,
           Inr (concat (map snd (sort_key fst cs)))))"

primrec data_base64 :: "payload \<Rightarrow> string option" where
  "data_base64 (TextP p) = None"
| "data_base64 (VectorP p) = None"
| "data_base64 (CrdtP p) = None"
| "data_base64 (ImageP p) = Some (img_data_base64 p)"
| "data_base64 (AudioP p) = Some (aud_data_base64 p)"
| "data_base64 (VideoP p) = Some (vid_data_base64 p)"
| "data_base64 (BinaryP p) = Some (bin_data_base64 p)"
| "data_base64 (TelemetryP p) = None"

text \<open>Reading a \<^verbatim>\<open>defaultdict\<close> stores the default.\<close>

definition dict_default :: "'k \<Rightarrow> 'v \<Rightarrow> ('k, 'v) dict \<Rightarrow> ('k, 'v) dict" where
  "dict_default k v d = (if map_of d k = None then AList.update k v d else d)"

definition get_default :: "'k \<Rightarrow> 'v \<Rightarrow> ('k, 'v) dict \<Rightarrow> 'v" where
  "get_default k v d = (case map_of d k of None \<Rightarrow> v | Some x \<Rightarrow> x)"

text \<open>The part of \<^verbatim>\<open>ingest\<close> from the range check on.\<close>

definition add_chunk ::
  "seconds \<Rightarrow> uuid \<Rightarrow> int \<Rightarrow> int \<Rightarrow> bytes \<Rightarrow> reassembler \<Rightarrow>
   reassembler \<times> (py_exn + bytes option)" where
  "add_chunk now tid i n data r =
     (if i < 0 \<or> n \<le> i then (r, Inr None)
      else
        let seen = get_default tid {} (received_indices r);
            r = r\<lparr>received_indices := dict_default tid {} (received_indices r)\<rparr>
        in if i \<in> seen then (r, Inr None)
           else
             let r = (if map_of (timestamps r) tid = None
                      then r\<lparr>timestamps := AList.update tid now (timestamps r),
                             expected_total := AList.update tid n (expected_total r)\<rparr>
                      else r);
                 seen = insert i seen;
                 r = r\<lparr>received_indices := AList.update tid seen (received_indices r),
                       chunks := AList.update tid
                         (get_default tid [] (chunks r) @ [(i, data)]) (chunks r)\<rparr>
             in if seen = {0..<n}
                then (case reassemble tid r of
                    (r, Inl x) \<Rightarrow> (r, Inl x)
                  | (r, Inr bs) \<Rightarrow> (r, Inr (Some bs)))
                else (r, Inr None))"

definition ingest ::
  "seconds \<Rightarrow> envelope \<Rightarrow> reassembler \<Rightarrow> reassembler \<times> (py_exn + bytes option)" where
  "ingest now e r =
     (case env_chunk_info e of
        None \<Rightarrow> (r, Inr None)
      | Some ci \<Rightarrow>
          (let r = purge_stale now r
           in case data_base64 (payload e) of
                None \<Rightarrow> (r, Inr None)
              | Some b64 \<Rightarrow>
                  (case b64decode False b64 of
                     None \<Rightarrow> (r, Inl (ValueError ''Incorrect padding''))
                   | Some data \<Rightarrow>
                       add_chunk now (transfer_id ci) (chunk_index ci) (total_chunks ci) data r)))"

section \<open>Specification: a table of transfers\<close>

type_synonym transfer = "seconds \<times> (int \<rightharpoonup> bytes)"

definition transfers :: "reassembler \<Rightarrow> uuid \<Rightarrow> transfer option" where
  "transfers r tid =
     (case map_of (timestamps r) tid of
        None \<Rightarrow> None
      | Some ts \<Rightarrow> Some (ts, map_of (get_default tid [] (chunks r))))"

definition spec_purge :: "seconds \<Rightarrow> seconds \<Rightarrow> (uuid \<Rightarrow> transfer option) \<Rightarrow> uuid \<Rightarrow> transfer option" where
  "spec_purge lifetime now A tid =
     (case A tid of None \<Rightarrow> None | Some (ts, m) \<Rightarrow> if lifetime < now - ts then None else Some (ts, m))"

definition spec_add ::
  "seconds \<Rightarrow> uuid \<Rightarrow> int \<Rightarrow> int \<Rightarrow> bytes \<Rightarrow> (uuid \<Rightarrow> transfer option) \<Rightarrow>
   (uuid \<Rightarrow> transfer option) \<times> bytes option" where
  "spec_add now tid i n data A =
     (if i < 0 \<or> n \<le> i then (A, None)
      else let (ts, m) = (case A tid of None \<Rightarrow> (now, Map.empty) | Some x \<Rightarrow> x)
           in if i \<in> dom m then (A, None)
              else let m' = m(i \<mapsto> data)
                   in if dom m' = {0..<n}
                      then (A(tid := None), Some (concat (map (\<lambda>j. the (m' j)) [0..n - 1])))
                      else (A(tid := Some (ts, m')), None))"

definition reasm_inv :: "reassembler \<Rightarrow> bool" where
  "reasm_inv r \<longleftrightarrow>
     dict_wf (timestamps r) \<and>
     dom (map_of (chunks r)) = dom (map_of (timestamps r)) \<and>
     dom (map_of (received_indices r)) = dom (map_of (timestamps r)) \<and>
     (\<forall>tid cs. map_of (chunks r) tid = Some cs \<longrightarrow>
        distinct (map fst cs) \<and> map_of (received_indices r) tid = Some (set (map fst cs)))"

lemma reasm_inv_new: "reasm_inv (new_reassembler t)"
  by (simp add: reasm_inv_def new_reassembler_def)

lemma transfers_new: "transfers (new_reassembler t) tid = None"
  by (simp add: transfers_def new_reassembler_def)

definition is_stale :: "seconds \<Rightarrow> reassembler \<Rightarrow> uuid \<Rightarrow> bool" where
  "is_stale now r tid \<longleftrightarrow>
     (case map_of (timestamps r) tid of None \<Rightarrow> False | Some ts \<Rightarrow> timeout_seconds r < now - ts)"

lemma purge_stale_get:
  assumes "dict_wf (timestamps r)"
  shows "map_of (timestamps (purge_stale now r)) tid = (if is_stale now r tid then None else map_of (timestamps r) tid)"
    "map_of (chunks (purge_stale now r)) tid = (if is_stale now r tid then None else map_of (chunks r) tid)"
    "map_of (received_indices (purge_stale now r)) tid =
       (if is_stale now r tid then None else map_of (received_indices r) tid)"
    "timeout_seconds (purge_stale now r) = timeout_seconds r"
    "dict_wf (timestamps (purge_stale now r))"
proof -
  have "tid \<in> fst ` {x \<in> set (timestamps r). case x of (tid, ts) \<Rightarrow> timeout_seconds r < now - ts} \<longleftrightarrow> is_stale now r tid"
    by (auto simp: is_stale_def image_iff Bex_def dict_wf_get_iff [OF assms(1), symmetric] split: option.splits)
  then show "map_of (timestamps (purge_stale now r)) tid = (if is_stale now r tid then None else map_of (timestamps r) tid)"
    "map_of (chunks (purge_stale now r)) tid = (if is_stale now r tid then None else map_of (chunks r) tid)"
    "map_of (received_indices (purge_stale now r)) tid =
       (if is_stale now r tid then None else map_of (received_indices r) tid)"
    by (simp_all add: purge_stale_def Let_def dict_simps)
qed (use assms(1) in \<open>auto simp: purge_stale_def Let_def\<close>)

lemma purge_refines:
  assumes "reasm_inv r"
  shows "reasm_inv (purge_stale now r) \<and>
    transfers (purge_stale now r) = spec_purge (timeout_seconds r) now (transfers r)"
proof -
  have wf: "dict_wf (timestamps r)" using assms by (simp add: reasm_inv_def)
  note g = purge_stale_get [OF wf, of now]
  have "reasm_inv (purge_stale now r)"
    using assms g(5) by (simp add: reasm_inv_def g dom_def set_eq_iff)
  moreover have "transfers (purge_stale now r) tid = spec_purge (timeout_seconds r) now (transfers r) tid" for tid
    by (simp add: transfers_def spec_purge_def g get_default_def is_stale_def split: option.splits)
  ultimately show ?thesis by blast
qed


text \<open>What one table entry looks like.\<close>

lemma reasm_inv_entry:
  assumes "reasm_inv r"
  shows "get_default tid {} (received_indices r) = set (map fst (get_default tid [] (chunks r)))"
    "distinct (map fst (get_default tid [] (chunks r)))"
    "map_of (timestamps r) tid = None \<Longrightarrow> get_default tid [] (chunks r) = []"
proof -
  have d: "map_of (chunks r) tid = None \<longleftrightarrow> map_of (timestamps r) tid = None"
    "map_of (received_indices r) tid = None \<longleftrightarrow> map_of (timestamps r) tid = None"
    using assms unfolding reasm_inv_def by (metis domIff)+
  show "get_default tid {} (received_indices r) = set (map fst (get_default tid [] (chunks r)))"
    "distinct (map fst (get_default tid [] (chunks r)))"
    "map_of (timestamps r) tid = None \<Longrightarrow> get_default tid [] (chunks r) = []"
    using assms d by (cases "map_of (chunks r) tid"; simp add: get_default_def reasm_inv_def)+
qed

text \<open>Sorting the chunks of a complete transfer puts index \<open>j\<close> at position \<open>j\<close>.\<close>

lemma sort_complete:
  assumes "distinct (map fst cs)" "fst ` set cs = {0..<n}"
  shows "map snd (sort_key fst cs) = map (\<lambda>j. the (map_of cs j)) [0..n - 1]"
proof -
  have "map fst (sort_key fst cs) = sorted_list_of_set (set (map fst (sort_key fst cs)))"
    using assms(1) by (intro sorted_distinct_set_unique)
      (simp_all add: distinct_map)
  moreover have "[0..n - 1] = sorted_list_of_set (set [0..n - 1])"
    by (intro sorted_distinct_set_unique) simp_all
  moreover have "set (map fst (sort_key fst cs)) = set [0..n - 1]" using assms(2) by auto
  ultimately have k: "map fst (sort_key fst cs) = [0..n - 1]" by metis
  have "map snd (sort_key fst cs) = map (\<lambda>x. the (map_of cs (fst x))) (sort_key fst cs)"
    using assms(1) by (auto simp: map_of_is_SomeI)
  also have "\<dots> = map (\<lambda>j. the (map_of cs j)) (map fst (sort_key fst cs))" by simp
  finally show ?thesis by (simp add: k)
qed

lemma map_of_snoc_fresh: "i \<notin> fst ` set cs \<Longrightarrow> map_of (cs @ [(i, x)]) = (map_of cs)(i \<mapsto> x)"
  by (induction cs) auto

lemma dict_default_get: "map_of (dict_default k v d) = (map_of d)(k \<mapsto> get_default k v d)"
  by (auto simp: dict_default_def get_default_def dict_simps fun_eq_iff)

lemma get_default_upd [simp]:
  "get_default k v (AList.update k' x d) = (if k = k' then x else get_default k v d)"
  by (simp add: get_default_def dict_simps)

lemma get_default_del [simp]:
  "get_default k v (AList.delete k' d) = (if k = k' then v else get_default k v d)"
  by (simp add: get_default_def dict_simps)

lemma add_chunk_refines:
  assumes inv: "reasm_inv r"
  shows "\<exists>r' out. add_chunk now tid i n data r = (r', Inr out) \<and> reasm_inv r' \<and>
    timeout_seconds r' = timeout_seconds r \<and>
    (transfers r', out) = spec_add now tid i n data (transfers r)"
proof -
  let ?cs = "get_default tid [] (chunks r)"
  note e = reasm_inv_entry [OF inv, of tid]
  have tr: "(case transfers r tid of None \<Rightarrow> (now, Map.empty) | Some x \<Rightarrow> x) =
      (case map_of (timestamps r) tid of None \<Rightarrow> now | Some ts \<Rightarrow> ts, map_of ?cs)"
    using e(3) by (simp add: transfers_def split: option.splits)
  have domcs: "dom (map_of ?cs) = fst ` set ?cs" by (simp add: dom_map_of_conv_image_fst)
  consider (range) "i < 0 \<or> n \<le> i" | (dup) "\<not> (i < 0 \<or> n \<le> i)" "i \<in> fst ` set ?cs"
    | (new) "\<not> (i < 0 \<or> n \<le> i)" "i \<notin> fst ` set ?cs" by blast
  then show ?thesis
  proof cases
    case range
    with inv show ?thesis by (simp add: add_chunk_def spec_add_def)
  next
    case dup
    let ?r = "r\<lparr>received_indices := dict_default tid {} (received_indices r)\<rparr>"
    have "map_of (timestamps r) tid \<noteq> None" using dup(2) e(3) by force
    then have "map_of (received_indices r) tid \<noteq> None" using inv by (auto simp: reasm_inv_def dom_def)
    then have "?r = r" by (auto simp: dict_default_def)
    with dup inv show ?thesis by (simp add: add_chunk_def spec_add_def Let_def e(1) tr domcs)
  next
    case new
    let ?d = "r\<lparr>received_indices := dict_default tid {} (received_indices r)\<rparr>"
    let ?t = "if map_of (timestamps r) tid = None
       then ?d\<lparr>timestamps := AList.update tid now (timestamps r),
               expected_total := AList.update tid n (expected_total r)\<rparr> else ?d"
    let ?r = "?t\<lparr>received_indices := AList.update tid (insert i (set (map fst ?cs))) (received_indices ?t),
       chunks := AList.update tid (?cs @ [(i, data)]) (chunks r)\<rparr>"
    let ?done = "insert i (fst ` set ?cs) = {0..<n}"
    have ts: "map_of (timestamps ?r) = (map_of (timestamps r))
        (tid \<mapsto> (case map_of (timestamps r) tid of None \<Rightarrow> now | Some ts \<Rightarrow> ts))"
      by (auto simp: dict_simps fun_eq_iff)
    have inv': "reasm_inv ?r"
      using inv new(2) e(2) unfolding reasm_inv_def ts
      by (auto simp: dict_simps dict_default_get dom_def set_eq_iff)
    have tr': "transfers ?r = (transfers r)(tid \<mapsto>
        (case map_of (timestamps r) tid of None \<Rightarrow> now | Some ts \<Rightarrow> ts, (map_of ?cs)(i \<mapsto> data)))"
    proof
      fix x
      have "timestamps ?r = timestamps ?t" "chunks ?r = AList.update tid (?cs @ [(i, data)]) (chunks r)"
        by simp_all
      then show "transfers ?r x = ((transfers r)(tid \<mapsto>
        (case map_of (timestamps r) tid of None \<Rightarrow> now | Some ts \<Rightarrow> ts, (map_of ?cs)(i \<mapsto> data)))) x"
        using map_of_snoc_fresh [OF new(2), of data] ts
        by (simp only: transfers_def get_default_upd) (simp add: transfers_def del: map_of_append)
    qed
    have step: "add_chunk now tid i n data r =
        (if ?done then (case reassemble tid ?r of (r, Inl x) \<Rightarrow> (r, Inl x) | (r, Inr bs) \<Rightarrow> (r, Inr (Some bs)))
         else (?r, Inr None))"
      using new by (simp add: add_chunk_def Let_def e(1))
    show ?thesis
    proof (cases ?done)
      case False
      with new inv' tr' step show ?thesis
        by (simp add: spec_add_def Let_def tr domcs)
    next
      case True
      let ?cs' = "?cs @ [(i, data)]"
      have inv_del: "reasm_inv (r'\<lparr>chunks := AList.delete tid (chunks r'),
          received_indices := AList.delete tid (received_indices r'),
          expected_total := AList.delete tid (expected_total r'),
          timestamps := AList.delete tid (timestamps r')\<rparr>)" if "reasm_inv r'" for r'
        using that unfolding reasm_inv_def by (auto simp: dict_simps)
      have tr_del: "transfers (r'\<lparr>chunks := AList.delete tid (chunks r'),
          received_indices := AList.delete tid (received_indices r'),
          expected_total := AList.delete tid (expected_total r'),
          timestamps := AList.delete tid (timestamps r')\<rparr>) = (transfers r')(tid := None)" for r'
        by (auto simp: transfers_def dict_simps fun_eq_iff cong: option.case_cong)
      have "map_of (chunks ?r) tid = Some ?cs'" by (simp add: dict_simps)
      then have re: "reassemble tid ?r = (?r\<lparr>chunks := AList.delete tid (chunks ?r),
          received_indices := AList.delete tid (received_indices ?r),
          expected_total := AList.delete tid (expected_total ?r),
          timestamps := AList.delete tid (timestamps ?r)\<rparr>, Inr (concat (map snd (sort_key fst ?cs'))))"
        by (simp add: reassemble_def)
      have "map snd (sort_key fst ?cs') = map (\<lambda>j. the (((map_of ?cs)(i \<mapsto> data)) j)) [0..n - 1]"
        using sort_complete [of ?cs' n] e(2) new(2) True map_of_snoc_fresh [OF new(2), of data] by simp
      with new re True step inv_del [OF inv'] tr_del [of ?r] tr' show ?thesis
        by (simp add: spec_add_def Let_def tr domcs)
    qed
  qed
qed


lemma spec_add_other: "tid' \<noteq> tid \<Longrightarrow> fst (spec_add now tid' i n x A) tid = A tid"
  by (simp add: spec_add_def Let_def split: option.splits prod.splits)

text \<open>What one call does to the table, whatever the envelope.\<close>

lemma ingest_refines:
  assumes inv: "reasm_inv r"
  shows "reasm_inv (fst (ingest now e r)) \<and> timeout_seconds (fst (ingest now e r)) = timeout_seconds r \<and>
    (case env_chunk_info e of
       None \<Rightarrow> transfers (fst (ingest now e r)) = transfers r \<and> snd (ingest now e r) = Inr None
     | Some ci \<Rightarrow>
         (let A = spec_purge (timeout_seconds r) now (transfers r) in
          case Option.bind (data_base64 (payload e)) (b64decode False) of
            None \<Rightarrow> transfers (fst (ingest now e r)) = A
          | Some x \<Rightarrow> (\<exists>out. snd (ingest now e r) = Inr out \<and> (transfers (fst (ingest now e r)), out) =
              spec_add now (transfer_id ci) (chunk_index ci) (total_chunks ci) x A)))"
proof (cases "env_chunk_info e")
  case None
  with inv show ?thesis by (simp add: ingest_def)
next
  case (Some ci)
  note p = purge_refines [OF inv, of now]
  have t: "timeout_seconds (purge_stale now r) = timeout_seconds r" by (simp add: purge_stale_def Let_def)
  show ?thesis
  proof (cases "Option.bind (data_base64 (payload e)) (b64decode False)")
    case None
    with p t show ?thesis
      by (auto simp: ingest_def Some Let_def bind_eq_None_conv split: option.splits)
  next
    case x: (Some x)
    then obtain b where b: "data_base64 (payload e) = Some b" "b64decode False b = Some x"
      by (auto simp: bind_eq_Some_conv)
    from add_chunk_refines [OF conjunct1 [OF p], of now "transfer_id ci" "chunk_index ci" "total_chunks ci" x] p t
    show ?thesis by (auto simp: ingest_def Some Let_def b)
  qed
qed

text \<open>The calls that concern another transfer leave this one, or purge it.\<close>

definition of_transfer :: "uuid \<Rightarrow> envelope \<Rightarrow> bool" where
  "of_transfer tid e \<longleftrightarrow> (case env_chunk_info e of None \<Rightarrow> False | Some ci \<Rightarrow> transfer_id ci = tid)"

lemma ingest_other:
  assumes "reasm_inv r" "\<not> of_transfer tid e"
    and "transfers r tid = Some (ts, m)" "now - ts \<le> timeout_seconds r"
  shows "transfers (fst (ingest now e r)) tid = Some (ts, m)"
proof -
  have p: "spec_purge (timeout_seconds r) now (transfers r) tid = Some (ts, m)"
    using assms(3,4) by (simp add: spec_purge_def)
  show ?thesis
    using ingest_refines [OF assms(1), of now e] assms(2,3) p
    by (auto simp: of_transfer_def Let_def split: option.splits)
      (metis fst_conv spec_add_other)
qed

lemma ingest_other_None:
  assumes "reasm_inv r" "\<not> of_transfer tid e" "transfers r tid = None"
  shows "transfers (fst (ingest now e r)) tid = None"
proof -
  have p: "spec_purge (timeout_seconds r) now (transfers r) tid = None"
    using assms(3) by (simp add: spec_purge_def)
  show ?thesis
    using ingest_refines [OF assms(1), of now e] assms(2,3) p
    by (auto simp: of_transfer_def Let_def split: option.splits)
      (metis fst_conv spec_add_other)
qed

section \<open>The chunks of one sender\<close>

lemma total_chunks_bounds:
  assumes "bs \<noteq> []" "0 < sz"
  shows "1 \<le> total_chunks_of bs sz" "(total_chunks_of bs sz - 1) * sz < int (length bs)"
    "int (length bs) \<le> total_chunks_of bs sz * sz"
proof -
  let ?q = "of_int (int (length bs)) / (of_int sz :: rat)"
  have s: "0 < (of_int sz :: rat)" using assms(2) by simp
  have "0 < ?q" using assms s by simp
  then show "1 \<le> total_chunks_of bs sz" by (simp add: total_chunks_of_def one_le_ceiling)
  have "of_int (total_chunks_of bs sz) - 1 < ?q \<and> ?q \<le> of_int (total_chunks_of bs sz)"
    unfolding total_chunks_of_def using ceiling_correct [of ?q] by simp
  then have "(of_int (total_chunks_of bs sz) - 1) * of_int sz < (of_int (int (length bs)) :: rat)"
    "of_int (int (length bs)) \<le> of_int (total_chunks_of bs sz) * (of_int sz :: rat)"
    using s by (simp_all only: pos_less_divide_eq pos_divide_le_eq)
  then show "(total_chunks_of bs sz - 1) * sz < int (length bs)"
    "int (length bs) \<le> total_chunks_of bs sz * sz"
    by (metis (no_types) of_int_1 of_int_diff of_int_mult of_int_less_iff, metis of_int_mult of_int_le_iff)
qed

lemma chunks_prefix:
  assumes "0 < sz" "0 \<le> j"
  shows "concat (map (chunk_bytes bs sz) [0..j - 1]) = take (nat (j * sz)) bs"
  using assms(2)
proof (induction rule: int_ge_induct)
  case base
  then show ?case by simp
next
  case (step j)
  have "[0..j + 1 - 1] = [0..j - 1] @ [j]" using upto_rec2 [of 0 j] step(1) by simp
  moreover have "chunk_bytes bs sz j = drop (nat (j * sz)) (take (nat (j * sz + sz)) bs)"
    by (cases "j * sz + sz \<le> int (length bs)") (auto simp: chunk_bytes_def Let_def min_def)
  moreover have "take (nat (j * sz)) (take (nat (j * sz + sz)) bs) = take (nat (j * sz)) bs"
    using assms(1) by (simp add: min_def)
  moreover have "(j + 1) * sz = j * sz + sz" by (simp add: algebra_simps)
  ultimately show ?case using step(2) append_take_drop_id [of "nat (j * sz)" "take (nat (j * sz + sz)) bs"]
    by simp
qed

lemma chunks_join:
  assumes "bs \<noteq> []" "0 < sz"
  shows "concat (map (chunk_bytes bs sz) [0..total_chunks_of bs sz - 1]) = bs"
  using chunks_prefix [OF assms(2), of "total_chunks_of bs sz" bs] total_chunks_bounds [OF assms] by simp


definition is_chunk :: "bytes \<Rightarrow> string \<Rightarrow> string \<Rightarrow> int \<Rightarrow> uuid \<Rightarrow> envelope \<Rightarrow> bool" where
  "is_chunk bs mime desc sz tid e \<longleftrightarrow>
     (\<exists>i \<in> {0..<total_chunks_of bs sz}. payload e = chunk_payload bs mime desc sz i \<and>
        env_chunk_info e =
          Some \<lparr>chunk_index = i, total_chunks = total_chunks_of bs sz, transfer_id = tid\<rparr>)"

definition index_of :: "envelope \<Rightarrow> int" where
  "index_of e = (case env_chunk_info e of None \<Rightarrow> - 1 | Some ci \<Rightarrow> chunk_index ci)"

definition ingest_all :: "(seconds \<times> envelope) list \<Rightarrow> reassembler \<Rightarrow> reassembler" where
  "ingest_all evs r = fold (\<lambda>(now, e) r. fst (ingest now e r)) evs r"

text \<open>The indices of a transfer among some arrivals, and the table entry that they make.\<close>

definition arrived :: "uuid \<Rightarrow> (seconds \<times> envelope) list \<Rightarrow> int set" where
  "arrived tid evs = index_of ` {e \<in> snd ` set evs. of_transfer tid e}"

definition held :: "bytes \<Rightarrow> int \<Rightarrow> int set \<Rightarrow> seconds \<Rightarrow> transfer option" where
  "held bs sz I ts =
     (if I = {} then None
      else Some (ts, \<lambda>j. if j \<in> I then Some (chunk_bytes bs sz j) else None))"

lemma ingest_all_simps [simp]:
  "ingest_all [] r = r"
  "ingest_all (evs @ [(now, e)]) r = fst (ingest now e (ingest_all evs r))"
  by (simp_all add: ingest_all_def)

lemma ingest_all_inv:
  "reasm_inv r \<Longrightarrow> reasm_inv (ingest_all evs r) \<and> timeout_seconds (ingest_all evs r) = timeout_seconds r"
proof (induction evs rule: rev_induct)
  case (snoc x evs)
  then show ?case using ingest_refines [of "ingest_all evs r" "fst x" "snd x"] by (cases x) simp
qed simp

lemma arrived_simps [simp]:
  "arrived tid [] = {}"
  "arrived tid (evs @ [(now, e)]) = (if of_transfer tid e then insert (index_of e) (arrived tid evs) else arrived tid evs)"
  by (auto simp: arrived_def)

lemma is_chunk_of: "is_chunk bs mime desc sz tid e \<Longrightarrow> of_transfer tid e \<and> 0 \<le> index_of e \<and> index_of e < total_chunks_of bs sz"
  by (auto simp: is_chunk_def of_transfer_def index_of_def)

lemma ingest_chunk:
  assumes inv: "reasm_inv r" and c: "is_chunk bs mime desc sz tid e"
    and tr: "transfers r tid = held bs sz I ts" and fresh: "I \<noteq> {} \<longrightarrow> now - ts \<le> timeout_seconds r"
    and dom: "bs \<noteq> []" "0 < sz"
  shows "if index_of e \<notin> I \<and> insert (index_of e) I = {0..<total_chunks_of bs sz}
    then snd (ingest now e r) = Inr (Some bs)
    else snd (ingest now e r) = Inr None \<and>
      transfers (fst (ingest now e r)) tid = held bs sz (insert (index_of e) I) (if I = {} then now else ts)"
proof -
  let ?n = "total_chunks_of bs sz" and ?i = "index_of e"
  let ?A = "spec_purge (timeout_seconds r) now (transfers r)"
  let ?m = "\<lambda>I j. if j \<in> I then Some (chunk_bytes bs sz j) else None"
  from c have ci: "env_chunk_info e = Some \<lparr>chunk_index = ?i, total_chunks = ?n, transfer_id = tid\<rparr>"
    and pl: "data_base64 (payload e) = Some (b64encode (chunk_bytes bs sz ?i))" and i: "0 \<le> ?i" "?i < ?n"
    by (auto simp: is_chunk_def index_of_def chunk_payload_def)
  from ingest_refines [OF inv, of now e] obtain out where o: "snd (ingest now e r) = Inr out"
    "(transfers (fst (ingest now e r)), out) = spec_add now tid ?i ?n (chunk_bytes bs sz ?i) ?A"
    by (auto simp: ci pl b64decode_encode Let_def)
  have A: "?A tid = held bs sz I ts" using tr fresh by (cases "I = {}") (simp_all add: spec_purge_def held_def)
  have m: "(case ?A tid of None \<Rightarrow> (now, Map.empty) | Some x \<Rightarrow> x) = (if I = {} then now else ts, ?m I)"
    by (simp add: A held_def)
  have d: "dom (?m J) = J" for J by (auto simp: dom_def)
  have u: "(?m I)(?i \<mapsto> chunk_bytes bs sz ?i) = ?m (insert ?i I)" by auto
  have full: "concat (map (\<lambda>j. the (?m {0..<?n} j)) [0..?n - 1]) = bs"
  proof -
    have "map (\<lambda>j. the (?m {0..<?n} j)) [0..?n - 1] = map (chunk_bytes bs sz) [0..?n - 1]"
      by (rule map_cong) auto
    then show ?thesis by (simp only: chunks_join [OF dom])
  qed
  consider (dup) "?i \<in> I" | (last) "?i \<notin> I" "insert ?i I = {0..<?n}" | (more) "?i \<notin> I" "insert ?i I \<noteq> {0..<?n}"
    by blast
  then show ?thesis
  proof cases
    case dup
    then have "out = None" "transfers (fst (ingest now e r)) tid = ?A tid" using o(2) i
      unfolding spec_add_def m Let_def by (auto simp: d)
    with dup o(1) A show ?thesis by (auto simp: insert_absorb)
  next
    case last
    from o(2) have "out = Some bs"
      unfolding spec_add_def m Let_def prod.case u last(2) d full using i last(1) by simp
    with last o(1) show ?thesis by simp
  next
    case more
    from o(2) have "(transfers (fst (ingest now e r)), out) =
        (?A(tid := Some (if I = {} then now else ts, ?m (insert ?i I))), None)"
      unfolding spec_add_def m Let_def prod.case u d using i more by simp
    then have "out = None" "transfers (fst (ingest now e r)) = ?A(tid := Some (if I = {} then now else ts, ?m (insert ?i I)))"
      by (simp_all only: prod.inject)
    with more o(1) show ?thesis by (simp add: held_def)
  qed
qed

text \<open>Before the last missing chunk arrives, the table holds exactly what has arrived.\<close>

lemma run_partial:
  assumes inv: "reasm_inv r" and new: "transfers r tid = None"
    and dom: "bs \<noteq> []" "0 < sz"
    and mine: "\<forall>x \<in> set evs. of_transfer tid (snd x) \<longrightarrow> is_chunk bs mime desc sz tid (snd x)"
    and time: "\<forall>x \<in> set evs. \<forall>y \<in> set evs. fst x - fst y \<le> timeout_seconds r"
    and part: "arrived tid evs \<noteq> {0..<total_chunks_of bs sz}"
  shows "\<exists>ts. transfers (ingest_all evs r) tid = held bs sz (arrived tid evs) ts \<and>
    (arrived tid evs \<noteq> {} \<longrightarrow> ts \<in> fst ` set evs)"
  using mine time part
proof (induction evs rule: rev_induct)
  case Nil
  with new show ?case by (simp add: held_def)
next
  case (snoc x evs)
  obtain now e where x: "x = (now, e)" by (cases x)
  let ?r = "ingest_all evs r" and ?n = "total_chunks_of bs sz"
  have sub: "arrived tid evs \<subseteq> {0..<?n}"
    using snoc.prems(1) is_chunk_of unfolding arrived_def by fastforce
  have "arrived tid evs \<noteq> {0..<?n}"
  proof
    assume all: "arrived tid evs = {0..<?n}"
    have "of_transfer tid e \<Longrightarrow> index_of e \<in> {0..<?n}" using snoc.prems(1) is_chunk_of by (fastforce simp: x)
    with all snoc.prems(3) show False by (auto simp: x insert_absorb split: if_splits)
  qed
  with snoc obtain ts where ts: "transfers ?r tid = held bs sz (arrived tid evs) ts"
    "arrived tid evs \<noteq> {} \<longrightarrow> ts \<in> fst ` set evs" by auto
  note ri = ingest_all_inv [OF inv, of evs]
  have fresh: "arrived tid evs \<noteq> {} \<longrightarrow> now - ts \<le> timeout_seconds ?r"
    using ts(2) snoc.prems(2) ri by (fastforce simp: x)
  show ?case
  proof (cases "of_transfer tid e")
    case True
    then have c: "is_chunk bs mime desc sz tid e" using snoc.prems(1) by (simp add: x)
    from ingest_chunk [OF conjunct1 [OF ri] c ts(1) fresh dom] snoc.prems(3) True ts(2)
    show ?thesis by (intro exI [of _ "if arrived tid evs = {} then now else ts"])
        (auto simp: x split: if_splits)
  next
    case False
    then have "transfers (fst (ingest now e ?r)) tid = transfers ?r tid"
      using ingest_other [OF conjunct1 [OF ri] False, of ts _ now]
        ingest_other_None [OF conjunct1 [OF ri] False, of now] ts(1) fresh
      by (auto simp: held_def)
    with False ts show ?thesis by (intro exI [of _ ts]) (auto simp: x)
  qed
qed

section \<open>Properties\<close>

text \<open>C14: A chunked transfer arrives whole: whatever the order of its chunks, with any duplicates and
  with any other traffic in between (other transfers, malformed chunks of them), the call that brings the
  last missing chunk returns exactly the bytes that were sent, as long as no two arrivals are further
  apart than the reassembler's timeout.\<close>

theorem transfer_roundtrip:
  assumes "reasm_inv r" "map_of (timestamps r) tid = None" "bs \<noteq> []" "1024 \<le> sz"
    and "\<forall>x \<in> set (evs @ [(now, e)]). of_transfer tid (snd x) \<longrightarrow> is_chunk bs mime desc sz tid (snd x)"
    and "\<forall>x \<in> set (evs @ [(now, e)]). \<forall>y \<in> set (evs @ [(now, e)]). fst x - fst y \<le> timeout_seconds r"
    and "of_transfer tid e" "index_of e \<notin> arrived tid evs"
    and "arrived tid (evs @ [(now, e)]) = {0..<total_chunks_of bs sz}"
  shows "snd (ingest now e (ingest_all evs r)) = Inr (Some bs)"
proof -
  have dom: "bs \<noteq> []" "0 < sz" using assms(3,4) by simp_all
  have c: "is_chunk bs mime desc sz tid e" using assms(5,7) by simp
  have "arrived tid evs \<noteq> {0..<total_chunks_of bs sz}" using is_chunk_of [OF c] assms(8) by auto
  moreover have "transfers r tid = None" using assms(2) by (simp add: transfers_def)
  moreover have mine: "\<forall>x \<in> set evs. of_transfer tid (snd x) \<longrightarrow> is_chunk bs mime desc sz tid (snd x)"
    and near: "\<forall>x \<in> set evs. \<forall>y \<in> set evs. fst x - fst y \<le> timeout_seconds r"
    using assms(5,6) by simp_all
  ultimately obtain ts where ts: "transfers (ingest_all evs r) tid = held bs sz (arrived tid evs) ts"
    "arrived tid evs \<noteq> {} \<longrightarrow> ts \<in> fst ` set evs"
    using run_partial [OF assms(1) _ dom mine near] by blast
  note ri = ingest_all_inv [OF assms(1), of evs]
  have "arrived tid evs \<noteq> {} \<longrightarrow> now - ts \<le> timeout_seconds (ingest_all evs r)"
    using ts(2) assms(6) ri by fastforce
  from ingest_chunk [OF conjunct1 [OF ri] c ts(1) this dom] assms(7,8,9) show ?thesis by simp
qed


text \<open>A concrete transfer for the witnesses: 1025 bytes in chunks of 1024, so two chunks.\<close>

definition demo_bytes :: bytes where
  "demo_bytes = replicate 1025 7"

definition demo_chunk :: "int \<Rightarrow> envelope" where
  "demo_chunk i =
     \<lparr>header = \<lparr>message_id = of_int i, msg_timestamp = 0, sender_id = 1, receiver_id = 2,
        intent = MEDIA_SHARE, ttl = 30, protocol_version = PROTOCOL_VERSION\<rparr>,
      payload = chunk_payload demo_bytes ''image/png'' [] 1024 i, signature = None, env_ack_info = None,
      env_chunk_info = Some \<lparr>chunk_index = i, total_chunks = 2, transfer_id = 9\<rparr>\<rparr>"

lemma demo_total: "total_chunks_of demo_bytes 1024 = 2"
proof -
  have "\<lceil>1025 / 1024 :: rat\<rceil> = 2" by (rule ceiling_unique) simp_all
  then show ?thesis by (simp add: total_chunks_of_def demo_bytes_def)
qed

lemma demo_bytes_ne: "demo_bytes \<noteq> []"
  by (simp add: demo_bytes_def)

lemma demo_chunk_is: "i \<in> {0, 1} \<Longrightarrow> is_chunk demo_bytes ''image/png'' [] 1024 9 (demo_chunk i)"
  by (auto simp: is_chunk_def demo_total demo_chunk_def)

lemma two_ints: "{0..<2} = {0, 1 :: int}"
  by auto

lemma demo_chunk_simps [simp]: "of_transfer tid (demo_chunk i) \<longleftrightarrow> tid = 9" "index_of (demo_chunk i) = i"
  by (auto simp: of_transfer_def index_of_def demo_chunk_def)

theorem transfer_roundtrip_witness:
  "snd (ingest 12 (demo_chunk 0) (ingest_all [(10, demo_chunk 1), (11, demo_chunk 1)] (new_reassembler 60))) =
   Inr (Some demo_bytes)"
proof (rule transfer_roundtrip [where sz = 1024 and tid = 9 and mime = "''image/png''" and desc = "[]"])
  have "{e \<in> {demo_chunk 1, demo_chunk 0}. of_transfer 9 e} = {demo_chunk 1, demo_chunk 0}" by auto
  then have "arrived 9 ([(10, demo_chunk 1), (11, demo_chunk 1)] @ [(12, demo_chunk 0)]) =
      index_of ` {demo_chunk 1, demo_chunk 0}"
    by (simp only: arrived_def append.simps list.set image_insert image_empty snd_conv insert_absorb2)
  then show "arrived 9 ([(10, demo_chunk 1), (11, demo_chunk 1)] @ [(12, demo_chunk 0)]) = {0..<total_chunks_of demo_bytes 1024}"
    by (simp add: demo_total two_ints insert_commute)
  show "index_of (demo_chunk 0) \<notin> arrived 9 [(10, demo_chunk 1), (11, demo_chunk 1)]"
    by (auto simp: arrived_def)
qed (use demo_chunk_is [of 0] demo_chunk_is [of 1] in
    \<open>simp_all add: reasm_inv_new demo_bytes_ne, simp_all add: new_reassembler_def\<close>)

text \<open>C24: The reassembler's four dictionaries implement one table of transfers: every call first purges
  the transfers older than the timeout and then adds the chunk to its transfer as the table's
  specification does, with the same result; a call without usable data only purges; and the
  consistency of the dictionaries is kept.\<close>

theorem reassembler_refines_table:
  assumes "reasm_inv r"
  shows "reasm_inv (fst (ingest now e r)) \<and>
    (case env_chunk_info e of
       None \<Rightarrow> transfers (fst (ingest now e r)) = transfers r \<and> snd (ingest now e r) = Inr None
     | Some ci \<Rightarrow>
         (let A = spec_purge (timeout_seconds r) now (transfers r) in
          case Option.bind (data_base64 (payload e)) (b64decode False) of
            None \<Rightarrow> transfers (fst (ingest now e r)) = A
          | Some x \<Rightarrow> (\<exists>out. snd (ingest now e r) = Inr out \<and> (transfers (fst (ingest now e r)), out) =
              spec_add now (transfer_id ci) (chunk_index ci) (total_chunks ci) x A)))"
  using ingest_refines [OF assms, of now e] by simp

theorem reassembler_refines_table_witness:
  "reasm_inv (fst (ingest 10 (demo_chunk 1) (new_reassembler 60)))"
  using reassembler_refines_table [OF reasm_inv_new, of 10 "demo_chunk 1" 60] by blast

text \<open>The sender's chunks partition the bytes: there are as many as \<^verbatim>\<open>total_chunks\<close> says, none is
  empty or longer than the chunk size, in order they join to the bytes, and each payload passes
  the validator of its class.\<close>

theorem chunks_partition:
  assumes "bs \<noteq> []" "1024 \<le> sz"
  shows "length (chunk_infos bs sz tid) = nat (total_chunks_of bs sz) \<and>
    concat (map (\<lambda>c. chunk_bytes bs sz (chunk_index c)) (chunk_infos bs sz tid)) = bs \<and>
    (\<forall>c \<in> set (chunk_infos bs sz tid). valid_chunk_info c \<and>
       chunk_bytes bs sz (chunk_index c) \<noteq> [] \<and> int (length (chunk_bytes bs sz (chunk_index c))) \<le> sz \<and>
       valid_payload (chunk_payload bs mime desc sz (chunk_index c)))"
proof -
  have sz: "0 < sz" using assms(2) by simp
  note t = total_chunks_bounds [OF assms(1) sz]
  have "chunk_bytes bs sz i \<noteq> [] \<and> int (length (chunk_bytes bs sz i)) \<le> sz"
    if "0 \<le> i" "i < total_chunks_of bs sz" for i
  proof -
    have "i * sz \<le> (total_chunks_of bs sz - 1) * sz" using that sz by (intro mult_right_mono) auto
    with t(2) have "i * sz < int (length bs)" by simp
    moreover have "0 \<le> i * sz" using that sz by simp
    ultimately show ?thesis using sz by (auto simp: chunk_bytes_def Let_def min_def)
  qed
  moreover have "concat (map (\<lambda>c. chunk_bytes bs sz (chunk_index c)) (chunk_infos bs sz tid)) = bs"
    using chunks_join [OF assms(1) sz] by (simp add: chunk_infos_def comp_def)
  ultimately show ?thesis
    using t(1) by (auto simp: chunk_infos_def valid_chunk_info_def chunk_payload_def validate_base64_def b64decode_encode)
qed

theorem chunks_partition_witness:
  "concat (map (\<lambda>c. chunk_bytes demo_bytes 1024 (chunk_index c)) (chunk_infos demo_bytes 1024 9)) = demo_bytes"
  using chunks_partition [of demo_bytes 1024 9] demo_bytes_ne by simp

text \<open>Completion is decided by the \<^verbatim>\<open>total_chunks\<close> of the arriving envelope, not by the total that was
  recorded for the transfer: a chunk that claims a smaller total ends a running transfer, and what is
  returned is a truncated payload, while the transfer is forgotten.\<close>

theorem claimed_total_truncates:
  assumes "reasm_inv r" "transfers r tid = Some (ts, [0 \<mapsto> a])" "now - ts \<le> timeout_seconds r"
    and "env_chunk_info e = Some \<lparr>chunk_index = 1, total_chunks = 2, transfer_id = tid\<rparr>"
    and "data_base64 (payload e) = Some (b64encode b)"
  shows "snd (ingest now e r) = Inr (Some (a @ b)) \<and> transfers (fst (ingest now e r)) tid = None"
proof -
  have "spec_purge (timeout_seconds r) now (transfers r) tid = Some (ts, [0 \<mapsto> a])"
    using assms(2,3) by (simp add: spec_purge_def)
  moreover have "dom [0 \<mapsto> a, 1 \<mapsto> b] = {0..<2 :: int}" by auto
  moreover have "[0..1 :: int] = [0, 1]" by (simp add: upto_rec1)
  ultimately show ?thesis
    using ingest_refines [OF assms(1), of now e] assms(4,5)
    by (auto simp: b64decode_encode Let_def spec_add_def)
qed

definition three_chunk :: envelope where
  "three_chunk = (demo_chunk 0)\<lparr>env_chunk_info := Some \<lparr>chunk_index = 0, total_chunks = 3, transfer_id = 9\<rparr>,
     payload := BinaryP \<lparr>bin_data_base64 = b64encode [1], bin_mime_type = [], filename = None, bin_description = None\<rparr>\<rparr>"

theorem claimed_total_truncates_witness:
  "snd (ingest 11 (demo_chunk 1) (fst (ingest 10 three_chunk (new_reassembler 60)))) =
   Inr (Some ([1] @ chunk_bytes demo_bytes 1024 1))"
proof -
  let ?r = "fst (ingest 10 three_chunk (new_reassembler 60))"
  have "1 \<in> {0..<3 :: int}" "1 \<notin> dom [0 :: int \<mapsto> [1 :: byte]]" by simp_all
  then have "dom [0 \<mapsto> [1 :: byte]] \<noteq> {0..<3 :: int}" by metis
  then have add: "spec_add 10 9 0 3 [1] Map.empty = ([9 \<mapsto> (10, [0 \<mapsto> [1]])], None)"
    by (simp add: spec_add_def Let_def)
  have "transfers (new_reassembler 60) = Map.empty" by (rule ext) (rule transfers_new)
  then have purge: "spec_purge (timeout_seconds (new_reassembler 60)) 10 (transfers (new_reassembler 60)) = Map.empty"
    by (auto simp: spec_purge_def)
  have ci: "env_chunk_info three_chunk = Some \<lparr>chunk_index = 0, total_chunks = 3, transfer_id = 9\<rparr>"
    "data_base64 (payload three_chunk) = Some (b64encode [1])"
    by (simp_all add: three_chunk_def del: b64encode.simps)
  note st = ingest_refines [OF reasm_inv_new, of 10 three_chunk 60]
  from st add have "transfers ?r = [9 \<mapsto> (10, [0 \<mapsto> [1]])]"
    by (simp add: ci b64decode_encode purge Let_def del: b64encode.simps)
  moreover have "timeout_seconds ?r = 60" using st by (simp add: new_reassembler_def)
  ultimately show ?thesis
    using claimed_total_truncates [of ?r 9 10 "[1]" 11 "demo_chunk 1" "chunk_bytes demo_bytes 1024 1"] st
    by (simp add: demo_chunk_def chunk_payload_def)
qed

end
