(* ===== verification/PyNum.thy ===== *)
theory PyNum
  imports JsonLoads
begin

text \<open>
  Python's \<^verbatim>\<open>int\<close> and \<^verbatim>\<open>float\<close> on decoded values, the printing of integers in base 16 and the string
  operations that parsing them needs. What \<^verbatim>\<open>float\<close> makes of a text or of an integer beyond 2 to the 53
  (where doubles are no longer exact) and the product of a float and 1000 are the parameter \<open>float_ops\<close>.
\<close>

section \<open>Strings\<close>

text \<open>\<^verbatim>\<open>s.replace(sub, '')\<close> for a non-empty \<open>sub\<close>.\<close>

function remove_sub :: "string \<Rightarrow> string \<Rightarrow> string" where
  "remove_sub sub s =
     (if s = [] \<or> sub = [] then s
      else if take (length sub) s = sub then remove_sub sub (drop (length sub) s)
      else hd s # remove_sub sub (tl s))"
  by pat_completeness auto
termination by (relation "measure (\<lambda>(sub, s). length s)") auto

declare remove_sub.simps [simp del]

definition strip_chars :: "string \<Rightarrow> string \<Rightarrow> string" where
  "strip_chars cs s = rev (dropWhile (\<lambda>c. c \<in> set cs) (rev (dropWhile (\<lambda>c. c \<in> set cs) s)))"

text \<open>\<^verbatim>\<open>s.replace(a, b)\<close> for single characters.\<close>

definition replace_char :: "char \<Rightarrow> char \<Rightarrow> string \<Rightarrow> string" where
  "replace_char a b s = map (\<lambda>c. if c = a then b else c) s"

text \<open>\<^verbatim>\<open>sub in s\<close>\<close>

definition has_sub :: "string \<Rightarrow> string \<Rightarrow> bool" where
  "has_sub sub s \<longleftrightarrow> list_ex (\<lambda>i. take (length sub) (drop i s) = sub) [0..<Suc (length s)]"

section \<open>int\<close>

text \<open>The digits of \<^verbatim>\<open>int(s, base)\<close>, with single underscores between them; the flag says that an
  underscore is not allowed here.\<close>

fun scan_int :: "int \<Rightarrow> (char \<Rightarrow> int option) \<Rightarrow> bool \<Rightarrow> int \<Rightarrow> string \<Rightarrow> int option" where
  "scan_int b dig bar acc [] = (if bar then None else Some acc)"
| "scan_int b dig bar acc (c # cs) =
     (if c = CHR ''_'' then (if bar then None else scan_int b dig True acc cs)
      else case dig c of None \<Rightarrow> None | Some d \<Rightarrow> scan_int b dig False (b * acc + d) cs)"

definition int_space :: string where
  "int_space = map char_of [9 :: nat, 10, 11, 12, 13, 32, 133, 160]"

definition int_sign :: "string \<Rightarrow> bool \<times> string" where
  "int_sign s = (take 1 s = ''-'', if take 1 s \<in> set [''-'', ''+''] then drop 1 s else s)"

definition py_int16 :: "string \<Rightarrow> int option" where
  "py_int16 s =
     (let (neg, s) = int_sign (strip_chars int_space s);
          s = (if take 2 s \<in> set [''0x'', ''0X''] then (if take 1 (drop 2 s) = ''_'' then drop 3 s else drop 2 s) else s)
      in map_option (\<lambda>v. if neg then - v else v) (scan_int 16 hex_of True 0 s))"

definition dec_of :: "char \<Rightarrow> int option" where
  "dec_of c = (let n = of_char c :: int in if 48 \<le> n \<and> n < 58 then Some (n - 48) else None)"

text \<open>\<^verbatim>\<open>int(s)\<close>; CPython refuses more than 4300 digits.\<close>

definition py_int10 :: "string \<Rightarrow> int option" where
  "py_int10 s =
     (let (neg, s) = int_sign (strip_chars int_space s)
      in if 4300 < length (filter (\<lambda>c. c \<noteq> CHR ''_'') s) then None
         else map_option (\<lambda>v. if neg then - v else v) (scan_int 10 dec_of True 0 s))"

section \<open>Numbers of decoded values\<close>

text \<open>The number that a float's text denotes (\<^verbatim>\<open>NaN\<close> and the infinities apart).\<close>

definition float_value :: "string \<Rightarrow> real" where
  "float_value r =
     (let (sign, s1) = take_sign r;
          ip = takeWhile is_digit s1;
          s2 = dropWhile is_digit s1;
          fr = (case s2 of c # cs \<Rightarrow> if c = CHR ''.'' then takeWhile is_digit cs else [] | [] \<Rightarrow> []);
          s3 = dropWhile (\<lambda>c. c \<noteq> CHR ''e'') s2;
          (esign, ed) = take_sign (dropWhile (\<lambda>c. c = CHR ''+'') (tl s3));
          ex = (if esign = [] then dec_val ed else - dec_val ed) - int (length fr);
          m = of_int (dec_val (ip @ fr)) :: real;
          x = (if 0 \<le> ex then m * 10 ^ nat ex else m / 10 ^ nat (- ex))
      in if sign = [] then x else - x)"

definition trunc_real :: "real \<Rightarrow> int" where
  "trunc_real x = (if 0 \<le> x then \<lfloor>x\<rfloor> else - \<lfloor>- x\<rfloor>)"

definition int_of_float :: "string \<Rightarrow> py_exn + int" where
  "int_of_float r =
     (if r = ''NaN'' then Inl (ValueError ''cannot convert float NaN to integer'')
      else if r \<in> set [''Infinity'', ''-Infinity''] then Inl (OverflowError ''cannot convert float infinity to integer'')
      else Inr (trunc_real (float_value r)))"

definition int_of_text :: "string \<Rightarrow> py_exn + int" where
  "int_of_text s =
     (case py_int10 s of
        None \<Rightarrow> Inl (ValueError ''invalid literal for int() with base 10'')
      | Some v \<Rightarrow> Inr v)"

fun py_int :: "pyval \<Rightarrow> py_exn + int" where
  "py_int (PInt i) = Inr i"
| "py_int (PBool b) = Inr (if b then 1 else 0)"
| "py_int (PFloat r) = int_of_float r"
| "py_int (PStr s) = int_of_text s"
| "py_int _ = Inl (TypeError ''int() argument must be a string, a bytes-like object or a real number'')"

record float_ops =
  float_of_big :: "int \<Rightarrow> string option"
  float_of_text :: "string \<Rightarrow> string option"
  float_kilo :: "string \<Rightarrow> string"

definition float_of_int :: "float_ops \<Rightarrow> int \<Rightarrow> py_exn + string" where
  "float_of_int F i =
     (if \<bar>i\<bar> \<le> 2 ^ 53 then Inr (show_int i @ ''.0'')
      else case float_of_big F i of
          None \<Rightarrow> Inl (OverflowError ''int too large to convert to float'')
        | Some r \<Rightarrow> Inr r)"

fun py_float :: "float_ops \<Rightarrow> pyval \<Rightarrow> py_exn + string" where
  "py_float F (PInt i) = float_of_int F i"
| "py_float F (PBool b) = Inr (if b then ''1.0'' else ''0.0'')"
| "py_float F (PFloat r) = Inr r"
| "py_float F (PStr s) =
     (case float_of_text F s of
        None \<Rightarrow> Inl (ValueError ''could not convert string to float'')
      | Some r \<Rightarrow> Inr r)"
| "py_float F _ = Inl (TypeError ''float() argument must be a string or a real number'')"

section \<open>Base 16\<close>

function hex_pos :: "int \<Rightarrow> string" where
  "hex_pos n = (if n < 16 then [hex_digit n] else hex_pos (n div 16) @ [hex_digit n])"
  by pat_completeness auto
termination by (relation "measure nat") auto

declare hex_pos.simps [simp del]

text \<open>\<^verbatim>\<open>hex(i)\<close>\<close>

definition py_hex :: "int \<Rightarrow> string" where
  "py_hex i = (if i < 0 then ''-0x'' @ hex_pos (- i) else ''0x'' @ hex_pos i)"

section \<open>Facts about parsing\<close>

lemma remove_sub_absent: "x \<in> set sub \<Longrightarrow> x \<notin> set s \<Longrightarrow> remove_sub sub s = s"
proof (induction sub s rule: remove_sub.induct)
  case (1 sub s)
  show ?case
  proof (cases s)
    case (Cons c cs)
    have "take (length sub) s \<noteq> sub" using 1(3,4) by (metis in_set_takeD)
    with 1 Cons show ?thesis by (subst remove_sub.simps) auto
  qed (subst remove_sub.simps, simp)
qed

lemma strip_absent: "\<forall>c \<in> set s. c \<notin> set cs \<Longrightarrow> strip_chars cs s = s"
  using dropWhile_none [of s "\<lambda>c. c \<in> set cs"] dropWhile_none [of "rev s" "\<lambda>c. c \<in> set cs"]
  by (simp add: strip_chars_def)

lemma scan_digits:
  "\<forall>c \<in> set xs. c \<noteq> CHR ''_'' \<and> dig c \<noteq> None \<Longrightarrow>
   scan_int b dig bar acc (xs @ ys) = (if xs = [] then scan_int b dig bar acc ys
     else scan_int b dig False (foldl (\<lambda>a c. b * a + the (dig c)) acc xs) ys)"
  by (induction xs arbitrary: bar acc) auto

lemma hex_fixed_hex: "c \<in> set (hex_fixed w n) \<Longrightarrow> hex_of c \<noteq> None"
  by (induction w arbitrary: n) (auto simp: hex_of_digit)

lemma hex_pos_hex: "c \<in> set (hex_pos n) \<Longrightarrow> hex_of c \<noteq> None"
proof (induction n rule: hex_pos.induct)
  case (1 n)
  then show ?case by (cases "n < 16") (auto simp: hex_pos.simps [of n] hex_of_digit)
qed

lemma not_hex: "hex_of (CHR ''-'') = None" "hex_of (CHR ''_'') = None" "hex_of (CHR '':'') = None"
    "hex_of (CHR ''+'') = None" "hex_of (CHR ''x'') = None" "hex_of (CHR ''X'') = None"
    "\<forall>c \<in> set ''{}''. hex_of c = None" "\<forall>c \<in> set int_space. hex_of c = None"
  by code_simp+

lemma hex_fixed_value: "foldl (\<lambda>a c. 16 * a + the (hex_of c)) 0 (hex_fixed w n) = n mod 16 ^ w"
proof (induction w arbitrary: n)
  case (Suc w)
  have "16 * (n div 16 mod 16 ^ w) + n mod 16 = n mod (16 * 16 ^ w)"
    by (simp add: zmod_zmult2_eq)
  with Suc show ?case by (simp add: hex_of_digit)
qed simp

lemma hex_pos_value: "0 \<le> n \<Longrightarrow> foldl (\<lambda>a c. 16 * a + the (hex_of c)) 0 (hex_pos n) = n"
proof (induction n rule: hex_pos.induct)
  case (1 n)
  then show ?case by (cases "n < 16") (simp_all add: hex_pos.simps [of n] hex_of_digit)
qed

lemma hex_pos_ne: "hex_pos n \<noteq> []"
  by (cases "n < 16") (simp_all add: hex_pos.simps [of n])

lemma int16_digits:
  assumes "xs \<noteq> []" "\<forall>c \<in> set xs. hex_of c \<noteq> None"
  shows "scan_int 16 hex_of True 0 xs = Some (foldl (\<lambda>a c. 16 * a + the (hex_of c)) 0 xs)"
proof -
  have "\<forall>c \<in> set xs. c \<noteq> CHR ''_'' \<and> hex_of c \<noteq> None" using assms(2) not_hex(2) by auto
  from scan_digits [OF this, of 16 True 0 "[]"] assms(1) show ?thesis by simp
qed

text \<open>\<^verbatim>\<open>int(hex(i), 16)\<close> is \<^verbatim>\<open>i\<close>.\<close>

lemma int16_hex: "py_int16 (py_hex i) = Some i"
proof -
  let ?h = "hex_pos \<bar>i\<bar>"
  have sp: "CHR ''-'' \<notin> set int_space" "CHR ''0'' \<notin> set int_space" "CHR ''x'' \<notin> set int_space" by code_simp+
  have h: "c \<notin> set int_space" "c \<noteq> CHR ''_''" if "c \<in> set ?h" for c using hex_pos_hex [OF that] not_hex by auto
  have strip: "strip_chars int_space (py_hex i) = py_hex i"
    using sp h by (intro strip_absent) (auto simp: py_hex_def split: if_splits)
  have tk: "take (Suc 0) ?h \<noteq> ''_''" using h(2) hex_pos_ne [of "\<bar>i\<bar>"] by (cases ?h) auto
  have sc: "scan_int 16 hex_of True 0 ?h = Some \<bar>i\<bar>"
    using int16_digits [OF hex_pos_ne, of "\<bar>i\<bar>"] hex_pos_hex hex_pos_value [of "\<bar>i\<bar>"] by auto
  show ?thesis
  proof (cases "i < 0")
    case True
    then have "py_hex i = ''-0x'' @ ?h" by (simp add: py_hex_def)
    with tk sc True show ?thesis
      unfolding py_int16_def strip by (simp add: int_sign_def Let_def del: scan_int.simps)
  next
    case False
    then have "py_hex i = ''0x'' @ ?h" by (simp add: py_hex_def)
    with tk sc False show ?thesis
      unfolding py_int16_def strip by (simp add: int_sign_def Let_def del: scan_int.simps)
  qed
qed

lemma py_hex_inj: "py_hex i = py_hex j \<Longrightarrow> i = j"
  by (metis int16_hex option.inject)

text \<open>The float of an integer is written like one.\<close>

lemma int_char_float:
  assumes "int_char x"
  shows "x \<in> set float_chars" "x \<in> set float_start"
proof -
  have "n \<in> {48, 49, 50, 51, 52, 53, 54, 55, 56, 57}" if "48 \<le> n" "n < 58" for n :: int
    using that by simp presburger
  with assms have "(of_char x :: int) \<in> of_char ` set ''0123456789-''" by (force simp: int_char_def)
  then have x: "x \<in> set ''0123456789-''" by (auto simp only: image_iff of_char_eq_iff)
  have "list_all (\<lambda>c. c \<in> set float_chars \<and> c \<in> set float_start) ''0123456789-''" by code_simp
  with x show "x \<in> set float_chars" "x \<in> set float_start" unfolding list_all_iff by blast+
qed

lemma float_lex_int: "float_lex (show_int i @ ''.0'')"
proof -
  have d: "CHR ''.'' \<in> set float_chars" "CHR ''0'' \<in> set float_chars" "CHR ''.'' \<in> set float_marks" by code_simp+
  have h: "hd (show_int i) \<in> set (show_int i)" by (rule hd_in_set) simp
  have "list_all (\<lambda>c. c \<in> set float_chars) (show_int i)"
    using show_int_chars int_char_float(1) by (simp add: list_all_iff)
  moreover have "hd (show_int i) \<in> set float_start" by (rule int_char_float(2) [OF show_int_chars [OF h]])
  ultimately show ?thesis using d unfolding float_lex_def by simp
qed

end
