(* ===== verification/Node.thy ===== *)
theory Node
  imports Crypto Acl Dlq LwwStore VectorStore Chunks JsonDoc PyNum
begin

text \<open>
  \<^verbatim>\<open>TPCPNode\<close> of \<^verbatim>\<open>tpcp/core/node.py\<close>: the state of a node and its operations, in the order of the
  class. An operation that suspends only to send is one step; waiting for an acknowledgement and
  each attempt to reconnect are steps of their own.

  From outside come, in \<open>nenv\<close>, the clocks, fresh message ids and what the network does with a
  connect or a send; in \<open>platform\<close>, the Ed25519 primitives and Pydantic's conversions between JSON
  documents and instances; and the handlers that the embedding program registers, as the argument
  \<open>user\<close>. An envelope on the wire is its value; a received message is its text.
\<close>

section \<open>State\<close>

datatype handler =
    HandleHandshake | HandleStateSync | HandleVectorSync | HandleAck | HandleNack | UserHandler nat

datatype future = Waiting | Resolved envelope | Rejected py_exn | Cancelled

record node =
  nd_identity :: agent_identity
  nd_host :: string
  nd_port :: int
  adns_url :: "string option"
  auto_ack :: bool
  nd_acl :: "acl_policy option"
  adns_ws :: "conn option"
  adns_registered :: bool
  nd_manager :: identity_manager
  peer_registry :: "(uuid, agent_identity \<times> string) dict"
  peer_connections :: "(uuid, conn) dict"
  shared_memory :: lww_map
  nd_bank :: vector_bank
  message_queue :: "envelope message_queue"
  seen_messages :: "(uuid, seconds) dict"
  pending_acks :: "(uuid, future) dict"
  resolved_acks :: "(uuid, future) dict"  \<comment> \<open>futures that \<^verbatim>\<open>send_message\<close> still holds after they left \<open>pending_acks\<close>\<close>
  handlers :: "(intent, handler) dict"
  serving :: bool
  nd_running :: bool

record nenv =
  monotonic :: seconds
  wall_clock :: int
  fresh_id :: "nat \<Rightarrow> uuid"
  connect_to :: "string \<Rightarrow> conn option"
  conn_open :: "conn \<Rightarrow> bool"
  send_ok :: "conn \<Rightarrow> envelope \<Rightarrow> bool"
  doc_send_ok :: "conn \<Rightarrow> bool"
  peer_host :: "conn \<Rightarrow> string option"

record platform =
  ed_prims :: ed25519
  dec_envelope :: "pyval \<Rightarrow> envelope option"
  dec_identity :: "pyval \<Rightarrow> agent_identity option"
  identity_json :: "agent_identity \<Rightarrow> string"

datatype node_out =
    SentEnvelope conn envelope
  | SentDocument conn pyval
  | ClosedConn conn
  | Scheduled uuid  \<comment> \<open>a task \<^verbatim>\<open>_reconnect_and_drain\<close> for this target\<close>

type_synonym user_handlers =
  "nat \<Rightarrow> nenv \<Rightarrow> envelope \<Rightarrow> conn \<Rightarrow> node \<Rightarrow> node \<times> node_out list \<times> py_exn option"

definition BROADCAST_UUID :: uuid where
  "BROADCAST_UUID = 0"

definition register_handler :: "intent \<Rightarrow> handler \<Rightarrow> node \<Rightarrow> node" where
  "register_handler i h n = n\<lparr>handlers := AList.update i h (handlers n)\<rparr>"

definition new_node ::
  "agent_identity \<Rightarrow> string \<Rightarrow> int \<Rightarrow> string option \<Rightarrow> identity_manager \<Rightarrow> bool \<Rightarrow> acl_policy option \<Rightarrow> node" where
  "new_node ident host port url mgr ack acl =
     register_handler NACK HandleNack
     (register_handler ACK HandleAck
     (register_handler STATE_SYNC_VECTOR HandleVectorSync
     (register_handler STATE_SYNC HandleStateSync
     (register_handler HANDSHAKE HandleHandshake
       \<lparr>nd_identity = ident\<lparr>public_key := get_public_key_string mgr\<rparr>, nd_host = host, nd_port = port,
        adns_url = url, auto_ack = ack, nd_acl = acl, adns_ws = None, adns_registered = False,
        nd_manager = mgr, peer_registry = [], peer_connections = [],
        shared_memory = new_lww (uuid_str (agent_id ident)) None,
        nd_bank = new_bank (uuid_str (agent_id ident)),
        message_queue = new_queue 500, seen_messages = [], pending_acks = [], resolved_acks = [],
        handlers = [], serving = False, nd_running = False\<rparr>))))"

text \<open>The constructor: the manager that is passed, or a new one.\<close>

definition init_node ::
  "ed25519 \<Rightarrow> string option \<Rightarrow> bytes \<Rightarrow> string option \<Rightarrow> bool \<Rightarrow> filesystem \<Rightarrow> identity_manager option \<Rightarrow>
   agent_identity \<Rightarrow> string \<Rightarrow> int \<Rightarrow> string option \<Rightarrow> bool \<Rightarrow> acl_policy option \<Rightarrow>
   filesystem \<times> (py_exn + node)" where
  "init_node ed env_key fresh kp auto_save_key fs manager ident host port url ack acl =
     (case manager of
        Some m \<Rightarrow> (fs, Inr (new_node ident host port url m ack acl))
      | None \<Rightarrow>
          (case new_manager ed env_key fresh None kp auto_save_key fs of
             (fs', Inl e) \<Rightarrow> (fs', Inl e)
           | (fs', Inr m) \<Rightarrow> (fs', Inr (new_node ident host port url m ack acl))))"

definition register_peer :: "agent_identity \<Rightarrow> string \<Rightarrow> node \<Rightarrow> node" where
  "register_peer ident address n =
     n\<lparr>peer_registry := AList.update (agent_id ident) (ident, address) (peer_registry n)\<rparr>"

definition remove_peer :: "uuid \<Rightarrow> node \<Rightarrow> node \<times> node_out list" where
  "remove_peer a n =
     (let n = n\<lparr>peer_registry := AList.delete a (peer_registry n)\<rparr>
      in case map_of (peer_connections n) a of
           None \<Rightarrow> (n, [])
         | Some ws \<Rightarrow> (n\<lparr>peer_connections := AList.delete a (peer_connections n)\<rparr>, [ClosedConn ws]))"

definition start_listening :: "(string, (string, lww_row) dict) dict \<Rightarrow> node \<Rightarrow> node \<times> py_exn option" where
  "start_listening files n =
     (case lww_connect files (shared_memory n) of
        (m, Some e) \<Rightarrow> (n\<lparr>shared_memory := m\<rparr>, Some e)
      | (m, None) \<Rightarrow> (n\<lparr>shared_memory := m, serving := True, nd_running := True\<rparr>, None))"

definition stop_listening :: "node \<Rightarrow> node \<times> node_out list" where
  "stop_listening n =
     (n\<lparr>nd_running := False, serving := False,
        resolved_acks := fold (\<lambda>(k, f). AList.update k (if f = Waiting then Cancelled else f))
          (pending_acks n) (resolved_acks n),
        pending_acks := [], peer_connections := [], shared_memory := lww_close (shared_memory n)\<rparr>,
      map (\<lambda>(k, ws). ClosedConn ws) (peer_connections n) @
      (case adns_ws n of None \<Rightarrow> [] | Some ws \<Rightarrow> [ClosedConn ws]))"

section \<open>Envelopes that the node creates\<close>

definition create_header :: "nenv \<Rightarrow> nat \<Rightarrow> node \<Rightarrow> uuid \<Rightarrow> intent \<Rightarrow> message_header" where
  "create_header env k n receiver i =
     \<lparr>message_id = fresh_id env k, msg_timestamp = wall_clock env, sender_id = agent_id (nd_identity n),
      receiver_id = receiver, intent = i, ttl = 30, protocol_version = PROTOCOL_VERSION\<rparr>"

definition reply_envelope ::
  "platform \<Rightarrow> nenv \<Rightarrow> node \<Rightarrow> envelope \<Rightarrow> intent \<Rightarrow> string \<Rightarrow> py_exn + envelope" where
  "reply_envelope P env n orig i txt =
     (let hdr = create_header env 0 n (sender_id (header orig)) i;
          pl = TextP (text_of txt);
          info = \<lparr>acked_message_id = message_id (header orig)\<rparr>;
          signable = AList.update ''ack_info'' (dump_ack_info info) (model_dump pl)
      in case sign_payload (ed_prims P) (nd_manager n) signable of
           Inl e \<Rightarrow> Inl e
         | Inr sig \<Rightarrow> Inr (mk_envelope hdr pl (Some sig) \<lparr>env_ack_info := Some info\<rparr>))"

definition create_ack_envelope :: "platform \<Rightarrow> nenv \<Rightarrow> node \<Rightarrow> envelope \<Rightarrow> py_exn + envelope" where
  "create_ack_envelope P env n orig = reply_envelope P env n orig ACK ''OK''"

definition create_nack_envelope :: "platform \<Rightarrow> nenv \<Rightarrow> node \<Rightarrow> envelope \<Rightarrow> string \<Rightarrow> py_exn + envelope" where
  "create_nack_envelope P env n orig reason = reply_envelope P env n orig NACK reason"

section \<open>Dispatch\<close>

definition get_peer_connection :: "nenv \<Rightarrow> uuid \<Rightarrow> node \<Rightarrow> node \<times> conn option" where
  "get_peer_connection env target n =
     (let fresh_conn = (\<lambda>n. case map_of (peer_registry n) target of
              None \<Rightarrow> (n, None)
            | Some (ident, endpoint) \<Rightarrow>
                (case connect_to env endpoint of
                   None \<Rightarrow> (n, None)
                 | Some ws \<Rightarrow> (n\<lparr>peer_connections := AList.update target ws (peer_connections n)\<rparr>, Some ws)))
      in case map_of (peer_connections n) target of
           Some ws \<Rightarrow>
             if conn_open env ws then (n, Some ws)
             else fresh_conn (n\<lparr>peer_connections := AList.delete target (peer_connections n)\<rparr>)
         | None \<Rightarrow> fresh_conn n)"

definition push_dlq :: "uuid \<Rightarrow> envelope \<Rightarrow> node \<Rightarrow> node" where
  "push_dlq target e n = n\<lparr>message_queue := fst (enqueue target e (message_queue n))\<rparr>"

definition dispatch_envelope :: "nenv \<Rightarrow> uuid \<Rightarrow> envelope \<Rightarrow> node \<Rightarrow> node \<times> node_out list" where
  "dispatch_envelope env target e n =
     (if map_of (peer_registry n) target = None then (push_dlq target e n, [])
      else case get_peer_connection env target n of
          (n, Some ws) \<Rightarrow>
            if send_ok env ws e then (n, [SentEnvelope ws e])
            else (push_dlq target e (n\<lparr>peer_connections := AList.delete target (peer_connections n)\<rparr>),
                  [Scheduled target])
        | (n, None) \<Rightarrow> (push_dlq target e n, [Scheduled target]))"

section \<open>Handlers\<close>

definition handle_handshake :: "platform \<Rightarrow> nenv \<Rightarrow> envelope \<Rightarrow> conn \<Rightarrow> node \<Rightarrow> node" where
  "handle_handshake P env e ws n =
     (case payload e of
        TextP t \<Rightarrow>
          (case Option.bind (json_loads (content t)) (dec_identity P) of
             None \<Rightarrow> n
           | Some sender \<Rightarrow>
               (case signature e of
                  None \<Rightarrow> n
                | Some sig \<Rightarrow>
                    if sig = [] then n
                    else if \<not> verify_signature (ed_prims P) (public_key sender) sig (model_dump (payload e)) then n
                    else
                      let host = (case peer_host env ws of None \<Rightarrow> ''unknown'' | Some h \<Rightarrow> h)
                      in n\<lparr>peer_registry := AList.update (agent_id sender) (sender, ''ws://'' @ host) (peer_registry n)\<rparr>))
      | _ \<Rightarrow> n)"

definition handle_state_sync :: "envelope \<Rightarrow> node \<Rightarrow> node \<times> py_exn option" where
  "handle_state_sync e n =
     (case payload e of
        CrdtP p \<Rightarrow>
          if crdt_type p = ''LWW-Map'' then
            (case lww_merge (crdt_state p) (shared_memory n) of
               (m, ex) \<Rightarrow> (n\<lparr>shared_memory := m\<rparr>, ex))
          else (n, None)
      | _ \<Rightarrow> (n, None))"

definition handle_vector_sync :: "envelope \<Rightarrow> node \<Rightarrow> node" where
  "handle_vector_sync e n =
     (case payload e of
        VectorP p \<Rightarrow>
          n\<lparr>nd_bank := store_vector (message_id (header e)) (map float_value (vector p)) (vec_model_id p)
              (raw_text_fallback p) (nd_bank n)\<rparr>
      | _ \<Rightarrow> n)"

text \<open>Popping a future and settling it unless it is done.\<close>

definition settle :: "uuid \<Rightarrow> future \<Rightarrow> node \<Rightarrow> node" where
  "settle mid result n =
     (case map_of (pending_acks n) mid of
        None \<Rightarrow> n
      | Some f \<Rightarrow>
          n\<lparr>pending_acks := AList.delete mid (pending_acks n),
            resolved_acks := AList.update mid (if f = Waiting then result else f) (resolved_acks n)\<rparr>)"

definition handle_ack :: "envelope \<Rightarrow> node \<Rightarrow> node" where
  "handle_ack e n =
     (case env_ack_info e of None \<Rightarrow> n | Some a \<Rightarrow> settle (acked_message_id a) (Resolved e) n)"

definition handle_nack :: "envelope \<Rightarrow> node \<Rightarrow> node" where
  "handle_nack e n =
     (case env_ack_info e of
        None \<Rightarrow> n
      | Some a \<Rightarrow>
          settle (acked_message_id a)
            (Rejected (RuntimeError (''NACK received for message '' @ uuid_str (acked_message_id a)))) n)"

definition run_handler ::
  "platform \<Rightarrow> user_handlers \<Rightarrow> nenv \<Rightarrow> handler \<Rightarrow> envelope \<Rightarrow> conn \<Rightarrow> node \<Rightarrow> node \<times> node_out list \<times> py_exn option" where
  "run_handler P user env h e ws n =
     (case h of
        HandleHandshake \<Rightarrow> (handle_handshake P env e ws n, [], None)
      | HandleStateSync \<Rightarrow> (case handle_state_sync e n of (n', ex) \<Rightarrow> (n', [], ex))
      | HandleVectorSync \<Rightarrow> (handle_vector_sync e n, [], None)
      | HandleAck \<Rightarrow> (handle_ack e n, [], None)
      | HandleNack \<Rightarrow> (handle_nack e n, [], None)
      | UserHandler k \<Rightarrow> user k env e ws n)"

section \<open>Inbound messages\<close>

text \<open>The security middleware.\<close>

definition authentic :: "platform \<Rightarrow> envelope \<Rightarrow> node \<Rightarrow> bool" where
  "authentic P e n =
     (case map_of (peer_registry n) (sender_id (header e)) of
        None \<Rightarrow> False
      | Some (peer, _) \<Rightarrow>
          (case signature e of
             None \<Rightarrow> False
           | Some sig \<Rightarrow> sig \<noteq> [] \<and>
               verify_signature (ed_prims P) (public_key peer) sig (model_dump (payload e))))"

text \<open>Sending a reply whose creation may raise: an exception ends the processing of the message.\<close>

definition send_reply :: "nenv \<Rightarrow> uuid \<Rightarrow> py_exn + envelope \<Rightarrow> node \<Rightarrow> node \<times> node_out list" where
  "send_reply env target reply n =
     (case reply of Inl _ \<Rightarrow> (n, []) | Inr e \<Rightarrow> dispatch_envelope env target e n)"

definition run_and_reply ::
  "platform \<Rightarrow> user_handlers \<Rightarrow> nenv \<Rightarrow> handler \<Rightarrow> envelope \<Rightarrow> conn \<Rightarrow> node \<Rightarrow> node \<times> node_out list" where
  "run_and_reply P user env h e ws n =
     (let sender = sender_id (header e);
          replies = auto_ack n \<and> intent (header e) \<notin> set [ACK, NACK];
          nack = (\<lambda>n outs exc.
            if replies then
              (case send_reply env sender (create_nack_envelope P env n e (str_exn exc)) n of
                 (n, sent) \<Rightarrow> (n, outs @ sent))
            else (n, outs))
      in case run_handler P user env h e ws n of
           (n, outs, Some exc) \<Rightarrow> nack n outs exc
         | (n, outs, None) \<Rightarrow>
             if replies then
               (case create_ack_envelope P env n e of
                  Inl exc \<Rightarrow> nack n outs exc
                | Inr ack \<Rightarrow> (case dispatch_envelope env sender ack n of (n, sent) \<Rightarrow> (n, outs @ sent)))
             else (n, outs))"

definition evict_seen :: "nenv \<Rightarrow> (uuid, seconds) dict \<Rightarrow> (uuid, seconds) dict" where
  "evict_seen env seen = dropWhile (\<lambda>(k, t). t \<le> monotonic env - 300) seen"

definition process_envelope ::
  "platform \<Rightarrow> user_handlers \<Rightarrow> nenv \<Rightarrow> conn \<Rightarrow> envelope \<Rightarrow> node \<Rightarrow> node \<times> node_out list" where
  "process_envelope P user env ws e n =
     (if ttl (header e) \<le> 0 then (n, [])
      else
        let mid = message_id (header e);
            n = n\<lparr>seen_messages := evict_seen env (seen_messages n)\<rparr>
        in if map_of (seen_messages n) mid \<noteq> None then (n, [])
           else
             let n = n\<lparr>seen_messages := AList.update mid (monotonic env) (seen_messages n)\<rparr>
             in if intent (header e) \<noteq> HANDSHAKE \<and> \<not> authentic P e n then (n, [])
                else if (case nd_acl n of None \<Rightarrow> False
                         | Some pol \<Rightarrow> \<not> is_allowed pol (sender_id (header e)) (intent (header e)))
                then (if auto_ack n
                      then send_reply env (sender_id (header e)) (create_nack_envelope P env n e ''ACL denied'') n
                      else (n, []))
                else (case map_of (handlers n) (intent (header e)) of
                    None \<Rightarrow> (n, [])
                  | Some h \<Rightarrow> run_and_reply P user env h e ws n))"

definition process_inbound ::
  "platform \<Rightarrow> user_handlers \<Rightarrow> nenv \<Rightarrow> conn \<Rightarrow> string \<Rightarrow> node \<Rightarrow> node \<times> node_out list" where
  "process_inbound P user env ws raw n =
     (case json_loads raw of
        None \<Rightarrow> (n, [])
      | Some data \<Rightarrow>
          (case dec_envelope P data of
             None \<Rightarrow> (n, [])
           | Some e \<Rightarrow> process_envelope P user env ws e n))"

text \<open>The messages of one connection, in order.\<close>

fun handle_connection ::
  "platform \<Rightarrow> user_handlers \<Rightarrow> conn \<Rightarrow> (nenv \<times> string) list \<Rightarrow> node \<Rightarrow> node \<times> node_out list" where
  "handle_connection P user ws [] n = (n, [])"
| "handle_connection P user ws ((env, raw) # msgs) n =
     (let (n, outs) = process_inbound P user env ws raw n;
          (n, rest) = handle_connection P user ws msgs n
      in (n, outs @ rest))"

text \<open>Messages on the relay connection.\<close>

definition challenge_response_doc :: "platform \<Rightarrow> node \<Rightarrow> string \<Rightarrow> pyval" where
  "challenge_response_doc P n nonce =
     PDict [(''header'', PDict [(''sender_id'', PStr (uuid_str (agent_id (nd_identity n)))),
              (''intent'', PStr ''Challenge_Response'')]),
            (''payload'', PDict [(''content'', PStr (sign_bytes (ed_prims P) (nd_manager n) (utf8 nonce)))])]"

definition process_adns_message ::
  "platform \<Rightarrow> user_handlers \<Rightarrow> nenv \<Rightarrow> conn \<Rightarrow> string \<Rightarrow> node \<Rightarrow> node \<times> node_out list" where
  "process_adns_message P user env ws raw n =
     (case json_loads raw of
        Some (PDict d) \<Rightarrow>
          (let type = (case map_of d ''type'' of None \<Rightarrow> PNone | Some t \<Rightarrow> t)
           in if type = PStr ''ADNS_CHALLENGE'' then
                (case (case map_of d ''nonce'' of None \<Rightarrow> PStr [] | Some v \<Rightarrow> v) of
                   PStr nonce \<Rightarrow>
                     (n, if doc_send_ok env ws then [SentDocument ws (challenge_response_doc P n nonce)] else [])
                 | _ \<Rightarrow> (n, []))
              else if type = PStr ''ADNS_REGISTERED'' then (n\<lparr>adns_registered := True\<rparr>, [])
              else process_inbound P user env ws raw n)
      | _ \<Rightarrow> (n, []))"

end
