(* ===== verification/NodeSend.thy ===== *)
theory NodeSend
  imports Node
begin

text \<open>
  The outbound half of \<^verbatim>\<open>TPCPNode\<close> (\<^verbatim>\<open>tpcp/core/node.py\<close>): \<^verbatim>\<open>send_message\<close>, broadcast and multicast,
  the drain of the dead-letter queue with exponential backoff, discovery, the relay session, and the
  relay-only node of \<^verbatim>\<open>tpcp/core/relay_client.py\<close>.
\<close>

section \<open>Sending\<close>

text \<open>\<^verbatim>\<open>send_message\<close> up to the wait; \<open>k\<close> numbers the fresh id that its header takes.\<close>

definition send_message ::
  "platform \<Rightarrow> nenv \<Rightarrow> nat \<Rightarrow> uuid \<Rightarrow> intent \<Rightarrow> payload \<Rightarrow> bool \<Rightarrow> chunk_info option \<Rightarrow> node \<Rightarrow>
   node \<times> node_out list \<times> (py_exn + uuid)" where
  "send_message P env k target i pl require_ack chunk n =
     (let hdr = create_header env k n target i;
          d = (case chunk of
                 None \<Rightarrow> model_dump pl
               | Some c \<Rightarrow> AList.update ''chunk_info'' (dump_chunk_info c) (model_dump pl))
      in case sign_payload (ed_prims P) (nd_manager n) d of
           Inl e \<Rightarrow> (n, [], Inl e)
         | Inr sig \<Rightarrow>
             (let e = mk_envelope hdr pl (Some sig) \<lparr>env_chunk_info := chunk\<rparr>;
                  n = (if require_ack
                       then n\<lparr>pending_acks := AList.update (message_id hdr) Waiting (pending_acks n)\<rparr>
                       else n)
              in case dispatch_envelope env target e n of
                   (n, outs) \<Rightarrow> (n, outs, Inr (message_id hdr))))"

text \<open>The wait for the acknowledgement: \<open>None\<close> while the future is pending and the 30 seconds have
  not passed.\<close>

definition await_ack :: "uuid \<Rightarrow> bool \<Rightarrow> node \<Rightarrow> node \<times> (py_exn + uuid) option" where
  "await_ack mid timed_out n =
     (case map_of (resolved_acks n) mid of
        Some (Resolved e) \<Rightarrow> (n, Some (Inr mid))
      | Some (Rejected x) \<Rightarrow> (n, Some (Inl x))
      | Some Cancelled \<Rightarrow> (n, Some (Inl (CancelledError [])))
      | _ \<Rightarrow>
          if timed_out
          then (n\<lparr>pending_acks := AList.delete mid (pending_acks n)\<rparr>,
                Some (Inl (TimeoutError (''No ACK received for '' @ uuid_str mid @ '' within 30s''))))
          else (n, None))"

text \<open>The direct fan-out over the peers.\<close>

fun fan_out_peers ::
  "nenv \<Rightarrow> nat \<Rightarrow> intent \<Rightarrow> payload \<Rightarrow> string \<Rightarrow> uuid list \<Rightarrow> node \<Rightarrow> node \<times> node_out list \<times> nat" where
  "fan_out_peers env k i pl sig [] n = (n, [], 0)"
| "fan_out_peers env k i pl sig (peer # peers) n =
     (let e = mk_envelope (create_header env k n peer i) pl (Some sig);
          (n, outs) = dispatch_envelope env peer e n;
          (n, rest, cnt) = fan_out_peers env (Suc k) i pl sig peers n
      in (n, outs @ rest, Suc cnt))"

definition send_broadcast ::
  "platform \<Rightarrow> nenv \<Rightarrow> intent \<Rightarrow> payload \<Rightarrow> node \<Rightarrow> node \<times> node_out list \<times> (py_exn + nat)" where
  "send_broadcast P env i pl n =
     (case sign_payload (ed_prims P) (nd_manager n) (model_dump pl) of
        Inl e \<Rightarrow> (n, [], Inl e)
      | Inr sig \<Rightarrow>
          (let e = mk_envelope (create_header env 0 n BROADCAST_UUID i) pl (Some sig);
               direct = (case fan_out_peers env 1 i pl sig (map fst (peer_registry n)) n of
                           (n, outs, cnt) \<Rightarrow> (n, outs, Inr cnt))
           in case adns_ws n of
                Some ws \<Rightarrow> if send_ok env ws e then (n, [SentEnvelope ws e], Inr 1) else direct
              | None \<Rightarrow> direct))"

fun multicast_peers ::
  "platform \<Rightarrow> nenv \<Rightarrow> nat \<Rightarrow> string \<Rightarrow> intent \<Rightarrow> payload \<Rightarrow> (uuid \<times> agent_identity \<times> string) list \<Rightarrow> node \<Rightarrow>
   node \<times> node_out list \<times> nat" where
  "multicast_peers P env k tag i pl [] n = (n, [], 0)"
| "multicast_peers P env k tag i pl ((peer, ident, addr) # peers) n =
     (if tag \<in> set (capabilities ident) then
        (let (n, outs, res) = send_message P env k peer i pl False None n;
             (n, rest, cnt) = multicast_peers P env (Suc k) tag i pl peers n
         in (n, outs @ rest, (case res of Inl _ \<Rightarrow> cnt | Inr _ \<Rightarrow> Suc cnt)))
      else multicast_peers P env (Suc k) tag i pl peers n)"

definition send_multicast ::
  "platform \<Rightarrow> nenv \<Rightarrow> string \<Rightarrow> intent \<Rightarrow> payload \<Rightarrow> node \<Rightarrow> node \<times> node_out list \<times> nat" where
  "send_multicast P env tag i pl n = multicast_peers P env 0 tag i pl (peer_registry n) n"

section \<open>Draining the dead-letter queue\<close>

lemma dequeue_shorter:
  "dequeue_one t q = (q', Some m) \<Longrightarrow> length (deque_of q' t) < length (deque_of q t)"
  by (auto simp: dequeue_one_def deque_of_set deque_of_del split: option.splits list.splits if_splits)
    (auto simp: deque_of_def)

text \<open>The inner loop on one connection: the sends until the queue is empty or a send fails, which puts
  its message back in front.\<close>

function drain_loop ::
  "(envelope \<Rightarrow> bool) \<Rightarrow> uuid \<Rightarrow> envelope message_queue \<Rightarrow> envelope message_queue \<times> envelope list \<times> bool" where
  "drain_loop ok t q =
     (if has_messages t q then
        (case dequeue_one t q of
           (q1, None) \<Rightarrow> (q1, [], True)
         | (q1, Some m) \<Rightarrow>
             if ok m then
               (case drain_loop ok t q1 of (q2, sent, done) \<Rightarrow> (q2, m # sent, done))
             else (fst (enqueue_front t m q1), [], False))
      else (q, [], True))"
  by pat_completeness auto
termination
  by (relation "measure (\<lambda>(ok, t, q). length (deque_of q t))") (auto dest: dequeue_shorter [OF sym])

declare drain_loop.simps [simp del]

text \<open>One attempt of \<^verbatim>\<open>_reconnect_and_drain\<close>; the flag says whether the loop goes on (after a sleep).\<close>

definition drain_attempt :: "nenv \<Rightarrow> uuid \<Rightarrow> string \<Rightarrow> node \<Rightarrow> node \<times> node_out list \<times> bool" where
  "drain_attempt env target endpoint n =
     (case connect_to env endpoint of
        None \<Rightarrow> (n, [], True)
      | Some ws \<Rightarrow>
          (case drain_loop (send_ok env ws) target (message_queue n) of
             (q, sent, done) \<Rightarrow>
               (n\<lparr>peer_connections := AList.update target ws (peer_connections n), message_queue := q\<rparr>,
                map (SentEnvelope ws) sent, \<not> done)))"

definition MAX_BACKOFF :: seconds where
  "MAX_BACKOFF = 60"

text \<open>The loop over a list of attempts, with the sleeps between them.\<close>

fun drain_attempts ::
  "nenv list \<Rightarrow> uuid \<Rightarrow> string \<Rightarrow> seconds \<Rightarrow> node \<Rightarrow> node \<times> node_out list \<times> seconds list" where
  "drain_attempts [] target endpoint backoff n = (n, [], [])"
| "drain_attempts (env # envs) target endpoint backoff n =
     (if nd_running n \<and> has_messages target (message_queue n) then
        (case drain_attempt env target endpoint n of
           (n, outs, again) \<Rightarrow>
             if again then
               (case drain_attempts envs target endpoint (min (backoff * 2) MAX_BACKOFF) n of
                  (n, rest, sleeps) \<Rightarrow> (n, outs @ rest, backoff # sleeps))
             else (n, outs, []))
      else (n, [], []))"

definition reconnect_and_drain ::
  "nenv list \<Rightarrow> uuid \<Rightarrow> node \<Rightarrow> node \<times> node_out list \<times> seconds list" where
  "reconnect_and_drain envs target n =
     (case map_of (peer_registry n) target of
        None \<Rightarrow> (n, [], [])
      | Some (ident, endpoint) \<Rightarrow> drain_attempts envs target endpoint 1 n)"

section \<open>Discovery and the relay session\<close>

fun announce_seeds :: "nenv \<Rightarrow> envelope \<Rightarrow> string list \<Rightarrow> node_out list" where
  "announce_seeds env e [] = []"
| "announce_seeds env e (address # rest) =
     (case connect_to env address of
        None \<Rightarrow> announce_seeds env e rest
      | Some ws \<Rightarrow>
          (if send_ok env ws e then [SentEnvelope ws e] else []) @ ClosedConn ws # announce_seeds env e rest)"

definition broadcast_discovery ::
  "platform \<Rightarrow> nenv \<Rightarrow> string list \<Rightarrow> node \<Rightarrow> node_out list \<times> py_exn option" where
  "broadcast_discovery P env seeds n =
     (let hdr = create_header env 0 n 0 HANDSHAKE;
          pl = TextP (text_of (identity_json P (nd_identity n)))
      in case sign_payload (ed_prims P) (nd_manager n) (model_dump pl) of
           Inl e \<Rightarrow> ([], Some e)
         | Inr sig \<Rightarrow>
             (let e = mk_envelope hdr pl (Some sig)
              in ((case adns_ws n of
                     None \<Rightarrow> []
                   | Some ws \<Rightarrow> if send_ok env ws e then [SentEnvelope ws e] else []) @
                  announce_seeds env e seeds, None)))"

text \<open>One turn of \<^verbatim>\<open>_connect_to_adns\<close>: the connect fails, or the session delivers its messages and then
  ends cleanly or with an exception. The third result is the sleep before the next turn, the last the
  next backoff.\<close>

datatype adns_turn = ConnectFails | Session conn "(nenv \<times> string) list" bool

fun adns_messages ::
  "platform \<Rightarrow> user_handlers \<Rightarrow> conn \<Rightarrow> (nenv \<times> string) list \<Rightarrow> node \<Rightarrow> node \<times> node_out list" where
  "adns_messages P user ws [] n = (n, [])"
| "adns_messages P user ws ((env, msg) # msgs) n =
     (let (n, outs) = process_adns_message P user env ws msg n;
          (n, rest) = adns_messages P user ws msgs n
      in (n, outs @ rest))"

definition connect_to_adns ::
  "platform \<Rightarrow> user_handlers \<Rightarrow> nenv \<Rightarrow> adns_turn \<Rightarrow> seconds \<Rightarrow> node \<Rightarrow>
   node \<times> node_out list \<times> seconds option \<times> seconds" where
  "connect_to_adns P user env turn backoff n =
     (let failed = (\<lambda>n outs backoff.
            let n = n\<lparr>adns_ws := None, adns_registered := False\<rparr>
            in if nd_running n then (n, outs, Some backoff, min (backoff * 2) MAX_BACKOFF)
               else (n, outs, None, backoff))
      in if \<not> nd_running n then (n, [], None, backoff)
         else case turn of
             ConnectFails \<Rightarrow> failed n [] backoff
           | Session ws msgs clean \<Rightarrow>
               (let n = n\<lparr>adns_ws := Some ws, adns_registered := False\<rparr>
                in case broadcast_discovery P env [] n of
                     (outs, Some e) \<Rightarrow> failed n outs 1
                   | (outs, None) \<Rightarrow>
                       (case adns_messages P user ws msgs n of
                          (n, rest) \<Rightarrow>
                            if clean then (n, outs @ rest, None, 1) else failed n (outs @ rest) 1)))"

text \<open>\<^verbatim>\<open>RelayTPCPNode\<close>: no server, the relay is required (the error's message is cut to its first words).\<close>

definition new_relay_node ::
  "agent_identity \<Rightarrow> string \<Rightarrow> identity_manager \<Rightarrow> bool \<Rightarrow> acl_policy option \<Rightarrow> py_exn + node" where
  "new_relay_node ident url mgr ack acl =
     (if url = []
      then Inl (ValueError ''RelayTPCPNode requires adns_url'')
      else Inr (new_node ident ''127.0.0.1'' 0 (Some url) mgr ack acl))"

definition relay_start_listening ::
  "(string, (string, lww_row) dict) dict \<Rightarrow> node \<Rightarrow> node \<times> py_exn option" where
  "relay_start_listening files n =
     (case lww_connect files (shared_memory n) of
        (m, Some e) \<Rightarrow> (n\<lparr>shared_memory := m\<rparr>, Some e)
      | (m, None) \<Rightarrow> (n\<lparr>shared_memory := m, nd_running := True\<rparr>, None))"

text \<open>\<^verbatim>\<open>send_chunked\<close> on this node.\<close>

definition node_send_chunked ::
  "platform \<Rightarrow> nenv \<Rightarrow> uuid \<Rightarrow> uuid \<Rightarrow> bytes \<Rightarrow> string \<Rightarrow> string \<Rightarrow> int \<Rightarrow> node \<times> node_out list \<Rightarrow>
   (node \<times> node_out list) \<times> (py_exn + uuid)" where
  "node_send_chunked P env tid target bs mime desc sz s =
     send_chunked
       (\<lambda>pl c (n, outs). case send_message P env (nat (chunk_index c)) target MEDIA_SHARE pl False (Some c) n of
          (n', more_outs, res) \<Rightarrow> ((n', outs @ more_outs), res))
       tid bs mime desc sz s"

end
