(* ===== verification/NodeInbound.thy ===== *)
theory NodeInbound
  imports Node
begin

text \<open>
  The inbound path of theory \<open>Node\<close>: what a received envelope can do to a node. The state
  invariant, replay protection, the security middleware, the access policy and the handshake; and
  where they fall short of what the comments and documents of the repository promise.
\<close>

section \<open>The replay cache\<close>

definition seen_inv :: "seconds \<Rightarrow> (uuid, seconds) dict \<Rightarrow> bool" where
  "seen_inv t seen \<longleftrightarrow> dict_wf seen \<and> sorted (map snd seen) \<and> (\<forall>x \<in> set seen. snd x \<le> t)"

lemma evict_seen_filter:
  "seen_inv t seen \<Longrightarrow> evict_seen env seen = filter (\<lambda>x. monotonic env - 300 < snd x) seen"
  using filter_eq_dropWhile_sorted [of snd seen "monotonic env - 300"]
  by (simp add: evict_seen_def seen_inv_def case_prod_beta')

lemma seen_inv_evict: "seen_inv t seen \<Longrightarrow> t \<le> t' \<Longrightarrow> seen_inv t' (evict_seen env seen)"
  by (auto simp: evict_seen_filter) (auto simp: seen_inv_def sorted_wrt_filter sorted_map)

lemma seen_get_evict:
  "seen_inv t seen \<Longrightarrow> map_of (evict_seen env seen) k =
     (case map_of seen k of None \<Rightarrow> None | Some s \<Rightarrow> if monotonic env - 300 < s then Some s else None)"
  by (subst evict_seen_filter, assumption) (simp add: seen_inv_def dict_get_filter split: option.split)

lemma seen_inv_add:
  assumes "seen_inv t seen" "map_of seen k = None"
  shows "seen_inv t (AList.update k t seen)"
  using assms by (auto simp: dict_set_fresh seen_inv_def dict_wf_def sorted_append image_iff dest: weak_map_of_SomeI)

section \<open>Steps of the inbound path\<close>

definition cache_only :: "node \<Rightarrow> node \<Rightarrow> bool" where
  "cache_only n n' \<longleftrightarrow> (\<exists>seen. n' = n\<lparr>seen_messages := seen\<rparr>)"

lemma cache_only_refl [simp, intro]: "cache_only n n" "cache_only n (n\<lparr>seen_messages := s\<rparr>)"
  by (auto simp: cache_only_def intro: exI [of _ "seen_messages n"])

lemma authentic_seen [simp]: "authentic P e (n\<lparr>seen_messages := s\<rparr>) = authentic P e n"
  by (simp add: authentic_def)

text \<open>The state in which the middleware, the policy and the handler see the message.\<close>

definition noted :: "nenv \<Rightarrow> envelope \<Rightarrow> node \<Rightarrow> node" where
  "noted env e n = n\<lparr>seen_messages :=
     AList.update (message_id (header e)) (monotonic env) (evict_seen env (seen_messages n))\<rparr>"

definition acl_denies :: "node \<Rightarrow> envelope \<Rightarrow> bool" where
  "acl_denies n e \<longleftrightarrow> (case nd_acl n of None \<Rightarrow> False
     | Some pol \<Rightarrow> \<not> is_allowed pol (sender_id (header e)) (intent (header e)))"

text \<open>The replies of \<^verbatim>\<open>auto_ack\<close> cannot be created: their signed dictionary holds a UUID object.\<close>

lemma reply_envelope_fails:
  "reply_envelope P env n orig i txt = Inl (TypeError ''Object of type UUID is not JSON serializable'')"
  by (simp add: reply_envelope_def Let_def sign_payload_uuid model_dump_def dump_ack_info_def)

lemma process_envelope_cases:
  obtains (dropped) n' where "process_envelope P user env ws e n = (n', [])"
      "n' = n \<and> ttl (header e) \<le> 0 \<or>
       n' = n\<lparr>seen_messages := evict_seen env (seen_messages n)\<rparr> \<and>
         map_of (evict_seen env (seen_messages n)) (message_id (header e)) \<noteq> None \<or>
       n' = noted env e n \<and> map_of (evict_seen env (seen_messages n)) (message_id (header e)) = None"
  | (handled) h n' outs exc where "0 < ttl (header e)"
      "map_of (evict_seen env (seen_messages n)) (message_id (header e)) = None"
      "intent (header e) = HANDSHAKE \<or> authentic P e n" "\<not> acl_denies n e"
      "map_of (handlers n) (intent (header e)) = Some h"
      "run_handler P user env h e ws (noted env e n) = (n', outs, exc)"
      "process_envelope P user env ws e n = (n', outs)"
proof -
  have r: "run_and_reply P user env h e ws m = (case run_handler P user env h e ws m of (n', outs, exc) \<Rightarrow> (n', outs))" for h m
    by (auto simp: run_and_reply_def Let_def create_ack_envelope_def create_nack_envelope_def
        reply_envelope_fails send_reply_def split: prod.splits option.splits)
  show thesis
  proof (cases "ttl (header e) \<le> 0 \<or> map_of (evict_seen env (seen_messages n)) (message_id (header e)) \<noteq> None \<or>
      (intent (header e) \<noteq> HANDSHAKE \<and> \<not> authentic P e n) \<or> acl_denies n e \<or>
      map_of (handlers n) (intent (header e)) = None")
    case True
    let ?n' = "if ttl (header e) \<le> 0 then n
      else if map_of (evict_seen env (seen_messages n)) (message_id (header e)) \<noteq> None
      then n\<lparr>seen_messages := evict_seen env (seen_messages n)\<rparr> else noted env e n"
    from True have "process_envelope P user env ws e n = (?n', [])"
      by (auto simp: process_envelope_def Let_def send_reply_def create_nack_envelope_def reply_envelope_fails
          acl_denies_def noted_def split: option.splits)
    then show ?thesis by (rule dropped) simp
  next
    case False
    then obtain h where h: "map_of (handlers n) (intent (header e)) = Some h" by blast
    obtain n' outs exc where x: "run_handler P user env h e ws (noted env e n) = (n', outs, exc)"
      by (cases "run_handler P user env h e ws (noted env e n)")
    have "process_envelope P user env ws e n = run_and_reply P user env h e ws (noted env e n)"
      using False h by (auto simp: process_envelope_def Let_def noted_def acl_denies_def split: option.splits)
    with x have "process_envelope P user env ws e n = (n', outs)" by (simp add: r)
    with False h x show ?thesis by (intro handled) auto
  qed
qed

lemma process_envelope_outcome:
  obtains (ignored) seen where "process_envelope P user env ws e n = (n\<lparr>seen_messages := seen\<rparr>, [])"
  | (handled) h n' outs exc where "0 < ttl (header e)"
      "map_of (evict_seen env (seen_messages n)) (message_id (header e)) = None"
      "intent (header e) = HANDSHAKE \<or> authentic P e n" "\<not> acl_denies n e"
      "map_of (handlers n) (intent (header e)) = Some h"
      "run_handler P user env h e ws (noted env e n) = (n', outs, exc)"
      "process_envelope P user env ws e n = (n', outs)"
proof (cases rule: process_envelope_cases [of P user env ws e n])
  case (dropped n')
  then have "cache_only n n'" unfolding noted_def by auto
  with dropped(1) show ?thesis using that(1) by (auto simp: cache_only_def)
next
  case handled
  then show ?thesis by (rule that(2))
qed

text \<open>A message that fails the signature check is ignored.\<close>

lemma unauthentic_ignored:
  assumes "\<not> authentic P e n" "intent (header e) \<noteq> HANDSHAKE"
  shows "\<exists>seen. process_envelope P user env ws e n = (n\<lparr>seen_messages := seen\<rparr>, [])"
  by (cases rule: process_envelope_outcome [of P user env ws e n]) (use assms in auto)

section \<open>Invariant\<close>

definition node_inv :: "seconds \<Rightarrow> node \<Rightarrow> bool" where
  "node_inv t n \<longleftrightarrow> queue_inv (message_queue n) \<and> lww_inv (shared_memory n) \<and> bank_inv (nd_bank n) \<and>
     dict_wf (peer_registry n) \<and> seen_inv t (seen_messages n) \<and>
     public_key (nd_identity n) = get_public_key_string (nd_manager n)"

lemma node_inv_evict:
  "node_inv t n \<Longrightarrow> map_of (evict_seen env (seen_messages n)) k =
     (case map_of (seen_messages n) k of None \<Rightarrow> None | Some s \<Rightarrow> if monotonic env - 300 < s then Some s else None)"
  unfolding node_inv_def by (elim conjE) (rule seen_get_evict)

text \<open>What the embedding program's handlers have to respect.\<close>

definition handlers_respect :: "user_handlers \<Rightarrow> bool" where
  "handlers_respect user \<longleftrightarrow> (\<forall>k env e ws n. node_inv (monotonic env) n \<longrightarrow>
     node_inv (monotonic env) (fst (user k env e ws n)) \<and>
     seen_messages (fst (user k env e ws n)) = seen_messages n)"

lemma node_inv_new: "node_inv t (new_node i h p u m a acl)"
  by (simp add: node_inv_def new_node_def register_handler_def queue_inv_new lww_inv_new bank_inv_new seen_inv_def)

lemma noted_inv:
  assumes "node_inv t n" "t \<le> monotonic env"
    "map_of (evict_seen env (seen_messages n)) (message_id (header e)) = None"
  shows "node_inv (monotonic env) (noted env e n)"
  using assms seen_inv_add [OF seen_inv_evict, of t _ "monotonic env"]
  by (auto simp: node_inv_def noted_def)

lemma settle_rest:
  "node_inv t (settle mid f n) = node_inv t n" "seen_messages (settle mid f n) = seen_messages n"
  by (auto simp: settle_def node_inv_def split: option.splits)

lemma run_handler_inv:
  assumes "node_inv (monotonic env) n" "handlers_respect user"
  shows "node_inv (monotonic env) (fst (run_handler P user env h e ws n)) \<and>
    seen_messages (fst (run_handler P user env h e ws n)) = seen_messages n"
proof (cases h)
  case HandleHandshake
  with assms(1) show ?thesis
    by (auto simp: run_handler_def handle_handshake_def Let_def node_inv_def split: payload.splits option.splits)
next
  case HandleStateSync
  obtain m ex where "handle_state_sync e n = (m, ex)" by (cases "handle_state_sync e n")
  moreover have "lww_inv (fst (lww_merge rs (shared_memory n)))" for rs
    using assms(1) lww_merge_inv by (simp add: node_inv_def)
  ultimately show ?thesis
    using assms(1) HandleStateSync
    by (auto simp: run_handler_def handle_state_sync_def node_inv_def
        split: payload.splits prod.splits if_splits) (metis fst_conv)
next
  case HandleVectorSync
  with assms(1) show ?thesis
    by (auto simp: run_handler_def handle_vector_sync_def node_inv_def intro: bank_inv_store split: payload.splits)
next
  case HandleAck
  with assms(1) show ?thesis by (auto simp: run_handler_def handle_ack_def settle_rest split: option.splits)
next
  case HandleNack
  with assms(1) show ?thesis by (auto simp: run_handler_def handle_nack_def settle_rest split: option.splits)
next
  case (UserHandler k)
  with assms show ?thesis by (simp add: run_handler_def handlers_respect_def)
qed

lemma process_envelope_seen:
  assumes inv: "node_inv t n" "t \<le> monotonic env" and user: "handlers_respect user"
    and n'_def: "n' = fst (process_envelope P user env ws e n)"
  shows "node_inv (monotonic env) n' \<and>
    (\<forall>k s. map_of (seen_messages n) k = Some s \<and> monotonic env - 300 < s \<longrightarrow> map_of (seen_messages n') k = Some s) \<and>
    (0 < ttl (header e) \<and> map_of (evict_seen env (seen_messages n)) (message_id (header e)) = None \<longrightarrow>
      map_of (seen_messages n') (message_id (header e)) = Some (monotonic env))"
proof -
  have seen: "seen_inv t (seen_messages n)" using inv(1) by (simp add: node_inv_def)
  note ev = seen_get_evict [OF seen, of env]
  have later: "node_inv (monotonic env) n" "node_inv (monotonic env) (n\<lparr>seen_messages := evict_seen env (seen_messages n)\<rparr>)"
    using inv seen_inv_evict [OF seen inv(2), of env] by (auto simp: node_inv_def seen_inv_def)
  have noted: "node_inv (monotonic env) (noted env e n)" "seen_messages (noted env e n) =
      AList.update (message_id (header e)) (monotonic env) (evict_seen env (seen_messages n))"
    if "map_of (evict_seen env (seen_messages n)) (message_id (header e)) = None"
    using noted_inv [OF inv that] by (simp_all add: noted_def)
  show ?thesis
  proof (cases rule: process_envelope_cases [of P user env ws e n])
    case (dropped m)
    then have n': "n' = m" by (simp add: n'_def)
    from dropped(2) show ?thesis
      unfolding n' using later noted ev by (auto simp: dict_simps split: option.splits if_splits)
  next
    case (handled h m outs exc)
    have n': "n' = m" using handled(7) by (simp add: n'_def)
    from run_handler_inv [OF noted(1) [OF handled(2)] user, of P h e ws] handled(6)
    have m: "node_inv (monotonic env) m" "seen_messages m = seen_messages (noted env e n)" by simp_all
    show ?thesis
      unfolding n' m(2) noted(2) [OF handled(2)] using m(1) handled(2) ev
      by (auto simp: dict_simps split: option.splits if_splits)
  qed
qed

text \<open>A sequence of deliveries.\<close>

fun deliver_all ::
  "platform \<Rightarrow> user_handlers \<Rightarrow> (nenv \<times> conn \<times> envelope) list \<Rightarrow> node \<Rightarrow> node \<times> node_out list" where
  "deliver_all P user [] n = (n, [])"
| "deliver_all P user ((env, ws, e) # es) n =
     (let (n1, outs) = process_envelope P user env ws e n; (n2, rest) = deliver_all P user es n1
      in (n2, outs @ rest))"

lemma deliver_all_keeps:
  assumes "node_inv t n" "sorted (t # map (\<lambda>x. monotonic (fst x)) es)" "handlers_respect user"
    and "map_of (seen_messages n) k = Some s" "\<forall>x \<in> set es. monotonic (fst x) - 300 < s"
  shows "map_of (seen_messages (fst (deliver_all P user es n))) k = Some s \<and>
    node_inv (last (t # map (\<lambda>x. monotonic (fst x)) es)) (fst (deliver_all P user es n))"
  using assms
proof (induction es arbitrary: t n)
  case Nil
  then show ?case by simp
next
  case (Cons x es)
  obtain env ws e where x: "x = (env, ws, e)" by (cases x)
  let ?n = "fst (process_envelope P user env ws e n)"
  have "t \<le> monotonic env" using Cons.prems(2) by (simp add: x)
  note st = process_envelope_seen [OF Cons.prems(1) this Cons.prems(3) refl, of P ws e]
  have "map_of (seen_messages ?n) k = Some s" using st Cons.prems(4,5) by (simp add: x)
  with Cons.IH [of "monotonic env" ?n] st Cons.prems show ?case
    by (simp add: x Let_def case_prod_beta)
qed


lemma handled_when:
  assumes "0 < ttl (header e)" "map_of (evict_seen env (seen_messages n)) (message_id (header e)) = None"
    and "intent (header e) = HANDSHAKE \<or> authentic P e n" "\<not> acl_denies n e"
    and "map_of (handlers n) (intent (header e)) = Some h"
  shows "process_envelope P user env ws e n =
    (case run_handler P user env h e ws (noted env e n) of (n', outs, exc) \<Rightarrow> (n', outs))"
proof -
  have "run_and_reply P user env h e ws m = (case run_handler P user env h e ws m of (n', outs, exc) \<Rightarrow> (n', outs))" for m
    by (auto simp: run_and_reply_def Let_def create_ack_envelope_def create_nack_envelope_def
        reply_envelope_fails send_reply_def split: prod.splits option.splits)
  moreover have "process_envelope P user env ws e n = run_and_reply P user env h e ws (noted env e n)"
    using assms by (auto simp: process_envelope_def Let_def noted_def acl_denies_def split: option.splits)
  ultimately show ?thesis by simp
qed

section \<open>A small network for the witnesses\<close>

definition demo_platform :: platform where
  "demo_platform = \<lparr>ed_prims = plain_ed, dec_envelope = (\<lambda>_. None),
     dec_identity = (\<lambda>v. case v of PStr k \<Rightarrow> Some (mk_identity 1 ''demo'' k) | _ \<Rightarrow> None),
     identity_json = (\<lambda>i. enc sign_opts (PStr (public_key i)))\<rparr>"

lemma demo_platform_simps [simp]:
  "ed_prims demo_platform = plain_ed" "dec_identity demo_platform (PStr k) = Some (mk_identity 1 ''demo'' k)"
  "identity_json demo_platform i = enc sign_opts (PStr (public_key i))"
  by (simp_all add: demo_platform_def)

lemma mk_identity_simps [simp]: "agent_id (mk_identity u f k) = u" "public_key (mk_identity u f k) = k"
  by (simp_all add: mk_identity_def)

definition no_user :: user_handlers where
  "no_user k env e ws n = (n, [], None)"

lemma no_user_respects: "handlers_respect no_user"
  by (simp add: handlers_respect_def no_user_def)

definition at_time :: "seconds \<Rightarrow> nenv" where
  "at_time t = \<lparr>monotonic = t, wall_clock = 0, fresh_id = (\<lambda>k. of_nat k + 100), connect_to = (\<lambda>_. None),
     conn_open = (\<lambda>_. True), send_ok = (\<lambda>_ _. True), doc_send_ok = (\<lambda>_. True), peer_host = (\<lambda>_. None)\<rparr>"

lemma at_time_simps [simp]:
  "monotonic (at_time t) = t" "doc_send_ok (at_time t) ws" "peer_host (at_time t) ws = None"
  "fresh_id (at_time t) k = of_nat k + 100" "connect_to (at_time t) a = None"
  by (simp_all add: at_time_def)

definition demo_peer :: agent_identity where
  "demo_peer = mk_identity 1 ''demo'' (get_public_key_string sample_manager)"

definition demo_node :: node where
  "demo_node = register_peer demo_peer ''ws://h''
     (new_node (mk_identity 2 ''demo'' []) ''h'' 1 None sample_manager True None)"

definition demo_envelope :: "uuid \<Rightarrow> intent \<Rightarrow> payload \<Rightarrow> string option \<Rightarrow> envelope" where
  "demo_envelope mid i pl sig = mk_envelope \<lparr>message_id = mid, msg_timestamp = 0, sender_id = 1, receiver_id = 2,
     intent = i, ttl = 30, protocol_version = PROTOCOL_VERSION\<rparr> pl sig"

lemma demo_envelope_simps [simp]:
  "header (demo_envelope mid i pl sig) = \<lparr>message_id = mid, msg_timestamp = 0, sender_id = 1, receiver_id = 2,
     intent = i, ttl = 30, protocol_version = PROTOCOL_VERSION\<rparr>"
  "payload (demo_envelope mid i pl sig) = pl" "signature (demo_envelope mid i pl sig) = sig"
  by (simp_all add: demo_envelope_def mk_envelope_def)

lemma demo_node_simps [simp]:
  "map_of (peer_registry demo_node) 1 = Some (demo_peer, ''ws://h'')" "nd_acl demo_node = None"
  "seen_messages demo_node = []" "map_of (handlers demo_node) STATE_SYNC = Some HandleStateSync"
  "map_of (handlers demo_node) HANDSHAKE = Some HandleHandshake"
  "map_of (handlers demo_node) STATE_SYNC_VECTOR = Some HandleVectorSync"
  by (simp_all add: demo_node_def register_peer_def new_node_def register_handler_def demo_peer_def mk_identity_def dict_simps)

lemma demo_node_inv: "0 \<le> t \<Longrightarrow> node_inv t demo_node"
  using node_inv_new [of t "mk_identity 2 ''demo'' []" "''h''" 1 None sample_manager True None]
  by (auto simp: demo_node_def register_peer_def node_inv_def)

section \<open>Properties\<close>

text \<open>C1: The security middleware: a message other than a handshake whose sender is not a registered peer,
  or that is unsigned, or whose signature does not verify under the registered key of its sender, has
  no effect on the node except on its replay cache, and makes it send nothing.\<close>

theorem unauthenticated_dropped:
  assumes "intent (header e) \<noteq> HANDSHAKE" "\<not> authentic P e n"
  shows "\<exists>seen. process_envelope P user env ws e n = (n\<lparr>seen_messages := seen\<rparr>, [])"
  using assms by (rule unauthentic_ignored [rotated])

theorem unauthenticated_dropped_witness:
  "\<exists>seen. process_envelope demo_platform no_user (at_time 0) 3 (demo_envelope 5 STATE_SYNC (TextP (text_of ''x'')) None)
     demo_node = (demo_node\<lparr>seen_messages := seen\<rparr>, [])"
  by (rule unauthenticated_dropped) (simp_all add: authentic_def)

text \<open>C6: Integrity end to end: a message that carries a signature which a peer made for one payload, with any
  payload that differs from it in content, has no effect on a node that has that peer registered.\<close>

theorem tampered_payload_dropped:
  assumes "ed_binding (ed_prims P)" "manager_wf (ed_prims P) m"
    and "map_of (peer_registry n) (sender_id (header e)) = Some (peer, addr)"
    and "public_key peer = get_public_key_string m" "wf_payload p" "wf_payload (payload e)"
    and "sign_payload (ed_prims P) m (model_dump p) = Inr sig" "signature e = Some sig"
    and "canon (PDict (model_dump p)) \<noteq> canon (PDict (model_dump (payload e)))" "intent (header e) \<noteq> HANDSHAKE"
  shows "\<exists>seen. process_envelope P user env ws e n = (n\<lparr>seen_messages := seen\<rparr>, [])"
proof -
  have "\<not> verify_signature (ed_prims P) (get_public_key_string m) sig (model_dump (payload e))"
    using signed_canon [OF assms(1,2,5,6,7)] assms(9) by blast
  then have na: "\<not> authentic P e n" using assms(3,4,8) by (simp add: authentic_def)
  show ?thesis
  proof (cases rule: process_envelope_outcome [of P user env ws e n])
    case ignored
    then show ?thesis by blast
  next
    case handled
    with na assms(10) show ?thesis by simp
  qed
qed

theorem tampered_payload_dropped_witness:
  "\<exists>sig seen. sign_payload plain_ed sample_manager (model_dump (TextP (text_of ''pay 1''))) = Inr sig \<and>
     process_envelope demo_platform no_user (at_time 0) 3
       (demo_envelope 5 TASK_REQUEST (TextP (text_of ''pay 9'')) (Some sig)) demo_node =
     (demo_node\<lparr>seen_messages := seen\<rparr>, [])"
proof -
  obtain sig where s: "sign_payload plain_ed sample_manager (model_dump (TextP (text_of ''pay 1''))) = Inr sig"
    using sign_payload_jsonable [OF jsonable_model_dump [of "TextP (text_of ''pay 1'')"]] by auto
  have "canon (PDict (model_dump (TextP (text_of ''pay 1'')))) \<noteq> canon (PDict (model_dump (TextP (text_of ''pay 9''))))"
    using canon_model_dump_text [of "text_of ''pay 1''" "TextP (text_of ''pay 9'')"] by (auto simp: text_of_def)
  with s tampered_payload_dropped [of demo_platform sample_manager demo_node
      "demo_envelope 5 TASK_REQUEST (TextP (text_of ''pay 9'')) (Some sig)" demo_peer "''ws://h''" "TextP (text_of ''pay 1'')" sig]
  show ?thesis
    using plain_ed_laws sample_manager_wf by (auto simp: demo_peer_def)
qed

text \<open>C7: Replay protection: once a message with a positive TTL and a new id has been received, then,
  whatever is delivered in between, a message with the same id has no effect for the next 300 seconds,
  except on the replay cache (deliveries in time order; the embedding program's handlers leave the
  cache alone).\<close>

theorem replay_dropped:
  assumes "node_inv t n" "handlers_respect user"
    and "sorted (t # map (\<lambda>x. monotonic (fst x)) ((env1, ws1, e1) # es @ [(env2, ws2, e2)]))"
    and "0 < ttl (header e1)" "map_of (evict_seen env1 (seen_messages n)) (message_id (header e1)) = None"
    and "message_id (header e2) = message_id (header e1)" "monotonic env2 - monotonic env1 < 300"
    and "n1 = fst (deliver_all P user es (fst (process_envelope P user env1 ws1 e1 n)))"
  shows "\<exists>seen. process_envelope P user env2 ws2 e2 n1 = (n1\<lparr>seen_messages := seen\<rparr>, [])"
proof -
  let ?m = "fst (process_envelope P user env1 ws1 e1 n)" and ?t1 = "monotonic env1"
  have t1: "t \<le> ?t1" using assms(3) by simp
  note st = process_envelope_seen [OF assms(1) t1 assms(2) refl, of P ws1 e1]
  have near: "\<forall>x \<in> set es. monotonic (fst x) - 300 < ?t1" "?t1 \<le> monotonic env2"
    using assms(3,7) by (fastforce simp: sorted_append)+
  have "sorted (?t1 # map (\<lambda>x. monotonic (fst x)) es)" using assms(3) by (simp add: sorted_append)
  from deliver_all_keeps [OF conjunct1 [OF st] this assms(2), of "message_id (header e1)" ?t1 P] st near assms(4,5)
  have k: "map_of (seen_messages n1) (message_id (header e2)) = Some ?t1"
    "node_inv (last (?t1 # map (\<lambda>x. monotonic (fst x)) es)) n1"
    unfolding assms(6,8) by blast+
  then have "map_of (evict_seen env2 (seen_messages n1)) (message_id (header e2)) = Some ?t1"
    using assms(7) by (simp add: node_inv_evict [OF k(2)])
  then show ?thesis
  proof (cases rule: process_envelope_outcome [of P user env2 ws2 e2 n1])
    case ignored
    then show ?thesis by blast
  qed simp
qed

theorem replay_dropped_witness:
  "\<exists>n1 seen. process_envelope demo_platform no_user (at_time 299) 3 (demo_envelope 5 TERMINATE (TextP (text_of ''x'')) None) n1
     = (n1\<lparr>seen_messages := seen\<rparr>, []) \<and> map_of (seen_messages n1) 5 = Some 0"
proof -
  let ?n1 = "fst (deliver_all demo_platform no_user [] (fst (process_envelope demo_platform no_user (at_time 0) 3
     (demo_envelope 5 STATE_SYNC (TextP (text_of ''x'')) None) demo_node)))"
  have "map_of (seen_messages ?n1) 5 = Some 0"
    by (simp add: process_envelope_def Let_def evict_seen_def authentic_def)
  with replay_dropped [OF demo_node_inv no_user_respects, of 0 "at_time 0" 3 "demo_envelope 5 STATE_SYNC (TextP (text_of ''x'')) None"
      "[]" "at_time 299" 3 "demo_envelope 5 TERMINATE (TextP (text_of ''x'')) None" ?n1 demo_platform]
  show ?thesis by (auto simp: evict_seen_def)
qed

text \<open>The replay cache is written before the signature is checked: an unsigned packet from anyone, with
  an id that a genuine message will have, makes the node drop the genuine message when it arrives within
  300 seconds.\<close>

theorem forged_id_suppresses_message:
  assumes "node_inv t n" "handlers_respect user" "t \<le> monotonic env1" "monotonic env1 \<le> monotonic env2"
    and "monotonic env2 - monotonic env1 < 300" "0 < ttl (header forged)" "signature forged = None"
    and "intent (header forged) \<noteq> HANDSHAKE" "message_id (header forged) = message_id (header genuine)"
    and "map_of (seen_messages n) (message_id (header genuine)) = None"
  shows "snd (process_envelope P user env1 ws1 forged n) = [] \<and>
    (\<exists>n1 seen. n1 = fst (process_envelope P user env1 ws1 forged n) \<and>
      process_envelope P user env2 ws2 genuine n1 = (n1\<lparr>seen_messages := seen\<rparr>, []))"
proof -
  let ?n1 = "fst (process_envelope P user env1 ws1 forged n)"
  have na: "\<not> authentic P forged n" using assms(7) by (simp add: authentic_def split: option.splits)
  have s1: "snd (process_envelope P user env1 ws1 forged n) = []"
    using na assms(8) by (cases rule: process_envelope_cases [of P user env1 ws1 forged n]) auto
  note st = process_envelope_seen [OF assms(1,3,2) refl, of P ws1 forged]
  have "map_of (evict_seen env1 (seen_messages n)) (message_id (header forged)) = None"
    using assms(9,10) by (simp add: node_inv_evict [OF assms(1)])
  with st assms(6,9) have k: "map_of (seen_messages ?n1) (message_id (header genuine)) = Some (monotonic env1)"
    "node_inv (monotonic env1) ?n1" by simp_all
  then have "map_of (evict_seen env2 (seen_messages ?n1)) (message_id (header genuine)) \<noteq> None"
    using assms(5) by (simp add: node_inv_evict [OF k(2)])
  then have "\<exists>seen. process_envelope P user env2 ws2 genuine ?n1 = (?n1\<lparr>seen_messages := seen\<rparr>, [])"
  proof (cases rule: process_envelope_outcome [of P user env2 ws2 genuine ?n1])
    case ignored
    then show ?thesis by blast
  qed simp
  with s1 show ?thesis by blast
qed

theorem forged_id_suppresses_message_witness:
  "\<exists>n1 seen. n1 = fst (process_envelope demo_platform no_user (at_time 0) 3 (demo_envelope 5 ACK (TextP (text_of [])) None) demo_node) \<and>
     process_envelope demo_platform no_user (at_time 10) 3
       (demo_envelope 5 STATE_SYNC (CrdtP \<lparr>crdt_type = ''LWW-Map'', crdt_state = [], vector_clock = []\<rparr>) (Some ''sig'')) n1 =
     (n1\<lparr>seen_messages := seen\<rparr>, [])"
  using forged_id_suppresses_message [OF demo_node_inv no_user_respects, of 0 "at_time 0" "at_time 10"
      "demo_envelope 5 ACK (TextP (text_of [])) None"
      "demo_envelope 5 STATE_SYNC (CrdtP \<lparr>crdt_type = ''LWW-Map'', crdt_state = [], vector_clock = []\<rparr>) (Some ''sig'')"
      demo_platform 3 3]
  by simp


text \<open>The access policy: a message that the policy denies never reaches a handler, even when it is signed by
  a registered peer: it has no effect except on the replay cache.\<close>

theorem acl_denied_dropped:
  assumes "nd_acl n = Some pol" "\<not> is_allowed pol (sender_id (header e)) (intent (header e))"
  shows "\<exists>seen. process_envelope P user env ws e n = (n\<lparr>seen_messages := seen\<rparr>, [])"
proof (cases rule: process_envelope_outcome [of P user env ws e n])
  case ignored
  then show ?thesis by blast
next
  case handled
  with assms show ?thesis by (simp add: acl_denies_def)
qed

theorem acl_denied_dropped_witness:
  "\<exists>seen. process_envelope demo_platform no_user (at_time 0) 3 (demo_envelope 5 TERMINATE (TextP (text_of ''x'')) (Some ''s''))
     (demo_node\<lparr>nd_acl := Some (deny 1 TERMINATE (new_policy True))\<rparr>) =
   ((demo_node\<lparr>nd_acl := Some (deny 1 TERMINATE (new_policy True))\<rparr>)\<lparr>seen_messages := seen\<rparr>, [])"
  by (rule acl_denied_dropped [where pol = "deny 1 TERMINATE (new_policy True)"])
    (simp_all add: is_allowed_def deny_def new_policy_def)

text \<open>C19: Every delivery keeps the node's invariant: the bounded queue, the shared map with its Lamport clock and
  its table, the vector bank, the peer registry, the replay cache in time order, and the node's own
  public key.\<close>

theorem deliveries_keep_invariant:
  assumes "node_inv t n" "sorted (t # map (\<lambda>x. monotonic (fst x)) es)" "handlers_respect user"
  shows "node_inv (last (t # map (\<lambda>x. monotonic (fst x)) es)) (fst (deliver_all P user es n))"
  using assms
proof (induction es arbitrary: t n)
  case (Cons x es)
  obtain env ws e where x: "x = (env, ws, e)" by (cases x)
  have "t \<le> monotonic env" using Cons.prems(2) by (simp add: x)
  from process_envelope_seen [OF Cons.prems(1) this Cons.prems(3) refl, of P ws e]
    Cons.IH [of "monotonic env" "fst (process_envelope P user env ws e n)"] Cons.prems
  show ?case by (simp add: x Let_def case_prod_beta)
qed simp

theorem deliveries_keep_invariant_witness:
  "node_inv 4 (fst (deliver_all demo_platform no_user
     [(at_time 1, 3, demo_envelope 5 ACK (TextP (text_of [])) None), (at_time 4, 3, demo_envelope 6 ACK (TextP (text_of [])) None)]
     demo_node))"
  using deliveries_keep_invariant [OF demo_node_inv [of 0], of
      "[(at_time 1, 3, demo_envelope 5 ACK (TextP (text_of [])) None), (at_time 4, 3, demo_envelope 6 ACK (TextP (text_of [])) None)]"
      no_user demo_platform] no_user_respects
  by simp

text \<open>C35: Acknowledgements are never sent: the dictionary that is signed for an ACK or a NACK holds a UUID object,
  so creating either raises a \<^verbatim>\<open>TypeError\<close>; a node with \<^verbatim>\<open>auto_ack\<close> whose handlers are the built-in ones
  sends nothing in reply to any message, and a sender's \<^verbatim>\<open>require_ack\<close> can only time out.\<close>

theorem acks_are_never_sent:
  assumes "\<forall>i h. map_of (handlers n) i = Some h \<longrightarrow> (\<forall>k. h \<noteq> UserHandler k)"
  shows "create_ack_envelope P env n e = Inl (TypeError ''Object of type UUID is not JSON serializable'') \<and>
    create_nack_envelope P env n e reason = Inl (TypeError ''Object of type UUID is not JSON serializable'') \<and>
    snd (process_envelope P user env ws e n) = []"
proof -
  have "snd (process_envelope P user env ws e n) = []"
  proof (cases rule: process_envelope_cases [of P user env ws e n])
    case (handled h m outs exc)
    with assms have "\<forall>k. h \<noteq> UserHandler k" by blast
    then have "outs = []" using handled(6) by (cases h) (auto simp: run_handler_def split: prod.splits)
    with handled(7) show ?thesis by simp
  qed simp
  then show ?thesis by (simp add: create_ack_envelope_def create_nack_envelope_def reply_envelope_fails)
qed

theorem acks_are_never_sent_witness:
  "auto_ack demo_node \<and> snd (process_envelope demo_platform no_user (at_time 0) 3
     (demo_envelope 5 STATE_SYNC (TextP (text_of ''x'')) (Some ''s'')) demo_node) = []"
proof -
  have "\<forall>i h. map_of (handlers demo_node) i = Some h \<longrightarrow> (\<forall>k. h \<noteq> UserHandler k)"
    by (auto simp: demo_node_def register_peer_def new_node_def register_handler_def split: if_splits)
  from acks_are_never_sent [OF this] show ?thesis
    by (simp add: demo_node_def register_peer_def new_node_def register_handler_def)
qed

text \<open>The header is not signed: an authentic message stays authentic under any header with the same sender, so
  a captured message, sent again under a fresh id and with any other intent that the node handles, is
  passed to that intent's handler.\<close>

theorem header_is_not_authenticated:
  assumes "authentic P e n" "sender_id h = sender_id (header e)" "0 < ttl h"
    and "map_of (evict_seen env (seen_messages n)) (message_id h) = None"
    and "\<not> acl_denies n (e\<lparr>header := h\<rparr>)" "map_of (handlers n) (intent h) = Some hh"
  shows "authentic P (e\<lparr>header := h\<rparr>) n \<and>
    process_envelope P user env ws (e\<lparr>header := h\<rparr>) n =
      (case run_handler P user env hh (e\<lparr>header := h\<rparr>) ws (noted env (e\<lparr>header := h\<rparr>) n) of (n', outs, exc) \<Rightarrow> (n', outs))"
proof -
  have a: "authentic P (e\<lparr>header := h\<rparr>) n" using assms(1,2) by (auto simp: authentic_def split: option.splits)
  with handled_when [of "e\<lparr>header := h\<rparr>" env n P hh user ws] assms show ?thesis by simp
qed

lemma demo_signed:
  "\<exists>sig. sign_payload plain_ed sample_manager (model_dump pl) = Inr sig \<and> (wf_payload pl \<longrightarrow>
     authentic demo_platform (demo_envelope mid i pl (Some sig)) demo_node)" if "wf_payload pl"
proof -
  from signed_verifies [OF plain_ed_laws(1) sample_manager_wf that] obtain sig where
    s: "sign_payload plain_ed sample_manager (model_dump pl) = Inr sig"
      "verify_signature plain_ed (get_public_key_string sample_manager) sig (model_dump pl)" by blast
  have "sig \<noteq> []"
    using s(1) sign_payload_jsonable [OF jsonable_model_dump [OF that], of plain_ed sample_manager]
    by (auto simp: plain_ed_def sample_manager_def)
  with s show ?thesis by (auto simp: authentic_def demo_platform_def demo_peer_def mk_identity_def)
qed

theorem header_is_not_authenticated_witness:
  "\<exists>sig. sign_payload plain_ed sample_manager (model_dump (TextP (text_of ''x''))) = Inr sig \<and>
     authentic demo_platform (demo_envelope 5 TASK_REQUEST (TextP (text_of ''x'')) (Some sig)) demo_node \<and>
     authentic demo_platform (demo_envelope 6 STATE_SYNC (TextP (text_of ''x'')) (Some sig)) demo_node"
proof -
  let ?e = "\<lambda>m i s. demo_envelope m i (TextP (text_of ''x'')) (Some s)"
  from demo_signed [of "TextP (text_of ''x'')" 5 TASK_REQUEST] obtain sig where
    s: "sign_payload plain_ed sample_manager (model_dump (TextP (text_of ''x''))) = Inr sig"
      "authentic demo_platform (?e 5 TASK_REQUEST sig) demo_node" by auto
  have eq: "(?e 5 TASK_REQUEST sig)\<lparr>header := header (?e 6 STATE_SYNC sig)\<rparr> = ?e 6 STATE_SYNC sig"
    by (simp add: demo_envelope_def mk_envelope_def)
  have "authentic demo_platform ((?e 5 TASK_REQUEST sig)\<lparr>header := header (?e 6 STATE_SYNC sig)\<rparr>) demo_node"
    using header_is_not_authenticated [OF s(2), of "header (?e 6 STATE_SYNC sig)" "at_time 0" HandleStateSync no_user 3]
    by (simp add: acl_denies_def evict_seen_def)
  with s show ?thesis by (simp only: eq) blast
qed

text \<open>A handshake replaces a registered peer: its sender's identity is taken from the payload and checked only
  against the key in the same payload, so whoever signs an identity document with the id of a registered
  peer and a key of his own takes over that id, whatever key was registered for it and whatever sender the
  header names.\<close>

theorem handshake_replaces_peer:
  assumes "ed_correct (ed_prims P)" "manager_wf (ed_prims P) attacker"
    and "json_loads txt = Some v" "dec_identity P v = Some claimed"
    and "public_key claimed = get_public_key_string attacker"
    and "payload e = TextP t" "content t = txt" "sign_payload (ed_prims P) attacker (model_dump (payload e)) = Inr sig"
    and "signature e = Some sig" "sig \<noteq> []"
  shows "\<exists>addr. handle_handshake P env e ws n =
    n\<lparr>peer_registry := AList.update (agent_id claimed) (claimed, addr) (peer_registry n)\<rparr>"
proof -
  have "verify_signature (ed_prims P) (public_key claimed) sig (model_dump (payload e))"
    using signed_verifies [OF assms(1,2), of "payload e"] assms(5,6,8) by auto
  with assms show ?thesis
    by (intro exI [of _ "''ws://'' @ (case peer_host env ws of None \<Rightarrow> ''unknown'' | Some h \<Rightarrow> h)"])
      (simp add: handle_handshake_def Let_def)
qed

theorem handshake_replaces_peer_witness:
  "\<exists>sig addr. map_of (peer_registry (handle_handshake demo_platform (at_time 0)
     (demo_envelope 5 HANDSHAKE (TextP (text_of (enc sign_opts (PStr (get_public_key_string sample_manager))))) (Some sig)) 3
     (demo_node\<lparr>peer_registry := [(1, demo_peer\<lparr>public_key := ''old key''\<rparr>, ''ws://old'')]\<rparr>))) 1 =
   Some (mk_identity 1 ''demo'' (get_public_key_string sample_manager), addr)"
proof -
  let ?key = "get_public_key_string sample_manager"
  let ?pl = "TextP (text_of (enc sign_opts (PStr ?key)))"
  let ?n = "demo_node\<lparr>peer_registry := [(1, demo_peer\<lparr>public_key := ''old key''\<rparr>, ''ws://old'')]\<rparr>"
  from demo_signed [of ?pl 5 HANDSHAKE] obtain sig where
    s: "sign_payload plain_ed sample_manager (model_dump ?pl) = Inr sig"
      "authentic demo_platform (demo_envelope 5 HANDSHAKE ?pl (Some sig)) demo_node" by auto
  have "sig \<noteq> []" using s(2) by (simp add: authentic_def)
  moreover have "json_loads (enc sign_opts (PStr ?key)) = Some (PStr ?key)"
    using loads_enc [OF std_sign_opts, of "PStr ?key"] by simp
  ultimately obtain addr where "handle_handshake demo_platform (at_time 0) (demo_envelope 5 HANDSHAKE ?pl (Some sig)) 3 ?n =
      ?n\<lparr>peer_registry := AList.update (agent_id (mk_identity 1 ''demo'' ?key)) (mk_identity 1 ''demo'' ?key, addr) (peer_registry ?n)\<rparr>"
    using handshake_replaces_peer [of demo_platform sample_manager "enc sign_opts (PStr ?key)" "PStr ?key"
        "mk_identity 1 ''demo'' ?key" "demo_envelope 5 HANDSHAKE ?pl (Some sig)" "text_of (enc sign_opts (PStr ?key))" sig
        "at_time 0" 3 ?n]
      plain_ed_laws(1) sample_manager_wf s(1) demo_platform_simps mk_identity_simps demo_envelope_simps
      text_payload.select_convs(1) text_of_def
    by metis
  then show ?thesis by (intro exI [of _ sig] exI [of _ addr]) simp
qed

text \<open>C37: The relay can make a node sign a payload: a node signs the nonce of a challenge as it is, so a relay that
  sends the canonical text of a payload as the nonce receives a signature with which every peer that has
  the node registered accepts that payload as the node's.\<close>

theorem challenge_is_a_signing_oracle:
  assumes "ed_correct (ed_prims P)" "manager_wf (ed_prims P) (nd_manager n)" "wf_payload p"
    and "json_loads raw = Some (PDict d)" "map_of d ''type'' = Some (PStr ''ADNS_CHALLENGE'')"
    and "map_of d ''nonce'' = Some (PStr (enc sign_opts (PDict (model_dump p))))" "doc_send_ok env ws"
  shows "\<exists>hdr sig. process_adns_message P user env ws raw n =
      (n, [SentDocument ws (PDict [(''header'', PDict hdr), (''payload'', PDict [(''content'', PStr sig)])])]) \<and>
    verify_signature (ed_prims P) (get_public_key_string (nd_manager n)) sig (model_dump p)"
proof -
  let ?sig = "sign_bytes (ed_prims P) (nd_manager n) (utf8 (enc sign_opts (PDict (model_dump p))))"
  have "verify_signature (ed_prims P) (get_public_key_string (nd_manager n)) ?sig (model_dump p)"
    using signed_verifies [OF assms(1-3)]
    by (simp add: sign_payload_jsonable [OF jsonable_model_dump [OF assms(3)]] sign_bytes_def)
  with assms(4-7) show ?thesis by (simp add: process_adns_message_def Let_def challenge_response_doc_def)
qed

theorem challenge_is_a_signing_oracle_witness:
  "\<exists>outs sig. process_adns_message demo_platform no_user (at_time 0) 3
      (enc sign_opts (PDict [(''nonce'', PStr (enc sign_opts (PDict (model_dump (TextP (text_of ''pay''))))))
        , (''type'', PStr ''ADNS_CHALLENGE'')])) demo_node = (demo_node, outs) \<and>
    verify_signature plain_ed (get_public_key_string sample_manager) sig (model_dump (TextP (text_of ''pay'')))"
proof -
  let ?d = "[(''nonce'', PStr (enc sign_opts (PDict (model_dump (TextP (text_of ''pay''))))))
        , (''type'', PStr ''ADNS_CHALLENGE'')]"
  have lt: "''nonce'' < ''type''" by code_simp
  have "json_loads (enc sign_opts (PDict ?d)) = Some (canon (PDict ?d))"
    by (rule loads_enc [OF std_sign_opts]) (simp add: dict_wf_def)
  also have "canon (PDict ?d) = PDict ?d" using lt by simp
  finally have l: "json_loads (enc sign_opts (PDict ?d)) = Some (PDict ?d)" .
  have m: "nd_manager demo_node = sample_manager"
    by (simp add: demo_node_def register_peer_def new_node_def register_handler_def)
  have "ed_correct (ed_prims demo_platform)" "manager_wf (ed_prims demo_platform) (nd_manager demo_node)"
    "wf_payload (TextP (text_of ''pay''))" "map_of ?d ''type'' = Some (PStr ''ADNS_CHALLENGE'')"
    "map_of ?d ''nonce'' = Some (PStr (enc sign_opts (PDict (model_dump (TextP (text_of ''pay''))))))"
    using plain_ed_laws(1) sample_manager_wf by (simp_all add: m)
  note orc = challenge_is_a_signing_oracle [OF this(1-3) l this(4,5) at_time_simps(2), where user = no_user]
  from orc obtain hdr sig where "process_adns_message demo_platform no_user (at_time 0) 3 (enc sign_opts (PDict ?d)) demo_node =
      (demo_node, [SentDocument 3 (PDict [(''header'', PDict hdr), (''payload'', PDict [(''content'', PStr sig)])])])"
    "verify_signature plain_ed (get_public_key_string sample_manager) sig (model_dump (TextP (text_of ''pay'')))"
    unfolding m demo_platform_simps by blast
  then show ?thesis by blast
qed

end
