(* ===== verification/NodeOutbound.thy ===== *)
theory NodeOutbound
  imports NodeSend NodeInbound
begin

text \<open>
  The outbound path of theories \<open>Node\<close> and \<open>NodeSend\<close>: a message is sent or queued, the queue is
  drained in order and without loss, the backoff, broadcast and multicast; that chunked transfers
  never leave the node; and a state synchronisation between two nodes, from discovery to the merge.
\<close>

section \<open>Dispatch\<close>

lemma push_dlq_queue:
  "queue_inv (message_queue n) \<Longrightarrow> queue_inv (message_queue (push_dlq t e n)) \<and>
   deque_of (message_queue (push_dlq t e n)) =
     (deque_of (message_queue n))(t := take_last (nat (max_size (message_queue n))) (deque_of (message_queue n) t @ [e]))"
  using dlq.enq_inv [of "message_queue n" t e] dlq.enq_content [of "message_queue n" t e]
  by (simp add: push_dlq_def)

lemma get_peer_connection_queue [simp]:
  "message_queue (fst (get_peer_connection env t n)) = message_queue n"
  by (auto simp: get_peer_connection_def Let_def split: option.splits)

lemma dispatch_cases:
  obtains ws n' where "dispatch_envelope env t e n = (n', [SentEnvelope ws e])" "send_ok env ws e"
      "message_queue n' = message_queue n"
  | n' m outs where "dispatch_envelope env t e n = (n', outs)" "n' = push_dlq t e m" "message_queue m = message_queue n"
      "outs = (if map_of (peer_registry n) t = None then [] else [Scheduled t])"
proof (cases "map_of (peer_registry n) t")
  case None
  then show thesis by (intro that(2)) (simp_all add: dispatch_envelope_def)
next
  case (Some p)
  obtain m c where g: "get_peer_connection env t n = (m, c)" by (cases "get_peer_connection env t n")
  have q: "message_queue m = message_queue n" using get_peer_connection_queue [of env t n] g by simp
  show thesis
  proof (cases c)
    case None
    with g Some q show thesis by (intro that(2) [OF _ refl, of m]) (simp_all add: dispatch_envelope_def)
  next
    case c: (Some ws)
    show thesis
    proof (cases "send_ok env ws e")
      case True
      with g c Some q show thesis by (intro that(1) [of m ws]) (simp_all add: dispatch_envelope_def)
    next
      case False
      let ?m = "m\<lparr>peer_connections := AList.delete t (peer_connections m)\<rparr>"
      from False g c Some q show thesis
        by (intro that(2) [OF _ refl, of ?m]) (simp_all add: dispatch_envelope_def)
    qed
  qed
qed

section \<open>Draining\<close>

lemma drain_loop_step:
  "drain_loop ok t q =
     (if has_messages t q then
        (case dequeue_one t q of
           (q1, None) \<Rightarrow> (q1, [], True)
         | (q1, Some m) \<Rightarrow>
             if ok m then (case drain_loop ok t q1 of (q2, sent, done) \<Rightarrow> (q2, m # sent, done))
             else (fst (enqueue_front t m q1), [], False))
      else (q, [], True))"
  by (rule drain_loop.simps)

text \<open>What is sent and what stays, in this order, is what was pending.\<close>

lemma drain_loop_content:
  assumes "queue_inv q"
  shows "case drain_loop ok t q of (q', sent, done) \<Rightarrow>
    queue_inv q' \<and> sent @ deque_of q' t = deque_of q t \<and> (\<forall>u. u \<noteq> t \<longrightarrow> deque_of q' u = deque_of q u) \<and>
    (\<forall>m \<in> set sent. ok m) \<and> (done \<longleftrightarrow> deque_of q' t = []) \<and> ((\<forall>m. ok m) \<longrightarrow> done)"
  using assms
proof (induction ok t q rule: drain_loop.induct)
  case (1 ok t q)
  note has = dlq.has_content [OF "1.prems", of t]
  show ?case
  proof (cases "deque_of q t")
    case Nil
    with has "1.prems" show ?thesis by (simp add: drain_loop_step [of ok t q])
  next
    case (Cons m ms)
    obtain q1 where d: "dequeue_one t q = (q1, Some m)"
      using dlq.deq_content(1) [OF "1.prems", of t] Cons by (cases "dequeue_one t q") simp
    have q1: "queue_inv q1" "deque_of q1 = (deque_of q)(t := ms)"
      using dlq.deq_inv [OF "1.prems", of t] dlq.deq_content(2) [OF "1.prems", of t] d Cons by simp_all
    have h: "has_messages t q" using has Cons by simp
    show ?thesis
    proof (cases "ok m")
      case True
      obtain q2 sent fin where r: "drain_loop ok t q1 = (q2, sent, fin)" by (cases "drain_loop ok t q1")
      from "1.IH" [OF h d [symmetric] refl True q1(1)] r q1 Cons True
      show ?thesis by (auto simp: drain_loop_step [of ok t q] h d)
    next
      case False
      have "deque_of (fst (enqueue_front t m q1)) = deque_of q" using dlq.requeue_restores [OF "1.prems" d] .
      moreover have "queue_inv (fst (enqueue_front t m q1))" using dlq.enq_front_inv [OF q1(1), of t m] by simp
      ultimately show ?thesis using False Cons by (auto simp: drain_loop_step [of ok t q] h d)
    qed
  qed
qed

definition envelopes_of :: "node_out list \<Rightarrow> envelope list" where
  "envelopes_of outs = concat (map (\<lambda>x. case x of SentEnvelope ws e \<Rightarrow> [e] | _ \<Rightarrow> []) outs)"

lemma envelopes_of_simps [simp]:
  "envelopes_of [] = []" "envelopes_of (xs @ ys) = envelopes_of xs @ envelopes_of ys"
  "envelopes_of (map (SentEnvelope ws) es) = es" "envelopes_of [Scheduled t] = []" "envelopes_of [SentEnvelope ws e] = [e]"
  by (simp_all add: envelopes_of_def) (induction es; simp)

lemma drain_attempt_content:
  assumes "queue_inv (message_queue n)" "drain_attempt env t addr n = (n', outs, again)"
  shows "queue_inv (message_queue n') \<and> nd_running n' = nd_running n \<and>
    envelopes_of outs @ deque_of (message_queue n') t = deque_of (message_queue n) t \<and>
    (\<forall>u. u \<noteq> t \<longrightarrow> deque_of (message_queue n') u = deque_of (message_queue n) u) \<and>
    (\<not> again \<longrightarrow> deque_of (message_queue n') t = []) \<and>
    ((\<exists>ws. connect_to env addr = Some ws \<and> (\<forall>m. send_ok env ws m)) \<longrightarrow> \<not> again)"
proof (cases "connect_to env addr")
  case None
  with assms show ?thesis by (auto simp: drain_attempt_def)
next
  case (Some ws)
  obtain q sent fin where d: "drain_loop (send_ok env ws) t (message_queue n) = (q, sent, fin)"
    by (cases "drain_loop (send_ok env ws) t (message_queue n)")
  with drain_loop_content [OF assms(1), of t "send_ok env ws"] assms(2) Some show ?thesis
    by (auto simp: drain_attempt_def)
qed

lemma drain_attempts_content:
  assumes "queue_inv (message_queue n)"
  shows "case drain_attempts envs t addr b n of (n', outs, sleeps) \<Rightarrow>
    queue_inv (message_queue n') \<and> envelopes_of outs @ deque_of (message_queue n') t = deque_of (message_queue n) t \<and>
    (\<forall>u. u \<noteq> t \<longrightarrow> deque_of (message_queue n') u = deque_of (message_queue n) u) \<and>
    (nd_running n \<and> (\<exists>env \<in> set envs. \<exists>ws. connect_to env addr = Some ws \<and> (\<forall>m. send_ok env ws m)) \<longrightarrow>
      deque_of (message_queue n') t = [])"
  using assms
proof (induction envs t addr b n rule: drain_attempts.induct)
  case (1 t addr b n)
  then show ?case by simp
next
  case (2 env envs t addr b n)
  show ?case
  proof (cases "nd_running n \<and> has_messages t (message_queue n)")
    case False
    with 2 dlq.has_content [OF "2.prems", of t] show ?thesis by auto
  next
    case True
    obtain n1 outs again where a: "drain_attempt env t addr n = (n1, outs, again)"
      by (cases "drain_attempt env t addr n")
    note c = drain_attempt_content [OF "2.prems" a]
    show ?thesis
    proof (cases again)
      case False
      with a c True show ?thesis by auto
    next
      case again: True
      obtain n2 rest sleeps where r: "drain_attempts envs t addr (min (b * 2) MAX_BACKOFF) n1 = (n2, rest, sleeps)"
        by (cases "drain_attempts envs t addr (min (b * 2) MAX_BACKOFF) n1")
      from "2.IH" [OF True a [symmetric] refl again] c r a True again show ?thesis by auto
    qed
  qed
qed

lemma drain_sleeps:
  "\<forall>i < length (snd (snd (drain_attempts envs t addr (min (2 ^ k) 60) n))).
     snd (snd (drain_attempts envs t addr (min (2 ^ k) 60) n)) ! i = min (2 ^ (k + i)) 60"
proof (induction envs arbitrary: k n)
  case Nil
  then show ?case by simp
next
  case (Cons env envs)
  have b: "min (min (2 ^ k) 60 * 2) MAX_BACKOFF = (min (2 ^ Suc k) 60 :: rat)"
    by (simp add: MAX_BACKOFF_def min_def)
  show ?case
  proof (intro allI impI)
    fix i
    assume i: "i < length (snd (snd (drain_attempts (env # envs) t addr (min (2 ^ k) 60) n)))"
    obtain n1 outs again where a: "drain_attempt env t addr n = (n1, outs, again)"
      by (cases "drain_attempt env t addr n")
    with i have go: "nd_running n" "has_messages t (message_queue n)" again by (auto split: if_splits)
    have "snd (snd (drain_attempts (env # envs) t addr (min (2 ^ k) 60) n)) =
        min (2 ^ k) 60 # snd (snd (drain_attempts envs t addr (min (2 ^ Suc k) 60) n1))"
      using go a by (simp add: case_prod_beta b del: power_Suc)
    with i Cons.IH [of "Suc k" n1] show
      "snd (snd (drain_attempts (env # envs) t addr (min (2 ^ k) 60) n)) ! i = min (2 ^ (k + i)) 60"
      by (cases i) auto
  qed
qed


section \<open>Properties\<close>

text \<open>C20: A dispatched envelope is sent or queued, never both and never neither: either it goes out on one
  connection and the dead-letter queue is unchanged, or nothing is sent, it becomes the newest pending
  message of its target (the oldest is evicted at the bound), and a reconnection is scheduled when the
  target is a known peer.\<close>

theorem dispatch_sends_or_queues:
  assumes "queue_inv (message_queue n)"
  shows "(\<exists>ws. snd (dispatch_envelope env t e n) = [SentEnvelope ws e] \<and>
      message_queue (fst (dispatch_envelope env t e n)) = message_queue n) \<or>
    (envelopes_of (snd (dispatch_envelope env t e n)) = [] \<and>
      (Scheduled t \<in> set (snd (dispatch_envelope env t e n)) \<longleftrightarrow> map_of (peer_registry n) t \<noteq> None) \<and>
      deque_of (message_queue (fst (dispatch_envelope env t e n))) =
        (deque_of (message_queue n))(t := take_last (nat (max_size (message_queue n))) (deque_of (message_queue n) t @ [e])))"
proof (cases rule: dispatch_cases [of env t e n])
  case (2 n' m outs)
  with push_dlq_queue [of m t e] assms show ?thesis by simp
qed simp

theorem dispatch_sends_or_queues_witness:
  "deque_of (message_queue (fst (dispatch_envelope (at_time 0) 9 (demo_envelope 5 ACK (TextP (text_of [])) None) demo_node))) 9 =
   [demo_envelope 5 ACK (TextP (text_of [])) None]"
proof -
  have q: "message_queue demo_node = new_queue 500" "map_of (peer_registry demo_node) 9 = None"
    by (simp_all add: demo_node_def register_peer_def new_node_def register_handler_def demo_peer_def)
  have "queue_inv (message_queue demo_node)" by (simp add: q queue_inv_new)
  from dispatch_sends_or_queues [OF this, of "at_time 0" 9 "demo_envelope 5 ACK (TextP (text_of [])) None"] q(2)
  show ?thesis
    by (simp add: dispatch_envelope_def q(1) new_queue_def deque_of_def push_dlq_def enqueue_def with_deque_def)
qed

text \<open>C10: Draining delivers in order and loses nothing: over any sequence of connection attempts, with sends
  failing anywhere, the messages sent to the target followed by the messages still pending for it are
  exactly the messages that were pending, in their order; other targets keep theirs; and once an attempt
  connects and its sends succeed, everything has been sent.\<close>

theorem drain_is_lossless_fifo:
  assumes "queue_inv (message_queue n)" "reconnect_and_drain envs t n = (n', outs, sleeps)"
  shows "envelopes_of outs @ deque_of (message_queue n') t = deque_of (message_queue n) t \<and>
    (\<forall>u. u \<noteq> t \<longrightarrow> deque_of (message_queue n') u = deque_of (message_queue n) u) \<and>
    (\<forall>ident addr. nd_running n \<and> map_of (peer_registry n) t = Some (ident, addr) \<and>
       (\<exists>env \<in> set envs. \<exists>ws. connect_to env addr = Some ws \<and> (\<forall>m. send_ok env ws m)) \<longrightarrow>
       envelopes_of outs = deque_of (message_queue n) t \<and> deque_of (message_queue n') t = [])"
proof (cases "map_of (peer_registry n) t")
  case None
  with assms(2) show ?thesis by (simp add: reconnect_and_drain_def)
next
  case (Some p)
  obtain ident addr where p: "p = (ident, addr)" by (cases p)
  with assms(2) Some have d: "drain_attempts envs t addr 1 n = (n', outs, sleeps)" by (simp add: reconnect_and_drain_def)
  from drain_attempts_content [OF assms(1), where envs = envs and t = t and addr = addr and b = 1] Some p show ?thesis unfolding d by auto
qed

definition flaky :: "envelope \<Rightarrow> nenv" where
  "flaky bad = (at_time 0)\<lparr>connect_to := (\<lambda>_. Some 4), send_ok := (\<lambda>_ e. e \<noteq> bad)\<rparr>"

definition queued_node :: "envelope list \<Rightarrow> node" where
  "queued_node es = demo_node\<lparr>message_queue := \<lparr>max_size = 500, dlq = [(1, es)]\<rparr>, nd_running := True\<rparr>"

theorem drain_is_lossless_fifo_witness:
  "\<exists>n' outs sleeps. reconnect_and_drain [flaky (demo_envelope 6 ACK (TextP (text_of [])) None), (at_time 0)\<lparr>connect_to := (\<lambda>_. Some 4)\<rparr>] 1
     (queued_node [demo_envelope 5 ACK (TextP (text_of [])) None, demo_envelope 6 ACK (TextP (text_of [])) None]) = (n', outs, sleeps) \<and>
   envelopes_of outs = [demo_envelope 5 ACK (TextP (text_of [])) None, demo_envelope 6 ACK (TextP (text_of [])) None]"
proof -
  let ?a = "demo_envelope 5 ACK (TextP (text_of [])) None" and ?b = "demo_envelope 6 ACK (TextP (text_of [])) None"
  let ?n = "queued_node [?a, ?b]" and ?envs = "[flaky ?b, (at_time 0)\<lparr>connect_to := (\<lambda>_. Some 4)\<rparr>]"
  have q: "queue_inv (message_queue ?n)" "deque_of (message_queue ?n) 1 = [?a, ?b]"
    by (simp_all add: queued_node_def queue_inv_def dict_wf_def deque_of_def)
  have p: "nd_running ?n" "map_of (peer_registry ?n) 1 = Some (demo_peer, ''ws://h'')"
    by (simp_all add: queued_node_def)
  have ok: "\<exists>env \<in> set ?envs. \<exists>ws. connect_to env ''ws://h'' = Some ws \<and> (\<forall>m. send_ok env ws m)"
    by (simp add: at_time_def)
  obtain n' outs sleeps where r: "reconnect_and_drain ?envs 1 ?n = (n', outs, sleeps)"
    by (cases "reconnect_and_drain ?envs 1 ?n")
  have "envelopes_of outs = deque_of (message_queue ?n) 1"
    using drain_is_lossless_fifo [OF q(1) r] p ok by blast
  with r q(2) show ?thesis by simp
qed

text \<open>The backoff is exponential and bounded: the sleep after the i-th failed attempt is the smaller of
  2 to the i and 60 seconds.\<close>

theorem backoff_doubles_up_to_a_minute:
  "reconnect_and_drain envs t n = (n', outs, sleeps) \<Longrightarrow> i < length sleeps \<Longrightarrow> sleeps ! i = min (2 ^ i) 60"
proof (cases "map_of (peer_registry n) t")
  case (Some p)
  assume r: "reconnect_and_drain envs t n = (n', outs, sleeps)" and i: "i < length sleeps"
  obtain ident addr where "p = (ident, addr)" by (cases p)
  with r Some have "drain_attempts envs t addr (min (2 ^ 0) 60) n = (n', outs, sleeps)"
    by (simp add: reconnect_and_drain_def)
  with i drain_sleeps [of envs t addr 0 n] show ?thesis by simp
qed (simp add: reconnect_and_drain_def)

theorem backoff_doubles_up_to_a_minute_witness:
  "snd (snd (reconnect_and_drain (replicate 8 (at_time 0)) 1 (queued_node [demo_envelope 5 ACK (TextP (text_of [])) None]))) ! 7 = 60"
proof -
  let ?n = "queued_node [demo_envelope 5 ACK (TextP (text_of [])) None]"
  obtain n' outs sleeps where r: "reconnect_and_drain (replicate 8 (at_time 0)) 1 ?n = (n', outs, sleeps)"
    by (cases "reconnect_and_drain (replicate 8 (at_time 0)) 1 ?n")
  have h: "has_messages 1 (message_queue ?n)" "nd_running ?n" by (simp_all add: queued_node_def has_messages_def)
  have a: "drain_attempt (at_time 0) 1 addr m = (m, [], True)" for addr m by (simp add: drain_attempt_def)
  have l: "length (snd (snd (drain_attempts (replicate k (at_time 0)) 1 addr b ?n))) = k" for k addr b
    by (induction k arbitrary: b) (simp_all add: h a case_prod_beta)
  have "length sleeps = 8"
    using r l [of 8 "''ws://h''" 1] by (simp add: reconnect_and_drain_def queued_node_def)
  with backoff_doubles_up_to_a_minute [OF r, of 7] r show ?thesis by simp
qed

text \<open>Chunked transfers never leave the node: the dictionary that is signed for a chunk holds the transfer id
  as a UUID object, so sending any chunk raises a \<^verbatim>\<open>TypeError\<close> before anything is sent or queued, and
  \<^verbatim>\<open>send_chunked\<close> fails for every non-empty content and every admissible chunk size.\<close>

theorem chunked_send_always_fails:
  assumes "bs \<noteq> []" "1024 \<le> sz"
  shows "send_message P env k target i pl ack (Some c) n =
      (n, [], Inl (TypeError ''Object of type UUID is not JSON serializable'')) \<and>
    node_send_chunked P env tid target bs mime desc sz (n, outs) =
      ((n, outs), Inl (TypeError ''Object of type UUID is not JSON serializable''))"
proof -
  have "\<not> jsonable (PDict (AList.update ''chunk_info'' (dump_chunk_info c) (model_dump pl)))" for c pl
  proof -
    have "map_of (AList.update ''chunk_info'' (dump_chunk_info c) (model_dump pl)) ''chunk_info'' = Some (dump_chunk_info c)"
      by (simp add: dict_simps)
    then have "(''chunk_info'', dump_chunk_info c) \<in> set (AList.update ''chunk_info'' (dump_chunk_info c) (model_dump pl))"
      by (rule map_of_SomeD)
    then show ?thesis by (force simp: list_all_iff dump_chunk_info_def)
  qed
  then have send: "send_message P env k target i pl ack (Some c) n =
      (n, [], Inl (TypeError ''Object of type UUID is not JSON serializable''))" for k i pl ack c
    by (simp add: send_message_def Let_def sign_payload_uuid)
  have "chunk_infos bs sz tid \<noteq> []"
    using total_chunks_bounds(1) [OF assms(1), of sz] assms(2) by (simp add: chunk_infos_def)
  then obtain c cs where "chunk_infos bs sz tid = c # cs" by (cases "chunk_infos bs sz tid") auto
  with assms send show ?thesis by (simp add: node_send_chunked_def send_chunked_def)
qed

theorem chunked_send_always_fails_witness:
  "node_send_chunked demo_platform (at_time 0) 9 1 demo_bytes ''image/png'' [] 1024 (demo_node, []) =
   ((demo_node, []), Inl (TypeError ''Object of type UUID is not JSON serializable''))"
  using chunked_send_always_fails [OF demo_bytes_ne, where sz = 1024 and P = demo_platform and env = "at_time 0" and tid = 9
      and target = 1 and mime = "''image/png''" and desc = "[]" and n = demo_node and outs = "[]"] by simp

lemma fan_out_count: "snd (snd (fan_out_peers env k i pl sig peers n)) = length peers"
  by (induction peers arbitrary: k n) (simp_all add: Let_def case_prod_beta)

text \<open>Broadcast: connected to the relay, a broadcast is one envelope to the broadcast id on the relay's
  connection; otherwise, or when that send fails, it is dispatched once to every registered peer and the
  result is their number.\<close>

theorem broadcast_counts:
  assumes "wf_payload pl"
  shows "\<exists>sig. sign_payload (ed_prims P) (nd_manager n) (model_dump pl) = Inr sig \<and>
    (let e = mk_envelope (create_header env 0 n BROADCAST_UUID i) pl (Some sig) in
      (\<forall>ws. adns_ws n = Some ws \<and> send_ok env ws e \<longrightarrow> send_broadcast P env i pl n = (n, [SentEnvelope ws e], Inr 1)) \<and>
      ((\<forall>ws. adns_ws n = Some ws \<longrightarrow> \<not> send_ok env ws e) \<longrightarrow>
         snd (snd (send_broadcast P env i pl n)) = Inr (length (peer_registry n))))"
  using sign_payload_jsonable [OF jsonable_model_dump [OF assms], of "ed_prims P" "nd_manager n"]
    fan_out_count [of env 1 i pl _ "map fst (peer_registry n)" n]
  by (auto simp: send_broadcast_def Let_def case_prod_beta split: option.splits)

theorem broadcast_counts_witness:
  "snd (snd (send_broadcast demo_platform (at_time 0) TASK_REQUEST (TextP (text_of ''x'')) demo_node)) = Inr 1"
proof -
  have "peer_registry demo_node = [(1, demo_peer, ''ws://h'')]" "adns_ws demo_node = None"
    by (simp_all add: demo_node_def register_peer_def new_node_def register_handler_def demo_peer_def mk_identity_def)
  with broadcast_counts [of "TextP (text_of ''x'')" demo_platform demo_node "at_time 0" TASK_REQUEST]
  show ?thesis by (simp add: Let_def)
qed

lemma send_message_ok:
  assumes "wf_payload pl"
  shows "\<exists>sig n' outs. sign_payload (ed_prims P) (nd_manager n) (model_dump pl) = Inr sig \<and>
    dispatch_envelope env t (mk_envelope (create_header env k n t i) pl (Some sig)) n = (n', outs) \<and>
    send_message P env k t i pl False None n = (n', outs, Inr (fresh_id env k))"
proof -
  obtain n' outs where "dispatch_envelope env t (mk_envelope (create_header env k n t i) pl
      (Some (b64encode (ed_sign (ed_prims P) (private_key (nd_manager n)) (utf8 (enc sign_opts (PDict (model_dump pl)))))))) n = (n', outs)"
    by (metis prod.exhaust)
  then show ?thesis
    by (simp add: send_message_def Let_def sign_payload_jsonable [OF jsonable_model_dump [OF assms]] mk_envelope_def create_header_def)
qed

lemma dispatch_queue_others:
  assumes "queue_inv (message_queue n)" "u \<noteq> t"
  shows "queue_inv (message_queue (fst (dispatch_envelope env t e n))) \<and>
    deque_of (message_queue (fst (dispatch_envelope env t e n))) u = deque_of (message_queue n) u"
proof (cases rule: dispatch_cases [of env t e n])
  case 1
  with assms show ?thesis by simp
next
  case (2 n' m outs)
  with push_dlq_queue [of m t e] assms show ?thesis by simp
qed

text \<open>Multicast: the number that it returns is the number of registered peers whose capabilities contain the
  tag, and only those peers are sent or queued anything.\<close>

theorem multicast_selects_by_tag:
  assumes "wf_payload pl" "queue_inv (message_queue n)" "\<forall>x \<in> set (peer_registry n). fst x = u \<longrightarrow> tag \<notin> set (capabilities (fst (snd x)))"
  shows "snd (snd (send_multicast P env tag i pl n)) =
      length (filter (\<lambda>x. tag \<in> set (capabilities (fst (snd x)))) (peer_registry n)) \<and>
    deque_of (message_queue (fst (send_multicast P env tag i pl n))) u = deque_of (message_queue n) u"
proof -
  have "snd (snd (multicast_peers P env k tag i pl peers m)) =
      length (filter (\<lambda>x. tag \<in> set (capabilities (fst (snd x)))) peers) \<and>
    deque_of (message_queue (fst (multicast_peers P env k tag i pl peers m))) u = deque_of (message_queue m) u"
    if "queue_inv (message_queue m)" "\<forall>x \<in> set peers. fst x = u \<longrightarrow> tag \<notin> set (capabilities (fst (snd x)))" for k peers m
    using that
  proof (induction peers arbitrary: k m)
    case (Cons x peers)
    obtain peer ident addr where x: "x = (peer, ident, addr)" by (cases x)
    show ?case
    proof (cases "tag \<in> set (capabilities ident)")
      case True
      with Cons.prems(2) x have "u \<noteq> peer" by auto
      from send_message_ok [OF assms(1), of P m env peer k i] obtain sig m' outs where
        s: "dispatch_envelope env peer (mk_envelope (create_header env k m peer i) pl (Some sig)) m = (m', outs)"
          "send_message P env k peer i pl False None m = (m', outs, Inr (fresh_id env k))" by blast
      from dispatch_queue_others [OF Cons.prems(1) \<open>u \<noteq> peer\<close>, of env "mk_envelope (create_header env k m peer i) pl (Some sig)"] s(1)
      have "queue_inv (message_queue m')" "deque_of (message_queue m') u = deque_of (message_queue m) u" by simp_all
      with Cons.IH [of m' "Suc k"] Cons.prems(2) True s(2) x show ?thesis by (simp add: Let_def case_prod_beta)
    next
      case False
      with Cons x show ?thesis by simp
    qed
  qed simp
  from this [OF assms(2,3)] show ?thesis by (simp add: send_multicast_def)
qed

theorem multicast_selects_by_tag_witness:
  "snd (snd (send_multicast demo_platform (at_time 0) ''vision'' TASK_REQUEST (TextP (text_of ''x'')) demo_node)) = 0"
proof -
  have p: "peer_registry demo_node = [(1, demo_peer, ''ws://h'')]" "message_queue demo_node = new_queue 500"
    by (simp_all add: demo_node_def register_peer_def new_node_def register_handler_def demo_peer_def mk_identity_def)
  have "queue_inv (message_queue demo_node)" by (simp add: p queue_inv_new)
  with multicast_selects_by_tag [of "TextP (text_of ''x'')" demo_node 1 "''vision''" demo_platform "at_time 0" TASK_REQUEST]
  show ?thesis by (simp add: p demo_peer_def mk_identity_def)
qed

end
