(* ===== verification/StateSync.thy ===== *)
theory StateSync
  imports NodeOutbound
begin

text \<open>
  A state synchronisation between two nodes, end to end: \<^verbatim>\<open>send_message\<close> with the serialised map of
  one node (\<^verbatim>\<open>tpcp/core/node.py\<close>, \<^verbatim>\<open>tpcp/memory/crdt.py\<close>), the middleware, the handler and the merge
  at the other. It puts the laws of the layers together: signatures, dispatch, the inbound path and
  the order of the map.
\<close>

section \<open>One direction\<close>

definition sync_payload :: "node \<Rightarrow> payload" where
  "sync_payload n = CrdtP \<lparr>crdt_type = ''LWW-Map'', crdt_state = serialize_state (shared_memory n), vector_clock = []\<rparr>"

text \<open>Node \<open>a\<close> sends its map and node \<open>b\<close> receives what goes out; the flag says whether anything did.\<close>

definition sync ::
  "platform \<Rightarrow> user_handlers \<Rightarrow> nenv \<Rightarrow> nenv \<Rightarrow> conn \<Rightarrow> node \<Rightarrow> node \<Rightarrow> node \<times> node \<times> bool" where
  "sync P user env env' ws a b =
     (case send_message P env 0 (agent_id (nd_identity b)) STATE_SYNC (sync_payload a) False None a of
        (a', outs, res) \<Rightarrow>
          (a', fst (deliver_all P user (map (\<lambda>e. (env', ws, e)) (envelopes_of outs)) b), envelopes_of outs \<noteq> []))"

text \<open>The node accepts a synchronisation from \<open>u\<close> under this key and message id.\<close>

definition accepts_sync :: "nenv \<Rightarrow> node \<Rightarrow> uuid \<Rightarrow> string \<Rightarrow> uuid \<Rightarrow> bool" where
  "accepts_sync env n u key mid \<longleftrightarrow>
     (case map_of (peer_registry n) u of None \<Rightarrow> False | Some (p, addr) \<Rightarrow> public_key p = key) \<and>
     map_of (handlers n) STATE_SYNC = Some HandleStateSync \<and>
     map_of (evict_seen env (seen_messages n)) mid = None \<and>
     (case nd_acl n of None \<Rightarrow> True | Some pol \<Rightarrow> is_allowed pol u STATE_SYNC)"

definition json_state :: "node \<Rightarrow> bool" where
  "json_state n \<longleftrightarrow> (\<forall>x \<in> set (lww_state (shared_memory n)). wf_val (fst (snd x)))"

lemma wf_sync_payload: "json_state n \<Longrightarrow> wf_payload (sync_payload n)"
  by (auto simp: json_state_def sync_payload_def serialize_state_def record_of_def list_all_iff split: prod.splits)

text \<open>Dispatch leaves everything but the queue and the connections.\<close>

definition same_but_links :: "node \<Rightarrow> node \<Rightarrow> bool" where
  "same_but_links n n' \<longleftrightarrow> n' = n\<lparr>message_queue := message_queue n', peer_connections := peer_connections n'\<rparr>"

lemma same_but_links_intros:
  "same_but_links n n" "same_but_links n m \<Longrightarrow> same_but_links n (m\<lparr>message_queue := q\<rparr>)"
  "same_but_links n m \<Longrightarrow> same_but_links n (m\<lparr>peer_connections := cs\<rparr>)"
  by (cases n; cases m; simp add: same_but_links_def)+

lemma dispatch_frame: "same_but_links n (fst (dispatch_envelope env t e n))"
proof -
  have "same_but_links n (fst (get_peer_connection env t n))"
    by (auto simp: get_peer_connection_def Let_def intro!: same_but_links_intros split: option.splits)
  then show ?thesis
    by (auto simp: dispatch_envelope_def push_dlq_def intro!: same_but_links_intros split: prod.splits option.splits)
qed

text \<open>What goes out of \<^verbatim>\<open>send_message\<close> reaches the handler of a peer that has the sender registered under its key.\<close>

definition accepts_from :: "nenv \<Rightarrow> node \<Rightarrow> uuid \<Rightarrow> string \<Rightarrow> uuid \<Rightarrow> intent \<Rightarrow> handler \<Rightarrow> bool" where
  "accepts_from env n u key mid i h \<longleftrightarrow>
     (case map_of (peer_registry n) u of None \<Rightarrow> False | Some (p, addr) \<Rightarrow> public_key p = key) \<and>
     map_of (handlers n) i = Some h \<and> map_of (evict_seen env (seen_messages n)) mid = None \<and>
     (case nd_acl n of None \<Rightarrow> True | Some pol \<Rightarrow> is_allowed pol u i)"

lemma accepts_sync_from: "accepts_sync env n u key mid = accepts_from env n u key mid STATE_SYNC HandleStateSync"
  by (simp add: accepts_sync_def accepts_from_def)

lemma sent_is_handled:
  assumes ed: "ed_correct (ed_prims P)" "\<forall>sk m. length sk = 32 \<longrightarrow> ed_sign (ed_prims P) sk m \<noteq> []" "manager_wf (ed_prims P) (nd_manager a)"
    and wf: "wf_payload pl"
    and b: "accepts_from env' b (agent_id (nd_identity a)) (get_public_key_string (nd_manager a)) (fresh_id env k) i h"
    and s: "send_message P env k t i pl False None a = (a', outs, res)" "envelopes_of outs \<noteq> []"
  obtains sig where "envelopes_of outs = [mk_envelope (create_header env k a t i) pl (Some sig)]" "same_but_links a a'"
    "process_envelope P user env' ws (mk_envelope (create_header env k a t i) pl (Some sig)) b =
       (case run_handler P user env' h (mk_envelope (create_header env k a t i) pl (Some sig)) ws
               (noted env' (mk_envelope (create_header env k a t i) pl (Some sig)) b) of (n', outs, exc) \<Rightarrow> (n', outs))"
proof -
  from send_message_ok [OF wf, of P a env t k i] s(1) obtain sig where
    sig: "sign_payload (ed_prims P) (nd_manager a) (model_dump pl) = Inr sig" and
    d: "dispatch_envelope env t (mk_envelope (create_header env k a t i) pl (Some sig)) a = (a', outs)" by auto
  let ?e = "mk_envelope (create_header env k a t i) pl (Some sig)"
  have outs: "envelopes_of outs = [?e]"
    using dispatch_cases [of env t ?e a] d s(2) by (metis Pair_inject envelopes_of_simps(1,4,5))
  have ver: "verify_signature (ed_prims P) (get_public_key_string (nd_manager a)) sig (model_dump pl)"
    using signed_verifies [OF ed(1,3) wf] sig by auto
  have "b64encode bs = [] \<longleftrightarrow> bs = []" for bs by (induction bs rule: b64encode.induct) simp_all
  then have ne: "sig \<noteq> []" using sig ed(2,3) sign_payload_jsonable [OF jsonable_model_dump [OF wf]]
    by (auto simp: manager_wf_def)
  have "process_envelope P user env' ws ?e b =
      (case run_handler P user env' h ?e ws (noted env' ?e b) of (n', outs, exc) \<Rightarrow> (n', outs))"
    using b ver ne
    by (intro handled_when)
      (auto simp: accepts_from_def authentic_def acl_denies_def mk_envelope_def create_header_def split: option.splits)
  with outs show thesis using that dispatch_frame [of a env t ?e] d by simp
qed

text \<open>The receiver merges exactly the sender's map, and nothing else changes but its replay cache.\<close>

lemma sync_merges:
  assumes ed: "ed_correct (ed_prims P)" "\<forall>sk m. length sk = 32 \<longrightarrow> ed_sign (ed_prims P) sk m \<noteq> []" "manager_wf (ed_prims P) (nd_manager a)"
    and a: "json_state a"
    and b: "accepts_sync env' b (agent_id (nd_identity a)) (get_public_key_string (nd_manager a)) (fresh_id env 0)"
    and s: "sync P user env env' ws a b = (a', b', True)"
  shows "same_but_links a a' \<and> (\<exists>seen. b' = b\<lparr>seen_messages := seen,
      shared_memory := apply_writes (lww_state (shared_memory a)) (shared_memory b)\<rparr>)"
proof -
  let ?ub = "agent_id (nd_identity b)" and ?pl = "sync_payload a"
  obtain outs res where m: "send_message P env 0 ?ub STATE_SYNC ?pl False None a = (a', outs, res)" "envelopes_of outs \<noteq> []"
    and b': "b' = fst (deliver_all P user (map (\<lambda>e. (env', ws, e)) (envelopes_of outs)) b)"
    using s by (auto simp: sync_def split: prod.splits)
  obtain sig where e: "envelopes_of outs = [mk_envelope (create_header env 0 a ?ub STATE_SYNC) ?pl (Some sig)]" "same_but_links a a'"
    "process_envelope P user env' ws (mk_envelope (create_header env 0 a ?ub STATE_SYNC) ?pl (Some sig)) b =
       (case run_handler P user env' HandleStateSync (mk_envelope (create_header env 0 a ?ub STATE_SYNC) ?pl (Some sig)) ws
               (noted env' (mk_envelope (create_header env 0 a ?ub STATE_SYNC) ?pl (Some sig)) b) of (n', outs, exc) \<Rightarrow> (n', outs))"
    using sent_is_handled [OF ed wf_sync_payload [OF a] b [unfolded accepts_sync_from] m] by blast
  let ?e = "mk_envelope (create_header env 0 a ?ub STATE_SYNC) ?pl (Some sig)"
  have "b' = fst (process_envelope P user env' ws ?e b)" by (simp add: b' e(1) case_prod_beta Let_def)
  then have "b' = (noted env' ?e b)\<lparr>shared_memory := apply_writes (lww_state (shared_memory a)) (shared_memory b)\<rparr>"
    unfolding e(3)
    by (simp add: run_handler_def handle_state_sync_def mk_envelope_def sync_payload_def merge_serialized noted_def)
  with e(2) show ?thesis by (auto simp: noted_def)
qed

lemma sync_back_view:
  assumes "lww_inv a" "lww_inv b" "\<forall>x \<in> set (lww_state a). wf_val (fst (snd x))" "\<forall>x \<in> set (lww_state b). wf_val (fst (snd x))"
  shows "lww_view (apply_writes (lww_state (apply_writes (lww_state a) b)) a) k = lww_view (apply_writes (lww_state a) b) k"
proof -
  let ?g = "\<lambda>m. map_of (lww_state m) k" and ?p = "slot_put entry_beats"
  have ab: "lww_inv (apply_writes (lww_state a) b)"
    using lww_merge_inv [OF assms(2), of "serialize_state a"] by (simp add: merge_serialized)
  note g = merge_get [OF lww_inv_wf [OF assms(1)], of b k] merge_get [OF lww_inv_wf [OF ab], of a k]
  have "entry_view (?p (?p x (Some y)) (Some x)) = entry_view (?p x (Some y))" if "?g a = Some x" "?g b = Some y" for x y
  proof (cases "entry_beats x y \<or> entry_beats y x")
    case True
    then show ?thesis using lww.asym [of x y] lww.irrefl [of x] by (auto simp: slot_put_def)
  next
    case False
    have "wf_val (fst x)" "wf_val (fst y)" using that assms(3,4) by (force dest: map_of_SomeD)+
    with False tie_view [of x y] show ?thesis by (simp add: slot_put_def)
  qed
  moreover have "?p x None = x" "?p x (Some x) = x" for x by (simp_all add: slot_put_def)
  ultimately show ?thesis by (cases "?g a"; cases "?g b") (simp_all add: lww_view_def g)
qed

lemma json_state_merge:
  assumes "json_state a" "json_state b" "lww_inv (shared_memory a)" "lww_inv (shared_memory b)"
    "shared_memory b' = apply_writes (lww_state (shared_memory a)) (shared_memory b)"
  shows "json_state b'"
proof -
  have i: "lww_inv (shared_memory b')"
    using lww_merge_inv [OF assms(4), of "serialize_state (shared_memory a)"] by (simp add: merge_serialized assms(5))
  have w: "wf_val (fst e)" if "map_of (lww_state (shared_memory n)) k = Some e" "n = a \<or> n = b" for n k e
    using map_of_SomeD [OF that(1)] that(2) assms(1,2) by (force simp: json_state_def)
  have "wf_val (fst e)" if "map_of (lww_state (shared_memory b')) k = Some e" for k e
    using that merge_get [OF lww_inv_wf [OF assms(3)], of "shared_memory b" k] w
    by (auto simp: assms(5) slot_put_def split: option.splits if_splits)
  moreover have "map_of (lww_state (shared_memory b')) (fst x) = Some (snd x)" if "x \<in> set (lww_state (shared_memory b'))" for x
    using lww_inv_wf [OF i] that by (simp add: dict_wf_get_iff)
  ultimately show ?thesis unfolding json_state_def by blast
qed

section \<open>Both directions\<close>

text \<open>State synchronisation works end to end: when a node's \<^verbatim>\<open>STATE_SYNC\<close> reaches a peer that has it
  registered under its key, and the peer's \<^verbatim>\<open>STATE_SYNC\<close> comes back, both hold the same entry under every
  key (up to the order of dictionary keys in the values), and the peer's map is its old one with the
  first node's entries merged in.\<close>

theorem mutual_sync_converges:
  assumes ed: "ed_correct (ed_prims P)" "\<forall>sk m. length sk = 32 \<longrightarrow> ed_sign (ed_prims P) sk m \<noteq> []"
      "manager_wf (ed_prims P) (nd_manager a)" "manager_wf (ed_prims P) (nd_manager b)"
    and state: "json_state a" "json_state b" "lww_inv (shared_memory a)" "lww_inv (shared_memory b)"
    and b: "accepts_sync env' b (agent_id (nd_identity a)) (get_public_key_string (nd_manager a)) (fresh_id env 0)"
    and a: "accepts_sync env3 a (agent_id (nd_identity b)) (get_public_key_string (nd_manager b)) (fresh_id env2 0)"
    and s: "sync P user env env' ws a b = (a1, b1, True)" "sync P user env2 env3 ws2 b1 a1 = (b2, a2, True)"
  shows "lww_view (shared_memory a2) k = lww_view (shared_memory b2) k \<and>
    shared_memory b2 = fst (lww_merge (serialize_state (shared_memory a)) (shared_memory b))"
proof -
  from sync_merges [OF ed(1-3) state(1) b s(1)] obtain seen where
    a1: "a1 = a\<lparr>message_queue := message_queue a1, peer_connections := peer_connections a1\<rparr>" and
    b1: "b1 = b\<lparr>seen_messages := seen, shared_memory := apply_writes (lww_state (shared_memory a)) (shared_memory b)\<rparr>"
    unfolding same_but_links_def by blast
  have "json_state b1" by (rule json_state_merge [OF state]) (simp add: b1)
  moreover have "accepts_sync env3 a1 (agent_id (nd_identity b1)) (get_public_key_string (nd_manager b1)) (fresh_id env2 0)"
    using a by (subst a1) (simp add: b1 accepts_sync_def)
  moreover have "manager_wf (ed_prims P) (nd_manager b1)" using ed(4) by (simp add: b1)
  ultimately obtain seen2 where "same_but_links b1 b2"
    "a2 = a1\<lparr>seen_messages := seen2, shared_memory := apply_writes (lww_state (shared_memory b1)) (shared_memory a1)\<rparr>"
    using sync_merges [OF ed(1,2) _ _ _ s(2)] by blast
  moreover have "shared_memory a1 = shared_memory a" by (subst a1) simp
  moreover have "shared_memory b2 = shared_memory b1" if "same_but_links b1 b2"
    using that by (cases b1; cases b2) (simp add: same_but_links_def)
  ultimately have "shared_memory b2 = apply_writes (lww_state (shared_memory a)) (shared_memory b)"
    "shared_memory a2 = apply_writes (lww_state (apply_writes (lww_state (shared_memory a)) (shared_memory b))) (shared_memory a)"
    by (simp_all add: b1)
  with sync_back_view [OF state(3,4)] state(1,2) show ?thesis
    by (simp add: json_state_def merge_serialized)
qed

definition writer :: "uuid \<Rightarrow> uuid \<Rightarrow> string \<Rightarrow> int \<Rightarrow> node" where
  "writer me other k i =
     (let n = register_peer (mk_identity other ''demo'' (get_public_key_string sample_manager)) ''ws://h''
                (new_node (mk_identity me ''demo'' []) ''h'' 1 None sample_manager False None)
      in n\<lparr>shared_memory := lww_set k (PInt i) None None (shared_memory n)\<rparr>)"

definition connected :: nenv where
  "connected = (at_time 0)\<lparr>connect_to := (\<lambda>_. Some 4)\<rparr>"

lemma writer_simps [simp]:
  "nd_manager (writer me other k i) = sample_manager" "agent_id (nd_identity (writer me other k i)) = me"
  "shared_memory (writer me other k i) = lww_set k (PInt i) None None (new_lww (uuid_str me) None)"
  "peer_connections (writer me other k i) = []" "message_queue (writer me other k i) = new_queue 500"
  "map_of (peer_registry (writer me other k i)) other = Some (mk_identity other ''demo'' (get_public_key_string sample_manager), ''ws://h'')"
  by (simp_all add: writer_def Let_def register_peer_def new_node_def register_handler_def mk_identity_def)

lemma writer_state:
  "json_state (writer me other k i)" "lww_inv (shared_memory (writer me other k i))"
  "accepts_sync env (writer me other k i) other (get_public_key_string sample_manager) mid"
proof -
  show "json_state (writer me other k i)" by (simp add: json_state_def lww_set_def new_lww_def persist_def)
  show "lww_inv (shared_memory (writer me other k i))" using lww_inv_set [OF lww_inv_new] by simp
  show "accepts_sync env (writer me other k i) other (get_public_key_string sample_manager) mid"
    by (simp add: accepts_sync_def writer_def Let_def register_peer_def new_node_def register_handler_def
        mk_identity_def evict_seen_def dict_simps)
qed

lemma plain_ed_sign_ne: "length sk = 32 \<longrightarrow> ed_sign plain_ed sk m \<noteq> []"
  by (auto simp: plain_ed_def)

text \<open>A connected node sends.\<close>

lemma sync_sends:
  assumes "json_state a" "peer_connections a = []" "map_of (peer_registry a) (agent_id (nd_identity b)) \<noteq> None"
  shows "\<exists>a' b'. sync P user connected env' ws a b = (a', b', True)"
proof -
  let ?ub = "agent_id (nd_identity b)"
  from send_message_ok [OF wf_sync_payload [OF assms(1)], of P a connected ?ub 0 STATE_SYNC] obtain sig n' outs where
    d: "dispatch_envelope connected ?ub (mk_envelope (create_header connected 0 a ?ub STATE_SYNC) (sync_payload a) (Some sig)) a = (n', outs)"
      "send_message P connected 0 ?ub STATE_SYNC (sync_payload a) False None a = (n', outs, Inr (fresh_id connected 0))" by blast
  from d(1) assms(2,3) have "envelopes_of outs \<noteq> []"
    by (auto simp: dispatch_envelope_def get_peer_connection_def Let_def connected_def at_time_def split: prod.splits)
  with d(2) show ?thesis by (simp add: sync_def)
qed

theorem mutual_sync_converges_witness:
  "\<exists>a1 b1 a2 b2. sync demo_platform no_user connected (at_time 0) 3 (writer 1 2 ''x'' 5) (writer 2 1 ''y'' 6) = (a1, b1, True) \<and>
     sync demo_platform no_user connected (at_time 0) 3 b1 a1 = (b2, a2, True) \<and>
     lww_view (shared_memory a2) ''x'' = lww_view (shared_memory b2) ''x''"
proof -
  let ?a = "writer 1 2 ''x'' 5" and ?b = "writer 2 1 ''y'' 6"
  have m: "manager_wf (ed_prims demo_platform) (nd_manager (writer u v k i))" for u v k i using sample_manager_wf by simp
  have ed: "ed_correct (ed_prims demo_platform)" "\<forall>sk m. length sk = 32 \<longrightarrow> ed_sign (ed_prims demo_platform) sk m \<noteq> []"
    using plain_ed_laws(1) plain_ed_sign_ne by simp_all
  note acc = writer_state(3) [of "at_time 0" 2 1 "''y''" 6 "fresh_id connected 0"] writer_state(3) [of "at_time 0" 1 2 "''x''" 5 "fresh_id connected 0"]
  from sync_sends [of ?a ?b demo_platform no_user "at_time 0" 3] obtain a1 b1 where
    s1: "sync demo_platform no_user connected (at_time 0) 3 ?a ?b = (a1, b1, True)"
    by (auto simp: writer_state)
  from sync_merges [OF ed m writer_state(1) _ s1] acc obtain seen where
    a1: "same_but_links ?a a1" and b1: "b1 = ?b\<lparr>seen_messages := seen,
      shared_memory := apply_writes (lww_state (shared_memory ?a)) (shared_memory ?b)\<rparr>" by auto
  have "json_state b1" using json_state_merge [OF writer_state(1,1,2,2), of b1 1 2 "''x''" 5 2 1 "''y''" 6] by (simp add: b1)
  moreover have "agent_id (nd_identity a1) = 1"
    using a1 writer_simps(2) [of 1 2 "''x''" 5] unfolding same_but_links_def by (cases a1) (cases ?a, simp)
  ultimately obtain a2 b2 where s2: "sync demo_platform no_user connected (at_time 0) 3 b1 a1 = (b2, a2, True)"
    using sync_sends [of b1 a1 demo_platform no_user "at_time 0" 3] b1 by auto
  have "lww_view (shared_memory a2) ''x'' = lww_view (shared_memory b2) ''x''"
    using mutual_sync_converges [OF ed m m writer_state(1,1,2,2) _ _ s1 s2, of "''x''"] acc by simp
  with s1 s2 show ?thesis by blast
qed

end
