(* ===== verification/Demos.thy ===== *)
theory Demos
  imports StateSync
begin

text \<open>
  The demonstrations of shared memory and of vector synchronisation (\<^verbatim>\<open>src/tpcp/examples\<close>, scripts 02 and 03):
  two nodes in one process that know each other from the start. Outside are the network between the two
  ports, the clocks and ids, the random vector, and the lines that only narrate.
\<close>

section \<open>Two nodes\<close>

definition demo_agent ::
  "ed25519 \<Rightarrow> string option \<Rightarrow> filesystem \<Rightarrow> bytes \<times> uuid \<Rightarrow> string \<Rightarrow> string list \<Rightarrow> string \<Rightarrow> int \<Rightarrow> py_exn + node" where
  "demo_agent ed env_key fs key fw caps pk port =
     snd (init_node ed env_key (fst key) None False fs None ((mk_identity (snd key) fw pk)\<lparr>capabilities := caps\<rparr>)
       ''127.0.0.1'' port None False None)"

definition both_listen :: "node \<Rightarrow> node \<Rightarrow> py_exn + node \<times> node" where
  "both_listen a b =
     (case start_listening [] a of
        (a, Some e) \<Rightarrow> Inl e
      | (a, None) \<Rightarrow> (case start_listening [] b of (b, Some e) \<Rightarrow> Inl e | (b, None) \<Rightarrow> Inr (a, b)))"

text \<open>The constructor of a node stores its public key in the identity object that is passed, so that the peers
  register each other under their actual keys.\<close>

definition demo_pair ::
  "ed25519 \<Rightarrow> string option \<Rightarrow> filesystem \<Rightarrow> string list \<Rightarrow> string list \<Rightarrow> bytes \<times> uuid \<Rightarrow> bytes \<times> uuid \<Rightarrow> py_exn + node \<times> node" where
  "demo_pair ed env_key fs caps_a caps_b ka kb =
     (case demo_agent ed env_key fs ka ''LangGraph'' caps_a ''pub_key_hunter_A'' 8000 of Inl e \<Rightarrow> Inl e
      | Inr a \<Rightarrow> (case demo_agent ed env_key fs kb ''CrewAI'' caps_b ''pub_key_scorer_B'' 8001 of Inl e \<Rightarrow> Inl e
      | Inr b \<Rightarrow> both_listen (register_peer (nd_identity b) ''ws://127.0.0.1:8001'' a)
                             (register_peer (nd_identity a) ''ws://127.0.0.1:8000'' b)))"

text \<open>The arrival of what a node put on the wire.\<close>

definition arrives :: "platform \<Rightarrow> user_handlers \<Rightarrow> nenv \<Rightarrow> conn \<Rightarrow> node_out list \<Rightarrow> node \<Rightarrow> node" where
  "arrives P user env ws outs n = fst (deliver_all P user (map (\<lambda>e. (env, ws, e)) (envelopes_of outs)) n)"

section \<open>Shared memory\<close>

definition demo_state_payload :: "node \<Rightarrow> payload" where
  "demo_state_payload n = CrdtP \<lparr>crdt_type = ''LWW-Map'', crdt_state = serialize_state (shared_memory n),
     vector_clock = [(''timestamp'', logical_clock (shared_memory n))]\<rparr>"

text \<open>A call of an \<^verbatim>\<open>async\<close> method makes a coroutine, whose body runs only if it is awaited; one that is dropped does
  nothing. The script drops the four coroutines of \<^verbatim>\<open>shared_memory.set\<close>; what it does with a coroutine is an argument,
  so that the script can be compared with the one that awaits them.\<close>

type_synonym coroutine = "node \<Rightarrow> node"

definition awaited :: "coroutine \<Rightarrow> node \<Rightarrow> node" where
  "awaited body n = body n"

definition dropped_call :: "coroutine \<Rightarrow> node \<Rightarrow> node" where
  "dropped_call body n = n"

definition sets :: "string \<Rightarrow> pyval \<Rightarrow> int \<Rightarrow> coroutine" where
  "sets k v t n = n\<lparr>shared_memory := lww_set k v (Some t) None (shared_memory n)\<rparr>"

definition same_dict :: "(string, pyval) dict \<Rightarrow> (string, pyval) dict \<Rightarrow> bool" where
  "same_dict d d' \<longleftrightarrow> length d = length d' \<and> list_all (\<lambda>(k, v). map_of d' k = Some v) d"

text \<open>Both payloads are made before either message is sent. The result: the two final dictionaries, the verdict that
  the script prints, and the stopped nodes.\<close>

definition state_sync_script ::
  "(coroutine \<Rightarrow> node \<Rightarrow> node) \<Rightarrow> platform \<Rightarrow> user_handlers \<Rightarrow> nenv \<Rightarrow> nenv \<Rightarrow> conn \<Rightarrow> string option \<Rightarrow> filesystem \<Rightarrow>
   bytes \<times> uuid \<Rightarrow> bytes \<times> uuid \<Rightarrow> py_exn + (string, pyval) dict \<times> (string, pyval) dict \<times> bool \<times> node \<times> node" where
  "state_sync_script call P user env_a env_b ws env_key fs ka kb =
     (case demo_pair (ed_prims P) env_key fs [''web_search'', ''data_extraction''] [''data_scoring'', ''report_generation''] ka kb of
        Inl e \<Rightarrow> Inl e
      | Inr (a, b) \<Rightarrow>
          (let a = call (sets ''title'' (PStr ''CTO'') 1) (call (sets ''company'' (PStr ''TechCorp'') 1) a);
               b = call (sets ''intent'' (PStr ''high'') 2) (call (sets ''lead_score'' (PInt 95) 2) b);
               payload_a = demo_state_payload a; payload_b = demo_state_payload b
           in case send_message P env_a 0 (snd kb) STATE_SYNC payload_a False None a of
                (a, outs, Inl e) \<Rightarrow> Inl e
              | (a, outs_a, Inr _) \<Rightarrow>
                  (case send_message P env_b 0 (snd ka) STATE_SYNC payload_b False None b of
                     (b, outs, Inl e) \<Rightarrow> Inl e
                   | (b, outs_b, Inr _) \<Rightarrow>
                       (let a = arrives P user env_a ws outs_b a; b = arrives P user env_b ws outs_a b;
                            final_a = to_dict (shared_memory a); final_b = to_dict (shared_memory b)
                        in Inr (final_a, final_b, same_dict final_a final_b, fst (stop_listening a), fst (stop_listening b))))))"

definition run_state_sync_demo ::
  "platform \<Rightarrow> user_handlers \<Rightarrow> nenv \<Rightarrow> nenv \<Rightarrow> conn \<Rightarrow> string option \<Rightarrow> filesystem \<Rightarrow> bytes \<times> uuid \<Rightarrow> bytes \<times> uuid \<Rightarrow>
   py_exn + (string, pyval) dict \<times> (string, pyval) dict \<times> bool \<times> node \<times> node" where
  "run_state_sync_demo = state_sync_script dropped_call"

section \<open>Vectors\<close>

definition demo_vector_payload :: "pyfloat list \<Rightarrow> vector_payload" where
  "demo_vector_payload v = \<lparr>vec_model_id = ''text-embedding-3-small'', dimensions = 1536, vector = v,
     raw_text_fallback = Some ''Lead Bio: Ex-OpenAI researcher now building decentralized AI orchestration...''\<rparr>"

text \<open>The result: the model and the length of the stored vector that the script prints on success.\<close>

definition run_telepathy_demo ::
  "platform \<Rightarrow> user_handlers \<Rightarrow> nenv \<Rightarrow> nenv \<Rightarrow> conn \<Rightarrow> string option \<Rightarrow> filesystem \<Rightarrow> bytes \<times> uuid \<Rightarrow> bytes \<times> uuid \<Rightarrow>
   pyfloat list \<Rightarrow> py_exn + (string \<times> nat) option \<times> node \<times> node" where
  "run_telepathy_demo P user env_a env_b ws env_key fs ka kb v =
     (case demo_pair (ed_prims P) env_key fs [''web_search'', ''embedding_generation'']
       [''data_scoring'', ''report_generation''] ka kb of
        Inl e \<Rightarrow> Inl e
      | Inr (a, b) \<Rightarrow>
          (case validate_embedding (demo_vector_payload v) of
             Inl e \<Rightarrow> Inl e
           | Inr p \<Rightarrow>
               (case send_message P env_a 0 (snd kb) STATE_SYNC_VECTOR (VectorP p) False None a of
                  (a, outs, Inl e) \<Rightarrow> Inl e
                | (a, outs, Inr _) \<Rightarrow>
                    (let b = arrives P user env_b ws outs b;
                         stored = (if total_vectors (nd_bank b) = 1
                           then map_option (\<lambda>(k, e). (ent_model_id e, length (ent_vector e))) (List.find (\<lambda>_. True) (embeddings (nd_bank b)))
                           else None)
                     in Inr (stored, fst (stop_listening a), fst (stop_listening b))))))"

section \<open>The pair\<close>

text \<open>The network between the two ports works.\<close>

definition ports_open :: "nenv \<Rightarrow> bool" where
  "ports_open env \<longleftrightarrow> (\<forall>url. connect_to env url \<noteq> None) \<and> (\<forall>ws e. send_ok env ws e)"

definition fresh_peer :: "ed25519 \<Rightarrow> node \<Rightarrow> uuid \<Rightarrow> node \<Rightarrow> bool" where
  "fresh_peer ed n u peer \<longleftrightarrow> manager_wf ed (nd_manager n) \<and> agent_id (nd_identity n) = u \<and>
     (\<exists>ident addr. map_of (peer_registry n) (agent_id (nd_identity peer)) = Some (ident, addr) \<and>
        public_key ident = get_public_key_string (nd_manager peer)) \<and>
     peer_connections n = [] \<and> seen_messages n = [] \<and> nd_acl n = None \<and>
     shared_memory n = new_lww (uuid_str u) None \<and> nd_bank n = new_bank (uuid_str u) \<and>
     map_of (handlers n) STATE_SYNC = Some HandleStateSync \<and> map_of (handlers n) STATE_SYNC_VECTOR = Some HandleVectorSync"

lemma demo_agent_key:
  assumes "snd (new_manager ed env_key (fst key) None None False fs) = Inr m"
  shows "demo_agent ed env_key fs key fw caps pk port =
    Inr (new_node ((mk_identity (snd key) fw pk)\<lparr>capabilities := caps\<rparr>) ''127.0.0.1'' port None m False None)"
  using assms by (cases "new_manager ed env_key (fst key) None None False fs") (simp add: demo_agent_def init_node_def)

lemma demo_pair_ready:
  assumes "snd (new_manager ed env_key (fst ka) None None False fs) = Inr ma" "snd (new_manager ed env_key (fst kb) None None False fs) = Inr mb"
    and "length (fst ka) = 32" "length (fst kb) = 32"
  obtains a b where "demo_pair ed env_key fs caps_a caps_b ka kb = Inr (a, b)" "fresh_peer ed a (snd ka) b" "fresh_peer ed b (snd kb) a"
proof -
  have wf: "manager_wf ed ma" "manager_wf ed mb"
    using new_manager_wf [of ed env_key _ None None False fs] assms by (metis prod.collapse)+
  have start: "start_listening [] (register_peer i addr (new_node ident h p None m False None)) =
      ((register_peer i addr (new_node ident h p None m False None))\<lparr>serving := True, nd_running := True\<rparr>, None)" for i addr ident h p m
    by (simp add: start_listening_def lww_connect_def register_peer_def new_node_def register_handler_def new_lww_def)
  let ?A = "new_node ((mk_identity (snd ka) ''LangGraph'' ''pub_key_hunter_A'')\<lparr>capabilities := caps_a\<rparr>) ''127.0.0.1'' 8000 None ma False None"
    and ?B = "new_node ((mk_identity (snd kb) ''CrewAI'' ''pub_key_scorer_B'')\<lparr>capabilities := caps_b\<rparr>) ''127.0.0.1'' 8001 None mb False None"
  let ?a = "(register_peer (nd_identity ?B) ''ws://127.0.0.1:8001'' ?A)\<lparr>serving := True, nd_running := True\<rparr>"
    and ?b = "(register_peer (nd_identity ?A) ''ws://127.0.0.1:8000'' ?B)\<lparr>serving := True, nd_running := True\<rparr>"
  have "demo_pair ed env_key fs caps_a caps_b ka kb = Inr (?a, ?b)"
    unfolding demo_pair_def demo_agent_key [OF assms(1)] demo_agent_key [OF assms(2)] sum.case both_listen_def start by simp
  moreover have "fresh_peer ed ?a (snd ka) ?b" "fresh_peer ed ?b (snd kb) ?a"
    using wf by (simp_all add: fresh_peer_def register_peer_def new_node_def register_handler_def mk_identity_def)
  ultimately show thesis by (rule that)
qed

text \<open>A message of one node to the other arrives at the handler.\<close>

lemma demo_send:
  assumes ed: "ed_correct (ed_prims P)" "\<forall>sk m. length sk = 32 \<longrightarrow> ed_sign (ed_prims P) sk m \<noteq> []"
    and a: "manager_wf (ed_prims P) (nd_manager a)" "map_of (peer_registry a) t \<noteq> None" "peer_connections a = []"
    and net: "ports_open env" and wf: "wf_payload pl"
  obtains a' outs mid where "send_message P env 0 t i pl False None a = (a', outs, Inr mid)" "same_but_links a a'"
    "\<And>b env' h ws. accepts_from env' b (agent_id (nd_identity a)) (get_public_key_string (nd_manager a)) (fresh_id env 0) i h \<Longrightarrow>
      \<exists>e. payload e = pl \<and> message_id (header e) = fresh_id env 0 \<and>
        arrives P user env' ws outs b = fst (run_handler P user env' h e ws (noted env' e b))"
proof -
  from send_message_ok [OF wf, of P a env t 0 i] obtain sig a' outs where
    d: "dispatch_envelope env t (mk_envelope (create_header env 0 a t i) pl (Some sig)) a = (a', outs)"
      "send_message P env 0 t i pl False None a = (a', outs, Inr (fresh_id env 0))" by blast
  have ne: "envelopes_of outs \<noteq> []"
    using d(1) a(2,3) net
    by (auto simp: dispatch_envelope_def get_peer_connection_def Let_def ports_open_def split: option.splits prod.splits)
      (metis option.distinct(1))
  have same: "same_but_links a a'" using dispatch_frame [of a env t] d(1) by (metis fst_conv)
  show thesis
  proof (rule that [OF d(2) same])
    fix b env' h ws
    assume acc: "accepts_from env' b (agent_id (nd_identity a)) (get_public_key_string (nd_manager a)) (fresh_id env 0) i h"
    obtain sig where s: "envelopes_of outs = [mk_envelope (create_header env 0 a t i) pl (Some sig)]"
      "process_envelope P user env' ws (mk_envelope (create_header env 0 a t i) pl (Some sig)) b =
       (case run_handler P user env' h (mk_envelope (create_header env 0 a t i) pl (Some sig)) ws
               (noted env' (mk_envelope (create_header env 0 a t i) pl (Some sig)) b) of (n', outs, exc) \<Rightarrow> (n', outs))"
      using sent_is_handled [OF ed a(1) wf acc d(2) ne] by blast
    let ?e = "mk_envelope (create_header env 0 a t i) pl (Some sig)"
    have "payload ?e = pl" "message_id (header ?e) = fresh_id env 0" by (simp_all add: mk_envelope_def create_header_def)
    moreover have "arrives P user env' ws outs b = fst (run_handler P user env' h ?e ws (noted env' ?e b))"
      unfolding arrives_def s(1) by (simp add: s(2) case_prod_beta Let_def)
    ultimately show "\<exists>e. payload e = pl \<and> message_id (header e) = fresh_id env 0 \<and>
        arrives P user env' ws outs b = fst (run_handler P user env' h e ws (noted env' e b))" by blast
  qed
qed

lemma fresh_peer_accepts:
  assumes "fresh_peer ed b v a" "(i, h) \<in> {(STATE_SYNC, HandleStateSync), (STATE_SYNC_VECTOR, HandleVectorSync)}"
  shows "accepts_from env b (agent_id (nd_identity a)) (get_public_key_string (nd_manager a)) mid i h"
  using assms by (auto simp: fresh_peer_def accepts_from_def evict_seen_def)

section \<open>The outcome\<close>

lemma sets_simps [simp]:
  "nd_manager (sets k v t n) = nd_manager n" "nd_identity (sets k v t n) = nd_identity n"
  "peer_registry (sets k v t n) = peer_registry n" "peer_connections (sets k v t n) = peer_connections n"
  "shared_memory (sets k v t n) = lww_set k v (Some t) None (shared_memory n)"
  "accepts_from env (sets k v t n) u key mid i h = accepts_from env n u key mid i h"
  by (simp_all add: sets_def accepts_from_def)

lemma accepts_from_links: "same_but_links n n' \<Longrightarrow> accepts_from env n' u key mid i h = accepts_from env n u key mid i h"
  unfolding same_but_links_def accepts_from_def by (cases n; cases n') simp

lemma links_memory: "same_but_links n n' \<Longrightarrow> shared_memory n' = shared_memory n \<and> nd_bank n' = nd_bank n \<and> handlers n' = handlers n"
  unfolding same_but_links_def by (cases n; cases n') simp

lemma state_handled:
  "payload e = demo_state_payload a \<Longrightarrow> shared_memory (fst (run_handler P user env HandleStateSync e ws (noted env e n))) =
    apply_writes (lww_state (shared_memory a)) (shared_memory n)"
  by (simp add: run_handler_def handle_state_sync_def demo_state_payload_def merge_serialized noted_def)

lemma demo_memories:
  fixes wa wb :: string
  defines "ma \<equiv> lww_set ''title'' (PStr ''CTO'') (Some 1) None (lww_set ''company'' (PStr ''TechCorp'') (Some 1) None (new_lww wa None))"
    and "mb \<equiv> lww_set ''intent'' (PStr ''high'') (Some 2) None (lww_set ''lead_score'' (PInt 95) (Some 2) None (new_lww wb None))"
  shows "lww_state ma = [(''company'', PStr ''TechCorp'', 1, wa), (''title'', PStr ''CTO'', 1, wa)]"
    "lww_state mb = [(''lead_score'', PInt 95, 2, wb), (''intent'', PStr ''high'', 2, wb)]"
    "to_dict (apply_writes (lww_state mb) ma) =
      [(''company'', PStr ''TechCorp''), (''title'', PStr ''CTO''), (''lead_score'', PInt 95), (''intent'', PStr ''high'')]"
    "to_dict (apply_writes (lww_state ma) mb) =
      [(''lead_score'', PInt 95), (''intent'', PStr ''high''), (''company'', PStr ''TechCorp''), (''title'', PStr ''CTO'')]"
proof -
  show a: "lww_state ma = [(''company'', PStr ''TechCorp'', 1, wa), (''title'', PStr ''CTO'', 1, wa)]"
    and b: "lww_state mb = [(''lead_score'', PInt 95, 2, wb), (''intent'', PStr ''high'', 2, wb)]"
    by (simp_all add: ma_def mb_def lww_set_def new_lww_def persist_def)
  have "db_conn ma = None" "db_conn mb = None" by (simp_all add: ma_def mb_def lww_set_def new_lww_def persist_def)
  then show "to_dict (apply_writes (lww_state mb) ma) =
      [(''company'', PStr ''TechCorp''), (''title'', PStr ''CTO''), (''lead_score'', PInt 95), (''intent'', PStr ''high'')]"
    "to_dict (apply_writes (lww_state ma) mb) =
      [(''lead_score'', PInt 95), (''intent'', PStr ''high''), (''company'', PStr ''TechCorp''), (''title'', PStr ''CTO'')]"
    using a b by (simp_all add: to_dict_def apply_writes_def apply_write_def lww_set_def persist_def Let_def)
qed

lemma wf_demo_state: "json_state n \<Longrightarrow> wf_payload (demo_state_payload n)"
  using wf_sync_payload [of n] by (simp add: demo_state_payload_def sync_payload_def)

text \<open>Had the script awaited the four calls, both nodes would end with the same four entries on every working
  network.\<close>

lemma awaited_demo_succeeds:
  assumes "ed_correct (ed_prims P)" "\<forall>sk m. length sk = 32 \<longrightarrow> ed_sign (ed_prims P) sk m \<noteq> []"
    and "snd (new_manager (ed_prims P) env_key (fst ka) None None False fs) = Inr ma"
    and "snd (new_manager (ed_prims P) env_key (fst kb) None None False fs) = Inr mb"
    and "length (fst ka) = 32" "length (fst kb) = 32" "ports_open env_a" "ports_open env_b"
  shows "\<exists>da db a b. state_sync_script awaited P user env_a env_b ws env_key fs ka kb = Inr (da, db, True, a, b) \<and>
    map_of da = [''company'' \<mapsto> PStr ''TechCorp'', ''title'' \<mapsto> PStr ''CTO'', ''lead_score'' \<mapsto> PInt 95, ''intent'' \<mapsto> PStr ''high''] \<and>
    map_of db = map_of da"
proof -
  obtain a0 b0 where pair: "demo_pair (ed_prims P) env_key fs [''web_search'', ''data_extraction''] [''data_scoring'', ''report_generation''] ka kb = Inr (a0, b0)"
    and f: "fresh_peer (ed_prims P) a0 (snd ka) b0" "fresh_peer (ed_prims P) b0 (snd kb) a0"
    using demo_pair_ready [OF assms(3-6)] by blast
  define a where "a = sets ''title'' (PStr ''CTO'') 1 (sets ''company'' (PStr ''TechCorp'') 1 a0)"
  define b where "b = sets ''intent'' (PStr ''high'') 2 (sets ''lead_score'' (PInt 95) 2 b0)"
  have mem: "shared_memory a = lww_set ''title'' (PStr ''CTO'') (Some 1) None (lww_set ''company'' (PStr ''TechCorp'') (Some 1) None (new_lww (uuid_str (snd ka)) None))"
    "shared_memory b = lww_set ''intent'' (PStr ''high'') (Some 2) None (lww_set ''lead_score'' (PInt 95) (Some 2) None (new_lww (uuid_str (snd kb)) None))"
    using f by (simp_all add: a_def b_def fresh_peer_def)
  note dicts = demo_memories(1) [where wa = "uuid_str (snd ka)", folded mem] demo_memories(2) [where wb = "uuid_str (snd kb)", folded mem]
    demo_memories(3,4) [where wa = "uuid_str (snd ka)" and wb = "uuid_str (snd kb)", folded mem]
  have js: "json_state a" "json_state b" by (simp_all add: json_state_def dicts(1,2))
  have na: "manager_wf (ed_prims P) (nd_manager a)" "map_of (peer_registry a) (snd kb) \<noteq> None" "peer_connections a = []"
    and nb: "manager_wf (ed_prims P) (nd_manager b)" "map_of (peer_registry b) (snd ka) \<noteq> None" "peer_connections b = []"
    using f by (auto simp: a_def b_def fresh_peer_def)
  obtain a1 outs_a mid_a where sa: "send_message P env_a 0 (snd kb) STATE_SYNC (demo_state_payload a) False None a = (a1, outs_a, Inr mid_a)"
      "same_but_links a a1"
    and ra: "\<And>n env' h ws. accepts_from env' n (agent_id (nd_identity a)) (get_public_key_string (nd_manager a)) (fresh_id env_a 0) STATE_SYNC h \<Longrightarrow>
      \<exists>e. payload e = demo_state_payload a \<and> message_id (header e) = fresh_id env_a 0 \<and>
        arrives P user env' ws outs_a n = fst (run_handler P user env' h e ws (noted env' e n))"
    using demo_send [OF assms(1,2) na assms(7) wf_demo_state [OF js(1)]] by metis
  obtain b1 outs_b mid_b where sb: "send_message P env_b 0 (snd ka) STATE_SYNC (demo_state_payload b) False None b = (b1, outs_b, Inr mid_b)"
      "same_but_links b b1"
    and rb: "\<And>n env' h ws. accepts_from env' n (agent_id (nd_identity b)) (get_public_key_string (nd_manager b)) (fresh_id env_b 0) STATE_SYNC h \<Longrightarrow>
      \<exists>e. payload e = demo_state_payload b \<and> message_id (header e) = fresh_id env_b 0 \<and>
        arrives P user env' ws outs_b n = fst (run_handler P user env' h e ws (noted env' e n))"
    using demo_send [OF assms(1,2) nb assms(8) wf_demo_state [OF js(2)]] by metis
  have "accepts_from env_b b1 (agent_id (nd_identity a)) (get_public_key_string (nd_manager a)) (fresh_id env_a 0) STATE_SYNC HandleStateSync"
    "accepts_from env_a a1 (agent_id (nd_identity b)) (get_public_key_string (nd_manager b)) (fresh_id env_b 0) STATE_SYNC HandleStateSync"
    using fresh_peer_accepts [OF f(2)] fresh_peer_accepts [OF f(1)]
    by (simp_all add: accepts_from_links [OF sb(2)] accepts_from_links [OF sa(2)]) (simp_all add: a_def b_def)
  then have "shared_memory (arrives P user env_b ws outs_a b1) = apply_writes (lww_state (shared_memory a)) (shared_memory b)"
    "shared_memory (arrives P user env_a ws outs_b a1) = apply_writes (lww_state (shared_memory b)) (shared_memory a)"
    using ra [of env_b b1 HandleStateSync ws] rb [of env_a a1 HandleStateSync ws] state_handled
      links_memory [OF sa(2)] links_memory [OF sb(2)] by metis+
  note final = this dicts(3,4)
  show ?thesis
    unfolding state_sync_script_def pair sum.case prod.case Let_def awaited_def a_def [symmetric] b_def [symmetric] sa(1) sb(1) final
    by (simp add: same_dict_def fun_upd_twist)
qed

text \<open>An empty map on the wire changes nothing, whatever the middleware makes of the message.\<close>

lemma empty_sync_ignored:
  assumes "shared_memory a = new_lww w None" "map_of (handlers n) STATE_SYNC = Some HandleStateSync"
    and "payload e = demo_state_payload a" "intent (header e) = STATE_SYNC"
  shows "shared_memory (fst (process_envelope P user env ws e n)) = shared_memory n"
proof (cases rule: process_envelope_outcome [of P user env ws e n])
  case (handled h n' outs exc)
  with assms(2,4) have "run_handler P user env HandleStateSync e ws (noted env e n) = (n', outs, exc)" by simp
  then have "shared_memory n' = apply_writes (lww_state (shared_memory a)) (shared_memory n)"
    using state_handled [OF assms(3), of P user env ws n] by simp
  with handled(7) assms(1) show ?thesis by (simp add: new_lww_def apply_writes_def)
qed simp

lemma empty_sync_sent:
  assumes "shared_memory a = new_lww w None"
  obtains a' outs mid where "send_message P env k t STATE_SYNC (demo_state_payload a) False None a = (a', outs, Inr mid)"
    "same_but_links a a'"
    "\<And>n env' ws. map_of (handlers n) STATE_SYNC = Some HandleStateSync \<Longrightarrow>
       shared_memory (arrives P user env' ws outs n) = shared_memory n"
proof -
  have "wf_payload (demo_state_payload a)" by (rule wf_demo_state) (simp add: json_state_def assms new_lww_def)
  from send_message_ok [OF this, of P a env t k STATE_SYNC] obtain sig a' outs where
    d: "dispatch_envelope env t (mk_envelope (create_header env k a t STATE_SYNC) (demo_state_payload a) (Some sig)) a = (a', outs)"
      "send_message P env k t STATE_SYNC (demo_state_payload a) False None a = (a', outs, Inr (fresh_id env k))" by blast
  let ?e = "mk_envelope (create_header env k a t STATE_SYNC) (demo_state_payload a) (Some sig)"
  have one: "envelopes_of outs = [] \<or> envelopes_of outs = [?e]"
    using dispatch_cases [of env t ?e a] d(1) by (metis Pair_inject envelopes_of_simps(1,4,5))
  have "shared_memory (fst (process_envelope P user env' ws ?e n)) = shared_memory n"
    if "map_of (handlers n) STATE_SYNC = Some HandleStateSync" for n env' ws
    using empty_sync_ignored [OF assms that, of ?e] by (simp add: mk_envelope_def create_header_def)
  with one have got: "shared_memory (arrives P user env' ws outs n) = shared_memory n"
    if "map_of (handlers n) STATE_SYNC = Some HandleStateSync" for n env' ws
    using that by (auto simp: arrives_def case_prod_beta Let_def)
  show thesis using that [OF d(2) _ got] dispatch_frame [of a env t ?e] d(1) by simp
qed

text \<open>The demonstration of shared memory prints its success for nothing: whatever the network does, the four
  entries are never written, since the coroutines that would write them are not awaited, and the two maps that it
  finds equal are empty.\<close>

theorem state_sync_demo_is_vacuous:
  assumes "snd (new_manager (ed_prims P) env_key (fst ka) None None False fs) = Inr ma"
    and "snd (new_manager (ed_prims P) env_key (fst kb) None None False fs) = Inr mb"
    and "length (fst ka) = 32" "length (fst kb) = 32"
  shows "\<exists>a b. run_state_sync_demo P user env_a env_b ws env_key fs ka kb = Inr ([], [], True, a, b)"
proof -
  obtain a b where pair: "demo_pair (ed_prims P) env_key fs [''web_search'', ''data_extraction''] [''data_scoring'', ''report_generation''] ka kb = Inr (a, b)"
    and f: "fresh_peer (ed_prims P) a (snd ka) b" "fresh_peer (ed_prims P) b (snd kb) a"
    using demo_pair_ready [OF assms] by blast
  have mem: "shared_memory a = new_lww (uuid_str (snd ka)) None" "shared_memory b = new_lww (uuid_str (snd kb)) None"
    and h: "map_of (handlers a) STATE_SYNC = Some HandleStateSync" "map_of (handlers b) STATE_SYNC = Some HandleStateSync"
    using f by (simp_all add: fresh_peer_def)
  obtain a1 outs_a mid_a where sa: "send_message P env_a 0 (snd kb) STATE_SYNC (demo_state_payload a) False None a = (a1, outs_a, Inr mid_a)"
      "same_but_links a a1" "\<And>n env' ws. map_of (handlers n) STATE_SYNC = Some HandleStateSync \<Longrightarrow>
        shared_memory (arrives P user env' ws outs_a n) = shared_memory n"
    using empty_sync_sent [OF mem(1)] by metis
  obtain b1 outs_b mid_b where sb: "send_message P env_b 0 (snd ka) STATE_SYNC (demo_state_payload b) False None b = (b1, outs_b, Inr mid_b)"
      "same_but_links b b1" "\<And>n env' ws. map_of (handlers n) STATE_SYNC = Some HandleStateSync \<Longrightarrow>
        shared_memory (arrives P user env' ws outs_b n) = shared_memory n"
    using empty_sync_sent [OF mem(2)] by metis
  have "map_of (handlers a1) STATE_SYNC = Some HandleStateSync" "map_of (handlers b1) STATE_SYNC = Some HandleStateSync"
    using h links_memory [OF sa(2)] links_memory [OF sb(2)] by simp_all
  then have "shared_memory (arrives P user env_a ws outs_b a1) = new_lww (uuid_str (snd ka)) None"
    "shared_memory (arrives P user env_b ws outs_a b1) = new_lww (uuid_str (snd kb)) None"
    using sa(3) sb(3) mem links_memory [OF sa(2)] links_memory [OF sb(2)] by simp_all
  then show ?thesis
    unfolding run_state_sync_demo_def state_sync_script_def dropped_call_def pair sum.case prod.case Let_def sa(1) sb(1)
    by (simp add: to_dict_def new_lww_def same_dict_def)
qed

text \<open>The keys that the witnesses give the two nodes.\<close>

definition key_of :: "nat \<Rightarrow> bytes \<times> uuid" where
  "key_of i = (replicate 32 (of_nat i), of_nat i)"

lemma key_of_manager:
  "snd (new_manager (ed_prims demo_platform) None (fst (key_of i)) None None False []) =
     Inr \<lparr>im_key_path = DEFAULT_KEY_FILE, was_loaded = False, private_key = fst (key_of i), im_public_key = fst (key_of i)\<rparr>"
  "length (fst (key_of i)) = 32" "ports_open connected"
  "ed_correct (ed_prims demo_platform)" "\<forall>sk m. length sk = 32 \<longrightarrow> ed_sign (ed_prims demo_platform) sk m \<noteq> []"
  using plain_ed_laws(1) plain_ed_sign_ne
  by (simp_all add: new_manager_def plain_ed_def Let_def key_of_def ports_open_def connected_def at_time_def)

theorem state_sync_demo_is_vacuous_witness:
  "\<exists>a b. run_state_sync_demo demo_platform no_user connected connected 3 None [] (key_of 1) (key_of 2) = Inr ([], [], True, a, b)"
  by (rule state_sync_demo_is_vacuous [OF key_of_manager(1,1,2,2)])

text \<open>The demonstration of vector synchronisation: the receiver's bank ends with the one vector that was sent, under
  the id of the message, and the script prints the model and the length 1536.\<close>

theorem telepathy_demo_succeeds:
  assumes "ed_correct (ed_prims P)" "\<forall>sk m. length sk = 32 \<longrightarrow> ed_sign (ed_prims P) sk m \<noteq> []"
    and "snd (new_manager (ed_prims P) env_key (fst ka) None None False fs) = Inr ma"
    and "snd (new_manager (ed_prims P) env_key (fst kb) None None False fs) = Inr mb"
    and "length (fst ka) = 32" "length (fst kb) = 32" "ports_open env_a"
    and v: "length v = 1536" "list_all float_lex v"
  shows "\<exists>a b. run_telepathy_demo P user env_a env_b ws env_key fs ka kb v = Inr (Some (''text-embedding-3-small'', 1536), a, b) \<and>
    get_vector (nd_bank b) (fresh_id env_a 0) =
      Some (map float_value v, ''text-embedding-3-small'', raw_text_fallback (demo_vector_payload v))"
proof -
  obtain a b where pair: "demo_pair (ed_prims P) env_key fs [''web_search'', ''embedding_generation''] [''data_scoring'', ''report_generation''] ka kb = Inr (a, b)"
    and f: "fresh_peer (ed_prims P) a (snd ka) b" "fresh_peer (ed_prims P) b (snd kb) a"
    using demo_pair_ready [OF assms(3-6)] by blast
  let ?p = "demo_vector_payload v"
  have ok: "validate_embedding ?p = Inr ?p" "wf_payload (VectorP ?p)"
    using v by (simp_all add: validate_embedding_def demo_vector_payload_def KNOWN_MODELS_def)
  have na: "manager_wf (ed_prims P) (nd_manager a)" "map_of (peer_registry a) (snd kb) \<noteq> None" "peer_connections a = []"
    using f by (auto simp: fresh_peer_def)
  obtain a1 outs mid where sent: "send_message P env_a 0 (snd kb) STATE_SYNC_VECTOR (VectorP ?p) False None a = (a1, outs, Inr mid)"
    and r: "\<And>n env' h ws. accepts_from env' n (agent_id (nd_identity a)) (get_public_key_string (nd_manager a)) (fresh_id env_a 0) STATE_SYNC_VECTOR h \<Longrightarrow>
      \<exists>e. payload e = VectorP ?p \<and> message_id (header e) = fresh_id env_a 0 \<and>
        arrives P user env' ws outs n = fst (run_handler P user env' h e ws (noted env' e n))"
    using demo_send [OF assms(1,2) na assms(7) ok(2)] by metis
  obtain e where e: "payload e = VectorP ?p" "message_id (header e) = fresh_id env_a 0"
    "arrives P user env_b ws outs b = fst (run_handler P user env_b HandleVectorSync e ws (noted env_b e b))"
    using r [OF fresh_peer_accepts [OF f(2)]] by blast
  have "nd_bank (arrives P user env_b ws outs b) =
      store_vector (fresh_id env_a 0) (map float_value v) ''text-embedding-3-small'' (raw_text_fallback ?p) (new_bank (uuid_str (snd kb)))"
    using f(2) by (simp add: e run_handler_def handle_vector_sync_def noted_def fresh_peer_def) (simp add: demo_vector_payload_def)
  then show ?thesis
    unfolding run_telepathy_demo_def pair sum.case prod.case ok(1) sent Let_def
    by (simp add: store_vector_def new_bank_def total_vectors_def get_vector_def stop_listening_def v(1) split: prod.splits)
qed

text \<open>A vector of another length is refused when the payload is made, and nothing is sent.\<close>

lemma telepathy_demo_wrong_size:
  assumes "length v \<noteq> 1536"
  shows "\<exists>e. run_telepathy_demo P user env_a env_b ws env_key fs ka kb v = Inl e"
  using assms
  by (cases "demo_pair (ed_prims P) env_key fs [''web_search'', ''embedding_generation''] [''data_scoring'', ''report_generation''] ka kb")
    (auto simp: run_telepathy_demo_def validate_embedding_def demo_vector_payload_def)

end
