(* ===== verification/PyStr.thy ===== *)
theory PyStr
  imports JsonLoads Schema
begin

text \<open>
  The texts that the adapters make of Python values: \<^verbatim>\<open>json.dumps\<close> without \<^verbatim>\<open>sort_keys\<close>, which keeps
  the order of a dictionary's keys, and \<^verbatim>\<open>str\<close> and \<^verbatim>\<open>repr\<close>. \<^verbatim>\<open>json.loads\<close> gives back exactly the value that
  the unsorted text was written from (\<open>loads_enc_raw\<close>).
\<close>

section \<open>json.dumps\<close>

primrec enc_raw :: "dump_opts \<Rightarrow> pyval \<Rightarrow> string" where
  "enc_raw p PNone = ''null''"
| "enc_raw p (PBool b) = (if b then ''true'' else ''false'')"
| "enc_raw p (PInt i) = show_int i"
| "enc_raw p (PFloat r) = r"
| "enc_raw p (PStr s) = quote (ensure_ascii p) s"
| "enc_raw p (PUuid u) = quote (ensure_ascii p) (uuid_str u)"
| "enc_raw p (PList vs) = ''['' @ join (item_sep p) (map (enc_raw p) vs) @ '']''"
| "enc_raw p (PDict kvs) =
     ''{'' @ join (item_sep p)
               (map (\<lambda>kv. quote (ensure_ascii p) (fst kv) @ key_sep p @ snd kv)
                  (map (map_prod id (enc_raw p)) kvs)) @ ''}''"

text \<open>The options of a plain call, and of one with \<^verbatim>\<open>default=str\<close>.\<close>

definition plain_opts :: "bool \<Rightarrow> dump_opts" where
  "plain_opts with_default =
     \<lparr>item_sep = '', '', key_sep = '': '', ensure_ascii = True, default_str = with_default\<rparr>"

definition json_dumps_raw :: "dump_opts \<Rightarrow> pyval \<Rightarrow> py_exn + string" where
  "json_dumps_raw p v =
     (if default_str p \<or> jsonable v then Inr (enc_raw p v)
      else Inl (TypeError ''Object of type UUID is not JSON serializable''))"

section \<open>str and repr\<close>

text \<open>\<^verbatim>\<open>str.isprintable\<close> for the characters of the model.\<close>

definition printable :: "char \<Rightarrow> bool" where
  "printable c \<longleftrightarrow> (let n = of_char c :: int in 32 \<le> n \<and> n < 127 \<or> 161 \<le> n \<and> n \<noteq> 173)"

definition repr_char :: "char \<Rightarrow> char \<Rightarrow> string" where
  "repr_char q c =
     (if c = q \<or> c = CHR 0x5C then [CHR 0x5C, c]
      else if c = CHR 0x0A then [CHR 0x5C, CHR ''n'']
      else if c = CHR 0x0D then [CHR 0x5C, CHR ''r'']
      else if c = CHR 0x09 then [CHR 0x5C, CHR ''t'']
      else if printable c then [c]
      else [CHR 0x5C, CHR ''x''] @ hex_fixed 2 (of_char c))"

definition repr_str :: "string \<Rightarrow> string" where
  "repr_str s =
     (let q = (if CHR 0x27 \<in> set s \<and> CHR 0x22 \<notin> set s then CHR 0x22 else CHR 0x27)
      in [q] @ concat (map (repr_char q) s) @ [q])"

definition repr_float :: "string \<Rightarrow> string" where
  "repr_float r =
     (if r = ''NaN'' then ''nan'' else if r = ''Infinity'' then ''inf'' else if r = ''-Infinity'' then ''-inf'' else r)"

primrec py_repr :: "pyval \<Rightarrow> string" where
  "py_repr PNone = ''None''"
| "py_repr (PBool b) = (if b then ''True'' else ''False'')"
| "py_repr (PInt i) = show_int i"
| "py_repr (PFloat r) = repr_float r"
| "py_repr (PStr s) = repr_str s"
| "py_repr (PUuid u) = ''UUID('' @ repr_str (uuid_str u) @ '')''"
| "py_repr (PList vs) = ''['' @ join '', '' (map py_repr vs) @ '']''"
| "py_repr (PDict kvs) =
     ''{'' @ join '', '' (map (\<lambda>kv. repr_str (fst kv) @ '': '' @ snd kv) (map (map_prod id py_repr) kvs)) @ ''}''"

fun py_str :: "pyval \<Rightarrow> string" where
  "py_str (PStr s) = s"
| "py_str (PUuid u) = uuid_str u"
| "py_str v = py_repr v"

section \<open>Reading an unsorted text back\<close>

definition compound :: "pyval \<Rightarrow> bool" where
  "compound v \<longleftrightarrow> (case v of PList vs \<Rightarrow> True | PDict kvs \<Rightarrow> True | _ \<Rightarrow> False)"

lemma enc_raw_atom: "\<not> compound v \<Longrightarrow> enc_raw p v = enc p v"
  by (cases v) (simp_all add: compound_def)

lemma canon_atom: "\<not> compound v \<Longrightarrow> canon v = v"
  by (cases v) (simp_all add: compound_def)

lemma enc_raw_PDict:
  "enc_raw p (PDict kvs) =
     ''{'' @ join (item_sep p) (map (\<lambda>x. quote (ensure_ascii p) (fst x) @ key_sep p @ enc_raw p (snd x)) kvs) @ ''}''"
  by (simp add: comp_def)

lemma tok_open: "tok_char (CHR ''['')" "tok_char (CHR ''{'')" "\<not> is_ws (CHR ''['')" "\<not> is_ws (CHR ''{'')"
  by code_simp+

lemma enc_raw_hd:
  assumes "json_val v"
  shows "enc_raw p v \<noteq> [] \<and> \<not> is_ws (hd (enc_raw p v)) \<and> tok_char (hd (enc_raw p v))"
proof (cases "compound v")
  case True
  then show ?thesis using tok_open by (cases v) (simp_all add: compound_def)
next
  case False
  with enc_not_ws enc_hd json_val_wf [OF assms] show ?thesis by (simp add: enc_raw_atom)
qed

lemma parse_val_atom_raw:
  "std_opts p \<Longrightarrow> \<not> compound v \<Longrightarrow> json_val v \<Longrightarrow> vdepth v \<le> f \<Longrightarrow> follow r \<Longrightarrow>
   parse_val f (enc_raw p v @ r) = Some (v, r)"
  using parse_val_enc [of p v f r] by (simp only: enc_raw_atom canon_atom simp_thms)

lemma depth_atom_raw: "\<not> compound v \<Longrightarrow> json_val v \<Longrightarrow> vdepth v \<le> length (enc_raw p v)"
  by (metis depth_enc enc_raw_atom)

lemma parse_val_enc_raw:
  assumes p: "std_opts p"
  shows "json_val v \<Longrightarrow> vdepth v \<le> f \<Longrightarrow> follow r \<Longrightarrow> parse_val f (enc_raw p v @ r) = Some (v, r)"
proof (induction v arbitrary: f r)
  case (PList vs)
  obtain g where f: "f = Suc g" using PList.prems(2) by (cases f) auto
  have mem: "json_val v \<and> vdepth v \<le> g" if "v \<in> set vs" for v
    using PList.prems that foldr_max_le [of "vdepth v" "map vdepth vs"] by (auto simp: f list_all_iff)
  have "parse_val (Suc g) ((''['' @ join (item_sep p) (map (enc_raw p) vs) @ '']'') @ r) = Some (PList (map id vs), r)"
    using mem enc_raw_hd PList.IH by (intro parse_items [OF p, where c = id]) auto
  then show ?case by (simp add: f del: parse_val.simps)
next
  case (PDict kvs)
  obtain g where f: "f = Suc g" using PDict.prems(2) by (cases f) auto
  have mem: "json_val (snd x) \<and> vdepth (snd x) \<le> g" if "x \<in> set kvs" for x
    using PDict.prems that foldr_max_le [of "vdepth (snd x)" "map snd (map (map_prod id vdepth) kvs)"]
    by (force simp: f list_all_iff)
  have el: "parse_val g (enc_raw p (snd x) @ q) = Some (id (snd x), q)" if "x \<in> set kvs" "follow q" for x q
    using PDict.IH [of x "snd x" g q] mem [of x] that by (simp add: prod_set_defs)
  have nw: "enc_raw p (snd x) \<noteq> [] \<and> \<not> is_ws (hd (enc_raw p (snd x)))" if "x \<in> set kvs" for x
    using mem [OF that] enc_raw_hd by blast
  have "dict_wf kvs" using PDict.prems(1) by simp
  from parse_members [OF p this, where e = "enc_raw p" and c = id, OF nw el, of r] show ?case
    by (simp add: f enc_raw_PDict map_prod.id [unfolded id_def] id_def del: enc_raw.simps parse_val.simps)
qed (rule parse_val_atom_raw [OF p]; simp add: compound_def)+

lemma depth_enc_raw: "json_val v \<Longrightarrow> vdepth v \<le> length (enc_raw p v)"
proof (induction v)
  case (PList vs)
  then have "foldr max (map vdepth vs) 0 \<le> length (join (item_sep p) (map (enc_raw p) vs))"
    by (intro depth_items) (auto simp: list_all_iff)
  then show ?case by simp
next
  case (PDict kvs)
  let ?w = "\<lambda>x. quote (ensure_ascii p) (fst x) @ key_sep p @ enc_raw p (snd x)"
  have "vdepth (snd x) \<le> length (?w x)" if "x \<in> set kvs" for x
  proof -
    have "json_val (snd x)" using PDict.prems that by (auto simp: list_all_iff)
    then have "vdepth (snd x) \<le> length (enc_raw p (snd x))"
      by (intro PDict.IH [OF that]) (simp_all add: prod_set_defs)
    then show ?thesis by simp
  qed
  then have "foldr max (map (vdepth \<circ> snd) kvs) 0 \<le> length (join (item_sep p) (map ?w kvs))"
    by (intro depth_items) simp
  then show ?case by (simp add: comp_def)
qed (rule depth_atom_raw; simp add: compound_def)+

lemma loads_enc_raw:
  assumes "std_opts p" "json_val v"
  shows "json_loads (enc_raw p v) = Some v"
  using parse_val_enc_raw [OF assms, of "Suc (length (enc_raw p v))" "[]"] depth_enc_raw [OF assms(2), of p]
    enc_raw_hd [OF assms(2), of p]
  by (simp add: json_loads_def follow_def)

lemma plain_opts_std [simp]: "std_opts (plain_opts d)"
  by (simp add: std_opts_def plain_opts_def)

lemma dumps_raw_jsonable: "jsonable v \<Longrightarrow> json_dumps_raw p v = Inr (enc_raw p v)"
  by (simp add: json_dumps_raw_def)

section \<open>What a decode can yield\<close>

lemma atom_jsonable: "parse_atom s = Some (v, r) \<Longrightarrow> jsonable v"
proof -
  assume a: "parse_atom s = Some (v, r)"
  have l: "list_all (\<lambda>(l, v). jsonable v) literals" by code_simp
  show ?thesis
  proof (cases "filter (\<lambda>(l, v). take (length l) s = l) literals")
    case Nil
    with a show ?thesis by (auto simp: parse_atom_def parse_number_def Let_def split: option.splits prod.splits if_splits)
  next
    case (Cons x xs)
    then have "x \<in> set (filter (\<lambda>(l, v). take (length l) s = l) literals)" by simp
    then have "x \<in> set literals" by simp
    with l a Cons show ?thesis by (auto simp: parse_atom_def list_all_iff)
  qed
qed

lemma seq_all:
  "parse_seq n el close s = Some (xs, r) \<Longrightarrow> (\<And>s x r. el s = Some (x, r) \<Longrightarrow> Q x) \<Longrightarrow> x \<in> set xs \<Longrightarrow> Q x"
proof (induction n arbitrary: s xs r)
  case (Suc n)
  from Suc.prems(1) obtain y t where y: "el s = Some (y, t)" by (auto split: option.splits)
  from Suc.prems(1) y consider "xs = [y]" | ys u where "xs = y # ys" "parse_seq n el close u = Some (ys, r)"
    by (auto split: list.splits if_splits)
  then show ?case
  proof cases
    case 1
    with Suc.prems(2) [OF y] Suc.prems(3) show ?thesis by simp
  next
    case 2
    with Suc.IH [OF 2(2) Suc.prems(2)] Suc.prems(2) [OF y] Suc.prems(3) show ?thesis by auto
  qed
qed simp

lemma update_subset: "set (AList.update k v d) \<subseteq> insert (k, v) (set d)"
  by (induction d) auto

lemma dict_of_subset: "set (dict_of ms) \<subseteq> set ms"
proof -
  have "set (fold (\<lambda>(k, v). AList.update k v) ms acc) \<subseteq> set ms \<union> set acc" for acc :: "(string, pyval) dict"
  proof (induction ms arbitrary: acc)
    case (Cons x ms)
    from Cons [of "AList.update (fst x) (snd x) acc"] update_subset [of "fst x" "snd x" acc] show ?case
      by (simp add: case_prod_beta) blast
  qed simp
  from this [of "[]"] show ?thesis by (simp add: dict_of_def)
qed

lemma parse_jsonable: "parse_val f s = Some (v, r) \<Longrightarrow> jsonable v"
proof (induction f arbitrary: s v r)
  case (Suc f)
  have el: "jsonable x" if "parse_val f s = Some (x, r)" for s x r by (rule Suc.IH [OF that])
  have mem: "jsonable (snd x)" if "parse_member (parse_val f) s = Some (x, r)" for s x r
    using that el by (auto simp: parse_member_def split: list.splits if_splits option.splits)
  have ls: "jsonable (PList vs)" if "parse_seq n (parse_val f) c t = Some (vs, q)" for n c t vs q
    using seq_all [OF that, of jsonable] el by (auto simp: list_all_iff)
  have ds: "jsonable (PDict (dict_of ms))" if "parse_seq n (parse_member (parse_val f)) c t = Some (ms, q)" for n c t ms q
    using seq_all [OF that, of "\<lambda>x. jsonable (snd x)"] mem dict_of_subset [of ms] by (fastforce simp: list_all_iff)
  from Suc.prems show ?case
    by (auto simp del: jsonable.simps(7,8) parse_seq.simps split: list.splits if_splits dest: atom_jsonable ls ds)
      (auto split: list.splits if_splits)
qed simp

lemma loads_jsonable: "json_loads s = Some v \<Longrightarrow> jsonable v"
  by (auto simp: json_loads_def simp del: parse_val.simps split: option.splits prod.splits if_splits dest: parse_jsonable)

section \<open>Members of the Intent enumeration\<close>

text \<open>\<^verbatim>\<open>str(i)\<close>, also in an f-string (Python 3.11 and later).\<close>

primrec intent_name :: "intent \<Rightarrow> string" where
  "intent_name HANDSHAKE = ''HANDSHAKE''"
| "intent_name TASK_REQUEST = ''TASK_REQUEST''"
| "intent_name STATE_SYNC = ''STATE_SYNC''"
| "intent_name STATE_SYNC_VECTOR = ''STATE_SYNC_VECTOR''"
| "intent_name MEDIA_SHARE = ''MEDIA_SHARE''"
| "intent_name CRITIQUE = ''CRITIQUE''"
| "intent_name TERMINATE = ''TERMINATE''"
| "intent_name ACK = ''ACK''"
| "intent_name NACK = ''NACK''"
| "intent_name BROADCAST = ''BROADCAST''"

definition str_intent :: "intent \<Rightarrow> string" where
  "str_intent i = ''Intent.'' @ intent_name i"

end
