(* ===== verification/Adapters.thy ===== *)
theory Adapters
  imports NodeInbound PyStr
begin

text \<open>
  \<^verbatim>\<open>BaseFrameworkAdapter\<close> of \<^verbatim>\<open>tpcp/adapters/base.py\<close> and the nine adapters of the agent frameworks: what
  each takes out of a framework's native output, the signed text message it packs it in, and what it
  hands to the framework of a received message. \<^verbatim>\<open>TPCPNode.create_adapter\<close> makes an adapter with the
  node's identity and key.

  Natives are decoded Python values or objects of the framework. Of an object the code uses its
  attributes and its \<^verbatim>\<open>str\<close>; these come with the object. An object is true and has no subscript. An error
  text that quotes a Python type is cut before the quotation.
\<close>

section \<open>Native outputs\<close>

datatype native =
    Val pyval
  | Obj "(string \<times> native) list" string  \<comment> \<open>attributes and \<^verbatim>\<open>str\<close>\<close>
  | Items "native list" string  \<comment> \<open>a list that holds objects, and its \<^verbatim>\<open>str\<close>\<close>
  | Entries "(string \<times> native) list" string  \<comment> \<open>a dictionary that holds objects, and its \<^verbatim>\<open>str\<close>\<close>

fun native_str :: "native \<Rightarrow> string" where
  "native_str (Val v) = py_str v"
| "native_str (Obj as s) = s"
| "native_str (Items ns s) = s"
| "native_str (Entries kvs s) = s"

text \<open>\<^verbatim>\<open>getattr\<close> for the names that the adapters ask for, none of which a built-in value has.\<close>

fun attr :: "string \<Rightarrow> native \<Rightarrow> native option" where
  "attr k (Obj as s) = map_of as k"
| "attr k _ = None"

text \<open>The entries of a dictionary; \<open>None\<close> for any other value.\<close>

fun as_dict :: "native \<Rightarrow> (string, native) dict option" where
  "as_dict (Val (PDict kvs)) = Some (map (map_prod id Val) kvs)"
| "as_dict (Entries kvs s) = Some kvs"
| "as_dict _ = None"

fun native_true :: "native \<Rightarrow> bool" where
  "native_true (Val v) = truthy v"
| "native_true (Obj as s) = True"
| "native_true (Items ns s) = (ns \<noteq> [])"
| "native_true (Entries kvs s) = (kvs \<noteq> [])"

text \<open>\<^verbatim>\<open>x[0]\<close>\<close>

definition first_of :: "'a list \<Rightarrow> ('a \<Rightarrow> 'b) \<Rightarrow> py_exn + 'b" where
  "first_of xs f = (case xs of [] \<Rightarrow> Inl (IndexError ''index out of range'') | x # _ \<Rightarrow> Inr (f x))"

fun index0 :: "pyval \<Rightarrow> py_exn + pyval" where
  "index0 (PList vs) = first_of vs id"
| "index0 (PStr s) = first_of s (\<lambda>c. PStr [c])"
| "index0 (PDict kvs) = Inl (KeyError ''0'')"
| "index0 _ = Inl (TypeError ''object is not subscriptable'')"

fun item0 :: "native \<Rightarrow> py_exn + native" where
  "item0 (Val v) = map_sum id Val (index0 v)"
| "item0 (Obj as s) = Inl (TypeError ''object is not subscriptable'')"
| "item0 (Items ns s) = first_of ns id"
| "item0 (Entries kvs s) = Inl (KeyError ''0'')"

text \<open>\<^verbatim>\<open>x[k]\<close> for a text \<open>k\<close>, and \<^verbatim>\<open>x.k\<close>\<close>

definition item :: "string \<Rightarrow> native \<Rightarrow> py_exn + native" where
  "item k n =
     (case as_dict n of
        None \<Rightarrow> Inl (TypeError ''indices must be integers or slices, not str'')
      | Some kvs \<Rightarrow> (case map_of kvs k of None \<Rightarrow> Inl (KeyError k) | Some x \<Rightarrow> Inr x))"

definition get_attr :: "string \<Rightarrow> native \<Rightarrow> py_exn + native" where
  "get_attr k n = (case attr k n of None \<Rightarrow> Inl (AttributeError k) | Some x \<Rightarrow> Inr x)"

definition bind_exn :: "py_exn + 'a \<Rightarrow> ('a \<Rightarrow> py_exn + 'b) \<Rightarrow> py_exn + 'b" where
  "bind_exn r f = (case r of Inl e \<Rightarrow> Inl e | Inr x \<Rightarrow> f x)"

lemma bind_exn_simps [simp]: "bind_exn (Inl e) f = Inl e" "bind_exn (Inr x) f = f x"
  by (simp_all add: bind_exn_def)

definition text_val :: "native \<Rightarrow> native" where
  "text_val n = Val (PStr (native_str n))"

text \<open>What \<^verbatim>\<open>json.dumps(x, default=str)\<close> writes of a native, and whether \<^verbatim>\<open>json.dumps(x)\<close> meets an object.\<close>

fun plain_val :: "native \<Rightarrow> pyval" where
  "plain_val (Val v) = v"
| "plain_val (Obj as s) = PStr s"
| "plain_val (Items ns s) = PList (map plain_val ns)"
| "plain_val (Entries kvs s) = PDict (map (\<lambda>kv. (fst kv, plain_val (snd kv))) kvs)"

fun holds_object :: "native \<Rightarrow> bool" where
  "holds_object (Val v) = False"
| "holds_object (Obj as s) = True"
| "holds_object (Items ns s) = list_ex id (map holds_object ns)"
| "holds_object (Entries kvs s) = list_ex id (map (\<lambda>kv. holds_object (snd kv)) kvs)"

section \<open>The base class\<close>

record adapter =
  ad_identity :: agent_identity
  ad_manager :: "identity_manager option"
  ad_clock :: int

definition base_init :: "agent_identity \<Rightarrow> identity_manager option \<Rightarrow> adapter" where
  "base_init ident mgr = \<lparr>ad_identity = ident, ad_manager = mgr, ad_clock = 0\<rparr>"

definition tick :: "'a adapter_scheme \<Rightarrow> 'a adapter_scheme" where
  "tick a = a\<lparr>ad_clock := ad_clock a + 1\<rparr>"

definition require_identity_manager :: "'a adapter_scheme \<Rightarrow> py_exn + identity_manager" where
  "require_identity_manager a =
     (case ad_manager a of
        None \<Rightarrow> Inl (RuntimeError ''identity_manager is required for message signing'')
      | Some m \<Rightarrow> Inr m)"

definition adapter_header :: "nenv \<Rightarrow> 'a adapter_scheme \<Rightarrow> uuid \<Rightarrow> intent \<Rightarrow> message_header" where
  "adapter_header env a receiver i =
     \<lparr>message_id = fresh_id env 0, msg_timestamp = wall_clock env, sender_id = agent_id (ad_identity a),
      receiver_id = receiver, intent = i, ttl = 30, protocol_version = PROTOCOL_VERSION\<rparr>"

text \<open>Sealing a payload: signed when the adapter has a key.\<close>

definition seal_optional ::
  "platform \<Rightarrow> nenv \<Rightarrow> uuid \<Rightarrow> intent \<Rightarrow> payload \<Rightarrow> 'a adapter_scheme \<Rightarrow> py_exn + envelope" where
  "seal_optional P env target i pl a =
     (let h = adapter_header env a target i
      in case ad_manager a of
           None \<Rightarrow> Inr (mk_envelope h pl None)
         | Some m \<Rightarrow>
             map_sum id (\<lambda>sig. mk_envelope h pl (Some sig)) (sign_payload (ed_prims P) m (model_dump pl)))"

text \<open>The tail of every text adapter's \<^verbatim>\<open>pack_thought\<close>: \<^verbatim>\<open>TextPayload\<close> accepts a \<^verbatim>\<open>str\<close> only.\<close>

definition seal_text ::
  "platform \<Rightarrow> nenv \<Rightarrow> uuid \<Rightarrow> intent \<Rightarrow> py_exn + native \<Rightarrow> 'a adapter_scheme \<Rightarrow> py_exn + envelope" where
  "seal_text P env target i cont a =
     bind_exn cont (\<lambda>c. case c of
       Val (PStr s) \<Rightarrow> seal_optional P env target i (TextP (text_of s)) a
     | _ \<Rightarrow> Inl (ValidationError ''content: Input should be a valid string''))"

section \<open>CrewAI\<close>

definition crewai_content :: "native \<Rightarrow> py_exn + native" where
  "crewai_content raw =
     (case as_dict raw of
        Some _ \<Rightarrow>
          if holds_object raw then Inl (TypeError ''Object is not JSON serializable'')
          else map_sum id (\<lambda>s. Val (PStr s)) (json_dumps_raw (plain_opts False) (plain_val raw))
      | None \<Rightarrow> Inr (text_val raw))"

definition crewai_init :: "agent_identity \<Rightarrow> identity_manager option \<Rightarrow> adapter" where
  "crewai_init ident mgr = (base_init ident None)\<lparr>ad_manager := mgr\<rparr>"

definition crewai_pack ::
  "platform \<Rightarrow> nenv \<Rightarrow> uuid \<Rightarrow> intent \<Rightarrow> native \<Rightarrow> 'a adapter_scheme \<Rightarrow> 'a adapter_scheme \<times> (py_exn + envelope)" where
  "crewai_pack P env target i raw a = (a, seal_text P env target i (crewai_content raw) a)"

text \<open>Of a payload other than a text the adapter returns \<^verbatim>\<open>str(payload)\<close>, which Pydantic defines.\<close>

definition crewai_unpack :: "(payload \<Rightarrow> string) \<Rightarrow> envelope \<Rightarrow> pyval" where
  "crewai_unpack payload_str e =
     (case payload e of
        TextP t \<Rightarrow> (case json_loads (content t) of Some v \<Rightarrow> v | None \<Rightarrow> PStr (content t))
      | pl \<Rightarrow> PStr (payload_str pl))"

section \<open>LangGraph\<close>

definition langgraph_content :: "native \<Rightarrow> py_exn + native" where
  "langgraph_content raw =
     (case as_dict raw of
        None \<Rightarrow> Inl (ValueError ''LangGraphAdapter expects a state dictionary'')
      | Some _ \<Rightarrow>
          (case json_dumps_raw (plain_opts True) (plain_val raw) of
             Inl e \<Rightarrow> Inl (ValueError (''Failed to serialize LangGraph state: '' @ str_exn e))
           | Inr s \<Rightarrow> Inr (Val (PStr s))))"

definition langgraph_init :: "agent_identity \<Rightarrow> identity_manager option \<Rightarrow> adapter" where
  "langgraph_init ident mgr = (base_init ident None)\<lparr>ad_manager := mgr\<rparr>"

definition langgraph_pack ::
  "platform \<Rightarrow> nenv \<Rightarrow> uuid \<Rightarrow> intent \<Rightarrow> native \<Rightarrow> 'a adapter_scheme \<Rightarrow> 'a adapter_scheme \<times> (py_exn + envelope)" where
  "langgraph_pack P env target i raw a = (a, seal_text P env target i (langgraph_content raw) a)"

primrec payload_class :: "payload \<Rightarrow> string" where
  "payload_class (TextP p) = ''TextPayload''"
| "payload_class (VectorP p) = ''VectorEmbeddingPayload''"
| "payload_class (CrdtP p) = ''CRDTSyncPayload''"
| "payload_class (ImageP p) = ''ImagePayload''"
| "payload_class (AudioP p) = ''AudioPayload''"
| "payload_class (VideoP p) = ''VideoPayload''"
| "payload_class (BinaryP p) = ''BinaryPayload''"
| "payload_class (TelemetryP p) = ''TelemetryPayload''"

definition langgraph_unpack :: "envelope \<Rightarrow> pyval" where
  "langgraph_unpack e =
     (case payload e of
        TextP t \<Rightarrow>
          (case json_loads (content t) of
             Some v \<Rightarrow> PDict [(''received_state'', v)]
           | None \<Rightarrow> PDict [(''received_message'', PStr (content t))])
      | pl \<Rightarrow> PDict [(''received_payload_type'', PStr (payload_class pl))])"

section \<open>The other frameworks\<close>

text \<open>The constructors check that the framework is installed.\<close>

definition optional_init ::
  "bool \<Rightarrow> string \<Rightarrow> agent_identity \<Rightarrow> identity_manager option \<Rightarrow> py_exn + adapter" where
  "optional_init available hint ident mgr =
     (if available then Inr (base_init ident mgr) else Inl (ImportError hint))"

definition autogen_init :: "bool \<Rightarrow> agent_identity \<Rightarrow> identity_manager option \<Rightarrow> py_exn + adapter" where
  "autogen_init av = optional_init av ''AutoGen is not installed. Install it with: pip install autogen-agentchat>=0.4.0''"

definition haystack_init :: "bool \<Rightarrow> agent_identity \<Rightarrow> identity_manager option \<Rightarrow> py_exn + adapter" where
  "haystack_init av = optional_init av ''Haystack is not installed. Install it with: pip install haystack-ai>=2.0.0''"

definition llamaindex_init :: "bool \<Rightarrow> agent_identity \<Rightarrow> identity_manager option \<Rightarrow> py_exn + adapter" where
  "llamaindex_init av = optional_init av ''LlamaIndex is not installed. Install it with: pip install llama-index>=0.10.0''"

definition openai_init :: "bool \<Rightarrow> agent_identity \<Rightarrow> identity_manager option \<Rightarrow> py_exn + adapter" where
  "openai_init av = optional_init av ''OpenAI SDK is not installed. Install it with: pip install openai>=1.0.0''"

definition pydantic_init :: "bool \<Rightarrow> agent_identity \<Rightarrow> identity_manager option \<Rightarrow> py_exn + adapter" where
  "pydantic_init av = optional_init av ''PydanticAI is not installed. Install it with: pip install pydantic-ai>=0.0.14''"

definition semantic_kernel_init :: "bool \<Rightarrow> agent_identity \<Rightarrow> identity_manager option \<Rightarrow> py_exn + adapter" where
  "semantic_kernel_init av =
     optional_init av ''Semantic Kernel is not installed. Install it with: pip install semantic-kernel>=1.0.0''"

definition smolagents_init :: "bool \<Rightarrow> agent_identity \<Rightarrow> identity_manager option \<Rightarrow> py_exn + adapter" where
  "smolagents_init av = optional_init av ''smolagents is not installed. Install it with: pip install smolagents>=1.0.0''"

text \<open>\<^verbatim>\<open>raw.get(k, d)\<close>\<close>

definition get_or :: "string \<Rightarrow> native \<Rightarrow> (string, native) dict \<Rightarrow> native" where
  "get_or k d kvs = (case map_of kvs k of None \<Rightarrow> d | Some x \<Rightarrow> x)"

definition autogen_content :: "native \<Rightarrow> py_exn + native" where
  "autogen_content raw =
     Inr (case as_dict raw of
            Some kvs \<Rightarrow> get_or ''content'' (text_val raw) kvs
          | None \<Rightarrow> text_val raw)"

definition haystack_content :: "native \<Rightarrow> py_exn + native" where
  "haystack_content raw =
     (case as_dict raw of
        None \<Rightarrow> Inr (text_val raw)
      | Some kvs \<Rightarrow>
          (case map_of kvs ''answers'' of
             Some answers \<Rightarrow>
               if native_true answers then
                 bind_exn (item0 answers) (\<lambda>first. Inr (text_val
                   (case as_dict first of
                      Some f \<Rightarrow> get_or ''answer'' first f
                    | None \<Rightarrow> (case attr ''answer'' first of Some x \<Rightarrow> x | None \<Rightarrow> first))))
               else Inr (text_val raw)
           | None \<Rightarrow>
               (case map_of kvs ''replies'' of
                  Some replies \<Rightarrow>
                    if native_true replies then map_sum id text_val (item0 replies) else Inr (text_val raw)
                | None \<Rightarrow> Inr (text_val raw))))"

definition llamaindex_content :: "native \<Rightarrow> py_exn + native" where
  "llamaindex_content raw =
     Inr (text_val
       (case attr ''response'' raw of
          Some x \<Rightarrow> x
        | None \<Rightarrow> (case as_dict raw of Some kvs \<Rightarrow> get_or ''response'' raw kvs | None \<Rightarrow> raw)))"

definition openai_content :: "native \<Rightarrow> py_exn + native" where
  "openai_content raw =
     (case attr ''choices'' raw of
        Some choices \<Rightarrow>
          (case bind_exn (item0 choices) (\<lambda>c. bind_exn (get_attr ''message'' c) (get_attr ''content'')) of
             Inl (IndexError m) \<Rightarrow> Inr (text_val raw)
           | Inl (AttributeError m) \<Rightarrow> Inr (text_val raw)
           | r \<Rightarrow> r)
      | None \<Rightarrow>
          (case as_dict raw of
             None \<Rightarrow> Inr (text_val raw)
           | Some kvs \<Rightarrow>
               (case map_of kvs ''content'' of
                  Some c \<Rightarrow> Inr c
                | None \<Rightarrow>
                    (case map_of kvs ''choices'' of
                       None \<Rightarrow> Inr (text_val raw)
                     | Some choices \<Rightarrow>
                         (case bind_exn (item0 choices) (\<lambda>c. bind_exn (item ''message'' c) (item ''content'')) of
                            Inl (IndexError m) \<Rightarrow> Inr (text_val raw)
                          | Inl (KeyError m) \<Rightarrow> Inr (text_val raw)
                          | r \<Rightarrow> r)))))"

definition pydantic_content :: "native \<Rightarrow> py_exn + native" where
  "pydantic_content raw =
     Inr (text_val
       (case attr ''output'' raw of
          Some x \<Rightarrow> x
        | None \<Rightarrow>
            (case attr ''data'' raw of
               Some x \<Rightarrow> x
             | None \<Rightarrow> (case as_dict raw of Some kvs \<Rightarrow> get_or ''output'' raw kvs | None \<Rightarrow> raw))))"

definition semantic_kernel_content :: "native \<Rightarrow> py_exn + native" where
  "semantic_kernel_content raw =
     Inr (text_val
       (case attr ''value'' raw of
          Some x \<Rightarrow> x
        | None \<Rightarrow> (case as_dict raw of Some kvs \<Rightarrow> get_or ''result'' raw kvs | None \<Rightarrow> raw)))"

definition smolagents_content :: "native \<Rightarrow> py_exn + native" where
  "smolagents_content raw =
     Inr (text_val
       (case as_dict raw of
          Some kvs \<Rightarrow> get_or ''final_answer'' raw kvs
        | None \<Rightarrow> (case attr ''final_answer'' raw of Some x \<Rightarrow> x | None \<Rightarrow> raw)))"

definition autogen_pack ::
  "platform \<Rightarrow> nenv \<Rightarrow> uuid \<Rightarrow> intent \<Rightarrow> native \<Rightarrow> 'a adapter_scheme \<Rightarrow> 'a adapter_scheme \<times> (py_exn + envelope)" where
  "autogen_pack P env target i raw a = (tick a, seal_text P env target i (autogen_content raw) (tick a))"

definition haystack_pack ::
  "platform \<Rightarrow> nenv \<Rightarrow> uuid \<Rightarrow> intent \<Rightarrow> native \<Rightarrow> 'a adapter_scheme \<Rightarrow> 'a adapter_scheme \<times> (py_exn + envelope)" where
  "haystack_pack P env target i raw a = (tick a, seal_text P env target i (haystack_content raw) (tick a))"

definition llamaindex_pack ::
  "platform \<Rightarrow> nenv \<Rightarrow> uuid \<Rightarrow> intent \<Rightarrow> native \<Rightarrow> 'a adapter_scheme \<Rightarrow> 'a adapter_scheme \<times> (py_exn + envelope)" where
  "llamaindex_pack P env target i raw a = (tick a, seal_text P env target i (llamaindex_content raw) (tick a))"

definition openai_pack ::
  "platform \<Rightarrow> nenv \<Rightarrow> uuid \<Rightarrow> intent \<Rightarrow> native \<Rightarrow> 'a adapter_scheme \<Rightarrow> 'a adapter_scheme \<times> (py_exn + envelope)" where
  "openai_pack P env target i raw a = (tick a, seal_text P env target i (openai_content raw) (tick a))"

definition pydantic_pack ::
  "platform \<Rightarrow> nenv \<Rightarrow> uuid \<Rightarrow> intent \<Rightarrow> native \<Rightarrow> 'a adapter_scheme \<Rightarrow> 'a adapter_scheme \<times> (py_exn + envelope)" where
  "pydantic_pack P env target i raw a = (tick a, seal_text P env target i (pydantic_content raw) (tick a))"

definition semantic_kernel_pack ::
  "platform \<Rightarrow> nenv \<Rightarrow> uuid \<Rightarrow> intent \<Rightarrow> native \<Rightarrow> 'a adapter_scheme \<Rightarrow> 'a adapter_scheme \<times> (py_exn + envelope)" where
  "semantic_kernel_pack P env target i raw a = (tick a, seal_text P env target i (semantic_kernel_content raw) (tick a))"

definition smolagents_pack ::
  "platform \<Rightarrow> nenv \<Rightarrow> uuid \<Rightarrow> intent \<Rightarrow> native \<Rightarrow> 'a adapter_scheme \<Rightarrow> 'a adapter_scheme \<times> (py_exn + envelope)" where
  "smolagents_pack P env target i raw a = (tick a, seal_text P env target i (smolagents_content raw) (tick a))"

text \<open>What a received text becomes; any other payload gives an empty dictionary.\<close>

definition unpack_text :: "(string \<Rightarrow> (string, pyval) dict) \<Rightarrow> envelope \<Rightarrow> pyval" where
  "unpack_text f e = PDict (case payload e of TextP t \<Rightarrow> f (content t) | _ \<Rightarrow> [])"

definition autogen_unpack :: "envelope \<Rightarrow> pyval" where
  "autogen_unpack = unpack_text (\<lambda>t. [(''role'', PStr ''user''), (''content'', PStr t)])"

definition haystack_unpack :: "envelope \<Rightarrow> pyval" where
  "haystack_unpack = unpack_text (\<lambda>t. [(''query'', PStr t)])"

definition llamaindex_unpack :: "envelope \<Rightarrow> pyval" where
  "llamaindex_unpack = unpack_text (\<lambda>t. [(''query'', PStr t)])"

definition openai_unpack :: "string \<Rightarrow> envelope \<Rightarrow> pyval" where
  "openai_unpack model = unpack_text (\<lambda>t.
     [(''messages'', PList [PDict [(''role'', PStr ''user''), (''content'', PStr t)]]), (''model'', PStr model)])"

definition pydantic_unpack :: "envelope \<Rightarrow> pyval" where
  "pydantic_unpack = unpack_text (\<lambda>t. [(''prompt'', PStr t)])"

definition semantic_kernel_unpack :: "envelope \<Rightarrow> pyval" where
  "semantic_kernel_unpack = unpack_text (\<lambda>t. [(''input'', PStr t)])"

definition smolagents_unpack :: "envelope \<Rightarrow> pyval" where
  "smolagents_unpack = unpack_text (\<lambda>t. [(''task'', PStr t)])"

section \<open>The adapter classes behind their common methods\<close>

datatype adapter_class = CrewAI | LangGraph | AutoGen | Haystack | LlamaIndex | OpenAIAgents | PydanticAI
  | SemanticKernel | Smolagents

primrec pack_thought ::
  "adapter_class \<Rightarrow> platform \<Rightarrow> nenv \<Rightarrow> uuid \<Rightarrow> intent \<Rightarrow> native \<Rightarrow> 'a adapter_scheme \<Rightarrow>
   'a adapter_scheme \<times> (py_exn + envelope)" where
  "pack_thought CrewAI = crewai_pack"
| "pack_thought LangGraph = langgraph_pack"
| "pack_thought AutoGen = autogen_pack"
| "pack_thought Haystack = haystack_pack"
| "pack_thought LlamaIndex = llamaindex_pack"
| "pack_thought OpenAIAgents = openai_pack"
| "pack_thought PydanticAI = pydantic_pack"
| "pack_thought SemanticKernel = semantic_kernel_pack"
| "pack_thought Smolagents = smolagents_pack"

primrec unpack_request :: "adapter_class \<Rightarrow> (payload \<Rightarrow> string) \<Rightarrow> string \<Rightarrow> envelope \<Rightarrow> pyval" where
  "unpack_request CrewAI payload_str model = crewai_unpack payload_str"
| "unpack_request LangGraph payload_str model = langgraph_unpack"
| "unpack_request AutoGen payload_str model = autogen_unpack"
| "unpack_request Haystack payload_str model = haystack_unpack"
| "unpack_request LlamaIndex payload_str model = llamaindex_unpack"
| "unpack_request OpenAIAgents payload_str model = openai_unpack model"
| "unpack_request PydanticAI payload_str model = pydantic_unpack"
| "unpack_request SemanticKernel payload_str model = semantic_kernel_unpack"
| "unpack_request Smolagents payload_str model = smolagents_unpack"

text \<open>\<^verbatim>\<open>TPCPNode.create_adapter\<close>\<close>

definition create_adapter :: "(agent_identity \<Rightarrow> identity_manager option \<Rightarrow> 'r) \<Rightarrow> node \<Rightarrow> 'r" where
  "create_adapter init n = init (nd_identity n) (Some (nd_manager n))"

section \<open>What all text adapters promise\<close>

text \<open>Sealing succeeds, and what it signs is the canonical text of the payload.\<close>

definition seal_signature :: "platform \<Rightarrow> payload \<Rightarrow> identity_manager \<Rightarrow> string" where
  "seal_signature P pl m = b64encode (ed_sign (ed_prims P) (private_key m) (utf8 (enc sign_opts (PDict (model_dump pl)))))"

lemma seal_optional_eq:
  "wf_payload pl \<Longrightarrow> seal_optional P env t i pl a =
     Inr (mk_envelope (adapter_header env a t i) pl (map_option (seal_signature P pl) (ad_manager a)))"
  by (simp add: seal_optional_def seal_signature_def Let_def sign_payload_jsonable [OF jsonable_model_dump]
      del: enc.simps split: option.splits)

text \<open>A sealed message passes the signature check of a node that knows the sealing agent.\<close>

lemma sealed_authentic:
  assumes "ed_correct (ed_prims P)" "manager_wf (ed_prims P) m" "jsonable (PDict (model_dump pl))"
    and "\<And>sk d. length sk = 32 \<Longrightarrow> ed_sign (ed_prims P) sk d \<noteq> []"
    and "map_of (peer_registry n) (sender_id h) = Some (peer, addr)" "public_key peer = get_public_key_string m"
  shows "authentic P (mk_envelope h pl (Some (seal_signature P pl m))) n"
proof -
  have "seal_signature P pl m \<noteq> []" using assms(2,4) by (simp add: seal_signature_def manager_wf_def del: enc.simps)
  moreover have "verify_signature (ed_prims P) (get_public_key_string m) (seal_signature P pl m) (model_dump pl)"
    using assms(1,2) verify_signed_bytes [OF assms(2)]
    by (simp add: seal_signature_def verify_signature_jsonable [OF assms(3)] manager_wf_def ed_correct_def del: enc.simps)
  ultimately show ?thesis using assms(5,6) by (simp add: authentic_def mk_envelope_def)
qed

lemma wf_text [simp]: "wf_payload (TextP (text_of c))"
  by simp

locale text_adapter =
  fixes contents :: "native \<Rightarrow> py_exn + native"
    and after :: "'a adapter_scheme \<Rightarrow> 'a adapter_scheme"
    and pack :: "platform \<Rightarrow> nenv \<Rightarrow> uuid \<Rightarrow> intent \<Rightarrow> native \<Rightarrow> 'a adapter_scheme \<Rightarrow>
      'a adapter_scheme \<times> (py_exn + envelope)"
  assumes shape: "pack P env t i raw a = (after a, seal_text P env t i (contents raw) (after a))"
    and keeps: "ad_identity (after a) = ad_identity a" "ad_manager (after a) = ad_manager a"
begin

lemma packs:
  assumes "contents raw = Inr (Val (PStr c))"
  shows "pack P env t i raw a = (after a, Inr (mk_envelope (adapter_header env a t i) (TextP (text_of c))
      (map_option (seal_signature P (TextP (text_of c))) (ad_manager a))))"
  using assms by (simp add: shape seal_text_def adapter_header_def keeps seal_optional_eq)

lemma packed:
  assumes "pack P env t i raw a = (b, Inr e)"
  shows "\<exists>c. contents raw = Inr (Val (PStr c)) \<and> b = after a \<and>
    e = mk_envelope (adapter_header env a t i) (TextP (text_of c))
      (map_option (seal_signature P (TextP (text_of c))) (ad_manager a))"
proof (cases "contents raw")
  case (Inr n)
  with assms have "\<exists>c. n = Val (PStr c)"
    by (auto simp: shape seal_text_def split: native.splits pyval.splits)
  with Inr assms packs show ?thesis by auto
qed (use assms in \<open>simp add: shape seal_text_def\<close>)

end

interpretation crewai: text_adapter crewai_content id crewai_pack
  by unfold_locales (simp_all add: crewai_pack_def)

interpretation langgraph: text_adapter langgraph_content id langgraph_pack
  by unfold_locales (simp_all add: langgraph_pack_def)

interpretation autogen: text_adapter autogen_content tick autogen_pack
  by unfold_locales (simp_all add: autogen_pack_def tick_def)

interpretation haystack: text_adapter haystack_content tick haystack_pack
  by unfold_locales (simp_all add: haystack_pack_def tick_def)

interpretation llamaindex: text_adapter llamaindex_content tick llamaindex_pack
  by unfold_locales (simp_all add: llamaindex_pack_def tick_def)

interpretation openai: text_adapter openai_content tick openai_pack
  by unfold_locales (simp_all add: openai_pack_def tick_def)

interpretation pydantic: text_adapter pydantic_content tick pydantic_pack
  by unfold_locales (simp_all add: pydantic_pack_def tick_def)

interpretation semantic_kernel: text_adapter semantic_kernel_content tick semantic_kernel_pack
  by unfold_locales (simp_all add: semantic_kernel_pack_def tick_def)

interpretation smolagents: text_adapter smolagents_content tick smolagents_pack
  by unfold_locales (simp_all add: smolagents_pack_def tick_def)

lemmas packs_text = crewai.packs langgraph.packs autogen.packs haystack.packs llamaindex.packs openai.packs pydantic.packs semantic_kernel.packs smolagents.packs

lemmas packed_text = crewai.packed langgraph.packed autogen.packed haystack.packed llamaindex.packed openai.packed pydantic.packed semantic_kernel.packed smolagents.packed

primrec adapter_content :: "adapter_class \<Rightarrow> native \<Rightarrow> py_exn + native" where
  "adapter_content CrewAI = crewai_content"
| "adapter_content LangGraph = langgraph_content"
| "adapter_content AutoGen = autogen_content"
| "adapter_content Haystack = haystack_content"
| "adapter_content LlamaIndex = llamaindex_content"
| "adapter_content OpenAIAgents = openai_content"
| "adapter_content PydanticAI = pydantic_content"
| "adapter_content SemanticKernel = semantic_kernel_content"
| "adapter_content Smolagents = smolagents_content"

lemma pack_thought_packs:
  "adapter_content cls raw = Inr (Val (PStr c)) \<Longrightarrow>
   snd (pack_thought cls P env t i raw a) = Inr (mk_envelope (adapter_header env a t i) (TextP (text_of c))
     (map_option (seal_signature P (TextP (text_of c))) (ad_manager a)))"
  by (cases cls) (simp_all add: packs_text)

lemma pack_thought_packed:
  assumes "pack_thought cls P env t i raw a = (b, Inr e)"
  shows "\<exists>c. e = mk_envelope (adapter_header env a t i) (TextP (text_of c))
    (map_option (seal_signature P (TextP (text_of c))) (ad_manager a))"
  using assms by (cases cls) (auto dest: packed_text)

section \<open>The documented native formats\<close>

text \<open>What a native output carries: a text, or a whole dictionary.\<close>

datatype answer = Text string | State "(string, pyval) dict"

definition carried_by :: "answer \<Rightarrow> string \<Rightarrow> bool" where
  "carried_by ans c \<longleftrightarrow> (case ans of Text s \<Rightarrow> c = s | State d \<Rightarrow> json_loads c = Some (PDict d))"

fun as_list :: "native \<Rightarrow> native list option" where
  "as_list (Val (PList vs)) = Some (map Val vs)"
| "as_list (Items ns s) = Some ns"
| "as_list _ = None"

definition entry_of :: "string \<Rightarrow> native \<Rightarrow> native option" where
  "entry_of k n = (case as_dict n of None \<Rightarrow> None | Some kvs \<Rightarrow> map_of kvs k)"

text \<open>The formats that the docstrings of \<^verbatim>\<open>pack_thought\<close> list, with what each carries: any dictionary with the named
  entry, any object with the named attribute, the first of any list of answers, replies or choices, a plain text.
  An answer that is no text is carried as its \<^verbatim>\<open>str\<close> where the adapter converts.\<close>

inductive documented :: "adapter_class \<Rightarrow> native \<Rightarrow> answer \<Rightarrow> bool" where
  plain_text: "cls \<notin> {LangGraph} \<Longrightarrow> documented cls (Val (PStr s)) (Text s)"
| state: "cls \<in> {CrewAI, LangGraph} \<Longrightarrow> json_val (PDict d) \<Longrightarrow> documented cls (Val (PDict d)) (State d)"
| autogen_message: "entry_of ''content'' raw = Some (Val (PStr s)) \<Longrightarrow> documented AutoGen raw (Text s)"
| haystack_answers: "entry_of ''answers'' raw = Some answers \<Longrightarrow> as_list answers = Some (first # others) \<Longrightarrow>
    entry_of ''answer'' first = Some x \<Longrightarrow> documented Haystack raw (Text (native_str x))"
| haystack_answer_object: "entry_of ''answers'' raw = Some answers \<Longrightarrow> as_list answers = Some (first # others) \<Longrightarrow>
    attr ''answer'' first = Some x \<Longrightarrow> documented Haystack raw (Text (native_str x))"
| haystack_replies: "entry_of ''answers'' raw = None \<Longrightarrow> entry_of ''replies'' raw = Some replies \<Longrightarrow>
    as_list replies = Some (first # others) \<Longrightarrow> documented Haystack raw (Text (native_str first))"
| llamaindex_response: "attr ''response'' raw = Some x \<Longrightarrow> documented LlamaIndex raw (Text (native_str x))"
| llamaindex_dict: "entry_of ''response'' raw = Some x \<Longrightarrow> documented LlamaIndex raw (Text (native_str x))"
| openai_content: "entry_of ''content'' raw = Some (Val (PStr s)) \<Longrightarrow> documented OpenAIAgents raw (Text s)"
| openai_choices: "entry_of ''content'' raw = None \<Longrightarrow> entry_of ''choices'' raw = Some choices \<Longrightarrow>
    as_list choices = Some (first # others) \<Longrightarrow> entry_of ''message'' first = Some m \<Longrightarrow>
    entry_of ''content'' m = Some (Val (PStr s)) \<Longrightarrow> documented OpenAIAgents raw (Text s)"
| openai_completion: "attr ''choices'' raw = Some choices \<Longrightarrow> as_list choices = Some (first # others) \<Longrightarrow>
    attr ''message'' first = Some m \<Longrightarrow> attr ''content'' m = Some (Val (PStr s)) \<Longrightarrow> documented OpenAIAgents raw (Text s)"
| pydantic_output: "attr ''output'' raw = Some x \<Longrightarrow> documented PydanticAI raw (Text (native_str x))"
| pydantic_data: "attr ''output'' raw = None \<Longrightarrow> attr ''data'' raw = Some x \<Longrightarrow> documented PydanticAI raw (Text (native_str x))"
| pydantic_dict: "entry_of ''output'' raw = Some x \<Longrightarrow> documented PydanticAI raw (Text (native_str x))"
| semantic_kernel_value: "attr ''value'' raw = Some x \<Longrightarrow> documented SemanticKernel raw (Text (native_str x))"
| semantic_kernel_dict: "entry_of ''result'' raw = Some x \<Longrightarrow> documented SemanticKernel raw (Text (native_str x))"
| smolagents_dict: "entry_of ''final_answer'' raw = Some x \<Longrightarrow> documented Smolagents raw (Text (native_str x))"
| smolagents_object: "attr ''final_answer'' raw = Some x \<Longrightarrow> documented Smolagents raw (Text (native_str x))"

lemma entry_of_dict: "entry_of k n = Some x \<longleftrightarrow> (\<exists>kvs. as_dict n = Some kvs \<and> map_of kvs k = Some x)"
  by (simp add: entry_of_def split: option.split)

lemma dict_no_attr: "as_dict n = Some kvs \<Longrightarrow> attr k n = None"
  by (cases n) simp_all

lemma attr_no_dict: "attr k n = Some x \<Longrightarrow> as_dict n = None"
  by (cases n) simp_all

lemma list_first: "as_list n = Some (first # others) \<Longrightarrow> native_true n \<and> item0 n = Inr first"
  by (cases n rule: as_list.cases) (auto simp: first_of_def)

lemmas content_defs = crewai_content_def langgraph_content_def autogen_content_def haystack_content_def
  llamaindex_content_def openai_content_def pydantic_content_def semantic_kernel_content_def smolagents_content_def

section \<open>Properties\<close>

lemma documented_content:
  assumes "documented cls raw ans"
  shows "\<exists>c. adapter_content cls raw = Inr (Val (PStr c)) \<and> carried_by ans c"
  using assms
proof cases
  case (plain_text s)
  then show ?thesis by (cases cls) (auto simp: content_defs text_val_def carried_by_def)
next
  case (state d)
  have "jsonable (PDict d)" by (rule wf_val_jsonable [OF json_val_wf [OF state(4)]])
  then have "adapter_content cls raw = Inr (Val (PStr (enc_raw (plain_opts (cls = LangGraph)) (PDict d))))"
    using state(1,3) by (auto simp: content_defs dumps_raw_jsonable simp del: enc_raw.simps)
  with loads_enc_raw [OF plain_opts_std state(4)] state(2) show ?thesis by (auto simp: carried_by_def)
next
  case (openai_completion choices first others m s)
  with list_first [OF openai_completion(4)] attr_no_dict show ?thesis
    by (auto simp: content_defs carried_by_def get_attr_def)
next
  case (openai_choices choices first others m s)
  with list_first [OF openai_choices(5)] show ?thesis
    by (auto simp: content_defs carried_by_def entry_of_dict entry_of_def dict_no_attr item_def split: option.splits)
qed (auto simp: content_defs carried_by_def entry_of_dict entry_of_def dict_no_attr attr_no_dict text_val_def get_or_def
    dest!: list_first split: option.splits)



text \<open>CrewAI state survives the wire: a dictionary of JSON values that one CrewAI adapter packs is what another
  unpacks, key order included; a text comes back as itself unless it is JSON, and then as the value it denotes.\<close>

theorem crewai_roundtrip:
  assumes "json_val (PDict d)"
  shows "(\<exists>e. snd (crewai_pack P env t i (Val (PDict d)) a) = Inr e \<and> crewai_unpack payload_str e = PDict d) \<and>
    (\<exists>e. snd (crewai_pack P env t i (Val (PStr s)) a) = Inr e \<and>
       crewai_unpack payload_str e = (case json_loads s of None \<Rightarrow> PStr s | Some v \<Rightarrow> v))"
proof
  have "crewai_content (Val (PDict d)) = Inr (Val (PStr (enc_raw (plain_opts False) (PDict d))))"
    by (simp add: crewai_content_def dumps_raw_jsonable [OF wf_val_jsonable [OF json_val_wf [OF assms]]] del: enc_raw.simps)
  from crewai.packs [OF this, of P env t i a] loads_enc_raw [OF plain_opts_std assms, of False]
  show "\<exists>e. snd (crewai_pack P env t i (Val (PDict d)) a) = Inr e \<and> crewai_unpack payload_str e = PDict d"
    by (simp add: crewai_unpack_def mk_envelope_def text_of_def del: enc_raw.simps)
  have "crewai_content (Val (PStr s)) = Inr (Val (PStr s))" by (simp add: crewai_content_def text_val_def)
  from crewai.packs [OF this, of P env t i a]
  show "\<exists>e. snd (crewai_pack P env t i (Val (PStr s)) a) = Inr e \<and>
       crewai_unpack payload_str e = (case json_loads s of None \<Rightarrow> PStr s | Some v \<Rightarrow> v)"
    by (simp add: crewai_unpack_def mk_envelope_def text_of_def split: option.splits)
qed

theorem crewai_roundtrip_witness:
  "\<exists>e. snd (crewai_pack demo_platform (at_time 0) 1 TASK_REQUEST
     (Val (PDict [(''b'', PInt 2), (''a'', PList [PNone])])) (base_init demo_peer (Some sample_manager))) = Inr e \<and>
     crewai_unpack (\<lambda>_. []) e = PDict [(''b'', PInt 2), (''a'', PList [PNone])]"
proof -
  have "json_val (PDict [(''b'', PInt 2), (''a'', PList [PNone])])" by code_simp
  from crewai_roundtrip [OF this] show ?thesis by blast
qed

text \<open>C28: Whatever any of the framework adapters packs with a node's adapter is accepted as authentic by every node
  that has the first node registered: the envelope names the node as its sender and its signature verifies under
  the node's public key.\<close>

theorem adapter_messages_authentic:
  assumes "pack_thought cls P env t i raw (create_adapter base_init n) = (b, Inr e)"
    and "ed_correct (ed_prims P)" "manager_wf (ed_prims P) (nd_manager n)"
    and "\<forall>sk d. length sk = 32 \<longrightarrow> ed_sign (ed_prims P) sk d \<noteq> []"
    and "public_key (nd_identity n) = get_public_key_string (nd_manager n)"
    and "map_of (peer_registry m) (agent_id (nd_identity n)) = Some (nd_identity n, addr)"
  shows "authentic P e m \<and> sender_id (header e) = agent_id (nd_identity n)"
proof -
  obtain c where e: "e = mk_envelope (adapter_header env (create_adapter base_init n) t i) (TextP (text_of c))
      (map_option (seal_signature P (TextP (text_of c))) (ad_manager (create_adapter base_init n)))"
    using pack_thought_packed [OF assms(1)] by blast
  have h: "sender_id (adapter_header env (create_adapter base_init n) t i) = agent_id (nd_identity n)"
    "ad_manager (create_adapter base_init n) = Some (nd_manager n)"
    by (simp_all add: adapter_header_def create_adapter_def base_init_def)
  show ?thesis
    using sealed_authentic [OF assms(2,3) jsonable_model_dump [OF wf_text [of c]], where n = m and peer = "nd_identity n" and addr = addr
        and h = "adapter_header env (create_adapter base_init n) t i"] assms(4-6)
    by (simp add: e h mk_envelope_def)
qed

theorem adapter_messages_authentic_witness:
  "\<exists>e. snd (pack_thought CrewAI demo_platform (at_time 0) 2 TASK_REQUEST (Val (PStr ''hi''))
       (create_adapter base_init (new_node demo_peer ''h'' 1 None sample_manager True None))) = Inr e \<and>
     authentic demo_platform e demo_node"
proof -
  let ?n = "new_node demo_peer ''h'' 1 None sample_manager True None"
  let ?p = "pack_thought CrewAI demo_platform (at_time 0) 2 TASK_REQUEST (Val (PStr ''hi'')) (create_adapter base_init ?n)"
  have n: "nd_identity ?n = demo_peer" "nd_manager ?n = sample_manager"
    by (simp_all add: new_node_def register_handler_def demo_peer_def mk_identity_def)
  have "snd ?p = Inr (mk_envelope (adapter_header (at_time 0) (create_adapter base_init ?n) 2 TASK_REQUEST) (TextP (text_of ''hi''))
      (map_option (seal_signature demo_platform (TextP (text_of ''hi''))) (ad_manager (create_adapter base_init ?n))))"
    by (rule pack_thought_packs) (simp add: content_defs text_val_def)
  then obtain e where e: "?p = (fst ?p, Inr e)" "snd ?p = Inr e" by (metis prod.collapse)
  have p: "agent_id demo_peer = 1" "public_key demo_peer = get_public_key_string sample_manager"
    by (simp_all add: demo_peer_def)
  have sg: "\<forall>sk d. length sk = 32 \<longrightarrow> ed_sign plain_ed sk d \<noteq> []" by (auto simp: plain_ed_def)
  have "authentic demo_platform e demo_node \<and> sender_id (header e) = agent_id (nd_identity ?n)"
    by (rule adapter_messages_authentic [OF e(1), where addr = "''ws://h''"])
      (use sg in \<open>simp_all add: n p plain_ed_laws sample_manager_wf\<close>)
  with e(2) show ?thesis by blast
qed

end
