(* ===== verification/Webhook.thy ===== *)
theory Webhook
  imports NodeSend NodeOutbound
begin

text \<open>
  The HTTP gateway of \<^verbatim>\<open>tpcp/relay/webhook.py\<close>: the bearer token, the fixed-window rate limit per
  address and the route that turns a POST into a signed message of the gateway's node. FastAPI runs
  the two dependencies in the order of the signature and turns an \<^verbatim>\<open>HTTPException\<close> into its status;
  any other exception of the route is a 500. \<^verbatim>\<open>UUID\<close> is the constructor of Python's \<^verbatim>\<open>uuid\<close> module.
\<close>

section \<open>Parsing a UUID\<close>

definition uuid_of_string :: "string \<Rightarrow> py_exn + uuid" where
  "uuid_of_string s =
     (let h = filter (\<lambda>c. c \<noteq> CHR ''-'') (strip_chars ''{}'' (remove_sub ''uuid:'' (remove_sub ''urn:'' s)))
      in if length h \<noteq> 32 then Inl (ValueError ''badly formed hexadecimal UUID string'')
         else case py_int16 h of
             None \<Rightarrow> Inl (ValueError ''invalid literal for int() with base 16'')
           | Some v \<Rightarrow>
               if 0 \<le> v \<and> v < 2 ^ 128 then Inr (word_of_int v)
               else Inl (ValueError ''int is out of range (need a 128-bit value)''))"

section \<open>The gateway\<close>

record gateway =
  gateway_identity :: "agent_identity option"
  gateway_manager :: "identity_manager option"
  local_tpcp_node :: "node option"
  rate_limits :: "(string, nat \<times> seconds) dict"

definition new_gateway :: gateway where
  "new_gateway = \<lparr>gateway_identity = None, gateway_manager = None, local_tpcp_node = None, rate_limits = []\<rparr>"

record http_request =
  authorization :: "string option"
  client_host :: "string option"

text \<open>\<open>secret\<close> is the environment variable \<^verbatim>\<open>TPCP_WEBHOOK_SECRET\<close>.\<close>

definition verify_auth :: "string option \<Rightarrow> http_request \<Rightarrow> py_exn option" where
  "verify_auth secret req =
     (case secret of
        None \<Rightarrow> None
      | Some sec \<Rightarrow>
          if sec = [] then None
          else
            let auth = (case authorization req of None \<Rightarrow> [] | Some a \<Rightarrow> a)
            in if take 7 auth \<noteq> ''Bearer '' \<or> drop 7 auth \<noteq> sec
               then Some (HTTPException 401 ''Invalid or missing Bearer token'')
               else None)"

definition check_rate_limit ::
  "seconds \<Rightarrow> http_request \<Rightarrow> (string, nat \<times> seconds) dict \<Rightarrow> (string, nat \<times> seconds) dict \<times> py_exn option" where
  "check_rate_limit now req lims =
     (let ip = (case client_host req of None \<Rightarrow> ''unknown'' | Some h \<Rightarrow> h)
      in case map_of lims ip of
           Some (cnt, window_start) \<Rightarrow>
             if now - window_start > 60 then (AList.update ip (1, now) lims, None)
             else if cnt \<ge> 60 then (lims, Some (HTTPException 429 ''Rate limit exceeded''))
             else (AList.update ip (cnt + 1, window_start) lims, None)
         | None \<Rightarrow> (AList.update ip (1, now) lims, None))"

record webhook_intent_request =
  target_id :: "string option"
  req_intent :: intent
  req_text :: string

definition DEFAULT_TARGET :: "string option" where
  "DEFAULT_TARGET = Some ''00000000-0000-0000-0000-000000000000''"

definition configure_gateway :: "agent_identity \<Rightarrow> identity_manager \<Rightarrow> node \<Rightarrow> gateway \<Rightarrow> gateway" where
  "configure_gateway ident mgr n g =
     g\<lparr>gateway_identity := Some ident, gateway_manager := Some mgr, local_tpcp_node := Some n\<rparr>"

text \<open>The body of the route; \<^verbatim>\<open>UUID(None)\<close> raises a \<^verbatim>\<open>TypeError\<close>, which the route does not catch.\<close>

definition route_intent ::
  "platform \<Rightarrow> nenv \<Rightarrow> webhook_intent_request \<Rightarrow> gateway \<Rightarrow> gateway \<times> node_out list \<times> (py_exn + pyval)" where
  "route_intent P env r g =
     (case (gateway_identity g, gateway_manager g, local_tpcp_node g) of
        (Some _, Some _, Some n) \<Rightarrow>
          (case target_id r of
             None \<Rightarrow> (g, [], Inl (TypeError ''one of the hex, bytes, bytes_le, fields, or int arguments must be given''))
           | Some t \<Rightarrow>
               (case uuid_of_string t of
                  Inl e \<Rightarrow> (g, [], Inl (HTTPException 400 ''Invalid target_id UUID format.''))
                | Inr u \<Rightarrow>
                    (case send_message P env 0 u (req_intent r) (TextP (text_of (req_text r))) False None n of
                       (n', outs, Inl e) \<Rightarrow>
                         (g\<lparr>local_tpcp_node := Some n'\<rparr>, outs, Inl (HTTPException 502 ''Failed to route into Mesh.''))
                     | (n', outs, Inr mid) \<Rightarrow>
                         (g\<lparr>local_tpcp_node := Some n'\<rparr>, outs,
                          Inr (PDict [(''status'', PStr ''success''), (''message_id'', PStr (uuid_str mid)),
                                 (''dispatched_to_swarm'', PBool True)])))))
      | _ \<Rightarrow> (g, [], Inl (HTTPException 500 ''Stateless Webhook Gateway has not been configured securely.'')))"

definition trigger_swarm_intent ::
  "platform \<Rightarrow> string option \<Rightarrow> nenv \<Rightarrow> http_request \<Rightarrow> webhook_intent_request \<Rightarrow> gateway \<Rightarrow>
   gateway \<times> node_out list \<times> (py_exn + pyval)" where
  "trigger_swarm_intent P secret env req r g =
     (case verify_auth secret req of
        Some e \<Rightarrow> (g, [], Inl e)
      | None \<Rightarrow>
          (case check_rate_limit (monotonic env) req (rate_limits g) of
             (lims, Some e) \<Rightarrow> (g\<lparr>rate_limits := lims\<rparr>, [], Inl e)
           | (lims, None) \<Rightarrow> route_intent P env r (g\<lparr>rate_limits := lims\<rparr>)))"

definition get_health :: "gateway \<Rightarrow> pyval" where
  "get_health g = PDict [(''status'', PStr ''ok''), (''version'', PStr PROTOCOL_VERSION),
     (''gateway_active'', PBool (gateway_identity g \<noteq> None))]"

text \<open>The status that the client sees.\<close>

primrec status :: "py_exn + pyval \<Rightarrow> nat" where
  "status (Inr _) = 200"
| "status (Inl e) = (case e of HTTPException s _ \<Rightarrow> s | _ \<Rightarrow> 500)"

section \<open>Facts about parsing\<close>

lemma uuid_str_chars: "c \<in> set (uuid_str u) \<Longrightarrow> c = CHR ''-'' \<or> hex_of c \<noteq> None"
  using hex_fixed_hex [of c 32 "uint u"]
  by (auto simp: uuid_str_def Let_def dest: in_set_takeD in_set_dropD)

lemma uuid_str_digits: "filter (\<lambda>c. c \<noteq> CHR ''-'') (uuid_str u) = hex_fixed 32 (uint u)"
proof -
  let ?h = "hex_fixed 32 (uint u)"
  have "c \<noteq> CHR ''-''" if "c \<in> set ?h" for c using hex_fixed_hex [OF that] not_hex(1) by auto
  then have f: "filter (\<lambda>c. c \<noteq> CHR ''-'') xs = xs" if "set xs \<subseteq> set ?h" for xs
    using that by (intro filter_True) blast
  have "set (take m (drop n ?h)) \<subseteq> set ?h" "set (take m ?h) \<subseteq> set ?h" "set (drop n ?h) \<subseteq> set ?h" for m n
    using set_take_subset [of m "drop n ?h"] set_drop_subset [of n ?h] set_take_subset [of m ?h] by blast+
  note g = this [THEN f]
  have "?h = take 8 ?h @ take 4 (drop 8 ?h) @ take 4 (drop 12 ?h) @ take 4 (drop 16 ?h) @ drop 20 ?h"
    using append_take_drop_id [of 8 ?h] append_take_drop_id [of 4 "drop 8 ?h"]
      append_take_drop_id [of 4 "drop 12 ?h"] append_take_drop_id [of 4 "drop 16 ?h"] by (simp del: hex_fixed.simps)
  then show ?thesis by (simp add: uuid_str_def Let_def g)
qed

section \<open>The rate limit over a run\<close>

definition client_ip :: "http_request \<Rightarrow> string" where
  "client_ip req = (case client_host req of None \<Rightarrow> ''unknown'' | Some h \<Rightarrow> h)"

text \<open>The requests of one address that a sequence of requests gets through.\<close>

fun admitted :: "string \<Rightarrow> (seconds \<times> http_request) list \<Rightarrow> (string, nat \<times> seconds) dict \<Rightarrow> nat" where
  "admitted ip [] lims = 0"
| "admitted ip ((now, req) # rs) lims =
     (case check_rate_limit now req lims of
        (lims', res) \<Rightarrow> (if client_ip req = ip \<and> res = None then 1 else 0) + admitted ip rs lims')"

lemma check_other: "client_ip req \<noteq> ip \<Longrightarrow> map_of (fst (check_rate_limit now req lims)) ip = map_of lims ip"
  by (auto simp: check_rate_limit_def client_ip_def Let_def dict_simps split: option.splits)

lemma check_own:
  assumes "client_ip req = ip" "map_of lims ip = Some (c, s)" "c \<le> 60"
  shows "\<exists>c' s' ok. map_of (fst (check_rate_limit now req lims)) ip = Some (c', s') \<and> c' \<le> 60 \<and>
    (snd (check_rate_limit now req lims) = None \<longleftrightarrow> ok) \<and>
    (if now - s > 60 then ok \<and> c' = 1 \<and> s' = now else s' = s \<and> c' = (if ok then c + 1 else c))"
  using assms by (auto simp: check_rate_limit_def client_ip_def Let_def dict_simps)

text \<open>Every admitted request is paid for by the rest of the current window or by time.\<close>

lemma admitted_paid:
  assumes "map_of lims ip = Some (c, s)" "c \<le> 60" "sorted (s # map fst rs)"
  shows "of_nat (admitted ip rs lims) \<le> of_nat (60 - c) + (last (s # map fst rs) - s)"
  using assms
proof (induction rs arbitrary: lims c s)
  case Nil
  then show ?case by simp
next
  case (Cons r rs)
  obtain now req where r: "r = (now, req)" by (cases r)
  let ?l = "fst (check_rate_limit now req lims)"
  let ?last = "last (s # map fst (r # rs))"
  have sorted: "s \<le> now" "sorted (now # map fst rs)" "sorted (s # map fst rs)"
    using Cons.prems(3) by (auto simp: r)
  have last: "?last = last (now # map fst rs)" by (simp add: r)
  have ge: "now \<le> ?last" unfolding last using sorted(2) by (cases rs rule: rev_cases) (auto simp: sorted_append)
  have mono: "last (s # map fst rs) \<le> ?last" using sorted(1) by (simp add: r)
  show ?case
  proof (cases "client_ip req = ip")
    case False
    from Cons.IH [OF _ Cons.prems(2) sorted(3), of ?l] check_other [OF False, of now lims] Cons.prems(1) False mono
    show ?thesis by (simp add: r case_prod_beta)
  next
    case True
    from check_own [OF True Cons.prems(1,2), of now] obtain c' s' ok where
      e: "map_of ?l ip = Some (c', s')" "c' \<le> 60" "snd (check_rate_limit now req lims) = None \<longleftrightarrow> ok"
        "if now - s > 60 then ok \<and> c' = 1 \<and> s' = now else s' = s \<and> c' = (if ok then c + 1 else c)" by blast
    have n: "admitted ip (r # rs) lims = (if ok then 1 else 0) + admitted ip rs ?l"
      using True e(3) by (simp add: r case_prod_beta)
    show ?thesis
    proof (cases "now - s > 60")
      case new: True
      with e have "map_of ?l ip = Some (1, now)" ok by auto
      from Cons.IH [OF this(1) _ sorted(2)] this(2) new n last show ?thesis by simp
    next
      case False
      with e have s': "s' = s" and c': "c' = (if ok then c + 1 else c)" by auto
      from Cons.IH [OF e(1,2)] sorted(3) have ih: "of_nat (admitted ip rs ?l) \<le> of_nat (60 - c') + (last (s # map fst rs) - s)"
        by (simp add: s')
      have "of_nat (60 - c') + (if ok then 1 else 0) = (of_nat (60 - c) :: rat)"
        using c' e(2) Cons.prems(2) by (auto simp: of_nat_diff)
      with ih n mono show ?thesis by (auto split: if_splits)
    qed
  qed
qed

section \<open>Properties\<close>

text \<open>The id parser reads back what \<^verbatim>\<open>str(UUID)\<close> writes, for every 128-bit id.\<close>

theorem uuid_roundtrip: "uuid_of_string (uuid_str u) = Inr u"
proof -
  let ?h = "hex_fixed 32 (uint u)"
  have no: "x \<notin> set (uuid_str u)" if "hex_of x = None" "x \<noteq> CHR ''-''" for x using uuid_str_chars that by blast
  have "remove_sub ''uuid:'' (remove_sub ''urn:'' (uuid_str u)) = uuid_str u"
    using remove_sub_absent [of "CHR '':''" _ "uuid_str u"] no [OF not_hex(3)] by simp
  moreover have "strip_chars ''{}'' (uuid_str u) = uuid_str u"
    using no not_hex(7) by (intro strip_absent) auto
  ultimately have h: "filter (\<lambda>c. c \<noteq> CHR ''-'') (strip_chars ''{}'' (remove_sub ''uuid:'' (remove_sub ''urn:'' (uuid_str u)))) = ?h"
    by (simp only: uuid_str_digits)
  obtain a b r where abr: "?h = a # b # r"
    using hex_fixed_length [of 32 "uint u"] by (cases ?h; cases "tl ?h") auto
  have hex: "\<forall>c \<in> set ?h. hex_of c \<noteq> None" using hex_fixed_hex by blast
  then have ab: "hex_of a \<noteq> None" "hex_of b \<noteq> None" by (simp_all add: abr)
  have "strip_chars int_space ?h = ?h" using hex not_hex(8) by (intro strip_absent) blast
  moreover have "a \<noteq> CHR ''-''" "a \<noteq> CHR ''+''" "b \<noteq> CHR ''x''" "b \<noteq> CHR ''X''" using ab not_hex by auto
  ultimately have "py_int16 ?h = scan_int 16 hex_of True 0 ?h"
    by (simp add: py_int16_def int_sign_def Let_def abr option.map_ident)
  also have "\<dots> = Some (uint u mod 16 ^ 32)"
    using int16_digits [OF _ hex] hex_fixed_value [of 32 "uint u"] abr by simp
  also have "uint u mod 16 ^ 32 = uint u" using uint_lt2p [of u] by simp
  finally show ?thesis using h uint_lt2p [of u] by (simp add: uuid_of_string_def Let_def del: hex_fixed.simps)
qed


text \<open>The gateway's rate limit per address: however the requests of several addresses are interleaved, an
  address that is new to the gateway gets at most 60 requests through, plus one for every second that
  passes between the first and the last of the run.\<close>

theorem webhook_rate_bounded:
  assumes "map_of lims ip = None" "sorted (map fst rs)" "rs \<noteq> []"
  shows "of_nat (admitted ip rs lims) \<le> 60 + (last (map fst rs) - fst (hd rs))"
  using assms
proof (induction rs arbitrary: lims)
  case (Cons r rs)
  obtain now req where r: "r = (now, req)" by (cases r)
  let ?l = "fst (check_rate_limit now req lims)"
  have ge: "now \<le> last (now # map fst rs)"
    using Cons.prems(2) by (cases rs rule: rev_cases) (auto simp: r sorted_append)
  show ?case
  proof (cases "client_ip req = ip")
    case False
    then have none: "map_of ?l ip = None" using check_other Cons.prems(1) by simp
    show ?thesis
    proof (cases rs)
      case Nil
      then show ?thesis using False by (simp add: r case_prod_beta)
    next
      case (Cons r' rs')
      with Cons.IH [OF none] Cons.prems(2) False show ?thesis by (auto simp: r case_prod_beta)
    qed
  next
    case True
    with Cons.prems(1) have "map_of ?l ip = Some (1, now)" "snd (check_rate_limit now req lims) = None"
      by (simp_all add: check_rate_limit_def client_ip_def Let_def dict_simps)
    with admitted_paid [of ?l ip 1 now rs] Cons.prems(2) True ge show ?thesis
      by (simp add: r case_prod_beta)
  qed
qed simp

definition phone :: http_request where
  "phone = \<lparr>authorization = None, client_host = Some ''10.0.0.7''\<rparr>"

theorem webhook_rate_bounded_witness:
  "of_nat (admitted ''10.0.0.7'' [(0, phone), (1, phone\<lparr>client_host := None\<rparr>), (2, phone)] []) \<le> (62 :: rat)"
  using webhook_rate_bounded [of "[]" "''10.0.0.7''" "[(0, phone), (1, phone\<lparr>client_host := None\<rparr>), (2, phone)]"] by simp

text \<open>The windows are fixed, so the limit of 60 requests a minute does not hold for every minute: after one
  request at time 0, 59 requests at second 60 and 60 more at second 61 all pass.\<close>

lemma webhook_window_burst:
  "admitted ''10.0.0.7'' ((0, phone) # replicate 59 (60, phone) @ replicate 60 (61, phone)) [] = 120"
  by code_simp

text \<open>The gateway sends nothing that is not authorised: with a secret set, a request whose header is not the
  bearer token answers 401, makes the node send nothing and changes no state, the rate limit included.\<close>

theorem unauthorised_request_rejected:
  assumes "sec \<noteq> []" "authorization req \<noteq> Some (''Bearer '' @ sec)"
  shows "\<exists>e. trigger_swarm_intent P (Some sec) env req r g = (g, [], Inl e) \<and> status (Inl e) = 401"
proof -
  have "take 7 a \<noteq> ''Bearer '' \<or> drop 7 a \<noteq> sec" if "authorization req = Some a" for a
    using that assms(2) append_take_drop_id [of 7 a] by metis
  with assms(1) show ?thesis
    by (auto simp: trigger_swarm_intent_def verify_auth_def Let_def split: option.splits)
qed

theorem unauthorised_request_rejected_witness:
  "\<exists>e. trigger_swarm_intent demo_platform (Some ''s3cret'') (at_time 0) phone
     \<lparr>target_id = DEFAULT_TARGET, req_intent = TASK_REQUEST, req_text = ''hi''\<rparr> new_gateway = (new_gateway, [], Inl e) \<and> status (Inl e) = 401"
  by (rule unauthorised_request_rejected) (simp_all add: phone_def)

text \<open>What the gateway answers: an authorised request that is not rate limited answers 500 when the gateway is
  not configured or the target is null, 400 when the target is no UUID, and otherwise 200 with the id of the
  message that the gateway's node has sent or queued for the target, signed with the node's key.\<close>

theorem webhook_routes:
  assumes "verify_auth secret req = None" "check_rate_limit (monotonic env) req (rate_limits g) = (lims, None)"
  shows "case trigger_swarm_intent P secret env req r g of (g', outs, res) \<Rightarrow>
    rate_limits g' = lims \<and>
    (if gateway_identity g = None \<or> gateway_manager g = None \<or> local_tpcp_node g = None \<or> target_id r = None
     then status res = 500 \<and> outs = [] \<and> local_tpcp_node g' = local_tpcp_node g
     else case uuid_of_string (the (target_id r)) of
         Inl e \<Rightarrow> status res = 400 \<and> outs = [] \<and> local_tpcp_node g' = local_tpcp_node g
       | Inr u \<Rightarrow>
           (\<exists>sig n'. let n = the (local_tpcp_node g); pl = TextP (text_of (req_text r)) in
              sign_payload (ed_prims P) (nd_manager n) (model_dump pl) = Inr sig \<and>
              dispatch_envelope env u (mk_envelope (create_header env 0 n u (req_intent r)) pl (Some sig)) n = (n', outs) \<and>
              local_tpcp_node g' = Some n' \<and> status res = 200 \<and>
              res = Inr (PDict [(''status'', PStr ''success''), (''message_id'', PStr (uuid_str (fresh_id env 0))),
                (''dispatched_to_swarm'', PBool True)])))"
proof (cases "gateway_identity g = None \<or> gateway_manager g = None \<or> local_tpcp_node g = None \<or> target_id r = None")
  case True
  with assms show ?thesis
    by (auto simp: trigger_swarm_intent_def route_intent_def split: option.splits)
next
  case False
  then obtain i m n t where c: "gateway_identity g = Some i" "gateway_manager g = Some m" "local_tpcp_node g = Some n"
    "target_id r = Some t" by auto
  show ?thesis
  proof (cases "uuid_of_string t")
    case (Inl e)
    with assms c show ?thesis by (simp add: trigger_swarm_intent_def route_intent_def)
  next
    case (Inr u)
    from send_message_ok [of "TextP (text_of (req_text r))" P n env u 0 "req_intent r"] obtain sig n' outs where
      "sign_payload (ed_prims P) (nd_manager n) (model_dump (TextP (text_of (req_text r)))) = Inr sig"
      "dispatch_envelope env u (mk_envelope (create_header env 0 n u (req_intent r)) (TextP (text_of (req_text r))) (Some sig)) n = (n', outs)"
      "send_message P env 0 u (req_intent r) (TextP (text_of (req_text r))) False None n = (n', outs, Inr (fresh_id env 0))"
      by auto
    with Inr assms c show ?thesis by (simp add: trigger_swarm_intent_def route_intent_def Let_def)
  qed
qed

theorem webhook_routes_witness:
  "status (snd (snd (trigger_swarm_intent demo_platform None (at_time 0) phone
     \<lparr>target_id = Some ''not-a-uuid'', req_intent = TASK_REQUEST, req_text = ''hi''\<rparr>
     (configure_gateway demo_peer sample_manager demo_node new_gateway)))) = 400"
proof -
  let ?g = "configure_gateway demo_peer sample_manager demo_node new_gateway"
  have "\<exists>e. uuid_of_string ''not-a-uuid'' = Inl e"
    by (simp add: uuid_of_string_def remove_sub.simps strip_chars_def Let_def)
  moreover have "verify_auth None phone = None"
    "check_rate_limit (monotonic (at_time 0)) phone (rate_limits ?g) = ([(''10.0.0.7'', 1, 0)], None)"
    by (simp_all add: verify_auth_def check_rate_limit_def phone_def configure_gateway_def new_gateway_def)
  note r = webhook_routes [OF this, where P = demo_platform and r =
      "\<lparr>target_id = Some ''not-a-uuid'', req_intent = TASK_REQUEST, req_text = ''hi''\<rparr>"]
  ultimately show ?thesis
    using r by (auto simp: configure_gateway_def new_gateway_def case_prod_beta split: sum.splits)
qed

end
