(* ===== verification/DemoHandshake.thy ===== *)
theory DemoHandshake
  imports Demos Adapters Webhook
begin

text \<open>
  The demonstration of the handshake (\<^verbatim>\<open>src/tpcp/examples/01_handshake_demo.py\<close>): node A announces itself, a
  custom handler of node B registers it and packs an answer with the CrewAI adapter, a custom handler of node A
  unpacks the answer with the LangGraph adapter and sets the event that the script waits for. The call of the
  adapter has its arguments in another order than the method, and the method that the other handler calls does not
  exist; the model keeps both as they are.
\<close>

section \<open>The two handlers\<close>

text \<open>The attributes of a \<^verbatim>\<open>LangGraphAdapter\<close> (what every Python object has is left out).\<close>

definition langgraph_attributes :: "string list" where
  "langgraph_attributes =
     [''identity'', ''identity_manager'', ''_logical_clock'', ''_clock_lock'', ''_tick'', ''pack_thought'', ''unpack_request'',
      ''_require_identity_manager'', ''_create_header'']"

definition langgraph_attribute :: "string \<Rightarrow> 'a \<Rightarrow> py_exn + 'a" where
  "langgraph_attribute name x =
     (if name \<in> set langgraph_attributes then Inr x
      else Inl (AttributeError (repr_str ''LangGraphAdapter'' @ '' object has no attribute '' @ repr_str name)))"

definition native_ack_thought :: pyval where
  "native_ack_thought =
     PDict [(''status'', PStr ''CAPABILITY_ACK''), (''message'', PStr ''Acknowledged. Scorer Agent is ready.''),
       (''supported_intents'', PList [PStr ''Task_Request'', PStr ''Critique''])]"

text \<open>The field \<^verbatim>\<open>receiver_id\<close> of a header: a UUID, or the text of one.\<close>

definition receiver_field :: "pyval \<Rightarrow> py_exn + uuid" where
  "receiver_field v =
     (case v of
        PUuid u \<Rightarrow> Inr u
      | PStr s \<Rightarrow> map_sum (\<lambda>e. ValidationError ''receiver_id: Input should be a valid UUID'') id (uuid_of_string s)
      | _ \<Rightarrow> Inl (ValidationError ''receiver_id: UUID input should be a string, bytes or UUID object''))"

text \<open>\<^verbatim>\<open>CrewAIAdapter.pack_thought\<close> on whatever is passed as the target: the content, then the header.\<close>

definition crewai_pack_call :: "platform \<Rightarrow> nenv \<Rightarrow> pyval \<Rightarrow> native \<Rightarrow> intent \<Rightarrow> adapter \<Rightarrow> py_exn + envelope" where
  "crewai_pack_call P env target raw i a =
     bind_exn (crewai_content raw) (\<lambda>c. bind_exn (receiver_field target) (\<lambda>u. snd (crewai_pack P env u i raw a)))"

text \<open>An envelope is not a coroutine, so that \<^verbatim>\<open>await\<close> on one raises.\<close>

definition handshake_responder :: "platform \<Rightarrow> adapter \<Rightarrow> nenv \<Rightarrow> envelope \<Rightarrow> conn \<Rightarrow> node \<Rightarrow> node \<times> node_out list \<times> py_exn option" where
  "handshake_responder P adapter_b env e ws n =
     (case payload e of
        TextP t \<Rightarrow>
          (case json_loads (content t) of
             None \<Rightarrow> (n, [], Some (ValueError ''Expecting value''))
           | Some d \<Rightarrow>
               (case dec_identity P d of
                  None \<Rightarrow> (n, [], Some (ValidationError ''AgentIdentity''))
                | Some sender \<Rightarrow>
                    (let n = register_peer sender ''ws://127.0.0.1:8000'' n
                     in case crewai_pack_call P env native_ack_thought (Val (PUuid (agent_id sender))) HANDSHAKE adapter_b of
                          Inl x \<Rightarrow> (n, [], Some x)
                        | Inr ack \<Rightarrow> (n, [], Some (TypeError ''object TPCPEnvelope can't be used in await expression'')))))
      | pl \<Rightarrow> (n, [], Some (AttributeError (repr_str (payload_class pl) @ '' object has no attribute '' @ repr_str ''content''))))"

text \<open>\<open>unpack\<close> is what \<^verbatim>\<open>adapter_a.unpack_payload\<close>, if there were such a method, would return. The event is set when
  the handler ends without an exception.\<close>

definition ack_receiver :: "(envelope \<Rightarrow> pyval) \<Rightarrow> nenv \<Rightarrow> envelope \<Rightarrow> conn \<Rightarrow> node \<Rightarrow> node \<times> node_out list \<times> py_exn option" where
  "ack_receiver unpack env e ws n =
     (case langgraph_attribute ''unpack_payload'' unpack of
        Inl x \<Rightarrow> (n, [], Some x)
      | Inr f \<Rightarrow> (n, [], case json_dumps_raw (plain_opts False) (f e) of Inl x \<Rightarrow> Some x | Inr s \<Rightarrow> None))"

definition demo_handlers :: "platform \<Rightarrow> adapter \<Rightarrow> (envelope \<Rightarrow> pyval) \<Rightarrow> user_handlers" where
  "demo_handlers P adapter_b unpack k = (if k = 0 then handshake_responder P adapter_b else ack_receiver unpack)"

section \<open>The script\<close>

text \<open>The handler that a message reaches, behind the middleware.\<close>

definition reached_handler :: "platform \<Rightarrow> nenv \<Rightarrow> envelope \<Rightarrow> node \<Rightarrow> handler option" where
  "reached_handler P env e n =
     (if 0 < ttl (header e) \<and> map_of (evict_seen env (seen_messages n)) (message_id (header e)) = None \<and>
         (intent (header e) = HANDSHAKE \<or> authentic P e n) \<and> \<not> acl_denies n e
      then map_of (handlers n) (intent (header e)) else None)"

text \<open>What reaches node A, and whether the event gets set.\<close>

fun await_answer :: "platform \<Rightarrow> adapter \<Rightarrow> (envelope \<Rightarrow> pyval) \<Rightarrow> nenv \<Rightarrow> conn \<Rightarrow> envelope list \<Rightarrow> node \<Rightarrow> node \<times> bool" where
  "await_answer P adapter_b unpack env ws [] n = (n, False)"
| "await_answer P adapter_b unpack env ws (e # es) n =
     (let done = reached_handler P env e n = Some (UserHandler 1) \<and> snd (snd (ack_receiver unpack env e ws n)) = None;
          (n, later) = await_answer P adapter_b unpack env ws es (fst (process_envelope P (demo_handlers P adapter_b unpack) env ws e n))
      in (n, done \<or> later))"

text \<open>The result: both nodes, and the exception that the script ends with. It stops the nodes only when the event
  was set in time.\<close>

definition run_handshake_demo ::
  "platform \<Rightarrow> (envelope \<Rightarrow> pyval) \<Rightarrow> nenv \<Rightarrow> nenv \<Rightarrow> conn \<Rightarrow> string option \<Rightarrow> filesystem \<Rightarrow> bytes \<times> uuid \<Rightarrow> bytes \<times> uuid \<Rightarrow>
   py_exn + node \<times> node \<times> py_exn option" where
  "run_handshake_demo P unpack env_a env_b ws env_key fs ka kb =
     (case demo_agent (ed_prims P) env_key fs ka ''LangGraph'' [''web_search'', ''data_extraction''] ''pub_key_hunter_A'' 8000 of
        Inl x \<Rightarrow> Inl x
      | Inr a \<Rightarrow> (case demo_agent (ed_prims P) env_key fs kb ''CrewAI'' [''data_scoring'', ''report_generation''] ''pub_key_scorer_B'' 8001 of
        Inl x \<Rightarrow> Inl x
      | Inr b \<Rightarrow>
          (let adapter_b = crewai_init (nd_identity b) None
           in case both_listen (register_handler HANDSHAKE (UserHandler 1) a) (register_handler HANDSHAKE (UserHandler 0) b) of
                Inl x \<Rightarrow> Inl x
              | Inr (a, b) \<Rightarrow>
                  (case broadcast_discovery P env_a [''ws://127.0.0.1:8001''] a of
                     (outs, Some x) \<Rightarrow> Inr (a, b, Some x)
                   | (outs, None) \<Rightarrow>
                       (case deliver_all P (demo_handlers P adapter_b unpack) (map (\<lambda>e. (env_b, ws, e)) (envelopes_of outs)) b of
                          (b, replies) \<Rightarrow>
                            (case await_answer P adapter_b unpack env_a ws (envelopes_of replies) a of
                               (a, True) \<Rightarrow> Inr (fst (stop_listening a), fst (stop_listening b), None)
                             | (a, False) \<Rightarrow> Inr (a, b, Some (TimeoutError []))))))))"

section \<open>The outcome\<close>

lemma reached_handler_runs:
  "reached_handler P env e n = Some h \<Longrightarrow> process_envelope P user env ws e n = run_and_reply P user env h e ws (noted env e n)"
  "reached_handler P env e n = None \<Longrightarrow> process_envelope P user env ws e n = process_envelope P user' env ws e n"
  by (auto simp: reached_handler_def process_envelope_def acl_denies_def authentic_def noted_def Let_def split: if_splits option.splits)

lemma ack_receiver_fails: "snd (snd (ack_receiver unpack env e ws n)) \<noteq> None"
proof -
  have "''unpack_payload'' \<notin> set langgraph_attributes" by code_simp
  then show ?thesis by (simp add: ack_receiver_def langgraph_attribute_def)
qed

lemma await_answer_fails: "snd (await_answer P adapter_b unpack env ws es n) = False"
  by (induction es arbitrary: n) (simp_all add: ack_receiver_fails Let_def split: prod.splits)

lemma responder_never_answers:
  "fst (snd (handshake_responder P ad env e ws n)) = []" "snd (snd (handshake_responder P ad env e ws n)) \<noteq> None"
  by (auto simp: handshake_responder_def Let_def split: payload.splits option.splits sum.splits)

text \<open>The answer cannot even be packed: the dictionary is passed as the target.\<close>

lemma ack_not_packed:
  "crewai_pack_call P env native_ack_thought (Val (PUuid u)) i ad =
     Inl (ValidationError ''receiver_id: UUID input should be a string, bytes or UUID object'')"
  by (simp add: crewai_pack_call_def crewai_content_def text_val_def native_ack_thought_def receiver_field_def bind_exn_def)

lemma responder_registers:
  assumes "payload e = TextP (text_of txt)" "json_loads txt = Some d" "dec_identity P d = Some s"
  shows "\<exists>x. handshake_responder P ad env e ws n = (register_peer s ''ws://127.0.0.1:8000'' n, [], Some x)"
  using assms by (simp add: handshake_responder_def text_of_def Let_def split: sum.splits)

lemma announcement:
  assumes "ports_open env" "adns_ws n = None" "wf_payload (TextP (text_of (identity_json P (nd_identity n))))"
  obtains outs sig where "broadcast_discovery P env [url] n = (outs, None)"
    "envelopes_of outs = [mk_envelope (create_header env 0 n 0 HANDSHAKE) (TextP (text_of (identity_json P (nd_identity n)))) (Some sig)]"
proof -
  obtain ws where c: "connect_to env url = Some ws" using assms(1) unfolding ports_open_def by blast
  obtain sig where g: "sign_payload (ed_prims P) (nd_manager n) (model_dump (TextP (text_of (identity_json P (nd_identity n))))) = Inr sig"
    using sign_payload_jsonable [OF jsonable_model_dump [OF assms(3)]] by blast
  let ?e = "mk_envelope (create_header env 0 n 0 HANDSHAKE) (TextP (text_of (identity_json P (nd_identity n)))) (Some sig)"
  have "send_ok env ws e" for e using assms(1) by (simp add: ports_open_def)
  with c g assms(2) have "broadcast_discovery P env [url] n = ([SentEnvelope ws ?e, ClosedConn ws], None)"
    by (simp add: broadcast_discovery_def Let_def)
  with that [of "[SentEnvelope ws ?e, ClosedConn ws]" sig] show thesis by (simp add: envelopes_of_def)
qed

text \<open>The handshake demonstration cannot succeed: on a working network, with readable identities, node B registers
  node A, no answer is ever packed, node A registers nobody, and the script ends with a timeout, with both nodes
  still listening. This holds whatever the missing method of the adapter would do.\<close>

theorem handshake_demo_times_out:
  assumes "snd (new_manager (ed_prims P) env_key (fst ka) None None False fs) = Inr ma"
    and "snd (new_manager (ed_prims P) env_key (fst kb) None None False fs) = Inr mb"
    and net: "ports_open env_a"
    and pydantic: "\<And>i. agent_id i = snd ka \<Longrightarrow>
      \<exists>d s. json_loads (identity_json P i) = Some d \<and> dec_identity P d = Some s \<and> agent_id s = snd ka"
  shows "\<exists>a b. run_handshake_demo P unpack env_a env_b ws env_key fs ka kb = Inr (a, b, Some (TimeoutError [])) \<and>
    peer_registry a = [] \<and> map fst (peer_registry b) = [snd ka] \<and> serving a \<and> serving b"
proof -
  let ?A = "register_handler HANDSHAKE (UserHandler 1) (new_node ((mk_identity (snd ka) ''LangGraph'' ''pub_key_hunter_A'')
      \<lparr>capabilities := [''web_search'', ''data_extraction'']\<rparr>) ''127.0.0.1'' 8000 None ma False None)"
    and ?b0 = "new_node ((mk_identity (snd kb) ''CrewAI'' ''pub_key_scorer_B'')
      \<lparr>capabilities := [''data_scoring'', ''report_generation'']\<rparr>) ''127.0.0.1'' 8001 None mb False None"
  let ?B = "register_handler HANDSHAKE (UserHandler 0) ?b0"
  let ?ad = "crewai_init (nd_identity ?b0) None"
  define a where "a = ?A\<lparr>serving := True, nd_running := True\<rparr>"
  define b where "b = ?B\<lparr>serving := True, nd_running := True\<rparr>"
  have listen: "both_listen ?A ?B = Inr (a, b)"
    unfolding a_def b_def
    by (simp add: both_listen_def start_listening_def lww_connect_def new_node_def register_handler_def new_lww_def)
  have fa: "peer_registry a = []" "adns_ws a = None" "serving a" "agent_id (nd_identity a) = snd ka"
    and fb: "peer_registry b = []" "serving b" "seen_messages b = []" "auto_ack b = False" "nd_acl b = None"
      "map_of (handlers b) HANDSHAKE = Some (UserHandler 0)"
    by (simp_all add: a_def b_def new_node_def register_handler_def mk_identity_def)
  let ?txt = "identity_json P (nd_identity a)"
  obtain d s where s: "json_loads ?txt = Some d" "dec_identity P d = Some s" "agent_id s = snd ka"
    using pydantic [OF fa(4)] by blast
  obtain outs sig where outs: "broadcast_discovery P env_a [''ws://127.0.0.1:8001''] a = (outs, None)"
    "envelopes_of outs = [mk_envelope (create_header env_a 0 a 0 HANDSHAKE) (TextP (text_of ?txt)) (Some sig)]"
    by (rule announcement [OF net fa(2), where P = P and url = "''ws://127.0.0.1:8001''"]) (simp add: text_of_def)
  let ?e = "mk_envelope (create_header env_a 0 a 0 HANDSHAKE) (TextP (text_of ?txt)) (Some sig)"
  let ?b1 = "register_peer s ''ws://127.0.0.1:8000'' (noted env_b ?e b)"
  have "reached_handler P env_b ?e b = Some (UserHandler 0)"
    using fb by (simp add: reached_handler_def acl_denies_def evict_seen_def mk_envelope_def create_header_def)
  moreover obtain x where "handshake_responder P ?ad env_b ?e ws (noted env_b ?e b) = (?b1, [], Some x)"
    using responder_registers [OF _ s(1,2), of ?e] by (fastforce simp: mk_envelope_def)
  ultimately have got: "process_envelope P (demo_handlers P ?ad unpack) env_b ws ?e b = (?b1, [])"
    using fb by (simp add: reached_handler_runs(1) run_and_reply_def run_handler_def demo_handlers_def Let_def
        register_peer_def noted_def)
  have run: "run_handshake_demo P unpack env_a env_b ws env_key fs ka kb = Inr (a, ?b1, Some (TimeoutError []))"
    unfolding run_handshake_demo_def demo_agent_key [OF assms(1)] demo_agent_key [OF assms(2)] sum.case Let_def listen
      prod.case outs(1) option.case outs(2)
    by (simp add: got)
  have "map fst (peer_registry ?b1) = [snd ka]" "serving ?b1"
    using fb s(3) by (simp_all add: register_peer_def noted_def)
  with run fa show ?thesis by (intro exI conjI)
qed

theorem handshake_demo_times_out_witness:
  "\<exists>a b. run_handshake_demo demo_platform (\<lambda>e. PDict []) connected connected 3 None [] (key_of 1) (key_of 2) = Inr (a, b, Some (TimeoutError [])) \<and>
    peer_registry a = [] \<and> map fst (peer_registry b) = [snd (key_of 1)] \<and> serving a \<and> serving b"
proof (rule handshake_demo_times_out [OF key_of_manager(1,1,3)])
  fix i :: agent_identity
  have "json_loads (identity_json demo_platform i) = Some (PStr (public_key i))"
    using loads_enc [of sign_opts "PStr (public_key i)"] by (simp add: std_opts_def sign_opts_def del: enc.simps)
  then show "\<exists>d s. json_loads (identity_json demo_platform i) = Some d \<and> dec_identity demo_platform d = Some s \<and> agent_id s = snd (key_of 1)"
    by (simp add: key_of_def)
qed

end
