(* ===== verification/AddHeaders.thy ===== *)
theory AddHeaders
  imports Crypto
begin

text \<open>
  The script \<^verbatim>\<open>src/tpcp/add_headers.py\<close>, which puts the licence header at the top of every Python file that does not
  start with a copyright line. The result of \<^verbatim>\<open>os.walk\<close> is a parameter; reading in text mode turns every line
  end into a newline.
\<close>

definition licence_header :: string where
  "licence_header =
     concat (map (\<lambda>l. l @ [CHR 0x0A])
       [''# Copyright (c) 2026 Principal Systems Architect'',
        ''# This file is part of TPCP.'',
        ''# '',
        ''# TPCP is free software: you can redistribute it and/or modify'',
        ''# it under the terms of the GNU Affero General Public License as published by'',
        ''# the Free Software Foundation, either version 3 of the License, or'',
        ''# (at your option) any later version.'',
        ''# '',
        ''# TPCP is distributed in the hope that it will be useful,'',
        ''# but WITHOUT ANY WARRANTY; without even the implied warranty of'',
        ''# MERCHANTABILITY or FITNESS FOR A PARTICULAR PURPOSE. See the'',
        ''# GNU Affero General Public License for more details.'',
        ''# '',
        ''# You should have received a copy of the GNU Affero General Public License'',
        ''# along with TPCP. If not, see <https://www.gnu.org/licenses/>.'',
        ''# '',
        ''# For commercial licensing inquiries, see COMMERCIAL_LICENSE.md'',
        []])"

fun universal_newlines :: "string \<Rightarrow> string" where
  "universal_newlines [] = []"
| "universal_newlines (c # cs) =
     (if c = CHR 0x0D
      then CHR 0x0A # (if take 1 cs = [CHR 0x0A] then universal_newlines (drop 1 cs) else universal_newlines cs)
      else c # universal_newlines cs)"

definition ends_with :: "string \<Rightarrow> string \<Rightarrow> bool" where
  "ends_with s suffix \<longleftrightarrow> drop (length s - length suffix) s = suffix"

definition starts_with :: "string \<Rightarrow> string \<Rightarrow> bool" where
  "starts_with s pre \<longleftrightarrow> take (length pre) s = pre"

definition add_header :: "string \<Rightarrow> filesystem \<Rightarrow> py_exn + filesystem" where
  "add_header path fs =
     (case map_of fs path of
        None \<Rightarrow> Inl (FileNotFoundError path)
      | Some raw \<Rightarrow>
          (let text = universal_newlines raw
           in if starts_with text ''# Copyright'' then Inr fs else Inr (AList.update path (licence_header @ text) fs)))"

fun add_headers_to :: "string list \<Rightarrow> filesystem \<Rightarrow> py_exn + filesystem" where
  "add_headers_to [] fs = Inr fs"
| "add_headers_to (p # ps) fs = (case add_header p fs of Inl e \<Rightarrow> Inl e | Inr fs \<Rightarrow> add_headers_to ps fs)"

definition add_headers :: "(string \<times> string list) list \<Rightarrow> filesystem \<Rightarrow> py_exn + filesystem" where
  "add_headers walk fs =
     add_headers_to
       (concat (map (\<lambda>(root, files). map (\<lambda>file. root @ ''/'' @ file) (filter (\<lambda>file. ends_with file ''.py'') files)) walk)) fs"

section \<open>What it does\<close>

definition headed :: "string \<Rightarrow> bool" where
  "headed raw \<longleftrightarrow> starts_with (universal_newlines raw) ''# Copyright''"

lemma licence_header_starts: "starts_with (licence_header @ s) ''# Copyright''"
  by (simp add: starts_with_def licence_header_def)

lemma no_cr_newlines: "CHR 0x0D \<notin> set s \<Longrightarrow> universal_newlines s = s"
  by (induction s) auto

lemma newlines_no_cr: "CHR 0x0D \<notin> set (universal_newlines s)"
  by (induction s rule: universal_newlines.induct) auto

lemma header_no_cr: "CHR 0x0D \<notin> set licence_header"
  by code_simp

lemma headed_written: "headed (licence_header @ universal_newlines raw)"
proof -
  have "CHR 0x0D \<notin> set (licence_header @ universal_newlines raw)" using header_no_cr newlines_no_cr by simp
  then show ?thesis by (simp add: headed_def no_cr_newlines licence_header_starts)
qed

lemma add_header_effect:
  "add_header p fs = Inr fs' \<longleftrightarrow>
     (case map_of fs p of None \<Rightarrow> False
      | Some raw \<Rightarrow> fs' = (if headed raw then fs else AList.update p (licence_header @ universal_newlines raw) fs))"
  by (auto simp: add_header_def headed_def Let_def split: option.splits)

text \<open>Every file of the list ends headed, with its old text below a new header or untouched; the others keep theirs.\<close>

lemma add_headers_to_effect:
  assumes "add_headers_to ps fs = Inr fs'"
  shows "map_of fs' q =
    (case map_of fs q of None \<Rightarrow> None
     | Some raw \<Rightarrow> Some (if q \<in> set ps \<and> \<not> headed raw then licence_header @ universal_newlines raw else raw))"
  using assms
proof (induction ps arbitrary: fs)
  case Nil
  then show ?case by (auto split: option.splits)
next
  case (Cons p ps)
  then obtain fs1 where p: "add_header p fs = Inr fs1" "add_headers_to ps fs1 = Inr fs'" by (auto split: sum.splits)
  from Cons.IH [OF p(2)] p(1) show ?case
    by (auto simp: add_header_effect update_conv' headed_written split: option.splits if_splits)
qed

lemma add_headers_to_headed:
  "(\<And>p. p \<in> set ps \<Longrightarrow> \<exists>raw. map_of fs p = Some raw \<and> headed raw) \<Longrightarrow> add_headers_to ps fs = Inr fs"
proof (induction ps)
  case (Cons p ps)
  then have "add_header p fs = Inr fs" by (fastforce simp: add_header_effect)
  with Cons show ?case by simp
qed simp

lemma add_headers_to_found: "add_headers_to ps fs = Inr fs' \<Longrightarrow> p \<in> set ps \<Longrightarrow> map_of fs p \<noteq> None"
proof (induction ps arbitrary: fs)
  case (Cons q ps)
  then obtain fs1 where q: "add_header q fs = Inr fs1" "add_headers_to ps fs1 = Inr fs'" by (auto split: sum.splits)
  from Cons.IH [OF q(2)] Cons.prems(2) q(1) show ?case
    by (auto simp: add_header_effect update_conv' split: option.splits if_splits)
qed simp

text \<open>A second run of the script changes nothing.\<close>

theorem add_headers_idempotent:
  assumes "add_headers walk fs = Inr fs'"
  shows "add_headers walk fs' = Inr fs'"
  unfolding add_headers_def
proof (rule add_headers_to_headed)
  fix p let ?ps = "concat (map (\<lambda>(root, files). map (\<lambda>file. root @ ''/'' @ file) (filter (\<lambda>file. ends_with file ''.py'') files)) walk)"
  assume p: "p \<in> set ?ps"
  note run = assms [unfolded add_headers_def]
  from add_headers_to_found [OF run p] obtain raw where "map_of fs p = Some raw" by blast
  with add_headers_to_effect [OF run, of p] p headed_written
  show "\<exists>raw. map_of fs' p = Some raw \<and> headed raw" by auto
qed

end
