(* ===== verification/RelayLimits.thy ===== *)
theory RelayLimits
  imports RelayAuth
begin

text \<open>
  The relay's limit on challenges (\<^verbatim>\<open>_initiate_challenge\<close> of \<^verbatim>\<open>tpcp/relay/server.py\<close>) over runs: whatever
  connections an address opens and whatever ids it claims, the relay answers it with at most ten challenges in
  any minute.
\<close>

section \<open>What a step does to the limits\<close>

definition limits_of :: "string \<Rightarrow> relay \<Rightarrow> seconds list" where
  "limits_of ip r = (case map_of (challenge_rate_limits r) ip of None \<Rightarrow> [] | Some ts \<Rightarrow> ts)"

text \<open>A challenge of the relay's own; a forwarded document has a header.\<close>

fun is_challenge :: "relay_out \<Rightarrow> bool" where
  "is_challenge (SendTo ws (PDict d)) =
     (map_of d ''type'' = Some (PStr ''ADNS_CHALLENGE'') \<and> map_of d ''header'' = None)"
| "is_challenge _ = False"

definition silent :: "relay_out list \<Rightarrow> bool" where
  "silent outs \<longleftrightarrow> \<not> list_ex is_challenge outs"

definition limited :: "env \<Rightarrow> relay \<Rightarrow> relay \<Rightarrow> relay_out list \<Rightarrow> bool" where
  "limited env r r' outs \<longleftrightarrow>
     (\<forall>ip. ip \<noteq> remote_ip env \<longrightarrow> limits_of ip r' = limits_of ip r) \<and>
     (silent outs \<and> limits_of (remote_ip env) r' \<in> {limits_of (remote_ip env) r, recent_challenges env r} \<or>
      length (recent_challenges env r) < 10 \<and> limits_of (remote_ip env) r' = recent_challenges env r @ [now env])"

lemma recent_of_limits: "recent_challenges env r = filter (\<lambda>t. now env - t < 60) (limits_of (remote_ip env) r)"
  by (simp add: recent_challenges_def limits_of_def)

lemma limits_of_cong: "challenge_rate_limits r' = challenge_rate_limits r \<Longrightarrow> limits_of ip r' = limits_of ip r"
  by (simp add: limits_of_def)

lemma limits_of_upd: "limits_of ip (r\<lparr>challenge_rate_limits := AList.update j ts (challenge_rate_limits r)\<rparr>) =
    (if ip = j then ts else limits_of ip r)"
  by (simp add: limits_of_def dict_simps)

lemma send_challenge_limits:
  "send_challenge env sid key ws r = (r', outs) \<Longrightarrow> challenge_rate_limits r' = challenge_rate_limits r"
  by (auto simp: send_challenge_def Let_def split: option.splits if_splits)

lemma initiate_limited:
  assumes "initiate_challenge env sid data ws r = (r', outs)"
  shows "limited env r r' outs"
proof -
  let ?r = "cleanup_stale_challenges env r"
  have c: "limits_of ip ?r = limits_of ip r" for ip by (rule limits_of_cong) (simp add: cleanup_stale_challenges_def Let_def)
  then have t: "recent_challenges env ?r = recent_challenges env r" by (simp add: recent_of_limits)
  let ?times = "recent_challenges env r"
  let ?full = "?r\<lparr>challenge_rate_limits := AList.update (remote_ip env) ?times (challenge_rate_limits ?r)\<rparr>"
  let ?r1 = "?r\<lparr>challenge_rate_limits := AList.update (remote_ip env) (?times @ [now env]) (challenge_rate_limits ?r)\<rparr>"
  consider "r' = ?full" "outs = []"
    | "length ?times < 10" "challenge_rate_limits r' = challenge_rate_limits ?r1"
    using assms unfolding initiate_challenge_def Let_def t
    by (auto dest!: send_challenge_limits split: if_splits sum.splits pyval.splits)
  then show ?thesis
  proof cases
    case 1
    then show ?thesis by (simp add: limited_def limits_of_upd c silent_def)
  next
    case 2
    then have "limits_of ip r' = limits_of ip ?r1" for ip by (intro limits_of_cong) simp
    with 2(1) show ?thesis by (simp add: limited_def limits_of_upd c)
  qed
qed

lemma unlimited: "challenge_rate_limits r' = challenge_rate_limits r \<Longrightarrow> silent outs \<Longrightarrow> limited env r r' outs"
  by (simp add: limited_def limits_of_def)

lemma forwarded_no_challenge: "\<not> is_challenge (SendTo c (forwarded dd hdr n))"
  by (simp add: forwarded_def dict_simps)

lemma route_limited:
  "route env sid dd hdr r = (r', outs) \<Longrightarrow> limited env r r' outs"
  by (rule unlimited)
    (auto simp: route_def route_to_def fan_out_def Let_def silent_def list_ex_iff forwarded_no_challenge
      split: option.splits if_splits send_result.splits)

lemma response_limited:
  "handle_challenge_response ed env sid data ws r = (r', outs) \<Longrightarrow> limited env r r' outs"
  by (rule unlimited)
    (auto simp: handle_challenge_response_def Let_def silent_def confirm_msg_def split: option.splits sum.splits if_splits)

lemma process_limited:
  assumes "process_message ed env ws data r = (r', outs)"
  shows "limited env r r' outs"
  using assms
proof (cases rule: process_message_cases)
  case idle
  then show ?thesis by (intro unlimited) (simp_all add: silent_def)
next
  case init
  then show ?thesis by (rule initiate_limited)
next
  case resp
  then show ?thesis by (rule response_limited)
next
  case route
  from route(1) show ?thesis by (rule route_limited)
qed

lemma message_limited:
  assumes "handle_message ed env ws msg r = (r', outs)"
  shows "limited env r r' outs"
proof (cases "map_of (rate_limiters r) ws")
  case None
  then have "r' = r" "outs = []" using assms by (simp_all add: handle_message_def)
  then show ?thesis by (intro unlimited) (simp_all add: silent_def)
next
  case (Some limiter)
  define r0 where "r0 = r\<lparr>rate_limiters := AList.update ws (fst (consume (now env) 1 limiter)) (rate_limiters r)\<rparr>"
  have same: "limits_of ip r0 = limits_of ip r" "challenge_rate_limits r0 = challenge_rate_limits r" for ip
    by (simp_all add: r0_def limits_of_def)
  have shape: "handle_message ed env ws msg r =
      (if \<not> snd (consume (now env) 1 limiter) then (cleanup_connection ws r0, [CloseConn ws 1008])
       else if MAX_MESSAGE < length msg then (cleanup_connection ws r0, [CloseConn ws 1009])
       else (case json_loads msg of None \<Rightarrow> (r0, []) | Some data \<Rightarrow> process_message ed env ws data r0))"
    by (simp add: handle_message_def Some Let_def case_prod_beta r0_def cong: option.case_cong)
  have quiet: "limited env r (cleanup_connection ws r0) [CloseConn ws c]" "limited env r r0 []" for c
    by (rule unlimited; simp add: cleanup_connection_def same silent_def)+
  show ?thesis
  proof (cases "\<not> snd (consume (now env) 1 limiter) \<or> MAX_MESSAGE < length msg \<or> json_loads msg = None")
    case True
    with assms quiet show ?thesis unfolding shape by (auto split: if_splits)
  next
    case False
    then obtain data where "process_message ed env ws data r0 = (r', outs)"
      using assms unfolding shape by auto
    from process_limited [OF this] show ?thesis unfolding limited_def recent_of_limits same .
  qed
qed

section \<open>Runs\<close>

fun message_time :: "relay_event \<Rightarrow> seconds list" where
  "message_time (Message env ws msg) = [now env]"
| "message_time _ = []"

fun challenge_time :: "string \<Rightarrow> relay_event \<times> relay_out list \<Rightarrow> seconds list" where
  "challenge_time ip (Message env ws msg, outs) =
     (if remote_ip env = ip \<and> list_ex is_challenge outs then [now env] else [])"
| "challenge_time ip _ = []"

definition message_times :: "(relay_event \<times> relay_out list) list \<Rightarrow> seconds list" where
  "message_times tr = concat (map (message_time \<circ> fst) tr)"

text \<open>The times at which an address was sent a challenge.\<close>

definition challenge_times :: "string \<Rightarrow> (relay_event \<times> relay_out list) list \<Rightarrow> seconds list" where
  "challenge_times ip tr = concat (map (challenge_time ip) tr)"

definition window :: "seconds \<Rightarrow> seconds list \<Rightarrow> seconds list" where
  "window T ts = filter (\<lambda>t. T - 60 < t \<and> t \<le> T) ts"

definition limit_inv :: "string \<Rightarrow> (relay_event \<times> relay_out list) list \<Rightarrow> relay \<Rightarrow> bool" where
  "limit_inv ip tr r \<longleftrightarrow> length (limits_of ip r) \<le> 10 \<and> (\<forall>T. length (window T (challenge_times ip tr)) \<le> 10) \<and>
     (\<forall>T. (\<forall>t \<in> set (message_times tr). t \<le> T) \<longrightarrow>
        length (window T (challenge_times ip tr)) \<le> length (filter (\<lambda>t. T - 60 < t) (limits_of ip r)))"

lemma challenge_times_past: "t \<in> set (challenge_times ip tr) \<Longrightarrow> t \<in> set (message_times tr)"
proof -
  assume "t \<in> set (challenge_times ip tr)"
  then obtain x where x: "x \<in> set tr" "t \<in> set (challenge_time ip x)" by (auto simp: challenge_times_def)
  from x(2) have "t \<in> set (message_time (fst x))" by (cases "(ip, x)" rule: challenge_time.cases) (auto split: if_splits)
  with x(1) show ?thesis by (auto simp: message_times_def)
qed

lemma times_snoc:
  "message_times (tr @ [(ev, outs)]) = message_times tr @ message_time ev"
  "challenge_times ip (tr @ [(ev, outs)]) = challenge_times ip tr @ challenge_time ip (ev, outs)"
  by (simp_all add: message_times_def challenge_times_def)

lemma filter_recent:
  fixes ts :: "seconds list"
  assumes "t \<le> T"
  shows "filter (\<lambda>s. T - 60 < s) (filter (\<lambda>s. t - s < 60) ts) = filter (\<lambda>s. T - 60 < s) ts"
  using assms by (auto simp: filter_filter intro!: filter_cong)

lemma window_cong: "(\<And>t. t \<in> set ts \<Longrightarrow> t \<le> T) \<Longrightarrow> window T ts = filter (\<lambda>t. T - 60 < t) ts"
  by (auto simp: window_def intro!: filter_cong)

lemma limit_inv_step:
  assumes inv: "limit_inv ip tr r" and step: "relay_step ed ev r = (r', outs)"
    and order: "sorted (message_times (tr @ [(ev, outs)]))"
  shows "limit_inv ip (tr @ [(ev, outs)]) r'"
proof (cases "\<exists>env ws msg. ev = Message env ws msg \<and> remote_ip env = ip")
  case False
  have "limits_of ip r' = limits_of ip r"
  proof (cases ev)
    case (Message env ws msg)
    with step have "limited env r r' outs" by (auto intro: message_limited)
    with False Message show ?thesis by (auto simp: limited_def)
  qed (use step in \<open>auto simp: limits_of_def open_connection_def cleanup_connection_def\<close>)
  moreover have "challenge_time ip (ev, outs) = []" using False by (cases ev) auto
  moreover have "set (message_times tr) \<subseteq> set (message_times (tr @ [(ev, outs)]))" by (simp add: times_snoc)
  ultimately show ?thesis using inv unfolding limit_inv_def times_snoc(2) by (metis append_Nil2 subsetD)
next
  case True
  then obtain env ws msg where ev: "ev = Message env ws msg" "remote_ip env = ip" by blast
  let ?L = "limits_of ip r" and ?C = "challenge_times ip tr" and ?now = "now env" and ?R = "recent_challenges env r"
  have lim: "limited env r r' outs" using step ev(1) by (auto intro: message_limited)
  have past: "\<forall>t \<in> set (message_times tr). t \<le> ?now" using order by (simp add: times_snoc ev sorted_append)
  have R: "?R = filter (\<lambda>t. ?now - t < 60) ?L" by (simp add: recent_of_limits ev)
  have short: "length ?R \<le> 10" using inv unfolding R limit_inv_def by (meson length_filter_le order_trans)
  have old: "length (window T ?C) \<le> length (filter (\<lambda>t. T - 60 < t) ?R)" if "?now \<le> T" for T
    using inv past that unfolding R filter_recent [OF that] limit_inv_def by (meson order_trans)
  have times: "message_times (tr @ [(ev, outs)]) = message_times tr @ [?now]" by (simp add: times_snoc ev)
  show ?thesis
  proof (cases "silent outs")
    case True
    then have c: "challenge_times ip (tr @ [(ev, outs)]) = ?C" by (simp add: times_snoc ev silent_def)
    consider "limits_of ip r' = ?L" | "limits_of ip r' = ?R" | "limits_of ip r' = ?R @ [?now]" "length ?R < 10"
      using lim by (auto simp: limited_def ev)
    then show ?thesis
    proof cases
      case 1
      with inv show ?thesis by (simp add: limit_inv_def c times)
    next
      case 2
      with inv short old show ?thesis by (simp add: limit_inv_def c times)
    next
      case 3
      have "length (window T ?C) \<le> length (filter (\<lambda>t. T - 60 < t) (?R @ [?now]))" if "?now \<le> T" for T
        using old [OF that] by simp
      with 3 inv show ?thesis by (simp add: limit_inv_def c times)
    qed
  next
    case False
    then have c: "challenge_times ip (tr @ [(ev, outs)]) = ?C @ [?now]" by (simp add: times_snoc ev silent_def)
    have L: "limits_of ip r' = ?R @ [?now]" "length ?R < 10" using lim False by (auto simp: limited_def ev)
    have new: "length (window T (?C @ [?now])) \<le> length (filter (\<lambda>t. T - 60 < t) (?R @ [?now]))" if "?now \<le> T" for T
      using old [OF that] by (simp add: window_def)
    have all: "length (window T (?C @ [?now])) \<le> 10" for T
    proof (cases "?now \<le> T")
      case True
      have "length (filter (\<lambda>t. T - 60 < t) (?R @ [?now])) \<le> length (?R @ [?now])" by (rule length_filter_le)
      also have "\<dots> \<le> 10" using L(2) by simp
      finally show ?thesis using new [OF True] by simp
    next
      case False
      then have "window T (?C @ [?now]) = window T ?C" by (simp add: window_def)
      with inv show ?thesis by (simp add: limit_inv_def)
    qed
    show ?thesis unfolding limit_inv_def c times L(1) using all new L(2) by simp
  qed
qed

lemma limit_inv_run:
  assumes "relay_run ed (new_relay rate burst) tr r" "sorted (message_times tr)"
  shows "limit_inv ip tr r"
  using assms
proof (induction rule: relay_run.induct)
  case start
  then show ?case by (simp add: limit_inv_def limits_of_def new_relay_def challenge_times_def window_def)
next
  case (step tr r ev r' outs)
  then have "sorted (message_times tr)" by (simp add: times_snoc sorted_append)
  with step show ?case by (blast intro: limit_inv_step)
qed

section \<open>Properties\<close>

text \<open>C26: An address cannot make the relay send challenges at will: in every run in which time does not go backwards,
  whatever connections it opens, whatever ids it claims and whatever else happens in between, the relay answers
  the messages of one address with at most ten challenges in any 60 seconds.\<close>

theorem challenges_bounded:
  assumes "relay_run ed (new_relay rate burst) tr r" "sorted (message_times tr)"
  shows "length (window T (challenge_times ip tr)) \<le> 10"
  using limit_inv_run [OF assms, of ip] by (simp add: limit_inv_def)

theorem challenges_bounded_witness:
  "\<exists>tr r. relay_run plain_ed (new_relay 30 60) tr r \<and> challenge_times ''h'' tr = [0] \<and>
     length (window 59 (challenge_times ''h'' tr)) \<le> 10"
proof -
  let ?r0 = "open_connection 0 7 (new_relay 30 60)" and ?hs = "enc sign_opts demo_handshake"
  obtain r1 where s: "handle_message plain_ed demo_env 7 ?hs ?r0 = (r1, [SendTo 7 (challenge_msg (PStr ''a'') demo_nonce)])"
    using demo_challenged by blast
  let ?tr = "[(Opened 0 7, []), (Message demo_env 7 ?hs, [SendTo 7 (challenge_msg (PStr ''a'') demo_nonce)])]"
  have "relay_run plain_ed (new_relay 30 60) [(Opened 0 7, [])] ?r0"
    using relay_run.step [OF relay_run.start, of plain_ed "Opened 0 7" "new_relay 30 60" ?r0 "[]"] by simp
  from relay_run.step [OF this, of "Message demo_env 7 ?hs"] s
  have run: "relay_run plain_ed (new_relay 30 60) ?tr r1" by simp
  have "challenge_times ''h'' ?tr = [0]" "sorted (message_times ?tr)"
    by (simp_all add: challenge_times_def message_times_def demo_env_def challenge_msg_def)
  with challenges_bounded [OF run, of 59 "''h''"] run show ?thesis by blast
qed

end
