(* ===== verification/SyncContent.thy ===== *)
theory SyncContent
  imports StateSync LwwStore
begin

text \<open>
  What a \<^verbatim>\<open>STATE_SYNC\<close> payload means to the map that merges it (\<^verbatim>\<open>tpcp/memory/crdt.py\<close> under
  \<^verbatim>\<open>tpcp/core/node.py\<close>). A signature fixes a payload up to the order of dictionary keys only, so
  whoever carries a message may reorder its entries. The lemmas here show that this does not matter:
  canonically equal states are merged as writes with the same views, and the order of the map cannot
  tell them apart. The second part is the order between what a map holds and what was written.
\<close>

section \<open>Canonical content\<close>

declare enc_canon [simp]

lemma same_canon_dumps: "canon v = canon w \<Longrightarrow> dumps v = dumps w"
  by (metis dumps_canon)

lemma wf_val_canon [simp]: "wf_val (canon v) = wf_val v"
proof (induction v)
  case (PList vs)
  then show ?case by (auto simp: list_all_iff)
next
  case (PDict kvs)
  then show ?case by (auto simp: list_all_iff)
qed simp_all

lemma entry_view_wf: "entry_view e' = entry_view e \<Longrightarrow> wf_val (fst e') = wf_val (fst e)"
  using wf_val_canon [of "fst e"] wf_val_canon [of "fst e'"] by (simp add: entry_view_def case_prod_beta)

lemma beats_view:
  assumes "entry_view a = entry_view a'" "entry_view b = entry_view b'"
  shows "entry_beats a b = entry_beats a' b'"
proof -
  have "dumps (fst a) = dumps (fst a')" "dumps (fst b) = dumps (fst b')" "snd a = snd a'" "snd b = snd b'"
    using assms by (auto simp: entry_view_def intro: same_canon_dumps split: prod.splits)
  then show ?thesis by (cases a; cases a'; cases b; cases b') (simp add: entry_beats_def)
qed

text \<open>A canonically equal dictionary has the same keys, with canonically equal values.\<close>

lemma canon_PDict_entries:
  assumes "canon (PDict d) = canon (PDict d')"
  shows "mset (map (map_prod id canon) d) = mset (map (map_prod id canon) d')"
proof -
  from assms have "sort_key fst (map (map_prod id canon) d) = sort_key fst (map (map_prod id canon) d')"
    by simp
  then show ?thesis by (metis mset_sort)
qed

lemma canon_PDict_mem:
  assumes "canon (PDict d) = canon (PDict d')" "(k, x) \<in> set d"
  shows "\<exists>y. (k, y) \<in> set d' \<and> canon y = canon x"
proof -
  have "(k, canon x) \<in># mset (map (map_prod id canon) d)" using assms(2) by force
  then have "(k, canon x) \<in> set (map (map_prod id canon) d')"
    unfolding canon_PDict_entries [OF assms(1)] by simp
  then show ?thesis by force
qed

lemma canon_PDict_wf:
  assumes "canon (PDict d) = canon (PDict d')" "dict_wf d'"
  shows "dict_wf d"
proof -
  have "mset (map fst xs) = image_mset fst (mset (map (map_prod id canon) xs))" for xs :: "(string \<times> pyval) list"
    by (simp add: multiset.map_comp comp_def case_prod_beta)
  with canon_PDict_entries [OF assms(1)] have "mset (map fst d) = mset (map fst d')" by metis
  with assms(2) show ?thesis by (metis dict_wf_def mset_eq_imp_distinct_iff)
qed

section \<open>Merging a canonically equal state\<close>

lemma canon_record:
  assumes "canon r = canon (record_of (v, t, w))"
  shows "\<exists>v'. record_args r = Inr (v', Some t, Some w) \<and> canon v' = canon v"
proof -
  let ?d' = "[(''value'', v), (''timestamp'', PInt t), (''writer_id'', PStr w)]"
  obtain d where r: "r = PDict d" using assms by (cases r) (simp_all add: record_of_def)
  have eq: "canon (PDict d) = canon (PDict ?d')" using assms by (simp add: r record_of_def del: canon.simps)
  have wf: "dict_wf ?d'" by (simp add: dict_wf_def)
  note get = canon_dict_get [OF eq canon_PDict_wf [OF eq wf] wf]
  obtain v' where "map_of d ''value'' = Some v'" "canon v' = canon v" using get [of "''value''"] by auto
  moreover obtain x where x: "map_of d ''timestamp'' = Some x" "canon x = PInt t" using get [of "''timestamp''"] by auto
  moreover have "x = PInt t" using x(2) by (cases x) simp_all
  moreover obtain y where y: "map_of d ''writer_id'' = Some y" "canon y = PStr w" using get [of "''writer_id''"] by auto
  moreover have "y = PStr w" using y(2) by (cases y) simp_all
  ultimately show ?thesis by (simp add: r record_field_def)
qed

text \<open>The same writes, up to views.\<close>

definition same_writes :: "(string \<times> lww_entry) list \<Rightarrow> (string \<times> lww_entry) list \<Rightarrow> bool" where
  "same_writes ws ws' \<longleftrightarrow>
     (\<forall>(k, e) \<in> set ws. \<exists>e'. (k, e') \<in> set ws' \<and> entry_view e' = entry_view e) \<and>
     (\<forall>(k, e') \<in> set ws'. \<exists>e. (k, e) \<in> set ws \<and> entry_view e = entry_view e')"

lemma same_writesD:
  "same_writes ws ws' \<Longrightarrow> (k, e) \<in> set ws \<Longrightarrow> \<exists>e'. (k, e') \<in> set ws' \<and> entry_view e' = entry_view e"
  "same_writes ws ws' \<Longrightarrow> (k, e') \<in> set ws' \<Longrightarrow> \<exists>e. (k, e) \<in> set ws \<and> entry_view e = entry_view e'"
  unfolding same_writes_def by blast+

definition write_of :: "string \<times> pyval \<Rightarrow> string \<times> lww_entry" where
  "write_of x = (fst x, case record_args (snd x) of Inr (v, Some t, Some w) \<Rightarrow> (v, t, w) | _ \<Rightarrow> undefined)"

lemma merge_records:
  "\<forall>x \<in> set d. \<exists>v t w. record_args (snd x) = Inr (v, Some t, Some w) \<Longrightarrow>
   lww_merge d m = (apply_writes (map write_of d) m, None)"
proof (induction d arbitrary: m)
  case (Cons x d)
  obtain k r where x: "x = (k, r)" by (cases x)
  from Cons.prems obtain v t w where "record_args r = Inr (v, Some t, Some w)" by (auto simp: x)
  with Cons x show ?case by (simp add: apply_writes_def apply_write_def write_of_def)
qed (simp add: apply_writes_def)

lemma merge_canon:
  assumes "canon (PDict d) = canon (PDict (map (\<lambda>(k, e). (k, record_of e)) ws))"
  shows "\<exists>ws'. same_writes ws' ws \<and> (\<forall>m. lww_merge d m = (apply_writes ws' m, None))"
proof -
  have rec: "\<exists>v t w v'. (k, v, t, w) \<in> set ws \<and> record_args r = Inr (v', Some t, Some w) \<and> canon v' = canon v"
    if "(k, r) \<in> set d" for k r
  proof -
    from canon_PDict_mem [OF assms that] obtain e where "(k, e) \<in> set ws" "canon r = canon (record_of e)" by auto
    then show ?thesis using canon_record by (cases e) blast
  qed
  have "\<forall>x \<in> set d. \<exists>v t w. record_args (snd x) = Inr (v, Some t, Some w)" using rec by fastforce
  from merge_records [OF this] have "lww_merge d m = (apply_writes (map write_of d) m, None)" for m .
  moreover have "same_writes (map write_of d) ws"
    unfolding same_writes_def
  proof (intro conjI ballI; clarify)
    fix k va ta wa assume "(k, va, ta, wa) \<in> set (map write_of d)"
    then obtain r where r: "(k, r) \<in> set d" "write_of (k, r) = (k, va, ta, wa)" by (auto simp: write_of_def)
    from rec [OF r(1)] obtain v t w v' where
      v: "(k, v, t, w) \<in> set ws" "record_args r = Inr (v', Some t, Some w)" "canon v' = canon v" by blast
    with r(2) show "\<exists>e'. (k, e') \<in> set ws \<and> entry_view e' = entry_view (va, ta, wa)"
      by (intro exI [of _ "(v, t, w)"]) (auto simp: write_of_def entry_view_def)
  next
    fix k v t w assume "(k, v, t, w) \<in> set ws"
    then have "(k, record_of (v, t, w)) \<in> set (map (\<lambda>(k, e). (k, record_of e)) ws)" by force
    from canon_PDict_mem [OF assms [symmetric] this] obtain r where
      r: "(k, r) \<in> set d" "canon r = canon (record_of (v, t, w))" by blast
    from canon_record [OF r(2)] obtain v' where "record_args r = Inr (v', Some t, Some w)" "canon v' = canon v" by blast
    with r(1) show "\<exists>e. (k, e) \<in> set (map write_of d) \<and> entry_view e = entry_view (v, t, w)"
      by (intro exI [of _ "(v', t, w)"]) (force simp: write_of_def entry_view_def)
  qed
  ultimately show ?thesis by blast
qed

section \<open>What a map holds\<close>

text \<open>The map holds an entry that the given one does not displace.\<close>

definition holds :: "lww_map \<Rightarrow> string \<Rightarrow> lww_entry \<Rightarrow> bool" where
  "holds m k e \<longleftrightarrow> (\<exists>e'. map_of (lww_state m) k = Some e' \<and> \<not> entry_beats e e')"

lemma apply_writes_slot:
  assumes "map_of (lww_state (apply_writes ws m)) k = Some e"
  shows "(map_of (lww_state m) k = Some e \<or> (k, e) \<in> set ws) \<and>
    (\<forall>old. map_of (lww_state m) k = Some old \<longrightarrow> \<not> entry_beats old e) \<and> (\<forall>w. (k, w) \<in> set ws \<longrightarrow> \<not> entry_beats w e)"
proof -
  define us where "us = (case map_of (lww_state m) k of None \<Rightarrow> [] | Some old \<Rightarrow> [old]) @ writes_to k ws"
  have f: "fold (\<lambda>w s. Some (slot_put entry_beats w s)) us None = Some e"
    using assms by (auto simp: apply_writes_get us_def slot_put_def split: option.splits)
  then have "us \<noteq> []" by auto
  from lww.slot_fold [OF this] f have "e \<in> set us" "\<forall>w \<in> set us. \<not> entry_beats w e" by auto
  then show ?thesis by (auto simp: us_def set_writes_to split: option.splits)
qed

lemma apply_writes_keys:
  assumes "map_of (lww_state m) k \<noteq> None \<or> (k, e) \<in> set ws"
  shows "map_of (lww_state (apply_writes ws m)) k \<noteq> None"
proof -
  have "fold (\<lambda>e s. Some (slot_put entry_beats e s)) us x \<noteq> None" if "x \<noteq> None \<or> us \<noteq> []" for us and x :: "lww_entry option"
    using that by (induction us arbitrary: x) (simp_all del: not_None_eq)
  moreover have "writes_to k ws \<noteq> []" if "(k, e) \<in> set ws"
    using that set_writes_to [of k ws] by auto
  ultimately show ?thesis using assms unfolding apply_writes_get by blast
qed

lemma not_beats_trans: "\<not> entry_beats a b \<Longrightarrow> \<not> entry_beats b c \<Longrightarrow> \<not> entry_beats a c"
  using lww.neg_trans by blast

lemma holds_merge:
  "holds m k e \<Longrightarrow> holds (apply_writes ws m) k e"
  "(k, e') \<in> set ws \<Longrightarrow> \<not> entry_beats e e' \<Longrightarrow> holds (apply_writes ws m) k e"
proof -
  assume "holds m k e"
  then obtain old where old: "map_of (lww_state m) k = Some old" "\<not> entry_beats e old" by (auto simp: holds_def)
  with apply_writes_keys [of m k _ ws] obtain new where new: "map_of (lww_state (apply_writes ws m)) k = Some new" by auto
  from apply_writes_slot [OF new] old show "holds (apply_writes ws m) k e"
    unfolding holds_def using new not_beats_trans by blast
next
  assume e': "(k, e') \<in> set ws" "\<not> entry_beats e e'"
  with apply_writes_keys [of m k e' ws] obtain new where new: "map_of (lww_state (apply_writes ws m)) k = Some new" by auto
  from apply_writes_slot [OF new] e' show "holds (apply_writes ws m) k e"
    unfolding holds_def using new not_beats_trans by blast
qed

lemma holds_own: "map_of (lww_state m) k = Some e \<Longrightarrow> holds m k e"
  by (auto simp: holds_def lww.irrefl)

lemma lww_set_own:
  "lww_set k v ts None m =
     (case ts of
        None \<Rightarrow> lww_set k v (Some (logical_clock m + 1)) (Some (lww_node_id m)) m
      | Some t \<Rightarrow> apply_writes [(k, v, t, lww_node_id m)] m)"
  by (simp add: lww_set_def apply_writes_def apply_write_def Let_def split: option.splits)

end
