(* ===== verification/Swarm.thy ===== *)
theory Swarm
  imports SyncContent
begin

text \<open>
  A whole swarm of peer-to-peer nodes (\<^verbatim>\<open>tpcp/core/node.py\<close>) under an attacker who owns the network.
  Each step is an operation of one member, as theories \<open>Node\<close> and \<open>NodeSend\<close> have it, or an act of the
  attacker: what members sent stays on the wire for good and may be delivered to anybody, in any order
  and any number of times, and the attacker may put messages of his own there. What he cannot do is
  make a signature that verifies under a member's key for a text that no member signed.

  The swarm is closed: members know members only and their access policy refuses handshakes (theorem
  \<open>handshake_replaces_peer\<close> shows why), and no session with a relay is open (theorem
  \<open>challenge_is_a_signing_oracle\<close>). Two histories of the run are part of the state: what was signed and
  what was written to a map.
\<close>

section \<open>Members, wire and histories\<close>

record swarm =
  member :: "nat \<Rightarrow> node"
  wire :: "envelope set"
  vouched :: "payload set"
  written :: "(string \<times> lww_entry) set"

text \<open>A local write carries the timestamp that its entry gets.\<close>

datatype swarm_event =
    Wrote nat string pyval int
  | SentBy nat payload
  | Drained nat
  | Admitted nat nat
  | Injected envelope
  | Accepted nat envelope
  | Ignored nat envelope

text \<open>The text a signature is made for.\<close>

definition signed_text :: "payload \<Rightarrow> string" where
  "signed_text pl = enc sign_opts (PDict (model_dump pl))"

text \<open>The signature of a message verifies under the key of a member.\<close>

definition member_signature :: "platform \<Rightarrow> nat set \<Rightarrow> swarm \<Rightarrow> envelope \<Rightarrow> bool" where
  "member_signature P M s e \<longleftrightarrow> (\<exists>j \<in> M. \<exists>sig. signature e = Some sig \<and>
     verify_signature (ed_prims P) (get_public_key_string (nd_manager (member s j))) sig (model_dump (payload e)))"

definition unforged :: "platform \<Rightarrow> nat set \<Rightarrow> swarm \<Rightarrow> envelope \<Rightarrow> bool" where
  "unforged P M s e \<longleftrightarrow> wf_payload (payload e) \<and>
     (member_signature P M s e \<longrightarrow> (\<exists>pl \<in> vouched s. signed_text pl = signed_text (payload e)))"

text \<open>The payloads that a member's program sends: a CRDT payload is its own map, serialised.\<close>

definition honest_payload :: "node \<Rightarrow> payload \<Rightarrow> bool" where
  "honest_payload n pl \<longleftrightarrow> wf_payload pl \<and>
     (case pl of CrdtP p \<Rightarrow> crdt_state p = serialize_state (shared_memory n) | _ \<Rightarrow> True)"

text \<open>The entry that a local \<^verbatim>\<open>set\<close> makes, and whether the inbound path takes a message.\<close>

definition local_entry :: "pyval \<Rightarrow> int option \<Rightarrow> lww_map \<Rightarrow> lww_entry" where
  "local_entry v ts m = (v, (case ts of None \<Rightarrow> logical_clock m + 1 | Some t \<Rightarrow> t), lww_node_id m)"

definition takes :: "platform \<Rightarrow> nenv \<Rightarrow> envelope \<Rightarrow> node \<Rightarrow> bool" where
  "takes P env e n \<longleftrightarrow> 0 < ttl (header e) \<and>
     map_of (evict_seen env (seen_messages n)) (message_id (header e)) = None \<and>
     authentic P e n \<and> \<not> acl_denies n e"

section \<open>Steps and runs\<close>

inductive swarm_step :: "platform \<Rightarrow> user_handlers \<Rightarrow> nat set \<Rightarrow> swarm \<Rightarrow> swarm_event \<Rightarrow> swarm \<Rightarrow> bool"
  for P :: platform and user :: user_handlers and M :: "nat set" where
  set_local: "i \<in> M \<Longrightarrow> wf_val v \<Longrightarrow> m = shared_memory (member s i) \<Longrightarrow>
    swarm_step P user M s (Wrote i k v (fst (snd (local_entry v ts m))))
      (s\<lparr>member := (member s)(i := (member s i)\<lparr>shared_memory := lww_set k v ts None m\<rparr>),
         written := insert (k, local_entry v ts m) (written s)\<rparr>)"
| send: "i \<in> M \<Longrightarrow> honest_payload (member s i) pl \<Longrightarrow>
    send_message P env id_no target it pl ack None (member s i) = (n, outs, Inr mid) \<Longrightarrow>
    swarm_step P user M s (SentBy i pl)
      (s\<lparr>member := (member s)(i := n), wire := wire s \<union> set (envelopes_of outs), vouched := insert pl (vouched s)\<rparr>)"
| broadcast: "i \<in> M \<Longrightarrow> honest_payload (member s i) pl \<Longrightarrow>
    send_broadcast P env it pl (member s i) = (n, outs, Inr cnt) \<Longrightarrow>
    swarm_step P user M s (SentBy i pl)
      (s\<lparr>member := (member s)(i := n), wire := wire s \<union> set (envelopes_of outs), vouched := insert pl (vouched s)\<rparr>)"
| drained: "i \<in> M \<Longrightarrow> reconnect_and_drain envs target (member s i) = (n, outs, sleeps) \<Longrightarrow>
    swarm_step P user M s (Drained i)
      (s\<lparr>member := (member s)(i := n), wire := wire s \<union> set (envelopes_of outs)\<rparr>)"
| admit: "i \<in> M \<Longrightarrow> j \<in> M \<Longrightarrow>
    swarm_step P user M s (Admitted i j)
      (s\<lparr>member := (member s)(i := register_peer (nd_identity (member s j)) addr (member s i))\<rparr>)"
| inject: "unforged P M s e \<Longrightarrow> swarm_step P user M s (Injected e) (s\<lparr>wire := insert e (wire s)\<rparr>)"
| deliver: "i \<in> M \<Longrightarrow> e \<in> wire s \<Longrightarrow> process_envelope P user env ws e (member s i) = (n, outs) \<Longrightarrow>
    swarm_step P user M s (if takes P env e (member s i) then Accepted i e else Ignored i e)
      (s\<lparr>member := (member s)(i := n), wire := wire s \<union> set (envelopes_of outs)\<rparr>)"

inductive swarm_run :: "platform \<Rightarrow> user_handlers \<Rightarrow> nat set \<Rightarrow> swarm \<Rightarrow> swarm_event list \<Rightarrow> swarm \<Rightarrow> bool"
  for P :: platform and user :: user_handlers and M :: "nat set" where
  start: "swarm_run P user M s [] s"
| more: "swarm_run P user M s evs s1 \<Longrightarrow> swarm_step P user M s1 ev s2 \<Longrightarrow> swarm_run P user M s (evs @ [ev]) s2"

text \<open>A member of a closed swarm. The embedding program may register handlers of its own, which leave
  the node alone.\<close>

definition closed_member :: "nat set \<Rightarrow> (nat \<Rightarrow> node) \<Rightarrow> node \<Rightarrow> bool" where
  "closed_member M f n \<longleftrightarrow>
     public_key (nd_identity n) = get_public_key_string (nd_manager n) \<and> queue_inv (message_queue n) \<and>
     (\<exists>pol. nd_acl n = Some pol \<and> (\<forall>u. \<not> is_allowed pol u HANDSHAKE)) \<and>
     map_of (handlers n) STATE_SYNC = Some HandleStateSync \<and>
     (\<forall>i. map_of (handlers n) i = Some HandleHandshake \<longrightarrow> i = HANDSHAKE) \<and>
     (\<forall>u p a. map_of (peer_registry n) u = Some (p, a) \<longrightarrow>
        (\<exists>j \<in> M. public_key p = get_public_key_string (nd_manager (f j))))"

definition bystander :: "user_handlers \<Rightarrow> bool" where
  "bystander user \<longleftrightarrow> (\<forall>k env e ws n. \<exists>ex. user k env e ws n = (n, [], ex))"

definition pending :: "node \<Rightarrow> envelope set" where
  "pending n = (\<Union>t. set (deque_of (message_queue n) t))"

definition swarm_init :: "nat set \<Rightarrow> swarm \<Rightarrow> bool" where
  "swarm_init M s \<longleftrightarrow> wire s = {} \<and> vouched s = {} \<and> written s = {} \<and>
     (\<forall>i \<in> M. closed_member M (member s) (member s i) \<and> pending (member s i) = {} \<and>
        lww_inv (shared_memory (member s i)) \<and> lww_state (shared_memory (member s i)) = [])"

section \<open>The invariant\<close>

definition from_writes :: "(string \<times> lww_entry) set \<Rightarrow> string \<times> lww_entry \<Rightarrow> bool" where
  "from_writes W x \<longleftrightarrow> (\<exists>e. (fst x, e) \<in> W \<and> entry_view e = entry_view (snd x))"

definition map_from :: "(string \<times> lww_entry) set \<Rightarrow> lww_map \<Rightarrow> bool" where
  "map_from W m \<longleftrightarrow> lww_inv m \<and> (\<forall>x \<in> set (lww_state m). from_writes W x)"

definition payload_from :: "(string \<times> lww_entry) set \<Rightarrow> payload \<Rightarrow> bool" where
  "payload_from W pl \<longleftrightarrow> wf_payload pl \<and>
     (case pl of
        CrdtP p \<Rightarrow> \<exists>ws. crdt_state p = map (\<lambda>(k, e). (k, record_of e)) ws \<and> (\<forall>x \<in> set ws. from_writes W x)
      | _ \<Rightarrow> True)"

definition swarm_inv :: "platform \<Rightarrow> nat set \<Rightarrow> swarm \<Rightarrow> bool" where
  "swarm_inv P M s \<longleftrightarrow>
     (\<forall>i \<in> M. closed_member M (member s) (member s i) \<and> map_from (written s) (shared_memory (member s i)) \<and>
        (\<forall>e \<in> pending (member s i). unforged P M s e)) \<and>
     (\<forall>e \<in> wire s. unforged P M s e) \<and>
     (\<forall>pl \<in> vouched s. payload_from (written s) pl) \<and>
     (\<forall>(k, e) \<in> written s. wf_val (fst e) \<and> (\<exists>i \<in> M. holds (shared_memory (member s i)) k e))"

section \<open>What a member's operations send\<close>

text \<open>The operation leaves the member's configuration and map alone, and what it sends or queues
  satisfies \<open>Q\<close> or was queued.\<close>

definition same_config :: "node \<Rightarrow> node \<Rightarrow> bool" where
  "same_config n n' \<longleftrightarrow> nd_identity n' = nd_identity n \<and> nd_manager n' = nd_manager n \<and> nd_acl n' = nd_acl n \<and>
     handlers n' = handlers n \<and> peer_registry n' = peer_registry n"

definition emits :: "(envelope \<Rightarrow> bool) \<Rightarrow> node \<Rightarrow> node \<Rightarrow> node_out list \<Rightarrow> bool" where
  "emits Q n n' outs \<longleftrightarrow> same_config n n' \<and> shared_memory n' = shared_memory n \<and>
     (queue_inv (message_queue n) \<longrightarrow> queue_inv (message_queue n') \<and>
        (\<forall>e \<in> pending n' \<union> set (envelopes_of outs). Q e \<or> e \<in> pending n))"

lemma same_config_refl [simp]: "same_config n n"
  by (simp add: same_config_def)

lemma emits_refl: "emits Q n n []"
  by (simp add: emits_def same_config_def)

lemma emits_trans: "emits Q n n1 outs \<Longrightarrow> emits Q n1 n2 rest \<Longrightarrow> emits Q n n2 (outs @ rest)"
  unfolding emits_def same_config_def by auto

lemma pending_push:
  assumes "queue_inv (message_queue n)"
  shows "pending (push_dlq t e n) \<subseteq> insert e (pending n)"
proof -
  have "set (take_last c xs) \<subseteq> set xs" for c and xs :: "envelope list" by (simp add: take_last_def set_drop_subset)
  from this [of "nat (max_size (message_queue n))" "deque_of (message_queue n) t @ [e]"]
  have "set (deque_of (message_queue (push_dlq t e n)) u) \<subseteq> insert e (set (deque_of (message_queue n) u))" for u
    using push_dlq_queue [OF assms, of t e] by auto
  then show ?thesis by (auto simp: pending_def)
qed

lemma same_links_config: "same_but_links n n' \<Longrightarrow> same_config n n' \<and> shared_memory n' = shared_memory n"
  by (cases n; cases n') (simp add: same_but_links_def same_config_def)

lemma dispatch_emits: "emits (\<lambda>x. x = e) n (fst (dispatch_envelope env t e n)) (snd (dispatch_envelope env t e n))"
proof -
  note frame = same_links_config [OF dispatch_frame [of n env t e]]
  show ?thesis
  proof (cases rule: dispatch_cases [of env t e n])
    case (1 ws n')
    with frame show ?thesis by (auto simp: emits_def pending_def)
  next
    case (2 n' m outs)
    then have "pending m = pending n" "envelopes_of outs = []" by (auto simp: pending_def envelopes_of_def)
    with frame 2 pending_push [of m t e] push_dlq_queue [of m t e] show ?thesis by (auto simp: emits_def)
  qed
qed

lemma emits_weaken: "emits Q n n' outs \<Longrightarrow> (\<And>e. Q e \<Longrightarrow> R e) \<Longrightarrow> emits R n n' outs"
  by (auto simp: emits_def)

lemma send_emits:
  assumes "send_message P env k t i pl ack None n = (n', outs, Inr mid)"
  shows "emits (\<lambda>e. payload e = pl) n n' outs"
proof -
  let ?n = "if ack then n\<lparr>pending_acks := AList.update (message_id (create_header env k n t i)) Waiting (pending_acks n)\<rparr> else n"
  obtain sig where "sign_payload (ed_prims P) (nd_manager n) (model_dump pl) = Inr sig"
    using assms by (auto simp: send_message_def Let_def split: sum.splits)
  with assms have d: "dispatch_envelope env t (mk_envelope (create_header env k n t i) pl (Some sig)) ?n = (n', outs)"
    by (auto simp: send_message_def Let_def mk_envelope_def split: prod.splits)
  have "emits (\<lambda>e. payload e = pl) n ?n []" by (auto simp: emits_def same_config_def pending_def)
  from emits_trans [OF this emits_weaken [OF dispatch_emits [where env = env and t = t and n = ?n
      and e = "mk_envelope (create_header env k n t i) pl (Some sig)"], of "\<lambda>e. payload e = pl"]] d
  show ?thesis by (simp add: mk_envelope_def)
qed

lemma fan_out_emits:
  "emits (\<lambda>e. payload e = pl) n (fst (fan_out_peers env k i pl sig peers n)) (fst (snd (fan_out_peers env k i pl sig peers n)))"
proof (induction peers arbitrary: k n)
  case Nil
  then show ?case by (simp add: emits_refl)
next
  case (Cons peer peers)
  let ?e = "mk_envelope (create_header env k n peer i) pl (Some sig)"
  have "emits (\<lambda>e. payload e = pl) n (fst (dispatch_envelope env peer ?e n)) (snd (dispatch_envelope env peer ?e n))"
    by (rule emits_weaken [OF dispatch_emits]) (simp add: mk_envelope_def)
  from emits_trans [OF this Cons.IH] show ?case by (simp add: Let_def case_prod_beta)
qed

lemma broadcast_emits:
  assumes "send_broadcast P env i pl n = (n', outs, Inr cnt)"
  shows "emits (\<lambda>e. payload e = pl) n n' outs"
proof -
  obtain sig where sig: "sign_payload (ed_prims P) (nd_manager n) (model_dump pl) = Inr sig"
    using assms by (auto simp: send_broadcast_def split: sum.splits)
  let ?e = "mk_envelope (create_header env 0 n BROADCAST_UUID i) pl (Some sig)"
  have "emits (\<lambda>e. payload e = pl) n n [SentEnvelope ws ?e]" for ws
    by (simp add: emits_def same_config_def mk_envelope_def)
  with fan_out_emits [of pl n env 1 i sig "map fst (peer_registry n)"] assms sig show ?thesis
    by (auto simp: send_broadcast_def Let_def case_prod_beta split: option.splits if_splits)
qed

lemma drain_config:
  "same_config n (fst (drain_attempts envs t addr b n)) \<and> shared_memory (fst (drain_attempts envs t addr b n)) = shared_memory n"
proof (induction envs t addr b n rule: drain_attempts.induct)
  case (2 env envs t addr b n)
  have a: "same_config n (fst (drain_attempt env t addr n)) \<and> shared_memory (fst (drain_attempt env t addr n)) = shared_memory n"
    by (auto simp: drain_attempt_def same_config_def split: option.splits prod.splits)
  show ?case
  proof (cases "nd_running n \<and> has_messages t (message_queue n) \<and> snd (snd (drain_attempt env t addr n))")
    case True
    obtain n1 outs where d: "drain_attempt env t addr n = (n1, outs, True)"
      using True by (cases "drain_attempt env t addr n") simp
    with True "2.IH" [OF _ d [symmetric] refl] a show ?thesis
      by (simp add: case_prod_beta same_config_def)
  next
    case False
    with a show ?thesis by (auto simp: case_prod_beta)
  qed
qed simp

lemma drain_emits:
  assumes "reconnect_and_drain envs t n = (n', outs, sleeps)"
  shows "emits (\<lambda>e. False) n n' outs"
proof (cases "map_of (peer_registry n) t")
  case None
  with assms show ?thesis by (simp add: reconnect_and_drain_def emits_refl)
next
  case (Some p)
  obtain ident addr where "p = (ident, addr)" by (cases p)
  with assms Some have d: "drain_attempts envs t addr 1 n = (n', outs, sleeps)" by (simp add: reconnect_and_drain_def)
  have "queue_inv (message_queue n') \<and> (\<forall>e \<in> pending n' \<union> set (envelopes_of outs). e \<in> pending n)"
    if q: "queue_inv (message_queue n)"
  proof -
    from drain_attempts_content [OF q, where envs = envs and t = t and addr = addr and b = 1] d
    have "queue_inv (message_queue n')" "set (envelopes_of outs) \<union> set (deque_of (message_queue n') t) = set (deque_of (message_queue n) t)"
      "u \<noteq> t \<Longrightarrow> deque_of (message_queue n') u = deque_of (message_queue n) u" for u
      by (auto simp flip: set_append)
    then have "queue_inv (message_queue n')" "set (envelopes_of outs) \<subseteq> set (deque_of (message_queue n) t)"
      "set (deque_of (message_queue n') u) \<subseteq> set (deque_of (message_queue n) u)" for u
      by (cases "u = t"; fastforce)+
    then show ?thesis by (auto simp: pending_def)
  qed
  with drain_config [of n envs t addr 1] d show ?thesis by (auto simp: emits_def)
qed

section \<open>What a delivery does to a member\<close>

lemma run_handler_closed:
  assumes "bystander user" "h \<noteq> HandleHandshake" "run_handler P user env h e ws n = (n', outs, ex)"
  shows "outs = [] \<and> same_config n n' \<and> message_queue n' = message_queue n \<and>
    (shared_memory n' = shared_memory n \<or>
      (\<exists>p. payload e = CrdtP p \<and> shared_memory n' = fst (lww_merge (crdt_state p) (shared_memory n))))"
proof (cases h)
  case HandleStateSync
  with assms(3) show ?thesis
    by (auto simp: run_handler_def handle_state_sync_def same_config_def split: payload.splits if_splits prod.splits)
next
  case (UserHandler k)
  with assms show ?thesis by (auto simp: run_handler_def bystander_def) (metis Pair_inject same_config_refl)+
qed (use assms in \<open>auto simp: run_handler_def handle_vector_sync_def handle_ack_def handle_nack_def settle_def same_config_def
    split: payload.splits option.splits\<close>)

lemma deliver_closed:
  assumes c: "closed_member M f n" and user: "bystander user" and d: "process_envelope P user env ws e n = (n', outs)"
  shows "outs = [] \<and> same_config n n' \<and> message_queue n' = message_queue n \<and>
    (shared_memory n' = shared_memory n \<or> authentic P e n \<and>
      (\<exists>p. payload e = CrdtP p \<and> shared_memory n' = fst (lww_merge (crdt_state p) (shared_memory n))))"
proof (cases rule: process_envelope_cases [of P user env ws e n])
  case (dropped m)
  with d show ?thesis by (auto simp: same_config_def noted_def)
next
  case (handled h m outs' exc)
  have "intent (header e) \<noteq> HANDSHAKE" using c handled(4) by (auto simp: closed_member_def acl_denies_def)
  with c handled(3,5) have "authentic P e n" "h \<noteq> HandleHandshake" by (auto simp: closed_member_def)
  from run_handler_closed [OF user this(2) handled(6)] this(1) handled(7) d show ?thesis
    by (auto simp: noted_def same_config_def)
qed

lemma deliver_takes:
  assumes c: "closed_member M f n" and d: "process_envelope P user env ws e n = (n', outs)" and t: "takes P env e n"
    and e: "intent (header e) = STATE_SYNC" "payload e = CrdtP p" "crdt_type p = ''LWW-Map''"
  shows "shared_memory n' = fst (lww_merge (crdt_state p) (shared_memory n))"
proof -
  have "map_of (handlers n) (intent (header e)) = Some HandleStateSync" using c e(1) by (simp add: closed_member_def)
  with t have "process_envelope P user env ws e n =
      (case run_handler P user env HandleStateSync e ws (noted env e n) of (n', outs, exc) \<Rightarrow> (n', outs))"
    by (intro handled_when) (auto simp: takes_def)
  with d e show ?thesis by (auto simp: run_handler_def handle_state_sync_def noted_def split: prod.splits)
qed

text \<open>A payload that was signed for is merged as writes that were made.\<close>

lemma from_writes_same: "same_writes ws' ws \<Longrightarrow> \<forall>x \<in> set ws. from_writes W x \<Longrightarrow> \<forall>x \<in> set ws'. from_writes W x"
  unfolding from_writes_def by (metis same_writesD(1) fst_conv snd_conv prod.collapse)

lemma signed_crdt:
  assumes "payload_from W pl" "wf_payload (CrdtP p)" "signed_text pl = signed_text (CrdtP p)"
  shows "\<exists>ws. (\<forall>x \<in> set ws. from_writes W x) \<and> (\<forall>m. lww_merge (crdt_state p) m = (apply_writes ws m, None))"
proof -
  have "wf_payload pl" using assms(1) by (simp add: payload_from_def)
  from enc_inj [OF std_sign_opts wf_model_dump [OF this] wf_model_dump [OF assms(2)]] assms(3)
  have eq: "canon (PDict (model_dump pl)) = canon (PDict (model_dump (CrdtP p)))" by (simp add: signed_text_def)
  from canon_model_dump_type [OF eq] obtain p0 where pl: "pl = CrdtP p0" by (cases pl) simp_all
  with assms(1) obtain ws where ws: "crdt_state p0 = map (\<lambda>(k, e). (k, record_of e)) ws" "\<forall>x \<in> set ws. from_writes W x"
    by (auto simp: payload_from_def)
  from canon_model_dump_get [OF eq, of "''state''"] have "canon (PDict (crdt_state p)) = canon (PDict (crdt_state p0))"
    by (simp add: pl model_dump_def del: canon.simps)
  from merge_canon [OF this [unfolded ws(1)]] obtain ws' where
    "same_writes ws' ws" "\<forall>m. lww_merge (crdt_state p) m = (apply_writes ws' m, None)" by blast
  with from_writes_same ws(2) show ?thesis by blast
qed

lemma lww_inv_writes: "lww_inv m \<Longrightarrow> lww_inv (apply_writes ws m)"
  by (induction ws arbitrary: m) (auto simp: apply_writes_def apply_write_def lww_inv_set split: prod.splits)

lemma map_from_writes:
  assumes "map_from W m" "\<forall>x \<in> set ws. from_writes W x"
  shows "map_from W (apply_writes ws m)"
proof -
  have inv: "lww_inv (apply_writes ws m)" using assms(1) by (simp add: map_from_def lww_inv_writes)
  have "from_writes W x" if x: "x \<in> set (lww_state (apply_writes ws m))" for x
  proof -
    obtain k e where ke: "x = (k, e)" by (cases x)
    have "map_of (lww_state (apply_writes ws m)) k = Some e"
      using x lww_inv_wf [OF inv] by (simp add: ke dict_wf_get_iff)
    from apply_writes_slot [OF this] assms show ?thesis by (auto simp: ke map_from_def dest: map_of_SomeD)
  qed
  with inv show ?thesis by (simp add: map_from_def)
qed

section \<open>Every step keeps the invariant\<close>

lemma unforged_mono:
  "unforged P M s e \<Longrightarrow> \<forall>j. nd_manager (member s' j) = nd_manager (member s j) \<Longrightarrow> vouched s \<subseteq> vouched s' \<Longrightarrow> unforged P M s' e"
  by (auto simp: unforged_def member_signature_def)

lemma from_writes_mono: "from_writes W x \<Longrightarrow> W \<subseteq> W' \<Longrightarrow> from_writes W' x"
  by (auto simp: from_writes_def)

lemma map_from_mono: "map_from W m \<Longrightarrow> W \<subseteq> W' \<Longrightarrow> map_from W' m"
  by (auto simp: map_from_def intro: from_writes_mono)

lemma payload_from_mono: "payload_from W pl \<Longrightarrow> W \<subseteq> W' \<Longrightarrow> payload_from W' pl"
  by (cases pl; simp add: payload_from_def; blast intro: from_writes_mono)

lemma closed_member_cong:
  "closed_member M f n \<Longrightarrow> same_config n n' \<Longrightarrow> queue_inv (message_queue n') \<Longrightarrow>
   \<forall>j. nd_manager (f' j) = nd_manager (f j) \<Longrightarrow> closed_member M f' n'"
  by (simp add: closed_member_def same_config_def)

text \<open>What a member sends of its own map comes from writes.\<close>

lemma honest_payload_from: "honest_payload n pl \<Longrightarrow> map_from W (shared_memory n) \<Longrightarrow> payload_from W pl"
  by (cases pl) (auto simp: honest_payload_def payload_from_def map_from_def serialize_state_def)

text \<open>One member changes, and with it what is on the wire, signed and written.\<close>

lemma swarm_inv_update:
  assumes inv: "swarm_inv P M s" and i: "i \<in> M"
    and n: "closed_member M (member s) n" "nd_manager n = nd_manager (member s i)" "map_from W (shared_memory n)"
    and keep: "\<And>k e. holds (shared_memory (member s i)) k e \<Longrightarrow> holds (shared_memory n) k e"
    and W: "written s \<subseteq> W" "\<And>k e. (k, e) \<in> W - written s \<Longrightarrow> wf_val (fst e) \<and> holds (shared_memory n) k e"
    and S: "vouched s \<subseteq> S" "\<And>pl. pl \<in> S - vouched s \<Longrightarrow> payload_from W pl"
    and out: "\<And>e. e \<in> pending n \<union> new \<Longrightarrow> e \<in> pending (member s i) \<or> wf_payload (payload e) \<and> payload e \<in> S"
  shows "swarm_inv P M (s\<lparr>member := (member s)(i := n), wire := wire s \<union> new, vouched := S, written := W\<rparr>)"
    (is "swarm_inv P M ?s")
proof -
  have mgr: "\<forall>j. nd_manager (member ?s j) = nd_manager (member s j)" using n(2) by simp
  note up = unforged_mono [of P M s _ ?s, OF _ mgr]
  have own: "unforged P M ?s e" if "wf_payload (payload e)" "payload e \<in> S" for e
    using that by (auto simp: unforged_def)
  have mem: "closed_member M (member ?s) (member ?s j) \<and> map_from W (shared_memory (member ?s j)) \<and>
      (\<forall>e \<in> pending (member ?s j). unforged P M ?s e)" if j: "j \<in> M" for j
  proof (cases "j = i")
    case True
    with inv i have c: "\<forall>e \<in> pending (member s i). unforged P M s e" by (auto simp: swarm_inv_def)
    have "queue_inv (message_queue n)" using n(1) by (simp add: closed_member_def)
    from closed_member_cong [OF n(1) same_config_refl this] mgr have "closed_member M (member ?s) n" by blast
    with True n(3) c out own up S(1) show ?thesis by (simp del: fun_upd_apply add: fun_upd_same) blast
  next
    case False
    with inv j have c: "closed_member M (member s) (member s j)" "map_from (written s) (shared_memory (member s j))"
      "\<forall>e \<in> pending (member s j). unforged P M s e" by (auto simp: swarm_inv_def)
    have "queue_inv (message_queue (member s j))" using c(1) by (simp add: closed_member_def)
    from closed_member_cong [OF c(1) same_config_refl this] mgr have "closed_member M (member ?s) (member s j)" by blast
    with False c(2,3) map_from_mono [OF c(2) W(1)] up S(1) show ?thesis by simp
  qed
  moreover have "\<forall>e \<in> wire ?s. unforged P M ?s e"
  proof
    fix e assume "e \<in> wire ?s"
    then have "e \<in> wire s \<or> e \<in> new" by simp
    moreover have "\<forall>e \<in> wire s \<union> pending (member s i). unforged P M s e" using inv i by (auto simp: swarm_inv_def)
    ultimately have "unforged P M s e \<or> wf_payload (payload e) \<and> payload e \<in> S" using out [of e] by blast
    then show "unforged P M ?s e" using up own S(1) by auto
  qed
  moreover have "\<forall>pl \<in> S. payload_from W pl"
  proof
    fix pl assume "pl \<in> S"
    then show "payload_from W pl"
      using inv S(2) [of pl] payload_from_mono [OF _ W(1), of pl] by (cases "pl \<in> vouched s") (auto simp: swarm_inv_def)
  qed
  moreover have "wf_val (fst e) \<and> (\<exists>j \<in> M. holds (shared_memory (member ?s j)) k e)" if ke: "(k, e) \<in> W" for k e
  proof (cases "(k, e) \<in> written s")
    case True
    with inv obtain j where "j \<in> M" "holds (shared_memory (member s j)) k e" "wf_val (fst e)"
      by (fastforce simp: swarm_inv_def)
    with keep have "holds (shared_memory (member ?s j)) k e" by (cases "j = i") simp_all
    with \<open>j \<in> M\<close> \<open>wf_val (fst e)\<close> show ?thesis by blast
  next
    case False
    with ke W(2) i show ?thesis by (auto intro: bexI [of _ i])
  qed
  ultimately show ?thesis unfolding swarm_inv_def by (auto simp del: fun_upd_apply)
qed

lemma swarm_inv_emit:
  assumes inv: "swarm_inv P M s" and i: "i \<in> M" and e: "emits Q (member s i) n outs"
    and S: "vouched s \<subseteq> S" "\<And>pl. pl \<in> S - vouched s \<Longrightarrow> payload_from (written s) pl"
    and Q: "\<And>e. Q e \<Longrightarrow> wf_payload (payload e) \<and> payload e \<in> S"
  shows "swarm_inv P M (s\<lparr>member := (member s)(i := n), wire := wire s \<union> set (envelopes_of outs), vouched := S\<rparr>)"
proof -
  have c: "closed_member M (member s) (member s i)" "map_from (written s) (shared_memory (member s i))"
    using inv i by (auto simp: swarm_inv_def)
  then have q: "queue_inv (message_queue (member s i))" by (simp add: closed_member_def)
  have "swarm_inv P M (s\<lparr>member := (member s)(i := n), wire := wire s \<union> set (envelopes_of outs), vouched := S, written := written s\<rparr>)"
  proof (rule swarm_inv_update [OF inv i])
    show "closed_member M (member s) n"
      by (rule closed_member_cong [OF c(1)]) (use e q in \<open>simp_all add: emits_def\<close>)
    show "nd_manager n = nd_manager (member s i)" "map_from (written s) (shared_memory n)"
      using e c(2) by (simp_all add: emits_def same_config_def)
    show "holds (shared_memory n) k e" if "holds (shared_memory (member s i)) k e" for k e
      using that assms(3) by (simp add: emits_def)
    show "x \<in> pending (member s i) \<or> wf_payload (payload x) \<and> payload x \<in> S"
      if "x \<in> pending n \<union> set (envelopes_of outs)" for x
      using that assms(3) q Q [of x] by (auto simp: emits_def)
  qed (use S in auto)
  then show ?thesis by simp
qed

lemma register_closed:
  assumes "closed_member M f n" "j \<in> M" "public_key p = get_public_key_string (nd_manager (f j))"
  shows "closed_member M f (register_peer p addr n)"
  using assms by (auto simp: closed_member_def register_peer_def dict_simps)

lemma local_write: "lww_set k v ts None m = apply_writes [(k, local_entry v ts m)] m"
  by (simp add: lww_set_own local_entry_def apply_writes_def apply_write_def split: option.splits)

text \<open>A member takes the signature of a registered peer for that of a member.\<close>

lemma authentic_member:
  assumes "closed_member M (member s) n" "authentic P e n"
  shows "member_signature P M s e"
proof -
  from assms(2) obtain p a sig where p: "map_of (peer_registry n) (sender_id (header e)) = Some (p, a)"
    "signature e = Some sig" "verify_signature (ed_prims P) (public_key p) sig (model_dump (payload e))"
    by (auto simp: authentic_def split: option.splits)
  with assms(1) show ?thesis by (fastforce simp: closed_member_def member_signature_def)
qed

lemma merged_from_writes:
  assumes inv: "swarm_inv P M s" "i \<in> M" and e: "e \<in> wire s" "authentic P e (member s i)" "payload e = CrdtP p"
  shows "\<exists>ws. (\<forall>x \<in> set ws. from_writes (written s) x) \<and> (\<forall>m. lww_merge (crdt_state p) m = (apply_writes ws m, None))"
proof -
  have "closed_member M (member s) (member s i)" "unforged P M s e" using inv e(1) by (auto simp: swarm_inv_def)
  with authentic_member [OF _ e(2)] e(3) obtain pl where "pl \<in> vouched s" "signed_text pl = signed_text (CrdtP p)" "wf_payload (CrdtP p)"
    unfolding unforged_def by metis
  moreover have "payload_from (written s) pl" if "pl \<in> vouched s" for pl using inv(1) that by (auto simp: swarm_inv_def)
  ultimately show ?thesis using signed_crdt by blast
qed

lemma delivered_memory:
  assumes inv: "swarm_inv P M s" "i \<in> M" "bystander user" and e: "e \<in> wire s" "process_envelope P user env ws e (member s i) = (n, outs)"
  shows "\<exists>us. (\<forall>x \<in> set us. from_writes (written s) x) \<and> shared_memory n = apply_writes us (shared_memory (member s i))"
proof -
  have c: "closed_member M (member s) (member s i)" using inv(1,2) by (auto simp: swarm_inv_def)
  from deliver_closed [OF this inv(3) e(2)] consider "shared_memory n = shared_memory (member s i)"
    | p where "authentic P e (member s i)" "payload e = CrdtP p" "shared_memory n = fst (lww_merge (crdt_state p) (shared_memory (member s i)))"
    by blast
  then show ?thesis
  proof cases
    case 1
    then show ?thesis by (intro exI [of _ "[]"]) (simp add: apply_writes_def)
  next
    case 2
    with merged_from_writes [OF inv(1,2) e(1)] show ?thesis by (metis fst_conv)
  qed
qed

lemma swarm_step_inv:
  assumes "swarm_step P user M s ev s'" "bystander user" "swarm_inv P M s"
  shows "swarm_inv P M s'"
  using assms(1)
proof cases
  case (send i pl env k t it ack n outs mid)
  have m: "map_from (written s) (shared_memory (member s i))" using assms(3) send(3) by (auto simp: swarm_inv_def)
  have w: "wf_payload pl" using send(4) by (simp add: honest_payload_def)
  show ?thesis unfolding send(2)
    by (rule swarm_inv_emit [OF assms(3) send(3) send_emits [OF send(5)]])
      (use honest_payload_from [OF send(4) m] w in auto)
next
  case (broadcast i pl env it n outs cnt)
  have m: "map_from (written s) (shared_memory (member s i))" using assms(3) broadcast(3) by (auto simp: swarm_inv_def)
  have w: "wf_payload pl" using broadcast(4) by (simp add: honest_payload_def)
  show ?thesis unfolding broadcast(2)
    by (rule swarm_inv_emit [OF assms(3) broadcast(3) broadcast_emits [OF broadcast(5)]])
      (use honest_payload_from [OF broadcast(4) m] w in auto)
next
  case (drained i envs target n outs sleeps)
  have "swarm_inv P M (s\<lparr>member := (member s)(i := n), wire := wire s \<union> set (envelopes_of outs), vouched := vouched s\<rparr>)"
    by (rule swarm_inv_emit [OF assms(3) drained(3) drain_emits [OF drained(4)]]) auto
  then show ?thesis by (simp add: drained(2))
next
  case (inject e)
  have "unforged P M s' x" if "unforged P M s x" for x
    by (rule unforged_mono [OF that]) (simp_all add: inject(2))
  with assms(3) inject show ?thesis by (auto simp: swarm_inv_def)
next
  case (admit i j addr)
  have c: "closed_member M (member s) (member s i)" "map_from (written s) (shared_memory (member s i))"
    "closed_member M (member s) (member s j)" using assms(3) admit by (auto simp: swarm_inv_def)
  let ?n = "register_peer (nd_identity (member s j)) addr (member s i)"
  have "swarm_inv P M (s\<lparr>member := (member s)(i := ?n), wire := wire s \<union> {}, vouched := vouched s, written := written s\<rparr>)"
  proof (rule swarm_inv_update [OF assms(3) admit(3)])
    show "closed_member M (member s) ?n"
      by (rule register_closed [OF c(1) admit(4)]) (use c(3) in \<open>simp add: closed_member_def\<close>)
  qed (use c(2) in \<open>auto simp: register_peer_def pending_def\<close>)
  then show ?thesis by (simp add: admit(2))
next
  case (deliver i e env ws n outs)
  have c: "closed_member M (member s) (member s i)" "map_from (written s) (shared_memory (member s i))"
    using assms(3) deliver(3) by (auto simp: swarm_inv_def)
  note d = deliver_closed [OF c(1) assms(2) deliver(5)]
  from delivered_memory [OF assms(3) deliver(3) assms(2) deliver(4,5)] obtain us where
    us: "\<forall>x \<in> set us. from_writes (written s) x" "shared_memory n = apply_writes us (shared_memory (member s i))" by blast
  have "swarm_inv P M (s\<lparr>member := (member s)(i := n), wire := wire s \<union> {}, vouched := vouched s, written := written s\<rparr>)"
  proof (rule swarm_inv_update [OF assms(3) deliver(3)])
    show "closed_member M (member s) n"
      by (rule closed_member_cong [OF c(1)]) (use d c(1) in \<open>auto simp: closed_member_def\<close>)
    show "map_from (written s) (shared_memory n)" using us c(2) map_from_writes [OF c(2) us(1)] by auto
    show "holds (shared_memory n) k e" if "holds (shared_memory (member s i)) k e" for k e
      using us(2) that holds_merge(1) [OF that] by auto
  qed (use d in \<open>auto simp: same_config_def pending_def\<close>)
  then show ?thesis using d by (simp add: deliver(2))
next
  case (set_local i v m k ts)
  let ?x = "(k, local_entry v ts m)" and ?n = "(member s i)\<lparr>shared_memory := apply_writes [(k, local_entry v ts m)] m\<rparr>"
  have c: "closed_member M (member s) (member s i)" "map_from (written s) m"
    using assms(3) set_local(3,5) by (auto simp: swarm_inv_def)
  have "swarm_inv P M (s\<lparr>member := (member s)(i := ?n), wire := wire s \<union> {}, vouched := vouched s, written := insert ?x (written s)\<rparr>)"
  proof (rule swarm_inv_update [OF assms(3) set_local(3)])
    show "closed_member M (member s) ?n"
      by (rule closed_member_cong [OF c(1)]) (use c(1) in \<open>simp_all add: closed_member_def same_config_def\<close>)
    have "from_writes (insert ?x (written s)) ?x"
      unfolding from_writes_def by (intro exI [of _ "local_entry v ts m"]) simp
    then show "map_from (insert ?x (written s)) (shared_memory ?n)"
      using map_from_writes [OF map_from_mono [OF c(2)], of "insert ?x (written s)" "[?x]"] by auto
    show "holds (shared_memory ?n) k' e" if "holds (shared_memory (member s i)) k' e" for k' e
      using holds_merge(1) [OF that] set_local(5) by simp
    show "wf_val (fst e) \<and> holds (shared_memory ?n) k' e" if "(k', e) \<in> insert ?x (written s) - written s" for k' e
      using that holds_merge(2) [of k "local_entry v ts m" "[?x]" _ m] set_local(4) lww.irrefl
      by (auto simp: local_entry_def)
  qed (auto simp: pending_def)
  then show ?thesis by (simp add: set_local(2) local_write set_local(5))
qed

lemma swarm_inv_init: "swarm_init M s \<Longrightarrow> swarm_inv P M s"
  by (auto simp: swarm_init_def swarm_inv_def map_from_def)

lemma swarm_run_inv: "swarm_run P user M s evs s' \<Longrightarrow> bystander user \<Longrightarrow> swarm_inv P M s \<Longrightarrow> swarm_inv P M s'"
  by (induction rule: swarm_run.induct) (auto intro: swarm_step_inv)

section \<open>Nothing a member holds is ever displaced by something older\<close>

lemma swarm_step_memory:
  assumes "swarm_step P user M s ev s'" "bystander user" "swarm_inv P M s"
  shows "\<exists>us. shared_memory (member s' i) = apply_writes us (shared_memory (member s i))"
proof -
  have same: ?thesis if "shared_memory (member s' i) = shared_memory (member s i)"
    using that by (intro exI [of _ "[]"]) (simp add: apply_writes_def)
  from assms(1) show ?thesis
  proof cases
    case (deliver j x env ws n outs)
    from delivered_memory [OF assms(3) deliver(3) assms(2) deliver(4,5)] same
    show ?thesis by (cases "i = j") (auto simp: deliver(2))
  next
    case (set_local j v m k ts)
    with same show ?thesis by (cases "i = j") (auto simp: local_write)
  next
    case (send j pl env k t it ack n outs mid)
    with send_emits [OF send(5)] same show ?thesis by (auto simp: emits_def)
  next
    case (broadcast j pl env it n outs cnt)
    with broadcast_emits [OF broadcast(5)] same show ?thesis by (auto simp: emits_def)
  next
    case (drained j envs target n outs sleeps)
    with drain_emits [OF drained(4)] same show ?thesis by (auto simp: emits_def)
  qed (use same in \<open>auto simp: register_peer_def\<close>)
qed

lemma swarm_run_memory:
  "swarm_run P user M s evs s' \<Longrightarrow> bystander user \<Longrightarrow> swarm_inv P M s \<Longrightarrow>
   \<exists>us. shared_memory (member s' i) = apply_writes us (shared_memory (member s i))"
proof (induction rule: swarm_run.induct)
  case (start s)
  show ?case by (intro exI [of _ "[]"]) (simp add: apply_writes_def)
next
  case (more s evs s1 ev s2)
  have "swarm_inv P M s1" by (rule swarm_run_inv [OF more(1,4,5)])
  from swarm_step_memory [OF more(2,4) this, of i] more.IH [OF more(4,5)] obtain us us' where
    "shared_memory (member s2 i) = apply_writes us' (shared_memory (member s1 i))"
    "shared_memory (member s1 i) = apply_writes us (shared_memory (member s i))" by blast
  then show ?case by (intro exI [of _ "us @ us'"]) (simp add: apply_writes_def)
qed

lemma swarm_run_holds:
  "swarm_run P user M s evs s' \<Longrightarrow> bystander user \<Longrightarrow> swarm_inv P M s \<Longrightarrow> holds (shared_memory (member s i)) k e \<Longrightarrow>
   holds (shared_memory (member s' i)) k e"
  using swarm_run_memory [of P user M s evs s' i] holds_merge(1) by metis

lemma apply_writes_node_id [simp]: "lww_node_id (apply_writes us m) = lww_node_id m"
  by (induction us arbitrary: m)
    (simp_all add: apply_writes_def apply_write_def lww_set_def Let_def case_prod_beta)

lemma swarm_run_node_id:
  "swarm_run P user M s evs s' \<Longrightarrow> bystander user \<Longrightarrow> swarm_inv P M s \<Longrightarrow>
   lww_node_id (shared_memory (member s' i)) = lww_node_id (shared_memory (member s i))"
  using swarm_run_memory [of P user M s evs s' i] by auto

lemma swarm_run_split:
  "swarm_run P user M s (evs @ evs') s' \<Longrightarrow> \<exists>s1. swarm_run P user M s evs s1 \<and> swarm_run P user M s1 evs' s'"
proof (induction evs' arbitrary: s' rule: rev_induct)
  case Nil
  then show ?case by (auto intro: swarm_run.start)
next
  case (snoc ev evs')
  from snoc.prems obtain s2 where "swarm_run P user M s (evs @ evs') s2" "swarm_step P user M s2 ev s'"
    by (cases rule: swarm_run.cases) auto
  with snoc.IH show ?case by (metis append_assoc swarm_run.more)
qed

lemma swarm_run_Cons:
  "swarm_run P user M s (ev # evs) s' \<Longrightarrow> \<exists>s1. swarm_step P user M s ev s1 \<and> swarm_run P user M s1 evs s'"
proof -
  assume "swarm_run P user M s (ev # evs) s'"
  then obtain s1 where "swarm_run P user M s ([] @ [ev]) s1" "swarm_run P user M s1 evs s'"
    using swarm_run_split [of P user M s "[ev]" evs s'] by auto
  then show ?thesis by (cases rule: swarm_run.cases [OF \<open>swarm_run P user M s ([] @ [ev]) s1\<close>]) (auto elim: swarm_run.cases)
qed

text \<open>Without a local \<^verbatim>\<open>set\<close> the history of writes stands still.\<close>

definition quiet :: "swarm_event list \<Rightarrow> bool" where
  "quiet evs \<longleftrightarrow> (\<forall>i k v t. Wrote i k v t \<notin> set evs)"

lemma swarm_run_written: "swarm_run P user M s evs s' \<Longrightarrow> quiet evs \<Longrightarrow> written s' = written s"
proof (induction rule: swarm_run.induct)
  case (more s evs s1 ev s2)
  have q: "quiet evs" and no: "\<And>i k v t. ev \<noteq> Wrote i k v t"
    using more.prems unfolding quiet_def by (metis in_set_conv_decomp append_Nil2 Un_iff set_append list.set_intros(1))+
  from more.hyps(2) have "written s2 = written s1"
  proof cases
    case set_local
    with no show ?thesis by blast
  qed simp_all
  with more.IH [OF q] show ?case by simp
qed simp

text \<open>What was written is what the events say.\<close>

lemma swarm_run_wrote:
  "swarm_run P user M s evs s' \<Longrightarrow> bystander user \<Longrightarrow> swarm_inv P M s \<Longrightarrow> (k, v, t, w) \<in> written s' \<Longrightarrow>
   (k, v, t, w) \<in> written s \<or> (\<exists>j \<in> M. Wrote j k v t \<in> set evs \<and> w = lww_node_id (shared_memory (member s j)))"
proof (induction rule: swarm_run.induct)
  case (more s evs s1 ev s2)
  note id = swarm_run_node_id [OF more(1,4,5)]
  from more(2) have "(k, v, t, w) \<in> written s1 \<or> (\<exists>j \<in> M. ev = Wrote j k v t \<and> w = lww_node_id (shared_memory (member s1 j)))"
    using more(6) by cases (auto simp: local_entry_def)
  with more.IH [OF more(4,5)] id show ?case by auto
qed simp

text \<open>What a member sent of its map, any member that takes it holds.\<close>

definition exchanged :: "nat \<Rightarrow> nat \<Rightarrow> swarm_event list \<Rightarrow> bool" where
  "exchanged j i evs \<longleftrightarrow> (\<exists>xs p ys e zs. evs = xs @ SentBy j (CrdtP p) # ys @ Accepted i e # zs \<and>
     crdt_type p = ''LWW-Map'' \<and> payload e = CrdtP p \<and> intent (header e) = STATE_SYNC)"

lemma exchange_reaches:
  assumes "swarm_run P user M s evs s'" "bystander user" "swarm_inv P M s" "exchanged j i evs"
    and "holds (shared_memory (member s j)) k w"
  shows "holds (shared_memory (member s' i)) k w"
proof -
  obtain xs p ys e zs where evs: "evs = xs @ SentBy j (CrdtP p) # ys @ Accepted i e # zs"
    and p: "crdt_type p = ''LWW-Map''" "payload e = CrdtP p" "intent (header e) = STATE_SYNC"
    using assms(4) by (auto simp: exchanged_def)
  obtain s1 s2 s3 s4 where run: "swarm_run P user M s xs s1" "swarm_step P user M s1 (SentBy j (CrdtP p)) s2"
    "swarm_run P user M s2 ys s3" "swarm_step P user M s3 (Accepted i e) s4" "swarm_run P user M s4 zs s'"
    using swarm_run_split swarm_run_Cons assms(1) unfolding evs by metis
  have inv: "swarm_inv P M s1" "swarm_inv P M s2" "swarm_inv P M s3" "swarm_inv P M s4"
    using run assms(2,3) by (blast intro: swarm_run_inv swarm_step_inv)+
  have "holds (shared_memory (member s1 j)) k w" by (rule swarm_run_holds [OF run(1) assms(2,3,5)])
  then obtain w' where w': "(k, w') \<in> set (lww_state (shared_memory (member s1 j)))" "\<not> entry_beats w w'"
    by (auto simp: holds_def dest: map_of_SomeD)
  have sent: "crdt_state p = serialize_state (shared_memory (member s1 j))"
    using run(2) by cases (simp_all add: honest_payload_def split: if_splits)
  have "holds (shared_memory (member s4 i)) k w"
    using run(4)
  proof cases
    case (deliver i' e' env ws n outs)
    then have d: "i' = i" "e' = e" "takes P env e (member s3 i)" by (auto split: if_splits)
    have c: "closed_member M (member s3) (member s3 i)" using inv(3) deliver(3) d(1) by (auto simp: swarm_inv_def)
    from deliver_takes [OF c deliver(5) [unfolded d] d(3) p(3,2,1)]
    have "shared_memory n = apply_writes (lww_state (shared_memory (member s1 j))) (shared_memory (member s3 i))"
      by (simp add: sent merge_serialized)
    with holds_merge(2) [OF w'] show ?thesis by (simp add: deliver(2) d(1))
  qed
  then show ?thesis by (rule swarm_run_holds [OF run(5) assms(2) inv(4)])
qed

text \<open>Two members that hold every write hold the same.\<close>

lemma up_to_date_agree:
  assumes inv: "swarm_inv P M s" and M: "i \<in> M" "j \<in> M"
    and up: "\<And>k e. (k, e) \<in> written s \<Longrightarrow> holds (shared_memory (member s i)) k e \<and> holds (shared_memory (member s j)) k e"
  shows "lww_view (shared_memory (member s i)) k = lww_view (shared_memory (member s j)) k"
proof -
  let ?g = "\<lambda>i. map_of (lww_state (shared_memory (member s i))) k"
  have orig: "\<exists>e'. (k, e') \<in> written s \<and> entry_view e' = entry_view e \<and> wf_val (fst e)" if "?g l = Some e" "l \<in> M" for l e
  proof -
    from that inv have "from_writes (written s) (k, e)" by (auto simp: swarm_inv_def map_from_def dest: map_of_SomeD)
    then obtain e' where e': "(k, e') \<in> written s" "entry_view e' = entry_view e" by (auto simp: from_writes_def)
    moreover have "wf_val (fst e')" using inv e'(1) by (auto simp: swarm_inv_def)
    ultimately show ?thesis using entry_view_wf by blast
  qed
  have other: "\<exists>e'. ?g m = Some e' \<and> \<not> entry_beats e e'" if l: "?g l = Some e" "l \<in> M" "m = i \<or> m = j" for l m e
  proof -
    obtain e1 where e1: "(k, e1) \<in> written s" "entry_view e1 = entry_view e" using orig [OF l(1,2)] by blast
    from up [OF e1(1)] l(3) obtain e' where "?g m = Some e'" "\<not> entry_beats e1 e'" unfolding holds_def by metis
    with beats_view [OF e1(2) refl, of e'] show ?thesis by metis
  qed
  show ?thesis
  proof (cases "?g i")
    case None
    have "?g j = None"
    proof (cases "?g j")
      case (Some e)
      with other [of j e i] M None show ?thesis by simp
    qed
    with None show ?thesis by (simp add: lww_view_def)
  next
    case (Some e)
    with other [of i e j] M obtain e' where e': "?g j = Some e'" "\<not> entry_beats e e'" by blast
    with other [of j e' i] M Some have "\<not> entry_beats e' e" by auto
    moreover have "wf_val (fst e)" "wf_val (fst e')" using orig M Some e'(1) by blast+
    ultimately have "entry_view e = entry_view e'" using e'(2) by (intro tie_view)
    with Some e'(1) show ?thesis by (simp add: lww_view_def)
  qed
qed

section \<open>Properties\<close>

text \<open>C3: Integrity of a closed swarm under attack: whatever the attacker injects, replays, reorders or
  suppresses, every entry that a member holds was written by a member: some member wrote that value under
  that key with that timestamp in the run (the value up to the order of dictionary keys), and the entry names this
  member's map as its writer.\<close>

theorem swarm_entries_are_written:
  assumes "swarm_init M s" "bystander user" "swarm_run P user M s evs s'" "i \<in> M"
    and "map_of (lww_state (shared_memory (member s' i))) k = Some (v, t, w)"
  shows "\<exists>j \<in> M. \<exists>v'. Wrote j k v' t \<in> set evs \<and> canon v' = canon v \<and> w = lww_node_id (shared_memory (member s j))"
proof -
  have inv: "swarm_inv P M s" by (rule swarm_inv_init [OF assms(1)])
  from swarm_run_inv [OF assms(3,2) inv] assms(4,5) have "from_writes (written s') (k, v, t, w)"
    by (auto simp: swarm_inv_def map_from_def dest: map_of_SomeD)
  then obtain v' where v': "(k, v', t, w) \<in> written s'" "canon v' = canon v"
    by (auto simp: from_writes_def entry_view_def)
  with swarm_run_wrote [OF assms(3,2) inv v'(1)] assms(1) show ?thesis by (auto simp: swarm_init_def)
qed

text \<open>C4: Convergence of a closed swarm under attack: once every member's map, sent after the last write, has
  been taken by every other member, all members hold the same entry under every key (up to the order of
  dictionary keys), and it is one that none of the writes of the whole run displaces.\<close>

theorem swarm_converges:
  assumes "swarm_init M s0" "bystander user" "swarm_run P user M s0 past s" "swarm_run P user M s evs s'" "quiet evs"
    and "\<forall>j \<in> M. \<forall>i \<in> M - {j}. exchanged j i evs" "a \<in> M" "b \<in> M"
  shows "lww_view (shared_memory (member s' a)) k = lww_view (shared_memory (member s' b)) k \<and>
    (\<forall>e. (k, e) \<in> written s' \<longrightarrow> holds (shared_memory (member s' a)) k e)"
proof -
  have inv: "swarm_inv P M s" by (rule swarm_run_inv [OF assms(3,2) swarm_inv_init [OF assms(1)]])
  have up: "holds (shared_memory (member s' i)) k e" if i: "i \<in> M" and e: "(k, e) \<in> written s'" for i k e
  proof -
    from e swarm_run_written [OF assms(4,5)] inv obtain j where j: "j \<in> M" "holds (shared_memory (member s j)) k e"
      by (fastforce simp: swarm_inv_def)
    show ?thesis
    proof (cases "i = j")
      case True
      with j(2) show ?thesis using swarm_run_holds [OF assms(4,2) inv] by blast
    next
      case False
      with assms(6) i j(1) have "exchanged j i evs" by simp
      from exchange_reaches [OF assms(4,2) inv this j(2)] show ?thesis .
    qed
  qed
  have "swarm_inv P M s'" by (rule swarm_run_inv [OF assms(4,2) inv])
  from up_to_date_agree [OF this assms(7,8)] up assms(7,8) show ?thesis by blast
qed

section \<open>A swarm of two\<close>

text \<open>A connected member's map reaches a member that accepts it.\<close>

lemma exchange_possible:
  assumes ij: "i \<in> M" "j \<in> M" "i \<noteq> j" and js: "json_state (member s i)"
    and ed: "ed_correct (ed_prims P)" "\<forall>sk m. length sk = 32 \<longrightarrow> ed_sign (ed_prims P) sk m \<noteq> []"
      "manager_wf (ed_prims P) (nd_manager (member s i))"
    and acc: "accepts_sync env' (member s j) (agent_id (nd_identity (member s i)))
      (get_public_key_string (nd_manager (member s i))) (fresh_id connected 0)"
    and link: "peer_connections (member s i) = []"
      "map_of (peer_registry (member s i)) (agent_id (nd_identity (member s j))) \<noteq> None"
  shows "\<exists>s' e seen. swarm_run P user M s [SentBy i (sync_payload (member s i)), Accepted j e] s' \<and>
    payload e = sync_payload (member s i) \<and> intent (header e) = STATE_SYNC \<and>
    same_but_links (member s i) (member s' i) \<and>
    member s' j = (member s j)\<lparr>seen_messages := seen,
      shared_memory := apply_writes (lww_state (shared_memory (member s i))) (shared_memory (member s j))\<rparr>"
proof -
  let ?a = "member s i" and ?b = "member s j"
  let ?u = "agent_id (nd_identity ?b)" and ?pl = "sync_payload ?a"
  note wf = wf_sync_payload [OF js]
  from sync_sends [OF js link, of P user env' 3] obtain a' b' where y: "sync P user connected env' 3 ?a ?b = (a', b', True)" by blast
  from send_message_ok [OF wf, of P ?a connected ?u 0 STATE_SYNC] obtain sig n outs where
    sig: "sign_payload (ed_prims P) (nd_manager ?a) (model_dump ?pl) = Inr sig" and
    d: "dispatch_envelope connected ?u (mk_envelope (create_header connected 0 ?a ?u STATE_SYNC) ?pl (Some sig)) ?a = (n, outs)"
      "send_message P connected 0 ?u STATE_SYNC ?pl False None ?a = (n, outs, Inr (fresh_id connected 0))" by blast
  let ?e = "mk_envelope (create_header connected 0 ?a ?u STATE_SYNC) ?pl (Some sig)"
  from y d(2) have z: "envelopes_of outs \<noteq> []" "a' = n"
    "b' = fst (deliver_all P user (map (\<lambda>e. (env', 3, e)) (envelopes_of outs)) ?b)" by (simp_all add: sync_def)
  have outs: "envelopes_of outs = [?e]"
    using d(1) z(1) by (cases rule: dispatch_cases [of connected ?u ?e ?a]) (auto split: if_splits)
  obtain n2 outs2 where p: "process_envelope P user env' 3 ?e ?b = (n2, outs2)" by (cases "process_envelope P user env' 3 ?e ?b")
  with z outs have b': "b' = n2" by (simp add: Let_def)
  have "verify_signature (ed_prims P) (get_public_key_string (nd_manager ?a)) sig (model_dump ?pl)"
    using signed_verifies [OF ed(1,3) wf] sig by auto
  moreover have "b64encode bs = [] \<longleftrightarrow> bs = []" for bs by (induction bs rule: b64encode.induct) simp_all
  then have "sig \<noteq> []" using sig ed(2,3) sign_payload_jsonable [OF jsonable_model_dump [OF wf]] by (auto simp: manager_wf_def)
  ultimately have t: "takes P env' ?e ?b"
    using acc by (auto simp: takes_def accepts_sync_def authentic_def acl_denies_def mk_envelope_def create_header_def split: option.splits)
  let ?s1 = "s\<lparr>member := (member s)(i := n), wire := wire s \<union> set (envelopes_of outs), vouched := insert ?pl (vouched s)\<rparr>"
  let ?s2 = "?s1\<lparr>member := (member ?s1)(j := n2), wire := wire ?s1 \<union> set (envelopes_of outs2)\<rparr>"
  have "honest_payload ?a ?pl" using wf by (simp add: honest_payload_def sync_payload_def)
  from swarm_step.send [OF ij(1) this d(2)] have step1: "swarm_step P user M s (SentBy i ?pl) ?s1" .
  have step2: "swarm_step P user M ?s1 (Accepted j ?e) ?s2"
    using swarm_step.deliver [OF ij(2), of ?e ?s1 P user env' 3 n2 outs2] p t outs ij(3) by simp
  have "swarm_run P user M s [SentBy i ?pl, Accepted j ?e] ?s2"
    using swarm_run.more [OF swarm_run.more [OF swarm_run.start step1] step2] by simp
  moreover from sync_merges [OF ed js acc y] obtain seen where "same_but_links ?a n"
    "n2 = ?b\<lparr>seen_messages := seen, shared_memory := apply_writes (lww_state (shared_memory ?a)) (shared_memory ?b)\<rparr>"
    using z(2) b' by blast
  ultimately show ?thesis using ij(3) by (intro exI [of _ ?s2] exI [of _ ?e] exI [of _ seen])
    (simp add: mk_envelope_def create_header_def)
qed

text \<open>Two members that know each other and refuse handshakes.\<close>

definition mate :: "uuid \<Rightarrow> uuid \<Rightarrow> node" where
  "mate me other = register_peer (mk_identity other ''demo'' (get_public_key_string sample_manager)) ''ws://h''
     (new_node (mk_identity me ''demo'' []) ''h'' 1 None sample_manager False (Some (deny_all HANDSHAKE (new_policy True))))"

definition couple :: swarm where
  "couple = \<lparr>member = (\<lambda>i. if i = 0 then mate 1 2 else mate 2 1), wire = {}, vouched = {}, written = {}\<rparr>"

lemma mate_simps [simp]:
  "nd_manager (mate u v) = sample_manager" "agent_id (nd_identity (mate u v)) = u"
  "public_key (nd_identity (mate u v)) = get_public_key_string sample_manager"
  "shared_memory (mate u v) = new_lww (uuid_str u) None" "message_queue (mate u v) = new_queue 500"
  "peer_connections (mate u v) = []" "seen_messages (mate u v) = []"
  "nd_acl (mate u v) = Some (deny_all HANDSHAKE (new_policy True))"
  "map_of (peer_registry (mate u v)) = [v \<mapsto> (mk_identity v ''demo'' (get_public_key_string sample_manager), ''ws://h'')]"
  "handlers (mate u v) = [(HANDSHAKE, HandleHandshake), (STATE_SYNC, HandleStateSync), (STATE_SYNC_VECTOR, HandleVectorSync),
     (ACK, HandleAck), (NACK, HandleNack)]"
  by (simp_all add: mate_def register_peer_def new_node_def register_handler_def mk_identity_def fun_eq_iff)

lemma couple_init: "swarm_init {0, 1} couple"
proof -
  have "closed_member {0, 1} (member couple) (mate u v)" for u v
    by (auto simp: closed_member_def couple_def queue_inv_new deny_all_def new_policy_def is_allowed_def split: if_splits)
  moreover have "pending (mate u v) = {}" for u v by (simp add: pending_def new_queue_def deque_of_def)
  ultimately show ?thesis by (auto simp: swarm_init_def couple_def lww_inv_new) (simp_all add: new_lww_def)
qed

lemma no_user_bystander: "bystander no_user"
  by (simp add: bystander_def no_user_def)

lemma mate_accepts: "accepts_sync env (mate u v) v (get_public_key_string sample_manager) mid"
  by (simp add: accepts_sync_def evict_seen_def deny_all_def new_policy_def is_allowed_def)

text \<open>The first member writes, and both exchange their maps.\<close>

definition wrote :: swarm where
  "wrote = couple\<lparr>member := (member couple)(0 := (mate 1 2)\<lparr>shared_memory := lww_set ''x'' (PInt 5) None None (new_lww (uuid_str 1) None)\<rparr>),
     written := {(''x'', PInt 5, 1, uuid_str 1)}\<rparr>"

lemma wrote_run: "swarm_run P user {0, 1} couple [Wrote 0 ''x'' (PInt 5) 1] wrote"
proof -
  have "swarm_step P user {0, 1} couple (Wrote 0 ''x'' (PInt 5) 1) wrote"
    using swarm_step.set_local [where s = couple and i = 0 and v = "PInt 5" and k = "''x''" and ts = None and M = "{0, 1}"
        and P = P and user = user, OF _ _ refl]
    by (simp add: wrote_def couple_def local_entry_def new_lww_def)
  from swarm_run.more [OF swarm_run.start this] show ?thesis by simp
qed

lemma swarm_run_append:
  "swarm_run P user M s1 evs' s2 \<Longrightarrow> swarm_run P user M s evs s1 \<Longrightarrow> swarm_run P user M s (evs @ evs') s2"
  by (induction rule: swarm_run.induct) (auto simp flip: append_assoc intro: swarm_run.more)

lemma wrote_simps [simp]:
  "member wrote 0 = (mate 1 2)\<lparr>shared_memory := lww_set ''x'' (PInt 5) None None (new_lww (uuid_str 1) None)\<rparr>"
  "member wrote (Suc 0) = mate 2 1"
  by (simp_all add: wrote_def couple_def)

lemma wrote_memory: "lww_state (lww_set ''x'' (PInt 5) None None (new_lww (uuid_str 1) None)) = [(''x'', PInt 5, 1, uuid_str 1)]"
  by (simp add: lww_set_def new_lww_def persist_def)

lemma couple_gossip:
  "\<exists>evs s. swarm_run demo_platform no_user {0, 1} wrote evs s \<and> quiet evs \<and> exchanged 0 1 evs \<and> exchanged 1 0 evs \<and>
     map_of (lww_state (shared_memory (member s 1))) ''x'' = Some (PInt 5, 1, uuid_str 1)"
proof -
  let ?run = "swarm_run demo_platform no_user {0, 1}"
  have ed: "ed_correct (ed_prims demo_platform)" "\<forall>sk m. length sk = 32 \<longrightarrow> ed_sign (ed_prims demo_platform) sk m \<noteq> []"
    "manager_wf (ed_prims demo_platform) sample_manager"
    using plain_ed_laws(1) sample_manager_wf by (simp_all add: plain_ed_sign_ne)
  obtain s1 e1 seen1 where one: "?run wrote [SentBy 0 (sync_payload (member wrote 0)), Accepted 1 e1] s1"
    "payload e1 = sync_payload (member wrote 0)" "intent (header e1) = STATE_SYNC"
    "same_but_links (member wrote 0) (member s1 0)"
    "member s1 1 = (mate 2 1)\<lparr>seen_messages := seen1, shared_memory := apply_writes [(''x'', PInt 5, 1, uuid_str 1)] (new_lww (uuid_str 2) None)\<rparr>"
    using exchange_possible [where i = 0 and j = 1 and M = "{0, 1}" and s = wrote and P = demo_platform and user = no_user
        and env' = "at_time 0", OF _ _ _ _ ed(1,2)] ed(3) mate_accepts [where u = 2 and v = 1]
    by (auto simp: wrote_memory json_state_def)
  obtain s2 e2 where two: "?run s1 [SentBy 1 (sync_payload (member s1 1)), Accepted 0 e2] s2"
    "payload e2 = sync_payload (member s1 1)" "intent (header e2) = STATE_SYNC"
    "same_but_links (member s1 1) (member s2 1)"
  proof -
    have "json_state (member s1 1)"
      by (simp add: one(5) [unfolded One_nat_def] json_state_def apply_writes_def apply_write_def lww_set_def new_lww_def persist_def)
    moreover have "accepts_sync (at_time 0) (member s1 0) 2 (get_public_key_string sample_manager) (fresh_id connected 0)"
      using mate_accepts [of "at_time 0" 1 2]
      by (subst one(4) [unfolded same_but_links_def]) (simp add: accepts_sync_def)
    moreover have "agent_id (nd_identity (member s1 0)) = 1"
      by (subst one(4) [unfolded same_but_links_def]) simp
    ultimately show thesis
      using exchange_possible [where i = 1 and j = 0 and M = "{0, 1}" and s = s1 and P = demo_platform and user = no_user
          and env' = "at_time 0", OF _ _ _ _ ed(1,2)] ed(3) that by (auto simp: one(5) [unfolded One_nat_def])
  qed
  let ?evs = "[SentBy 0 (sync_payload (member wrote 0)), Accepted 1 e1] @ [SentBy 1 (sync_payload (member s1 1)), Accepted 0 e2]"
  have "?run wrote ?evs s2" by (rule swarm_run_append [OF two(1) one(1)])
  moreover have "quiet ?evs" by (simp add: quiet_def)
  moreover have "exchanged 0 1 ?evs"
    unfolding exchanged_def sync_payload_def
    by (rule exI [of _ "[]"], rule exI, rule exI [of _ "[]"], rule exI [of _ e1], rule exI)
      (use one(2,3) in \<open>auto simp: sync_payload_def\<close>)
  moreover have "exchanged 1 0 ?evs"
    unfolding exchanged_def
    by (rule exI [of _ "[SentBy 0 (sync_payload (member wrote 0)), Accepted 1 e1]"], rule exI, rule exI [of _ "[]"],
        rule exI [of _ e2], rule exI [of _ "[]"]) (use two(2,3) in \<open>auto simp: sync_payload_def\<close>)
  moreover have "shared_memory (member s2 1) = shared_memory (member s1 1)"
    using same_links_config [OF two(4)] by simp
  then have "map_of (lww_state (shared_memory (member s2 1))) ''x'' = Some (PInt 5, 1, uuid_str 1)"
    by (simp add: one(5) [unfolded One_nat_def] apply_writes_get new_lww_def slot_put_def)
  ultimately show ?thesis by blast
qed

theorem swarm_entries_are_written_witness:
  "\<exists>evs s'. swarm_run demo_platform no_user {0, 1} couple evs s' \<and>
     map_of (lww_state (shared_memory (member s' 1))) ''x'' = Some (PInt 5, 1, uuid_str 1) \<and>
     (\<exists>j \<in> {0, 1}. \<exists>v'. Wrote j ''x'' v' 1 \<in> set evs \<and> canon v' = canon (PInt 5))"
proof -
  from couple_gossip obtain evs s' where r: "swarm_run demo_platform no_user {0, 1} wrote evs s'"
    "map_of (lww_state (shared_memory (member s' 1))) ''x'' = Some (PInt 5, 1, uuid_str 1)" by blast
  from swarm_run_append [OF r(1) wrote_run] have "swarm_run demo_platform no_user {0, 1} couple ([Wrote 0 ''x'' (PInt 5) 1] @ evs) s'" .
  with swarm_entries_are_written [OF couple_init no_user_bystander this _ r(2)] r(2) show ?thesis by blast
qed

theorem swarm_converges_witness:
  "\<exists>evs s'. swarm_run demo_platform no_user {0, 1} wrote evs s' \<and>
     lww_view (shared_memory (member s' 0)) ''x'' = lww_view (shared_memory (member s' 1)) ''x''"
proof -
  from couple_gossip obtain evs s' where r: "swarm_run demo_platform no_user {0, 1} wrote evs s'" "quiet evs"
    "exchanged 0 1 evs" "exchanged 1 0 evs" by blast
  then have "\<forall>j \<in> {0, 1}. \<forall>i \<in> {0, 1} - {j}. exchanged j i evs" by auto
  from swarm_converges [OF couple_init no_user_bystander wrote_run r(1,2) this, of 0 1] r(1) show ?thesis by blast
qed

end
