(* ===== verification/Relayed.thy ===== *)
theory Relayed
  imports Swarm RelayAuth PyStr
begin

text \<open>
  A message that goes through the relay, from the sender's document to the receiving node's handler
  (\<^verbatim>\<open>tpcp/relay/server.py\<close> between two \<^verbatim>\<open>tpcp/core/node.py\<close>). What is used of Pydantic is that it reads the members of
  a document by name: a document that differs only in the header's \<^verbatim>\<open>ttl\<close> decodes to the message with that TTL.
\<close>

section \<open>Messages up to their TTL\<close>

definition with_ttl :: "int \<Rightarrow> envelope \<Rightarrow> envelope" where
  "with_ttl i e = e\<lparr>header := (header e)\<lparr>ttl := i\<rparr>\<rparr>"

definition decodes_by_name :: "platform \<Rightarrow> bool" where
  "decodes_by_name P \<longleftrightarrow> (\<forall>d h d' h' i e. dec_envelope P (PDict d) = Some e \<longrightarrow> map_of d ''header'' = Some (PDict h) \<longrightarrow>
     map_of d' = (map_of d)(''header'' \<mapsto> PDict h') \<longrightarrow> map_of h' = (map_of h)(''ttl'' \<mapsto> PInt i) \<longrightarrow> 0 \<le> i \<longrightarrow>
     dec_envelope P (PDict d') = Some (with_ttl i e))"

lemma with_ttl_simps [simp]:
  "payload (with_ttl i e) = payload e" "signature (with_ttl i e) = signature e"
  "env_ack_info (with_ttl i e) = env_ack_info e" "ttl (header (with_ttl i e)) = i"
  "message_id (header (with_ttl i e)) = message_id (header e)" "sender_id (header (with_ttl i e)) = sender_id (header e)"
  "intent (header (with_ttl i e)) = intent (header e)"
  by (simp_all add: with_ttl_def)

text \<open>The TTL is under no signature, and of the built-in handlers only the one for acknowledgements, which keeps the
  message, sees it. A handler of the embedding program may or may not look at it.\<close>

lemma authentic_ttl [simp]: "authentic P (with_ttl i e) n = authentic P e n"
  unfolding authentic_def with_ttl_simps by (rule refl)

lemma unforged_ttl: "unforged P M s e \<Longrightarrow> unforged P M s (with_ttl i e)"
  by (simp add: unforged_def member_signature_def)

definition reads_no_ttl :: "user_handlers \<Rightarrow> handler \<Rightarrow> bool" where
  "reads_no_ttl user h \<longleftrightarrow>
     (case h of
        HandleAck \<Rightarrow> False
      | UserHandler k \<Rightarrow> \<forall>env e i ws n. user k env (with_ttl i e) ws n = user k env e ws n
      | _ \<Rightarrow> True)"

lemma run_handler_ttl:
  "reads_no_ttl user h \<Longrightarrow> run_handler P user env h (with_ttl i e) ws n = run_handler P user env h e ws n"
  unfolding run_handler_def handle_handshake_def handle_state_sync_def handle_vector_sync_def handle_nack_def
    reads_no_ttl_def with_ttl_simps by (cases h) auto

lemma process_envelope_ttl:
  assumes "0 < i" "0 < ttl (header e)" "\<And>h. map_of (handlers n) (intent (header e)) = Some h \<Longrightarrow> reads_no_ttl user h"
  shows "process_envelope P user env ws (with_ttl i e) n = process_envelope P user env ws e n"
proof -
  have r: "run_and_reply P user env h (with_ttl i e) ws m = run_and_reply P user env h e ws m" if "reads_no_ttl user h" for h m
    unfolding run_and_reply_def run_handler_ttl [OF that] create_ack_envelope_def create_nack_envelope_def
      reply_envelope_fails with_ttl_simps by (rule refl)
  have "\<not> i \<le> 0" "\<not> ttl (header e) \<le> 0" using assms(1,2) by simp_all
  then show ?thesis
    unfolding process_envelope_def Let_def create_nack_envelope_def reply_envelope_fails with_ttl_simps authentic_ttl
    using assms(3) by (auto simp: r split: option.split)
qed

section \<open>The forwarded document\<close>

lemma json_val_members: "json_val (PDict d) \<Longrightarrow> map_of d k = Some v \<Longrightarrow> json_val v"
  by (auto simp: list_all_iff dest!: map_of_SomeD)

lemma json_val_update: "json_val (PDict d) \<Longrightarrow> json_val v \<Longrightarrow> json_val (PDict (AList.update k v d))"
  using update_subset [of k v d] by (fastforce simp: list_all_iff)

lemma json_val_forwarded:
  assumes "json_val (PDict dd)" "map_of dd ''header'' = Some (PDict hdr)"
  shows "json_val (forwarded dd hdr (PInt n))"
  unfolding forwarded_def using json_val_members [OF assms] by (intro json_val_update assms(1)) simp_all

lemma decoded_ttl:
  assumes "decodes_by_name P" "dec_envelope P (PDict d) = Some e" "map_of d ''header'' = Some (PDict h)"
    "map_of h ''ttl'' = Some (PInt i)" "0 \<le> i"
  shows "ttl (header e) = i"
proof -
  have "map_of d = (map_of d)(''header'' \<mapsto> PDict h)" "map_of h = (map_of h)(''ttl'' \<mapsto> PInt i)"
    using assms(3,4) by (simp_all add: fun_upd_idem)
  then have "e = with_ttl i e" using assms(1,2,3,5) unfolding decodes_by_name_def by fastforce
  then show ?thesis by (metis with_ttl_simps(4))
qed

lemma decoded_forwarded:
  assumes "decodes_by_name P" "dec_envelope P (PDict dd) = Some e" "map_of dd ''header'' = Some (PDict hdr)" "1 \<le> n"
  shows "dec_envelope P (forwarded dd hdr (PInt n)) = Some (with_ttl (n - 1) e)"
proof -
  have "map_of (AList.update ''header'' (PDict (AList.update ''ttl'' (PInt (n - 1)) hdr)) dd) =
      (map_of dd)(''header'' \<mapsto> PDict (AList.update ''ttl'' (PInt (n - 1)) hdr))"
    "map_of (AList.update ''ttl'' (PInt (n - 1)) hdr) = (map_of hdr)(''ttl'' \<mapsto> PInt (n - 1))"
    by (simp_all add: update_conv')
  with assms show ?thesis unfolding forwarded_def decodes_by_name_def by simp
qed

section \<open>Properties\<close>

text \<open>The text that the relay's \<^verbatim>\<open>json.dumps\<close> puts on the wire.\<close>

definition relay_text :: "pyval \<Rightarrow> string" where
  "relay_text doc = enc_raw (plain_opts False) doc"

lemma relay_text_reads: "json_val doc \<Longrightarrow> json_loads (relay_text doc) = Some doc"
  unfolding relay_text_def by (rule loads_enc_raw) simp_all

lemma adns_forwarded:
  assumes "json_val (PDict dd)" "map_of dd ''header'' = Some (PDict hdr)" "map_of dd ''type'' = None"
  shows "process_adns_message P user env c (relay_text (forwarded dd hdr (PInt n))) m =
    (case dec_envelope P (forwarded dd hdr (PInt n)) of None \<Rightarrow> (m, []) | Some e \<Rightarrow> process_envelope P user env c e m)"
proof -
  have "json_loads (relay_text (forwarded dd hdr (PInt n))) = Some (forwarded dd hdr (PInt n))"
    by (rule relay_text_reads [OF json_val_forwarded [OF assms(1,2)]])
  with assms(3) show ?thesis
    by (simp add: process_adns_message_def process_inbound_def forwarded_def dict_simps Let_def)
qed


text \<open>C38: The relay takes a forwarded document as it is, so any registered agent can send another one a document that
  passes for a challenge of the relay itself: the node signs the text that the agent chose, and answers the relay.\<close>

theorem relayed_challenge_is_signed:
  assumes "map_of dd ''header'' = Some (PDict hdr)" "map_of hdr ''sender_id'' = Some sid"
    and "map_of hdr ''intent'' \<noteq> Some (PStr ''Challenge_Response'')" "truthy sid" "hashable sid"
    and "map_of (registry r) sid = Some info" "reg_ws info = ws"
    and "map_of hdr ''receiver_id'' = Some target" "target \<noteq> PStr BROADCAST_ID" "truthy target" "hashable target"
    and "target \<noteq> sid" "map_of (registry r) target = Some tinfo" "send_result renv (reg_ws tinfo) = SendOk"
    and "map_of hdr ''ttl'' = Some (PInt n)" "1 \<le> n" "json_val (PDict dd)"
    and "map_of dd ''type'' = Some (PStr ''ADNS_CHALLENGE'')" "map_of dd ''nonce'' = Some (PStr k)" "doc_send_ok env c"
  shows "\<exists>doc. process_message ed renv ws (PDict dd) r = (r, [SendTo (reg_ws tinfo) doc]) \<and>
    process_adns_message P user env c (relay_text doc) m = (m, [SentDocument c (challenge_response_doc P m k)])"
proof -
  have "json_loads (relay_text (forwarded dd hdr (PInt n))) = Some (forwarded dd hdr (PInt n))"
    by (rule relay_text_reads [OF json_val_forwarded [OF assms(17,1)]])
  with assms(18-20) have "process_adns_message P user env c (relay_text (forwarded dd hdr (PInt n))) m =
      (m, [SentDocument c (challenge_response_doc P m k)])"
    by (simp add: process_adns_message_def forwarded_def dict_simps Let_def)
  with relay_forwards [OF assms(1-15)] assms(16) show ?thesis by simp
qed

section \<open>Examples\<close>

text \<open>A decoder that reads the TTL.\<close>

definition ttl_platform :: platform where
  "ttl_platform = demo_platform\<lparr>dec_envelope := (\<lambda>v. case v of
     PDict d \<Rightarrow> (case map_of d ''header'' of
         Some (PDict h) \<Rightarrow> (case map_of h ''ttl'' of
             Some (PInt i) \<Rightarrow> Some (with_ttl i (demo_envelope 5 STATE_SYNC (TextP (text_of [])) None))
           | _ \<Rightarrow> None)
       | _ \<Rightarrow> None)
   | _ \<Rightarrow> None)\<rparr>"

lemma ttl_platform_by_name: "decodes_by_name ttl_platform"
  unfolding decodes_by_name_def ttl_platform_def
  by (auto simp: with_ttl_def split: option.splits pyval.splits)

definition relayed_doc :: "(string, pyval) dict" where
  "relayed_doc = [(''header'', PDict [(''sender_id'', PStr ''a''), (''receiver_id'', PStr ''b''), (''ttl'', PInt 30)])]"

lemma victim_relay_simps:
  "map_of (registry victim_relay) (PStr ''a'') = Some \<lparr>reg_ws = 1, reg_public_key = ''victim key''\<rparr>"
  "map_of (registry victim_relay) (PStr ''b'') = Some \<lparr>reg_ws = 2, reg_public_key = ''other key''\<rparr>"
  by (simp_all add: victim_relay_def)


theorem relayed_challenge_is_signed_witness:
  "\<exists>doc. process_message plain_ed demo_env 1 (PDict (relayed_doc @ [(''type'', PStr ''ADNS_CHALLENGE''), (''nonce'', PStr ''pay 9'')]))
      victim_relay = (victim_relay, [SendTo 2 doc]) \<and>
    process_adns_message demo_platform no_user (at_time 0) 3 (relay_text doc) demo_node =
    (demo_node, [SentDocument 3 (challenge_response_doc demo_platform demo_node ''pay 9'')])"
proof -
  let ?hdr = "[(''sender_id'', PStr ''a''), (''receiver_id'', PStr ''b''), (''ttl'', PInt 30)]"
    and ?d = "relayed_doc @ [(''type'', PStr ''ADNS_CHALLENGE''), (''nonce'', PStr ''pay 9'')]"
  have d: "map_of ?d ''header'' = Some (PDict ?hdr)" "json_val (PDict ?d)"
    "map_of ?d ''type'' = Some (PStr ''ADNS_CHALLENGE'')" "map_of ?d ''nonce'' = Some (PStr ''pay 9'')"
    by (simp_all add: relayed_doc_def dict_wf_def)
  show ?thesis
    using relayed_challenge_is_signed [OF d(1) _ _ _ _ victim_relay_simps(1) _ _ _ _ _ _ victim_relay_simps(2) _ _ _ d(2-4),
        of 1 demo_env 30 "at_time 0" 3 plain_ed demo_platform no_user demo_node]
    by (simp add: BROADCAST_ID_def)
qed

end
