(* ===== verification/Cli.thy ===== *)
theory Cli
  imports NodeOutbound PyStr
begin

text \<open>
  The command line (\<^verbatim>\<open>tpcp/cli/commands/\<close>): \<^verbatim>\<open>keygen\<close>, \<^verbatim>\<open>inspect\<close>, \<^verbatim>\<open>send\<close>, \<^verbatim>\<open>ping\<close> and \<^verbatim>\<open>listen\<close>, as the
  functions that click calls with the parsed arguments. A command gives the lines it prints and how it
  ends. Outside are click, the clock, what Pydantic prints of a model, and the network. A dash that the
  model's characters do not have is written as a hyphen.
\<close>

section \<open>Lines and endings\<close>

datatype cli_line = Echo string | EchoErr string

datatype cli_end = Finished | ExitStatus int | Uncaught py_exn

record cli_lib =
  show_time :: "int \<Rightarrow> string"
  payload_json :: "payload \<Rightarrow> string"
  refusal :: "string \<Rightarrow> string"  \<comment> \<open>the message of the exception for a text that is no envelope\<close>

text \<open>\<^verbatim>\<open>json.dumps(d, indent=2)\<close> of a flat dictionary of strings.\<close>

definition dumps_indent2 :: "(string \<times> string) list \<Rightarrow> string" where
  "dumps_indent2 d =
     (if d = [] then ''{}''
      else ''{'' @ [CHR 0x0A] @ ''  '' @
        join ('','' @ [CHR 0x0A] @ ''  '') (map (\<lambda>(k, v). quote True k @ '': '' @ quote True v) d) @ [CHR 0x0A] @ ''}'')"

section \<open>keygen\<close>

definition keygen ::
  "ed25519 \<Rightarrow> string option \<Rightarrow> bytes \<Rightarrow> uuid \<Rightarrow> string \<Rightarrow> string option \<Rightarrow> filesystem \<Rightarrow>
   filesystem \<times> cli_line list \<times> cli_end" where
  "keygen ed env_key fresh u fw output fs =
     (case new_manager ed env_key fresh None None False fs of
        (fs, Inl e) \<Rightarrow> (fs, [], Uncaught e)
      | (fs, Inr mgr) \<Rightarrow>
          (let doc = dumps_indent2
                 [(''agent_id'', uuid_str u), (''framework'', fw), (''public_key'', get_public_key_string mgr),
                  (''private_key_b64'', b64encode (get_private_key_bytes mgr))]
           in if output \<noteq> None \<and> output \<noteq> Some []
              then (AList.update (the output) doc fs, [Echo (''Identity saved to '' @ the output)], Finished)
              else (fs, [Echo doc], Finished)))"

section \<open>inspect\<close>

definition inspect_lines :: "cli_lib \<Rightarrow> envelope \<Rightarrow> cli_line list" where
  "inspect_lines L e =
     [Echo (''Intent:    '' @ str_intent (intent (header e))),
      Echo (''Sender:    '' @ uuid_str (sender_id (header e))),
      Echo (''Receiver:  '' @ uuid_str (receiver_id (header e))),
      Echo (''Msg ID:    '' @ uuid_str (message_id (header e))),
      Echo (''Protocol:  '' @ protocol_version (header e)),
      Echo (''Timestamp: '' @ show_time L (msg_timestamp (header e))),
      Echo (''Signed:    '' @ (if signature e \<noteq> None \<and> signature e \<noteq> Some [] then ''yes'' else ''no'')),
      Echo (''Payload:   '' @ payload_json L (payload e))]"

definition inspect :: "platform \<Rightarrow> cli_lib \<Rightarrow> string \<Rightarrow> cli_line list \<times> cli_end" where
  "inspect P L text =
     (case Option.bind (json_loads text) (dec_envelope P) of
        None \<Rightarrow> ([EchoErr (''Error: '' @ refusal L text)], ExitStatus 1)
      | Some e \<Rightarrow> (inspect_lines L e, Finished))"

section \<open>The node of a command\<close>

text \<open>The attributes of a \<^verbatim>\<open>TPCPNode\<close>: those that its constructor sets and the methods of the class (what every
  Python object has is left out). Any other name raises an \<^verbatim>\<open>AttributeError\<close>.\<close>

definition node_attributes :: "string list" where
  "node_attributes =
     [''identity'', ''host'', ''port'', ''adns_url'', ''ssl_context'', ''auto_ack'', ''acl_policy'', ''_adns_ws'',
      ''_adns_registered'', ''identity_manager'', ''peer_registry'', ''_peer_connections'', ''shared_memory'',
      ''vector_bank'', ''message_queue'', ''_seen_messages'', ''_pending_acks'', ''handlers'', ''_server'', ''_running'',
      ''__aenter__'', ''__aexit__'', ''register_handler'', ''register_peer'', ''remove_peer'', ''create_adapter'', ''start_listening'',
      ''_connect_to_adns'', ''_process_adns_message'', ''stop_listening'', ''_handle_connection'',
      ''_process_inbound'', ''_handle_handshake'', ''_handle_state_sync'', ''_handle_vector_sync'', ''_handle_ack'',
      ''_handle_nack'', ''_create_header'', ''_create_ack_envelope'', ''_create_nack_envelope'', ''send_message'',
      ''send_broadcast'', ''send_multicast'', ''_get_peer_connection'', ''_dispatch_envelope'',
      ''_reconnect_and_drain'', ''broadcast_discovery'']"

definition node_attribute :: "string \<Rightarrow> 'a \<Rightarrow> py_exn + 'a" where
  "node_attribute name x =
     (if name \<in> set node_attributes then Inr x
      else Inl (AttributeError (repr_str ''TPCPNode'' @ '' object has no attribute '' @ repr_str name)))"

text \<open>What \<^verbatim>\<open>node.connect_to_peer(url)\<close>, if there were such a method, would do to the node within the timeout.\<close>

type_synonym connector = "string \<Rightarrow> node \<Rightarrow> py_exn + node"

text \<open>The common part of \<^verbatim>\<open>send\<close> and \<^verbatim>\<open>ping\<close>: connect, then a message to the first registered peer. \<^verbatim>\<open>Inl\<close> is the
  exception that ends the \<^verbatim>\<open>try\<close> block, with the lines and effects up to it.\<close>

definition connect_to_peer :: "connector \<Rightarrow> string \<Rightarrow> node \<Rightarrow> py_exn + node" where
  "connect_to_peer conn url n =
     (case node_attribute ''connect_to_peer'' (conn url) of Inl e \<Rightarrow> Inl e | Inr f \<Rightarrow> f n)"

section \<open>send\<close>

definition doc_field :: "pyval \<Rightarrow> string \<Rightarrow> py_exn + pyval" where
  "doc_field d k =
     (case d of
        PDict kvs \<Rightarrow> (case map_of kvs k of None \<Rightarrow> Inl (KeyError k) | Some v \<Rightarrow> Inr v)
      | _ \<Rightarrow> Inl (TypeError ''indices must be integers''))"

fun key_argument :: "pyval \<Rightarrow> py_exn + bytes" where
  "key_argument (PStr s) =
     (case b64decode False s of None \<Rightarrow> Inl (ValueError ''Incorrect padding'') | Some raw \<Rightarrow> Inr raw)"
| "key_argument _ = Inl (TypeError ''argument should be a bytes-like object or ASCII string'')"

text \<open>The manager and identity from an identity file.\<close>

definition load_identity ::
  "platform \<Rightarrow> string option \<Rightarrow> bytes \<Rightarrow> filesystem \<Rightarrow> string \<Rightarrow> py_exn + identity_manager \<times> agent_identity" where
  "load_identity P env_key fresh fs text =
     (case json_loads text of
        None \<Rightarrow> Inl (ValueError ''Expecting value'')
      | Some data \<Rightarrow>
          (case doc_field data ''private_key_b64'' of Inl e \<Rightarrow> Inl e
           | Inr k \<Rightarrow> (case key_argument k of Inl e \<Rightarrow> Inl e
           | Inr raw \<Rightarrow> (case snd (new_manager (ed_prims P) env_key fresh (Some raw) None False fs) of Inl e \<Rightarrow> Inl e
           | Inr mgr \<Rightarrow> (case doc_field data ''agent_id'' of Inl e \<Rightarrow> Inl e
           | Inr u \<Rightarrow>
               (let fw = (case doc_field data ''framework'' of Inl _ \<Rightarrow> PStr ''cli-agent'' | Inr v \<Rightarrow> v)
                in case doc_field data ''public_key'' of Inl e \<Rightarrow> Inl e
                 | Inr pk \<Rightarrow>
                     (case dec_identity P (PDict [(''agent_id'', u), (''framework'', fw), (''public_key'', pk)]) of
                        None \<Rightarrow> Inl (ValidationError ''AgentIdentity'')
                      | Some ident \<Rightarrow> Inr (mgr, ident))))))))"

definition send_command ::
  "platform \<Rightarrow> nenv \<Rightarrow> connector \<Rightarrow> string option \<Rightarrow> bytes \<Rightarrow> uuid \<Rightarrow> filesystem \<Rightarrow> string \<Rightarrow> string \<Rightarrow> string \<Rightarrow> string option \<Rightarrow>
   node_out list \<times> cli_line list \<times> cli_end" where
  "send_command P env conn env_key fresh u fs url i msg file =
     (let own = (case file of
            Some path \<Rightarrow>
              (case map_of fs path of
                 None \<Rightarrow> Inr None
               | Some text \<Rightarrow> map_sum id Some (load_identity P env_key fresh fs text))
          | None \<Rightarrow>
              (case snd (new_manager (ed_prims P) env_key fresh None None False fs) of
                 Inl e \<Rightarrow> Inl e
               | Inr mgr \<Rightarrow> Inr (Some (mgr, mk_identity u ''cli-agent'' (get_public_key_string mgr)))))
      in case own of
           Inl e \<Rightarrow> ([], [], Uncaught e)
         | Inr None \<Rightarrow> ([], [], ExitStatus 2)
         | Inr (Some (mgr, ident)) \<Rightarrow>
             (let n = new_node ident ''127.0.0.1'' 8000 None mgr False None
              in case filter (\<lambda>j. intent_value j = i) all_intents of
                   [] \<Rightarrow> ([], [EchoErr (''Unknown intent '' @ [CHR 0x27] @ i @ [CHR 0x27] @ ''. Valid: '' @
                        py_repr (PList (map (\<lambda>j. PStr (intent_value j)) all_intents)))], Finished)
                 | it # _ \<Rightarrow>
                     (case connect_to_peer conn url n of
                        Inl e \<Rightarrow> (snd (stop_listening n), [EchoErr (''Error: '' @ str_exn e)], Finished)
                      | Inr n \<Rightarrow>
                          (case peer_registry n of
                             [] \<Rightarrow> (snd (stop_listening n),
                               [EchoErr (''Error: connected to '' @ url @ '' but no peer registered'')], Finished)
                           | (p, _) # _ \<Rightarrow>
                               (case send_message P env 0 p it (TextP (text_of msg)) False None n of
                                  (n, outs, Inl e) \<Rightarrow>
                                    (outs @ snd (stop_listening n), [EchoErr (''Error: '' @ str_exn e)], Finished)
                                | (n, outs, Inr mid) \<Rightarrow>
                                    (outs @ snd (stop_listening n), [Echo (''Sent '' @ i @ '' to '' @ url)], Finished))))))"

section \<open>ping and listen\<close>

fun is_timeout :: "py_exn \<Rightarrow> bool" where
  "is_timeout (TimeoutError m) = True"
| "is_timeout _ = False"

definition ping ::
  "platform \<Rightarrow> nenv \<Rightarrow> connector \<Rightarrow> string option \<Rightarrow> bytes \<Rightarrow> uuid \<Rightarrow> filesystem \<Rightarrow> string \<Rightarrow>
   node_out list \<times> cli_line list \<times> cli_end" where
  "ping P env conn env_key fresh u fs url =
     (case snd (new_manager (ed_prims P) env_key fresh None None False fs) of
        Inl e \<Rightarrow> ([], [], Uncaught e)
      | Inr mgr \<Rightarrow>
          (let n = new_node (mk_identity u ''cli-ping'' (get_public_key_string mgr)) ''127.0.0.1'' 8000 None mgr False None;
               hello = Echo (''Pinging '' @ url @ ''...'');
               failed = (\<lambda>e. if is_timeout e then EchoErr ''Timeout - no response'' else EchoErr (''Error: '' @ str_exn e))
           in case connect_to_peer conn url n of
                Inl e \<Rightarrow> (snd (stop_listening n), [hello, failed e], Finished)
              | Inr n \<Rightarrow>
                  (case peer_registry n of
                     [] \<Rightarrow> (snd (stop_listening n), [hello, Echo ''Connected.''], Finished)
                   | (p, _) # _ \<Rightarrow>
                       (case send_message P env 0 p HANDSHAKE (TextP (text_of ''ping'')) False None n of
                          (n, outs, Inl e) \<Rightarrow> (outs @ snd (stop_listening n), [hello, Echo ''Connected.'', failed e], Finished)
                        | (n, outs, Inr mid) \<Rightarrow>
                            (outs @ snd (stop_listening n), [hello, Echo ''Connected.'', Echo ''HANDSHAKE sent.''], Finished)))))"

text \<open>\<^verbatim>\<open>print_handler\<close> takes the envelope only; a node calls a handler with the envelope and the connection.\<close>

definition print_handler :: user_handlers where
  "print_handler k env e ws n =
     (n, [], Some (TypeError
        ''listen.<locals>._listen.<locals>.print_handler() takes 1 positional argument but 2 were given''))"

definition listen_node :: "identity_manager \<Rightarrow> uuid \<Rightarrow> string \<Rightarrow> int \<Rightarrow> node" where
  "listen_node mgr u host port =
     fold (\<lambda>i. register_handler i (UserHandler 0)) all_intents
       (new_node (mk_identity u ''cli-listener'' (get_public_key_string mgr)) host port None mgr False None)"

definition listen_command ::
  "platform \<Rightarrow> string option \<Rightarrow> bytes \<Rightarrow> uuid \<Rightarrow> filesystem \<Rightarrow> int \<Rightarrow> string \<Rightarrow>
   node option \<times> node_out list \<times> cli_line list \<times> cli_end" where
  "listen_command P env_key fresh u fs port host =
     (case snd (new_manager (ed_prims P) env_key fresh None None False fs) of
        Inl e \<Rightarrow> (None, [], [], Uncaught e)
      | Inr mgr \<Rightarrow>
          (let hello = Echo (''Listening on '' @ host @ '':'' @ show_int port @ '' - press Ctrl+C to stop'');
               (n, exc) = start_listening [] (listen_node mgr u host port);
               (n, outs) = stop_listening n
           in (Some n, outs, [hello], (case exc of None \<Rightarrow> Finished | Some e \<Rightarrow> Uncaught e))))"

section \<open>Reading an indented document\<close>

lemma indent_member:
  "parse_member (parse_val (Suc g)) (quote True k @ '': '' @ quote True v @ r) = Some ((k, PStr v), r)"
  by (simp add: parse_member_def quote_def parse_quoted skip_ws_def)

lemma indent_members:
  assumes "d \<noteq> []" "length d \<le> n"
  shows "parse_seq n (parse_member (parse_val (Suc g))) (CHR ''}'')
      (join ('','' @ [CHR 0x0A] @ ''  '') (map (\<lambda>(k, v). quote True k @ '': '' @ quote True v) d) @ [CHR 0x0A, CHR ''}'']) =
    Some (map (map_prod id PStr) d, [])"
  using assms
proof (induction d arbitrary: n)
  case (Cons x d)
  obtain k v where x: "x = (k, v)" by (cases x)
  from Cons.prems(2) obtain m where n: "n = Suc m" "length d \<le> m" by (cases n) auto
  have nl: "skip_ws (CHR 0x0A # s) = skip_ws s" for s by (simp add: skip_ws_def is_ws_def)
  show ?case
  proof (cases d)
    case Nil
    with x n indent_member [of g k v "[CHR 0x0A, CHR ''}'']"] show ?thesis by (simp add: nl del: parse_val.simps)
  next
    case (Cons y ys)
    let ?rest = "join ('','' @ [CHR 0x0A] @ ''  '') (map (\<lambda>(k, v). quote True k @ '': '' @ quote True v) d) @ [CHR 0x0A, CHR ''}'']"
    have hd: "?rest \<noteq> [] \<and> hd ?rest = CHR 0x22" using Cons by (cases ys) (auto simp: quote_def split: prod.splits)
    then have "skip_ws (CHR '' '' # CHR '' '' # ?rest) = ?rest" by (cases ?rest) (auto simp: skip_ws_def)
    with Cons.IH [of m] n Cons indent_member [of g k v "CHR '','' # CHR 0x0A # CHR '' '' # CHR '' '' # ?rest"]
    show ?thesis by (simp add: x nl del: parse_val.simps)
  qed
qed simp

lemma loads_indent2:
  assumes "d \<noteq> []" "dict_wf d"
  shows "json_loads (dumps_indent2 d) = Some (PDict (map (map_prod id PStr) d))"
proof -
  define J where "J = join ('','' @ [CHR 0x0A] @ ''  '') (map (\<lambda>(k, v). quote True k @ '': '' @ quote True v) d) @ [CHR 0x0A, CHR ''}'']"
  let ?t = "CHR 0x0A # CHR '' '' # CHR '' '' # J"
  obtain c cs where j: "J = c # cs" "c = CHR 0x22"
    using assms(1) by (cases d; cases "tl d") (auto simp: J_def quote_def split: prod.splits)
  have "length d \<le> length J"
    using join_length [of d "\<lambda>(k, v). quote True k @ '': '' @ quote True v" "'','' @ [CHR 0x0A] @ ''  ''"]
    by (auto simp: quote_def J_def)
  then have "parse_seq (length (CHR ''{'' # ?t)) (parse_member (parse_val (Suc g))) (CHR ''}'') J = Some (map (map_prod id PStr) d, [])" for g
    unfolding J_def by (intro indent_members assms(1)) simp
  moreover have "dict_wf (map (map_prod id PStr) d)" using assms(2) by (simp add: dict_wf_def comp_def)
  moreover have "skip_ws ?t = J" unfolding j by (simp add: skip_ws_def is_ws_def)
  ultimately have "parse_val (Suc (Suc g)) (CHR ''{'' # ?t) = Some (PDict (map (map_prod id PStr) d), [])" for g
    by (subst parse_val.simps(2)) (simp add: j dict_of_id del: parse_val.simps parse_seq.simps)
  moreover have "dumps_indent2 d = CHR ''{'' # ?t" using assms(1) by (simp add: dumps_indent2_def J_def)
  moreover have "\<exists>g. length (CHR ''{'' # ?t) = Suc g" by simp
  ultimately show ?thesis
    by (simp add: json_loads_def skip_ws_def is_ws_def del: parse_val.simps)
qed

section \<open>What the commands rely on\<close>

lemma connect_fails:
  "connect_to_peer conn url n =
     Inl (AttributeError (repr_str ''TPCPNode'' @ '' object has no attribute '' @ repr_str ''connect_to_peer''))"
proof -
  have "''connect_to_peer'' \<notin> set node_attributes" by code_simp
  then show ?thesis by (simp add: connect_to_peer_def node_attribute_def)
qed

lemma fresh_node_stops: "snd (stop_listening (new_node i h p u m a acl)) = []"
  by (simp add: stop_listening_def new_node_def register_handler_def)

lemma explicit_key_manager:
  assumes "ed_correct ed" "length sk = 32"
  shows "snd (new_manager ed env_key fresh (Some sk) None False fs) =
    Inr \<lparr>im_key_path = DEFAULT_KEY_FILE, was_loaded = True, private_key = sk, im_public_key = ed_public ed sk\<rparr>"
  using assms by (simp add: new_manager_def from_private_bytes_def Let_def ed_correct_def)

lemma new_manager_keeps_files: "fst (new_manager ed env_key fresh b kp False fs) = fs"
  by (auto simp: new_manager_def Let_def split: sum.splits prod.splits)

section \<open>Properties\<close>

definition no_method :: string where
  "no_method = str_exn (AttributeError (repr_str ''TPCPNode'' @ '' object has no attribute '' @ repr_str ''connect_to_peer''))"

lemma send_outcomes:
  "send_command P env conn env_key fresh u fs url i msg file \<in>
     {([], [], ExitStatus 2), ([], [EchoErr (''Error: '' @ no_method)], Finished)} \<union>
     range (\<lambda>e. ([], [], Uncaught e)) \<union> range (\<lambda>t. ([], [EchoErr t], Finished))"
proof -
  define own where "own = (case file of
      Some path \<Rightarrow> (case map_of fs path of None \<Rightarrow> Inr None | Some text \<Rightarrow> map_sum id Some (load_identity P env_key fresh fs text))
    | None \<Rightarrow> (case snd (new_manager (ed_prims P) env_key fresh None None False fs) of
        Inl e \<Rightarrow> Inl e | Inr mgr \<Rightarrow> Inr (Some (mgr, mk_identity u ''cli-agent'' (get_public_key_string mgr)))))"
  show ?thesis
    unfolding send_command_def own_def [symmetric] connect_fails Let_def fresh_node_stops no_method_def
    by (auto split: sum.split option.split list.split prod.split)
qed

lemma known_intent: "\<exists>j js. filter (\<lambda>j. intent_value j = intent_value it) all_intents = j # js"
  by (cases it) (simp_all add: all_intents_def)

lemma send_known:
  assumes "snd (new_manager (ed_prims P) env_key fresh None None False fs) = Inr mgr"
  shows "send_command P env conn env_key fresh u fs url (intent_value it) msg None =
    ([], [EchoErr (''Error: '' @ no_method)], Finished)"
proof -
  from known_intent obtain j js where "filter (\<lambda>j. intent_value j = intent_value it) all_intents = j # js" by blast
  with assms show ?thesis
    by (simp add: send_command_def connect_fails fresh_node_stops no_method_def)
qed

lemma ping_outcome:
  "ping P env conn env_key fresh u fs url =
     (case snd (new_manager (ed_prims P) env_key fresh None None False fs) of
        Inl e \<Rightarrow> ([], [], Uncaught e)
      | Inr mgr \<Rightarrow> ([], [Echo (''Pinging '' @ url @ ''...''), EchoErr (''Error: '' @ no_method)], Finished))"
  by (simp add: ping_def connect_fails fresh_node_stops no_method_def split: sum.split)

text \<open>\<^verbatim>\<open>tpcp send\<close> and \<^verbatim>\<open>tpcp ping\<close> cannot send anything: both call a method that the node does not have.
  With a usable key, a known intent and no identity file, \<^verbatim>\<open>send\<close> prints the message of the \<^verbatim>\<open>AttributeError\<close> as
  its only line, \<^verbatim>\<open>ping\<close> prints it after the line that announces the ping, neither puts anything on the wire,
  whatever the target and the network are, and both commands end with the status of success.\<close>

theorem send_and_ping_never_send:
  assumes "snd (new_manager (ed_prims P) env_key fresh None None False fs) = Inr mgr"
  shows "send_command P env conn env_key fresh u fs url (intent_value it) msg None =
      ([], [EchoErr (''Error: '' @ no_method)], Finished) \<and>
    ping P env conn env_key fresh u fs url =
      ([], [Echo (''Pinging '' @ url @ ''...''), EchoErr (''Error: '' @ no_method)], Finished)"
  using send_known [OF assms] by (simp add: ping_outcome assms)

definition fresh_manager :: identity_manager where
  "fresh_manager = \<lparr>im_key_path = DEFAULT_KEY_FILE, was_loaded = False, private_key = replicate 32 7, im_public_key = replicate 32 7\<rparr>"

lemma demo_key: "snd (new_manager (ed_prims demo_platform) None (replicate 32 7) None None False []) = Inr fresh_manager"
  by (simp add: new_manager_def plain_ed_def fresh_manager_def)

theorem send_and_ping_never_send_witness:
  "send_command demo_platform (at_time 0) (\<lambda>url n. Inr (register_peer demo_peer url n)) None (replicate 32 7) 5 [] ''ws://h''
     (intent_value TASK_REQUEST) ''hi'' None = ([], [EchoErr (''Error: '' @ no_method)], Finished) \<and>
   ping demo_platform (at_time 0) (\<lambda>url n. Inr (register_peer demo_peer url n)) None (replicate 32 7) 5 [] ''ws://h'' =
     ([], [Echo (''Pinging '' @ ''ws://h'' @ ''...''), EchoErr (''Error: '' @ no_method)], Finished)"
  by (rule send_and_ping_never_send [OF demo_key])

text \<open>The documented spellings of the intents (\<^verbatim>\<open>TASK_REQUEST\<close>, \<^verbatim>\<open>STATE_SYNC\<close>) are unknown to \<^verbatim>\<open>send\<close>, which looks
  up values, not names.\<close>

lemma documented_intents_unknown:
  "filter (\<lambda>j. intent_value j = ''TASK_REQUEST'') all_intents = [] \<and> filter (\<lambda>j. intent_value j = ''STATE_SYNC'') all_intents = []"
  by (simp add: all_intents_def)

section \<open>The identity file\<close>

definition identity_doc :: "uuid \<Rightarrow> string \<Rightarrow> identity_manager \<Rightarrow> (string \<times> string) list" where
  "identity_doc u fw mgr =
     [(''agent_id'', uuid_str u), (''framework'', fw), (''public_key'', get_public_key_string mgr),
      (''private_key_b64'', b64encode (get_private_key_bytes mgr))]"

lemma keygen_to_file:
  assumes "snd (new_manager ed env_key fresh None None False fs) = Inr mgr" "c \<noteq> []"
  shows "keygen ed env_key fresh u fw (Some c) fs =
    (AList.update c (dumps_indent2 (identity_doc u fw mgr)) fs, [Echo (''Identity saved to '' @ c)], Finished)"
proof -
  have "new_manager ed env_key fresh None None False fs = (fs, Inr mgr)"
    using assms(1) new_manager_keeps_files [of ed env_key fresh None None fs] by (metis prod.collapse)
  with assms(2) show ?thesis by (simp add: keygen_def identity_doc_def)
qed

lemma load_identity_doc: "json_loads (dumps_indent2 (identity_doc u fw mgr)) = Some (PDict (map (map_prod id PStr) (identity_doc u fw mgr)))"
  by (rule loads_indent2) (simp_all add: identity_doc_def dict_wf_def)

lemma load_written_identity:
  assumes "ed_correct (ed_prims P)" "length (private_key mgr) = 32" "im_public_key mgr = ed_public (ed_prims P) (private_key mgr)"
    and "dec_identity P (PDict [(''agent_id'', PStr (uuid_str u)), (''framework'', PStr fw),
      (''public_key'', PStr (get_public_key_string mgr))]) = Some ident"
  shows "load_identity P env_key fresh fs (dumps_indent2 (identity_doc u fw mgr)) =
    Inr (mgr\<lparr>im_key_path := DEFAULT_KEY_FILE, was_loaded := True\<rparr>, ident)"
proof -
  have f: "doc_field (PDict (map (map_prod id PStr) (identity_doc u fw mgr))) ''private_key_b64'' = Inr (PStr (b64encode (private_key mgr)))"
    "doc_field (PDict (map (map_prod id PStr) (identity_doc u fw mgr))) ''agent_id'' = Inr (PStr (uuid_str u))"
    "doc_field (PDict (map (map_prod id PStr) (identity_doc u fw mgr))) ''framework'' = Inr (PStr fw)"
    "doc_field (PDict (map (map_prod id PStr) (identity_doc u fw mgr))) ''public_key'' = Inr (PStr (get_public_key_string mgr))"
    by (simp_all add: doc_field_def identity_doc_def get_private_key_bytes_def)
  have k: "key_argument (PStr (b64encode (private_key mgr))) = Inr (private_key mgr)" by (simp add: b64decode_encode)
  show ?thesis
    unfolding load_identity_def load_identity_doc option.case f sum.case k
      explicit_key_manager [OF assms(1,2)] Let_def assms(4)
    using assms(3) by simp
qed

text \<open>C23: The identity file that \<^verbatim>\<open>tpcp keygen --output\<close> writes is read back by \<^verbatim>\<open>tpcp send --identity\<close>: the same
  private and public key and the same agent id, whatever key the environment or the key file of the second
  command offers.\<close>

theorem keygen_identity_roundtrip:
  assumes "ed_correct (ed_prims P)" "length fresh = 32" "c \<noteq> []"
    and "snd (new_manager (ed_prims P) env_key fresh None None False fs) = Inr mgr"
    and "\<And>pk. dec_identity P (PDict [(''agent_id'', PStr (uuid_str u)), (''framework'', PStr fw), (''public_key'', PStr pk)]) =
      Some (mk_identity u fw pk)"
  shows "\<exists>text. map_of (fst (keygen (ed_prims P) env_key fresh u fw (Some c) fs)) c = Some text \<and>
    load_identity P env_key2 fresh2 fs2 text =
      Inr (mgr\<lparr>im_key_path := DEFAULT_KEY_FILE, was_loaded := True\<rparr>, mk_identity u fw (get_public_key_string mgr))"
proof -
  have "new_manager (ed_prims P) env_key fresh None None False fs = (fs, Inr mgr)"
    using assms(4) new_manager_keeps_files [of "ed_prims P" env_key fresh None None fs] by (metis prod.collapse)
  then have "manager_wf (ed_prims P) mgr" using new_manager_wf assms(2) by metis
  then show ?thesis
    using load_written_identity [OF assms(1) _ _ assms(5)] keygen_to_file [OF assms(4,3)]
    by (simp add: manager_wf_def dict_simps)
qed

text \<open>A platform that decodes the identities of agent 5.\<close>

definition cli_platform :: platform where
  "cli_platform = demo_platform\<lparr>dec_identity := (\<lambda>v. case v of
     PDict [(_, PStr i), (_, PStr f), (_, PStr k)] \<Rightarrow> (if i = uuid_str 5 then Some (mk_identity 5 f k) else None) | _ \<Rightarrow> None)\<rparr>"

theorem keygen_identity_roundtrip_witness:
  "\<exists>text mgr. map_of (fst (keygen plain_ed None (replicate 32 7) 5 ''cli-agent'' (Some ''id.json'') [])) ''id.json'' = Some text \<and>
     load_identity cli_platform (Some ''AAAA'') [] [] text = Inr (mgr, mk_identity 5 ''cli-agent'' (get_public_key_string mgr)) \<and>
     private_key mgr = replicate 32 7"
proof -
  have m: "snd (new_manager (ed_prims cli_platform) None (replicate 32 7) None None False []) =
    Inr \<lparr>im_key_path = DEFAULT_KEY_FILE, was_loaded = False, private_key = replicate 32 7, im_public_key = replicate 32 7\<rparr>"
    by (simp add: new_manager_def plain_ed_def cli_platform_def)
  have "ed_correct (ed_prims cli_platform)" using plain_ed_laws by (simp add: cli_platform_def)
  from keygen_identity_roundtrip [OF this _ _ m, of "''id.json''" 5 "''cli-agent''" "Some ''AAAA''" "[]" "[]"]
  show ?thesis by (auto simp: cli_platform_def get_public_key_string_def)
qed

text \<open>\<^verbatim>\<open>tpcp keygen\<close> does not always make a new key: with a key in the environment it prints that one.\<close>

lemma keygen_reuses_environment_key:
  assumes "ed_correct ed" "length sk = 32"
  shows "\<exists>mgr. private_key mgr = sk \<and> keygen ed (Some (b64encode sk)) fresh u fw None fs =
    (fs, [Echo (dumps_indent2 (identity_doc u fw mgr))], Finished)"
proof -
  have "b64encode sk \<noteq> []" using assms(2) by (cases sk rule: b64encode.cases) auto
  then have "new_manager ed (Some (b64encode sk)) fresh None None False fs =
    (fs, Inr \<lparr>im_key_path = DEFAULT_KEY_FILE, was_loaded = True, private_key = sk, im_public_key = ed_public ed sk\<rparr>)"
    using assms by (simp add: new_manager_def decode_key_def from_private_bytes_def b64decode_encode ed_correct_def)
  then show ?thesis by (auto simp: keygen_def identity_doc_def intro: exI [where x = "\<lparr>im_key_path = DEFAULT_KEY_FILE, was_loaded = True, private_key = sk, im_public_key = ed_public ed sk\<rparr>"])
qed

section \<open>listen\<close>

lemma listen_handlers: "map_of (handlers (listen_node mgr u host port)) i = Some (UserHandler 0)"
  by (cases i) (simp_all add: listen_node_def all_intents_def register_handler_def dict_simps)

lemma fold_register: "fold (\<lambda>i. register_handler i h) is n = n\<lparr>handlers := fold (\<lambda>i. AList.update i h) is (handlers n)\<rparr>"
  by (induction "is" arbitrary: n) (simp_all add: register_handler_def)

lemma listen_node_simps:
  "peer_connections (listen_node mgr u host port) = []" "adns_ws (listen_node mgr u host port) = None"
  "shared_memory (listen_node mgr u host port) = new_lww (uuid_str u) None"
  by (simp_all add: listen_node_def fold_register new_node_def register_handler_def mk_identity_def)

lemma listen_starts:
  "\<exists>m. start_listening [] (listen_node mgr u host port) =
     ((listen_node mgr u host port)\<lparr>shared_memory := m, serving := True, nd_running := True\<rparr>, None)"
  unfolding start_listening_def by (simp add: listen_node_simps lww_connect_def new_lww_def) blast

text \<open>\<^verbatim>\<open>tpcp listen\<close> does not listen: starting the server returns at once and the command stops it again,
  after the line that asks for Ctrl+C. And none of its handlers can be called, so that even while it runs no message changes
  anything but the table of message ids, none is answered and no line is printed.\<close>

theorem listen_never_prints:
  assumes "snd (new_manager (ed_prims P) env_key fresh None None False fs) = Inr mgr"
  shows "(\<exists>n. listen_command P env_key fresh u fs port host =
      (Some n, [], [Echo (''Listening on '' @ host @ '':'' @ show_int port @ '' - press Ctrl+C to stop'')], Finished) \<and>
      \<not> nd_running n \<and> \<not> serving n) \<and>
    (\<exists>seen. process_envelope P print_handler env ws e (listen_node mgr u host port) =
      ((listen_node mgr u host port)\<lparr>seen_messages := seen\<rparr>, []))"
proof
  let ?n = "listen_node mgr u host port"
  obtain m where "start_listening [] ?n = (?n\<lparr>shared_memory := m, serving := True, nd_running := True\<rparr>, None)"
    using listen_starts by blast
  then show "\<exists>n. listen_command P env_key fresh u fs port host =
      (Some n, [], [Echo (''Listening on '' @ host @ '':'' @ show_int port @ '' - press Ctrl+C to stop'')], Finished) \<and>
      \<not> nd_running n \<and> \<not> serving n"
    unfolding listen_command_def assms sum.case Let_def by (simp add: stop_listening_def listen_node_simps)
  show "\<exists>seen. process_envelope P print_handler env ws e ?n = (?n\<lparr>seen_messages := seen\<rparr>, [])"
  proof (cases rule: process_envelope_outcome [of P print_handler env ws e ?n])
    case ignored
    then show ?thesis by blast
  next
    case (handled h m outs exc)
    have "h = UserHandler 0" using handled(5) listen_handlers [of mgr u host port "intent (header e)"] by simp
    with handled(6,7) show ?thesis by (auto simp: run_handler_def print_handler_def noted_def)
  qed
qed

theorem listen_never_prints_witness:
  "(\<exists>n. listen_command demo_platform None (replicate 32 7) 5 [] 80 ''h'' =
       (Some n, [], [Echo (''Listening on '' @ ''h'' @ '':'' @ show_int 80 @ '' - press Ctrl+C to stop'')], Finished) \<and>
     \<not> nd_running n \<and> \<not> serving n) \<and>
   (\<exists>seen. process_envelope demo_platform print_handler (at_time 0) 3 (demo_envelope 5 HANDSHAKE (TextP (text_of ''hi'')) None)
      (listen_node fresh_manager 5 ''h'' 80) = ((listen_node fresh_manager 5 ''h'' 80)\<lparr>seen_messages := seen\<rparr>, []))"
  by (rule listen_never_prints [OF demo_key])

end
