(* ===== verification/Mock.thy ===== *)
theory Mock
  imports NodeInbound PyStr
begin

text \<open>
  The test double \<^verbatim>\<open>MockTPCPNode\<close> (\<^verbatim>\<open>tpcp/testing/mock_node.py\<close>). The nodes of a test refer to one another,
  so they live in a store from references to nodes. A registered handler is a number; what it does, to
  the store and to the test's own variables, is the parameter of the theory, with an optional exception.
  Awaiting a handler's coroutine is part of calling it.
\<close>

section \<open>State\<close>

record mock_node =
  mock_identity :: agent_identity
  mock_handlers :: "(intent, nat list) dict"
  mock_peers :: "(uuid, nat) dict"
  sent :: "envelope list"
  received :: "envelope list"
  undelivered :: "envelope list"  \<comment> \<open>\<^verbatim>\<open>dlq\<close>\<close>

type_synonym 's test_world = "(nat \<Rightarrow> mock_node) \<times> 's"
type_synonym 's test_handlers = "nat \<Rightarrow> envelope \<Rightarrow> 's test_world \<Rightarrow> 's test_world \<times> py_exn option"

definition new_mock :: "uuid \<Rightarrow> string \<Rightarrow> mock_node" where
  "new_mock u fw = \<lparr>mock_identity = mk_identity u fw [], mock_handlers = [], mock_peers = [],
     sent = [], received = [], undelivered = []\<rparr>"

definition mock_id :: "mock_node \<Rightarrow> uuid" where
  "mock_id m = agent_id (mock_identity m)"

section \<open>Operations\<close>

text \<open>The two new nodes are stored under the references \<open>a\<close> and \<open>b\<close>.\<close>

definition connect_pair :: "nat \<Rightarrow> nat \<Rightarrow> uuid \<Rightarrow> uuid \<Rightarrow> string \<Rightarrow> string \<Rightarrow> (nat \<Rightarrow> mock_node) \<Rightarrow> nat \<Rightarrow> mock_node" where
  "connect_pair a b u v type_a type_b M =
     M(a := (new_mock u type_a)\<lparr>mock_peers := [(v, b)]\<rparr>, b := (new_mock v type_b)\<lparr>mock_peers := [(u, a)]\<rparr>)"

definition mock_register :: "intent \<Rightarrow> nat \<Rightarrow> mock_node \<Rightarrow> mock_node" where
  "mock_register i h m =
     (let m = (if map_of (mock_handlers m) i = None then m\<lparr>mock_handlers := AList.update i [] (mock_handlers m)\<rparr> else m)
      in m\<lparr>mock_handlers := AList.update i (the (map_of (mock_handlers m) i) @ [h]) (mock_handlers m)\<rparr>)"

definition handlers_of :: "intent \<Rightarrow> mock_node \<Rightarrow> nat list" where
  "handlers_of i m = (case map_of (mock_handlers m) i of None \<Rightarrow> [] | Some hs \<Rightarrow> hs)"

text \<open>The loop over the handlers: a Python list iterator reads the list as it is at each round, so a handler that
  registers another one extends the loop, and it need not end.\<close>

partial_function (option) call_handlers ::
  "'s test_handlers \<Rightarrow> nat \<Rightarrow> intent \<Rightarrow> envelope \<Rightarrow> nat \<Rightarrow> 's test_world \<Rightarrow> ('s test_world \<times> py_exn option) option" where
  "call_handlers H k i e j w =
     (if j < length (handlers_of i (fst w k))
      then (case H (handlers_of i (fst w k) ! j) e w of
              (w, Some x) \<Rightarrow> Some (w, Some x)
            | (w, None) \<Rightarrow> call_handlers H k i e (Suc j) w)
      else Some (w, None))"

definition mock_receive ::
  "'s test_handlers \<Rightarrow> nat \<Rightarrow> envelope \<Rightarrow> 's test_world \<Rightarrow> ('s test_world \<times> py_exn option) option" where
  "mock_receive H k e w =
     (let i = intent (header e); M = (fst w)(k := (fst w k)\<lparr>received := received (fst w k) @ [e]\<rparr>)
      in if handlers_of i (M k) = []
         then Some ((M(k := (M k)\<lparr>undelivered := undelivered (M k) @ [e]\<rparr>), snd w), None)
         else call_handlers H k i e 0 (M, snd w))"

definition mock_envelope :: "uuid \<Rightarrow> int \<Rightarrow> mock_node \<Rightarrow> uuid \<Rightarrow> intent \<Rightarrow> payload \<Rightarrow> envelope" where
  "mock_envelope mid now m target i pl = mk_envelope \<lparr>message_id = mid, msg_timestamp = now, sender_id = mock_id m,
     receiver_id = target, intent = i, ttl = 30, protocol_version = PROTOCOL_VERSION\<rparr> pl None"

definition mock_send ::
  "'s test_handlers \<Rightarrow> uuid \<Rightarrow> int \<Rightarrow> nat \<Rightarrow> uuid \<Rightarrow> intent \<Rightarrow> payload \<Rightarrow> 's test_world \<Rightarrow>
   ('s test_world \<times> (py_exn + envelope)) option" where
  "mock_send H mid now k target i pl w =
     (let e = mock_envelope mid now (fst w k) target i pl
      in case map_of (mock_peers (fst w k)) target of
           None \<Rightarrow> Some (w, Inl (ValueError (''No peer with id '' @ uuid_str target)))
         | Some p \<Rightarrow>
             (case mock_receive H p e ((fst w)(k := (fst w k)\<lparr>sent := sent (fst w k) @ [e]\<rparr>), snd w) of
                None \<Rightarrow> None
              | Some (w, Some x) \<Rightarrow> Some (w, Inl x)
              | Some (w, None) \<Rightarrow> Some (w, Inr e)))"

definition with_intent :: "intent \<Rightarrow> envelope list \<Rightarrow> envelope list" where
  "with_intent i es = filter (\<lambda>e. intent (header e) = i) es"

text \<open>The assertions give the message of the \<^verbatim>\<open>AssertionError\<close> that they raise.\<close>

definition assert_received :: "intent \<Rightarrow> nat \<Rightarrow> mock_node \<Rightarrow> string option" where
  "assert_received i c m =
     (if length (with_intent i (received m)) = c then None
      else Some (''Expected '' @ show_int (int c) @ '' '' @ str_intent i @ '' messages, got '' @
        show_int (int (length (with_intent i (received m))))))"

definition assert_sent :: "intent \<Rightarrow> nat \<Rightarrow> mock_node \<Rightarrow> string option" where
  "assert_sent i c m =
     (if length (with_intent i (sent m)) = c then None
      else Some (''Expected '' @ show_int (int c) @ '' sent '' @ str_intent i @ '' messages, got '' @
        show_int (int (length (with_intent i (sent m))))))"

definition mock_clear :: "mock_node \<Rightarrow> mock_node" where
  "mock_clear m = m\<lparr>sent := [], received := [], undelivered := []\<rparr>"

section \<open>Handlers that only look\<close>

text \<open>Handlers that read the nodes, change the test's variables and may raise.\<close>

definition onlookers :: "'s test_handlers \<Rightarrow> bool" where
  "onlookers H \<longleftrightarrow> (\<forall>h e w. fst (fst (H h e w)) = fst w)"

definition logged :: "envelope \<Rightarrow> mock_node \<Rightarrow> mock_node" where
  "logged e m = m\<lparr>received := received m @ [e],
     undelivered := (if handlers_of (intent (header e)) m = [] then undelivered m @ [e] else undelivered m)\<rparr>"

lemma call_handlers_onlookers:
  assumes "onlookers H"
  shows "\<exists>s x. call_handlers H k i e j w = Some ((fst w, s), x)"
proof (induction "length (handlers_of i (fst w k)) - j" arbitrary: j w)
  case 0
  then show ?case by (subst call_handlers.simps) (cases w, simp)
next
  case (Suc n)
  obtain w' x where h: "H (handlers_of i (fst w k) ! j) e w = (w', x)" by fastforce
  then have "fst w' = fst w" using assms unfolding onlookers_def by (metis fst_conv)
  moreover from this have "n = length (handlers_of i (fst w' k)) - Suc j" using Suc(2) by simp
  note Suc(1) [OF this]
  moreover have "j < length (handlers_of i (fst w k))" using Suc(2) by simp
  ultimately show ?case using h
    by (subst call_handlers.simps) (cases w', cases x; simp)
qed

text \<open>Handlers that do not raise are all called, once each, in the order of their registration.\<close>

lemma call_handlers_all:
  assumes "\<And>h s. H h e (M, s) = ((M, f h s), None)"
  shows "call_handlers H k i e j (M, s) = Some ((M, fold f (drop j (handlers_of i (M k))) s), None)"
proof (induction "length (handlers_of i (M k)) - j" arbitrary: j s)
  case 0
  then show ?case by (subst call_handlers.simps) simp
next
  case (Suc n)
  then have "n = length (handlers_of i (M k)) - Suc j" "j < length (handlers_of i (M k))" by simp_all
  then show ?case using Suc(1) [of "Suc j"] assms
    by (subst call_handlers.simps) (simp add: Cons_nth_drop_Suc [symmetric])
qed

lemma mock_receive_onlookers:
  assumes "onlookers H"
  shows "\<exists>s x. mock_receive H k e w = Some (((fst w)(k := logged e (fst w k)), s), x)"
proof (cases "handlers_of (intent (header e)) (fst w k) = []")
  case True
  then show ?thesis by (simp add: mock_receive_def logged_def handlers_of_def)
next
  case False
  then have "logged e (fst w k) = (fst w k)\<lparr>received := received (fst w k) @ [e]\<rparr>" by (simp add: logged_def)
  with False call_handlers_onlookers [OF assms, of k "intent (header e)" e 0 "((fst w)(k := logged e (fst w k)), snd w)"]
  show ?thesis by (simp add: mock_receive_def handlers_of_def)
qed

lemma mock_send_onlookers:
  assumes "onlookers H"
  shows "\<exists>s r. mock_send H mid now k target i pl w = Some ((case map_of (mock_peers (fst w k)) target of
      None \<Rightarrow> fst w
    | Some p \<Rightarrow> (let e = mock_envelope mid now (fst w k) target i pl; M = (fst w)(k := (fst w k)\<lparr>sent := sent (fst w k) @ [e]\<rparr>)
        in M(p := logged e (M p))), s), r)"
proof (cases "map_of (mock_peers (fst w k)) target")
  case None
  then show ?thesis by (cases w) (simp add: mock_send_def)
next
  case (Some p)
  let ?e = "mock_envelope mid now (fst w k) target i pl"
  let ?M = "(fst w)(k := (fst w k)\<lparr>sent := sent (fst w k) @ [?e]\<rparr>)"
  obtain s x where r: "mock_receive H p ?e (?M, snd w) = Some ((?M(p := logged ?e (?M p)), s), x)"
    using mock_receive_onlookers [OF assms, of p ?e "(?M, snd w)"] by auto
  with Some show ?thesis
    unfolding mock_send_def Let_def by (cases x) (simp_all del: fun_upd_apply)
qed

section \<open>A pair of nodes\<close>

text \<open>A test: messages sent one after the other; the test goes on after an exception.\<close>

record mock_message =
  mm_id :: uuid
  mm_time :: int
  mm_from :: nat
  mm_to :: uuid
  mm_intent :: intent
  mm_payload :: payload

fun mock_sends :: "'s test_handlers \<Rightarrow> mock_message list \<Rightarrow> 's test_world \<Rightarrow> 's test_world option" where
  "mock_sends H [] w = Some w"
| "mock_sends H (m # ms) w =
     (case mock_send H (mm_id m) (mm_time m) (mm_from m) (mm_to m) (mm_intent m) (mm_payload m) w of
        None \<Rightarrow> None
      | Some (w, _) \<Rightarrow> mock_sends H ms w)"

definition register_in :: "nat \<times> intent \<times> nat \<Rightarrow> (nat \<Rightarrow> mock_node) \<Rightarrow> nat \<Rightarrow> mock_node" where
  "register_in r M = (case r of (k, i, h) \<Rightarrow> M(k := mock_register i h (M k)))"

definition in_step :: "nat \<Rightarrow> nat \<Rightarrow> (nat \<Rightarrow> mock_node) \<Rightarrow> bool" where
  "in_step a b M \<longleftrightarrow> received (M b) = sent (M a) \<and>
     undelivered (M b) = filter (\<lambda>e. handlers_of (intent (header e)) (M b) = []) (received (M b))"

definition paired :: "nat \<Rightarrow> nat \<Rightarrow> uuid \<Rightarrow> uuid \<Rightarrow> (nat \<Rightarrow> mock_node) \<Rightarrow> bool" where
  "paired a b u v M \<longleftrightarrow> mock_peers (M a) = [(v, b)] \<and> mock_peers (M b) = [(u, a)] \<and> in_step a b M \<and> in_step b a M"

lemma handlers_of_upds [simp]:
  "handlers_of i (m\<lparr>sent := x\<rparr>) = handlers_of i m" "handlers_of i (m\<lparr>received := x\<rparr>) = handlers_of i m"
  "handlers_of i (m\<lparr>undelivered := x\<rparr>) = handlers_of i m" "handlers_of i (logged e m) = handlers_of i m"
  by (simp_all add: handlers_of_def logged_def)

lemma logged_simps [simp]:
  "received (logged e m) = received m @ [e]" "sent (logged e m) = sent m" "mock_peers (logged e m) = mock_peers m"
  "undelivered (logged e m) = (if handlers_of (intent (header e)) m = [] then undelivered m @ [e] else undelivered m)"
  by (simp_all add: logged_def)

lemma paired_swap: "paired a b u v M \<longleftrightarrow> paired b a v u M" by (auto simp: paired_def)

lemma paired_delivery:
  assumes "paired a b u v M" "a \<noteq> b"
  shows "paired a b u v (let M' = M(a := (M a)\<lparr>sent := sent (M a) @ [e]\<rparr>) in M'(b := logged e (M' b)))"
  using assms by (auto simp: paired_def in_step_def Let_def)

lemma mock_send_paired:
  assumes "onlookers H" "paired a b u v (fst w)" "a \<noteq> b" "k = a \<or> k = b"
  shows "\<exists>w' r. mock_send H mid now k target i pl w = Some (w', r) \<and> paired a b u v (fst w') \<and>
    (\<forall>i k. handlers_of i (fst w' k) = handlers_of i (fst w k))"
proof -
  have peers: "map_of (mock_peers (fst w a)) target = (if target = v then Some b else None)"
    "map_of (mock_peers (fst w b)) target = (if target = u then Some a else None)"
    using assms(2) by (auto simp: paired_def)
  obtain s r where "mock_send H mid now k target i pl w = Some ((case map_of (mock_peers (fst w k)) target of
      None \<Rightarrow> fst w
    | Some p \<Rightarrow> (let e = mock_envelope mid now (fst w k) target i pl; M = (fst w)(k := (fst w k)\<lparr>sent := sent (fst w k) @ [e]\<rparr>)
        in M(p := logged e (M p))), s), r)"
    using mock_send_onlookers [OF assms(1)] by blast
  moreover have "paired a b u v (let M' = (fst w)(b := (fst w b)\<lparr>sent := sent (fst w b) @ [e]\<rparr>) in M'(a := logged e (M' a)))" for e
    using paired_delivery [of b a v u "fst w" e] assms(2,3) by (simp add: paired_swap [of b a] del: fun_upd_apply)
  ultimately show ?thesis
    using assms(2,3,4) paired_delivery [OF assms(2,3)] peers by (auto simp: Let_def simp del: not_None_eq split: if_splits)
qed

lemma mock_sends_paired:
  assumes "onlookers H" "paired a b u v (fst w)" "a \<noteq> b" "\<forall>m \<in> set ms. mm_from m = a \<or> mm_from m = b"
  shows "\<exists>w'. mock_sends H ms w = Some w' \<and> paired a b u v (fst w') \<and> (\<forall>i k. handlers_of i (fst w' k) = handlers_of i (fst w k))"
  using assms
proof (induction ms arbitrary: w)
  case (Cons m ms)
  obtain w' r where s: "mock_send H (mm_id m) (mm_time m) (mm_from m) (mm_to m) (mm_intent m) (mm_payload m) w = Some (w', r)"
    "paired a b u v (fst w')" "\<forall>i k. handlers_of i (fst w' k) = handlers_of i (fst w k)"
    using mock_send_paired [OF Cons.prems(1-3), of "mm_from m" "mm_id m" "mm_time m" "mm_to m" "mm_intent m" "mm_payload m"] Cons.prems(4)
    by auto
  with Cons.IH [OF Cons.prems(1) s(2) Cons.prems(3)] Cons.prems(4) show ?case by simp
qed simp

lemma handlers_register: "handlers_of i (mock_register j h m) = (if i = j then handlers_of i m @ [h] else handlers_of i m)"
  by (auto simp: handlers_of_def mock_register_def Let_def dict_simps split: option.splits)

lemma register_keeps [simp]:
  "mock_peers (mock_register i h m) = mock_peers m" "sent (mock_register i h m) = sent m"
  "received (mock_register i h m) = received m" "undelivered (mock_register i h m) = undelivered m"
  by (simp_all add: mock_register_def Let_def)

lemma register_in_simps [simp]:
  "handlers_of i (register_in (k', j, h) M k) = handlers_of i (M k) @ (if k' = k \<and> j = i then [h] else [])"
  "mock_peers (register_in r M k) = mock_peers (M k)" "sent (register_in r M k) = sent (M k)"
  "received (register_in r M k) = received (M k)" "undelivered (register_in r M k) = undelivered (M k)"
  by (auto simp: register_in_def handlers_register split: prod.splits)

lemma registered_fold:
  "handlers_of i (fold register_in regs M k) = handlers_of i (M k) @ map (\<lambda>(_, _, h). h) (filter (\<lambda>(k', j, _). k' = k \<and> j = i) regs) \<and>
   mock_peers (fold register_in regs M k) = mock_peers (M k) \<and> sent (fold register_in regs M k) = sent (M k) \<and>
   received (fold register_in regs M k) = received (M k) \<and> undelivered (fold register_in regs M k) = undelivered (M k)"
proof (induction regs arbitrary: M)
  case (Cons r regs)
  obtain k' j h where "r = (k', j, h)" by (cases r)
  with Cons [of "register_in r M"] show ?case by simp
qed simp

lemma connect_pair_handlers: "handlers_of i (connect_pair a b u v ta tb M b) = []"
  by (simp add: connect_pair_def new_mock_def handlers_of_def)

lemma connect_pair_paired: "a \<noteq> b \<Longrightarrow> paired a b u v (fold register_in regs (connect_pair a b u v ta tb M))"
  unfolding paired_def in_step_def
  by (simp add: registered_fold connect_pair_def new_mock_def)

section \<open>Properties\<close>

text \<open>A test on a pair of connected doubles sees every message: whatever handlers are registered, as long as
  they leave the nodes alone, any sequence of sends ends, exceptions of handlers and unknown targets included;
  each node has received what the other has sent, in order; and the list of undelivered messages holds exactly
  those received without a handler for their intent.\<close>

theorem mock_pair_in_step:
  assumes "onlookers H" "a \<noteq> b" "\<forall>m \<in> set ms. mm_from m \<in> {a, b}"
  shows "\<exists>M s. mock_sends H ms (fold register_in regs (connect_pair a b u v ta tb M0), s0) = Some (M, s) \<and>
    received (M b) = sent (M a) \<and> received (M a) = sent (M b) \<and>
    undelivered (M b) = filter (\<lambda>e. \<not> (\<exists>h. (b, intent (header e), h) \<in> set regs)) (received (M b))"
proof -
  let ?M = "fold register_in regs (connect_pair a b u v ta tb M0)"
  have none: "handlers_of i (?M b) = [] \<longleftrightarrow> \<not> (\<exists>h. (b, i, h) \<in> set regs)" for i
    by (auto simp: registered_fold filter_empty_conv connect_pair_handlers)
  have "paired a b u v (fst (?M, s0))" using connect_pair_paired [OF assms(2)] by simp
  moreover have "\<forall>m \<in> set ms. mm_from m = a \<or> mm_from m = b" using assms(3) by simp
  ultimately obtain w where w: "mock_sends H ms (?M, s0) = Some w" "paired a b u v (fst w)"
      "\<forall>i k. handlers_of i (fst w k) = handlers_of i (?M k)"
    using mock_sends_paired [OF assms(1) _ assms(2), of u v "(?M, s0)" ms] unfolding fst_conv by blast
  then show ?thesis by (cases w) (simp add: paired_def in_step_def none)
qed

definition looker :: "envelope list test_handlers" where
  "looker h e w = (if h = 0 then ((fst w, snd w @ [e]), None) else (w, Some (RuntimeError ''failing handler'')))"

theorem mock_pair_in_step_witness:
  "\<exists>M s. mock_sends looker [\<lparr>mm_id = 9, mm_time = 0, mm_from = 0, mm_to = 6, mm_intent = TASK_REQUEST, mm_payload = TextP (text_of ''hi'')\<rparr>]
      (fold register_in [(1, TASK_REQUEST, 0)] (connect_pair 0 1 5 6 ''a'' ''b'' (\<lambda>_. new_mock 0 [])), []) = Some (M, s) \<and>
    received (M 1) = sent (M 0) \<and> undelivered (M 1) = filter (\<lambda>e. intent (header e) \<noteq> TASK_REQUEST) (received (M 1))"
proof -
  have "onlookers looker" by (simp add: onlookers_def looker_def)
  from mock_pair_in_step [OF this, of 0 1 "[\<lparr>mm_id = 9, mm_time = 0, mm_from = 0, mm_to = 6, mm_intent = TASK_REQUEST, mm_payload = TextP (text_of ''hi'')\<rparr>]"
      "[(1, TASK_REQUEST, 0)]" 5 6 "''a''" "''b''" "\<lambda>_. new_mock 0 []" "[]"]
  show ?thesis by auto
qed

text \<open>The double does not sign: a message that it hands to a handler is one that a real node drops, unless it is
  a handshake.\<close>

lemma mock_envelope_refused:
  assumes "i \<noteq> HANDSHAKE"
  shows "\<exists>seen. process_envelope P user env ws (mock_envelope mid now m target i pl) n = (n\<lparr>seen_messages := seen\<rparr>, [])"
proof -
  let ?e = "mock_envelope mid now m target i pl"
  have "\<not> authentic P ?e n" "intent (header ?e) \<noteq> HANDSHAKE"
    using assms by (simp_all add: authentic_def mock_envelope_def mk_envelope_def split: option.split)
  then show ?thesis by (rule unauthentic_ignored)
qed

end
