(* ===== verification/Modbus.thy ===== *)
theory Modbus
  imports Adapters
begin

text \<open>
  \<^verbatim>\<open>ModbusAdapter\<close> of \<^verbatim>\<open>tpcp/adapters/modbus_adapter.py\<close>: telemetry from register reads, register
  writes with a bounded retry queue, and the polling loop. The device behind \<^verbatim>\<open>pymodbus\<close> is the argument
  \<open>dev\<close> (what the \<open>k\<close>-th write attempt meets) or \<open>read\<close>; a write may be answered, answered with a Modbus
  exception response, or raise.
\<close>

section \<open>What the hardware adapters share\<close>

text \<open>\<^verbatim>\<open>raw.get(k, d)\<close>, \<^verbatim>\<open>d[k]\<close>, a field that Pydantic requires to be a \<^verbatim>\<open>str\<close>, and the command in a text
  payload: \<^verbatim>\<open>content\<close> is a field of \<^verbatim>\<open>TextPayload\<close> only.\<close>

definition raw_get :: "(string, pyval) dict \<Rightarrow> string \<Rightarrow> pyval \<Rightarrow> pyval" where
  "raw_get raw k d = (case map_of raw k of None \<Rightarrow> d | Some v \<Rightarrow> v)"

fun py_item :: "pyval \<Rightarrow> string \<Rightarrow> py_exn + pyval" where
  "py_item (PDict d) k = (case map_of d k of None \<Rightarrow> Inl (KeyError k) | Some v \<Rightarrow> Inr v)"
| "py_item _ k = Inl (TypeError ''indices must be integers or slices, not str'')"

fun str_field :: "pyval \<Rightarrow> py_exn + string" where
  "str_field (PStr s) = Inr s"
| "str_field _ = Inl (ValidationError ''Input should be a valid string'')"

definition unpack_command :: "envelope \<Rightarrow> pyval" where
  "unpack_command e =
     (case payload e of
        TextP t \<Rightarrow> (case json_loads (content t) of Some v \<Rightarrow> v | None \<Rightarrow> PDict [(''raw'', PStr (content t))])
      | _ \<Rightarrow> PDict [])"

definition one_reading :: "string \<Rightarrow> string \<Rightarrow> pyfloat \<Rightarrow> int \<Rightarrow> string option \<Rightarrow> string \<Rightarrow> payload" where
  "one_reading sensor u val ts q protocol =
     TelemetryP \<lparr>sensor_id = sensor, tel_unit = u,
       readings = [\<lparr>reading_value = val, timestamp_ms = ts, quality = q\<rparr>], source_protocol = protocol\<rparr>"

text \<open>The adapters build a default identity when none is given.\<close>

definition identity_or :: "string \<Rightarrow> uuid \<Rightarrow> agent_identity option \<Rightarrow> agent_identity" where
  "identity_or fw fresh ident = (case ident of Some i \<Rightarrow> i | None \<Rightarrow> mk_identity fresh fw [])"

section \<open>State and messages\<close>

record modbus = adapter +
  mb_host :: string
  mb_port :: int
  unit_id :: int
  mb_client :: "bool option"  \<comment> \<open>the client and whether it is connected\<close>
  retry_queue :: "pyval list"

definition max_retry_queue :: nat where
  "max_retry_queue = 100"

definition modbus_init ::
  "bool \<Rightarrow> uuid \<Rightarrow> string \<Rightarrow> int \<Rightarrow> int \<Rightarrow> agent_identity option \<Rightarrow> identity_manager option \<Rightarrow> py_exn + modbus" where
  "modbus_init available fresh host port unit ident mgr =
     (if \<not> available
      then Inl (ImportError ''pymodbus is required for ModbusAdapter. Install it with: pip install tpcp-core[industrial]'')
      else Inr \<lparr>ad_identity = identity_or ''ModbusAdapter'' fresh ident, ad_manager = mgr, ad_clock = 0,
             mb_host = host, mb_port = port, unit_id = unit, mb_client = None, retry_queue = []\<rparr>)"

definition modbus_pack ::
  "float_ops \<Rightarrow> platform \<Rightarrow> nenv \<Rightarrow> uuid \<Rightarrow> (string, pyval) dict \<Rightarrow> intent \<Rightarrow> modbus \<Rightarrow> modbus \<times> (py_exn + envelope)" where
  "modbus_pack F P env target raw i a =
     (let a = tick a;
          reg_type = raw_get raw ''register_type'' (PStr ''holding'');
          address = raw_get raw ''address'' (PInt 0);
          uid = raw_get raw ''unit_id'' (PInt (unit_id a));
          sensor = ''modbus_'' @ py_str uid @ ''_'' @ py_str reg_type @ ''_'' @ py_str address
      in (a,
          bind_exn (py_float F (raw_get raw ''value'' (PFloat ''0.0''))) (\<lambda>v.
          bind_exn (py_int (raw_get raw ''timestamp_ms'' (PInt 0))) (\<lambda>ts.
          bind_exn (str_field (raw_get raw ''unit'' (PStr []))) (\<lambda>u.
          seal_optional P env target i (one_reading sensor u v ts None ''modbus'') a)))))"

definition modbus_unpack :: "envelope \<Rightarrow> pyval" where
  "modbus_unpack = unpack_command"

section \<open>Writes\<close>

datatype modbus_op =
    WriteCoil int int bool  \<comment> \<open>unit, address, value\<close>
  | WriteRegister int int int

datatype write_result = Answered | ErrorAnswer | Raised py_exn

definition write_op :: "modbus \<Rightarrow> pyval \<Rightarrow> py_exn + modbus_op" where
  "write_op a cmd =
     (if mb_client a = None then Inl (AssertionError [])
      else
        bind_exn (py_get cmd ''type'' (PStr ''holding'')) (\<lambda>type.
        bind_exn (py_item cmd ''address'') (\<lambda>ad.
        bind_exn (py_int ad) (\<lambda>address.
        bind_exn (py_item cmd ''value'') (\<lambda>val.
          if type = PStr ''coil'' then Inr (WriteCoil (unit_id a) address (truthy val))
          else bind_exn (py_int val) (\<lambda>v. Inr (WriteRegister (unit_id a) address v)))))))"

type_synonym device = "nat \<Rightarrow> modbus_op \<Rightarrow> write_result"
type_synonym write_log = "(modbus_op \<times> write_result) list"

text \<open>A write returns unless the client raises: the response is not looked at.\<close>

definition do_write :: "device \<Rightarrow> nat \<Rightarrow> modbus \<Rightarrow> pyval \<Rightarrow> write_log \<times> py_exn option" where
  "do_write dev k a cmd =
     (case write_op a cmd of
        Inl e \<Rightarrow> ([], Some e)
      | Inr op \<Rightarrow> ([(op, dev k op)], (case dev k op of Raised e \<Rightarrow> Some e | _ \<Rightarrow> None)))"

definition requeue :: "pyval \<Rightarrow> modbus \<Rightarrow> modbus" where
  "requeue cmd a =
     (if length (retry_queue a) < max_retry_queue then a\<lparr>retry_queue := retry_queue a @ [cmd]\<rparr> else a)"

text \<open>The loop of a drain over the commands it found: what remains, how many went out, and what the device
  saw. The commands are those of the queue when the drain began; \<open>drain_end\<close> is the assignment after the
  last write.\<close>

fun drain_writes :: "device \<Rightarrow> nat \<Rightarrow> modbus \<Rightarrow> pyval list \<Rightarrow> pyval list \<times> nat \<times> write_log" where
  "drain_writes dev k a [] = ([], 0, [])"
| "drain_writes dev k a (cmd # cmds) =
     (let (ops, ex) = do_write dev k a cmd;
          (remaining, retried, rest) = drain_writes dev (Suc k) a cmds
      in case ex of
           None \<Rightarrow> (remaining, Suc retried, ops @ rest)
         | Some e \<Rightarrow> (cmd # remaining, retried, ops @ rest))"

definition drain_end :: "pyval list \<Rightarrow> modbus \<Rightarrow> modbus" where
  "drain_end remaining a = a\<lparr>retry_queue := remaining\<rparr>"

definition drain_retry_queue :: "device \<Rightarrow> modbus \<Rightarrow> modbus \<times> nat \<times> write_log" where
  "drain_retry_queue dev a =
     (if retry_queue a = [] then (a, 0, [])
      else case drain_writes dev 0 a (retry_queue a) of
          (remaining, retried, ops) \<Rightarrow> (drain_end remaining a, retried, ops))"

definition execute_write :: "device \<Rightarrow> pyval \<Rightarrow> modbus \<Rightarrow> modbus \<times> bool \<times> write_log" where
  "execute_write dev cmd a =
     (if mb_client a \<noteq> Some True then (requeue cmd a, False, [])
      else
        let n = length (retry_queue a);
            (a, retried, ops) = drain_retry_queue dev a;
            (ops', ex) = do_write dev n a cmd
        in case ex of
             None \<Rightarrow> (a, True, ops @ ops')
           | Some e \<Rightarrow> (requeue cmd a, False, ops @ ops'))"

text \<open>\<open>up\<close> is whether \<^verbatim>\<open>connect\<close> of the new client succeeds (it reports failure as \<^verbatim>\<open>False\<close>).\<close>

definition modbus_connect :: "bool \<Rightarrow> modbus \<Rightarrow> modbus" where
  "modbus_connect up a = a\<lparr>mb_client := Some up\<rparr>"

definition modbus_disconnect :: "modbus \<Rightarrow> modbus" where
  "modbus_disconnect a = (if mb_client a \<noteq> None then a\<lparr>mb_client := None\<rparr> else a)"

section \<open>Polling\<close>

datatype read_result = Bits "bool list" | Registers "int list" | ErrorResponse | ReadRaised

text \<open>The value of a read; an answer without the first bit or register raises, which skips the register
  like an error does.\<close>

definition read_value :: "string \<Rightarrow> read_result \<Rightarrow> pyval option" where
  "read_value reg_type r =
     (case r of
        Bits (b # _) \<Rightarrow> if reg_type \<in> set [''coil'', ''discrete''] then Some (PBool b) else None
      | Registers (v # _) \<Rightarrow> if reg_type \<in> set [''coil'', ''discrete''] then None else Some (PInt v)
      | _ \<Rightarrow> None)"

text \<open>One cycle over the registers from \<open>start\<close>; \<open>env k\<close> is the environment of the \<open>k\<close>-th read and \<open>ts\<close> the
  cycle's time. The result lists what the callback gets.\<close>

fun poll_registers_from ::
  "float_ops \<Rightarrow> platform \<Rightarrow> (nat \<Rightarrow> nenv) \<Rightarrow> (int \<Rightarrow> read_result) \<Rightarrow> string \<Rightarrow> int \<Rightarrow> int \<Rightarrow> uuid \<Rightarrow> nat \<Rightarrow> nat \<Rightarrow> modbus \<Rightarrow>
   modbus \<times> (envelope \<times> uuid) list" where
  "poll_registers_from F P env read reg_type ts start target k 0 a = (a, [])"
| "poll_registers_from F P env read reg_type ts start target k (Suc n) a =
     (let address = start + int k;
          (a, out) = (case read_value reg_type (read address) of
              None \<Rightarrow> (a, [])
            | Some v \<Rightarrow>
                (case modbus_pack F P (env k) target
                   [(''register_type'', PStr reg_type), (''address'', PInt address), (''value'', v),
                    (''unit_id'', PInt (unit_id a)), (''timestamp_ms'', PInt ts)] STATE_SYNC a of
                   (a, Inl e) \<Rightarrow> (a, [])
                 | (a, Inr e) \<Rightarrow> (a, [(e, target)])));
          (a, rest) = poll_registers_from F P env read reg_type ts start target (Suc k) n a
      in (a, out @ rest))"

record poll_cycle =
  cycle_env :: "nat \<Rightarrow> nenv"
  cycle_read :: "int \<Rightarrow> read_result"

fun poll_cycles ::
  "float_ops \<Rightarrow> platform \<Rightarrow> string \<Rightarrow> int \<Rightarrow> nat \<Rightarrow> uuid \<Rightarrow> poll_cycle list \<Rightarrow> modbus \<Rightarrow>
   modbus \<times> (envelope \<times> uuid) list" where
  "poll_cycles F P reg_type start cnt target [] a = (a, [])"
| "poll_cycles F P reg_type start cnt target (c # cs) a =
     (let (a, out) = poll_registers_from F P (cycle_env c) (cycle_read c) reg_type
            (wall_clock (cycle_env c 0) div 1000000) start target 0 cnt a;
          (a, rest) = poll_cycles F P reg_type start cnt target cs a
      in (a, out @ rest))"

text \<open>The loop runs over the cycles that time brings, at most \<open>max_polls\<close> of them.\<close>

definition poll_registers ::
  "float_ops \<Rightarrow> platform \<Rightarrow> bool \<Rightarrow> string \<Rightarrow> int \<Rightarrow> nat \<Rightarrow> uuid option \<Rightarrow> nat option \<Rightarrow> poll_cycle list \<Rightarrow> modbus \<Rightarrow>
   modbus \<times> (envelope \<times> uuid) list" where
  "poll_registers F P up reg_type start cnt target max_polls cycles a =
     (let target = (case target of None \<Rightarrow> BROADCAST_UUID | Some t \<Rightarrow> t);
          a = (if mb_client a \<noteq> Some True then modbus_connect up a else a);
          cycles = (case max_polls of None \<Rightarrow> cycles | Some m \<Rightarrow> take m cycles)
      in poll_cycles F P reg_type start cnt target cycles a)"

section \<open>The retry queue\<close>

text \<open>The \<open>k\<close>-th write raises: there is no such operation, or the client raises. An exception response of the device
  raises nothing. What the device sees of the write.\<close>

definition write_raises :: "device \<Rightarrow> modbus \<Rightarrow> nat \<times> pyval \<Rightarrow> bool" where
  "write_raises dev a kc =
     (case write_op a (snd kc) of
        Inl e \<Rightarrow> True
      | Inr op \<Rightarrow> (case dev (fst kc) op of Raised e \<Rightarrow> True | Answered \<Rightarrow> False | ErrorAnswer \<Rightarrow> False))"

definition seen_of :: "device \<Rightarrow> modbus \<Rightarrow> nat \<times> pyval \<Rightarrow> write_log" where
  "seen_of dev a kc = (case write_op a (snd kc) of Inl e \<Rightarrow> [] | Inr op \<Rightarrow> [(op, dev (fst kc) op)])"

lemma write_raises_iff: "write_raises dev a kc \<longleftrightarrow> snd (do_write dev (fst kc) a (snd kc)) \<noteq> None"
  by (auto simp: write_raises_def do_write_def split: sum.split write_result.split)

lemma seen_of_write: "fst (do_write dev k a cmd) = seen_of dev a (k, cmd)"
  by (simp add: seen_of_def do_write_def split: sum.split)

lemma drain_writes_seen: "snd (snd (drain_writes dev k a cmds)) = concat (map (seen_of dev a) (enumerate k cmds))"
  by (induction cmds arbitrary: k) (auto simp: Let_def case_prod_beta seen_of_write split: option.split)

lemma drain_seen: "snd (snd (drain_retry_queue dev a)) = concat (map (seen_of dev a) (enumerate 0 (retry_queue a)))"
  using drain_writes_seen [of dev 0 a "retry_queue a"] by (auto simp: drain_retry_queue_def split: prod.splits)

lemma drain_writes_remaining:
  "fst (drain_writes dev k a cmds) = map snd (filter (write_raises dev a) (enumerate k cmds)) \<and>
   fst (snd (drain_writes dev k a cmds)) = length (filter (\<lambda>kc. \<not> write_raises dev a kc) (enumerate k cmds))"
  by (induction cmds arbitrary: k) (auto simp: Let_def case_prod_beta write_raises_iff split: option.splits)

lemma drain_writes_length: "length (fst (drain_writes dev k a cmds)) \<le> length cmds"
  by (metis drain_writes_remaining length_enumerate length_filter_le length_map)

lemma drain_queue:
  "retry_queue (fst (drain_retry_queue dev a)) = map snd (filter (write_raises dev a) (enumerate 0 (retry_queue a)))"
  "fst (snd (drain_retry_queue dev a)) = length (filter (\<lambda>kc. \<not> write_raises dev a kc) (enumerate 0 (retry_queue a)))"
  using drain_writes_remaining [of dev 0 a "retry_queue a"]
  by (auto simp: drain_retry_queue_def drain_end_def split: prod.splits)

lemma drain_frame:
  "mb_client (fst (drain_retry_queue dev a)) = mb_client a" "unit_id (fst (drain_retry_queue dev a)) = unit_id a"
  by (simp_all add: drain_retry_queue_def drain_end_def split: prod.splits)

lemma write_op_frame:
  "mb_client b = mb_client a \<Longrightarrow> unit_id b = unit_id a \<Longrightarrow> write_op b cmd = write_op a cmd"
  by (simp add: write_op_def cong: if_cong)

lemma do_write_drained: "do_write dev k (fst (drain_retry_queue dev a)) cmd = do_write dev k a cmd"
  by (simp add: do_write_def write_op_frame [OF drain_frame])

lemma requeue_length: "length (retry_queue a) \<le> max_retry_queue \<Longrightarrow> length (retry_queue (requeue cmd a)) \<le> max_retry_queue"
  by (simp add: requeue_def)

lemma execute_write_eq:
  "execute_write dev cmd a =
     (if mb_client a \<noteq> Some True then (requeue cmd a, False, [])
      else if write_raises dev a (length (retry_queue a), cmd)
      then (requeue cmd (fst (drain_retry_queue dev a)), False,
            snd (snd (drain_retry_queue dev a)) @ fst (do_write dev (length (retry_queue a)) a cmd))
      else (fst (drain_retry_queue dev a), True,
            snd (snd (drain_retry_queue dev a)) @ fst (do_write dev (length (retry_queue a)) a cmd)))"
  by (auto simp: execute_write_def Let_def case_prod_beta write_raises_iff do_write_drained split: option.splits)

section \<open>Properties of the queue\<close>

datatype modbus_event =
    ExecuteWrite device pyval
  | DrainRetryQueue device
  | Connect bool
  | ConnectionChanged bool
  | Disconnect

text \<open>The operations, and the connection that the client sees go up or down.\<close>

fun modbus_step :: "modbus_event \<Rightarrow> modbus \<Rightarrow> modbus" where
  "modbus_step (ExecuteWrite dev cmd) a = fst (execute_write dev cmd a)"
| "modbus_step (DrainRetryQueue dev) a = fst (drain_retry_queue dev a)"
| "modbus_step (Connect up) a = modbus_connect up a"
| "modbus_step (ConnectionChanged up) a = a\<lparr>mb_client := map_option (\<lambda>_. up) (mb_client a)\<rparr>"
| "modbus_step Disconnect a = modbus_disconnect a"

lemma drain_length: "length (retry_queue (fst (drain_retry_queue dev a))) \<le> length (retry_queue a)"
  by (simp add: drain_queue(1)) (metis length_enumerate length_filter_le)

lemma step_length:
  assumes "length (retry_queue a) \<le> max_retry_queue"
  shows "length (retry_queue (modbus_step ev a)) \<le> max_retry_queue"
proof (cases ev)
  case (ExecuteWrite dev cmd)
  with assms requeue_length [of a] requeue_length [of "fst (drain_retry_queue dev a)"] drain_length [of dev a]
  show ?thesis by (auto simp: execute_write_eq)
next
  case (DrainRetryQueue dev)
  with assms le_trans [OF drain_length [of dev a]] show ?thesis by simp
qed (use assms in \<open>auto simp: modbus_connect_def modbus_disconnect_def\<close>)

text \<open>The retry queue of a Modbus adapter never holds more than 100 commands, whatever writes, drains,
  connection losses and reconnections happen.\<close>

theorem modbus_queue_bounded:
  assumes "modbus_init available fresh host port unit ident mgr = Inr a"
  shows "length (retry_queue (fold modbus_step evs a)) \<le> 100"
proof -
  have "length (retry_queue b) \<le> max_retry_queue \<Longrightarrow> length (retry_queue (fold modbus_step evs b)) \<le> max_retry_queue" for b
    by (induction evs arbitrary: b) (simp_all add: step_length)
  moreover have "retry_queue a = []" using assms by (auto simp: modbus_init_def split: if_splits)
  ultimately show ?thesis by (simp add: max_retry_queue_def)
qed

text \<open>C29: While the queue has room, \<^verbatim>\<open>execute_write\<close> on a connected client attempts every queued command and then the
  new one, once each and in order; afterwards the queue holds exactly the commands whose write raised, in their order,
  and the call reports failure when the new one's did. A write raises when the command is malformed or the client
  raises; a command that the device refuses with an exception response is not among them: it leaves the queue, and a
  new one that is refused is reported as success.\<close>

theorem modbus_retry_keeps_raised:
  assumes "mb_client a = Some True" "length (retry_queue a) < 100"
  shows "case execute_write dev cmd a of (b, ok, ops) \<Rightarrow>
    retry_queue b = map snd (filter (write_raises dev a) (enumerate 0 (retry_queue a @ [cmd]))) \<and>
    (ok \<longleftrightarrow> \<not> write_raises dev a (length (retry_queue a), cmd)) \<and>
    ops = concat (map (seen_of dev a) (enumerate 0 (retry_queue a @ [cmd])))"
proof -
  have "length (retry_queue (fst (drain_retry_queue dev a))) < max_retry_queue"
    using drain_length [of dev a] assms(2) by (simp add: max_retry_queue_def)
  with assms(1) show ?thesis
    by (simp add: execute_write_eq requeue_def drain_queue(1) enumerate_append_eq drain_seen seen_of_write)
qed

theorem modbus_queue_bounded_witness:
  "length (retry_queue (fold modbus_step (replicate 200 (ExecuteWrite (\<lambda>_ _. Answered) (PDict [])))
     \<lparr>ad_identity = demo_peer, ad_manager = None, ad_clock = 0, mb_host = ''h'', mb_port = 502, unit_id = 1,
      mb_client = None, retry_queue = []\<rparr>)) \<le> 100"
  by (rule modbus_queue_bounded [of True 0 "''h''" 502 1 "Some demo_peer" None])
    (simp add: modbus_init_def identity_or_def)

definition demo_modbus :: "pyval list \<Rightarrow> modbus" where
  "demo_modbus q = \<lparr>ad_identity = demo_peer, ad_manager = Some sample_manager, ad_clock = 0, mb_host = ''h'', mb_port = 502,
     unit_id = 1, mb_client = Some True, retry_queue = q\<rparr>"

lemma demo_modbus_simps [simp]:
  "mb_client (demo_modbus q) = Some True" "retry_queue (demo_modbus q) = q" "unit_id (demo_modbus q) = 1"
  "ad_manager (demo_modbus q) = Some sample_manager" "ad_identity (demo_modbus q) = demo_peer"
  by (simp_all add: demo_modbus_def)

definition reg_cmd :: "int \<Rightarrow> int \<Rightarrow> pyval" where
  "reg_cmd ad v = PDict [(''address'', PInt ad), (''value'', PInt v)]"

lemma reg_cmd_op: "mb_client a \<noteq> None \<Longrightarrow> write_op a (reg_cmd ad v) = Inr (WriteRegister (unit_id a) ad v)"
  by (simp add: write_op_def reg_cmd_def)

theorem modbus_retry_keeps_raised_witness:
  "case execute_write (\<lambda>k op. if k = 0 then Raised (ConnectionError []) else if k = 1 then ErrorAnswer else Answered) (reg_cmd 3 3)
       (demo_modbus [reg_cmd 1 1, reg_cmd 2 2]) of (b, ok, ops) \<Rightarrow>
     retry_queue b = [reg_cmd 1 1] \<and> ok \<and>
     ops = [(WriteRegister 1 1 1, Raised (ConnectionError [])), (WriteRegister 1 2 2, ErrorAnswer), (WriteRegister 1 3 3, Answered)]"
  using modbus_retry_keeps_raised [of "demo_modbus [reg_cmd 1 1, reg_cmd 2 2]"
      "\<lambda>k op. if k = 0 then Raised (ConnectionError []) else if k = 1 then ErrorAnswer else Answered" "reg_cmd 3 3"]
  by (auto simp: write_raises_def seen_of_def reg_cmd_op)

text \<open>A retried write can undo a newer one: when the retry of a queued write fails once more and the new write
  to the device succeeds, \<^verbatim>\<open>execute_write\<close> reports success, and the next drain replays the older write, so
  that it is the last one the device sees.\<close>

theorem stale_write_overwrites_newer:
  assumes "mb_client a = Some True" "retry_queue a = [old]" "write_op a old = Inr o1" "write_op a new = Inr o2"
    and "dev1 0 o1 = Raised e" "dev1 1 o2 = Answered" "dev2 0 o1 = Answered"
  shows "\<exists>b c. execute_write dev1 new a = (b, True, [(o1, Raised e), (o2, Answered)]) \<and>
    drain_retry_queue dev2 b = (c, 1, [(o1, Answered)])"
proof -
  have "write_op (a\<lparr>retry_queue := q\<rparr>) cmd = write_op a cmd" for q cmd by (rule write_op_frame) simp_all
  with assms show ?thesis
    by (simp add: execute_write_def drain_retry_queue_def do_write_def drain_end_def Let_def)
qed

theorem stale_write_overwrites_newer_witness:
  "\<exists>b c. execute_write (\<lambda>k op. if k = 0 then Raised (ConnectionError []) else Answered) (reg_cmd 5 2) (demo_modbus [reg_cmd 5 1]) =
       (b, True, [(WriteRegister 1 5 1, Raised (ConnectionError [])), (WriteRegister 1 5 2, Answered)]) \<and>
     drain_retry_queue (\<lambda>_ _. Answered) b = (c, 1, [(WriteRegister 1 5 1, Answered)])"
  by (rule stale_write_overwrites_newer [where old = "reg_cmd 5 1"]) (simp_all add: reg_cmd_op)

text \<open>C40: A command queued during a drain is lost: while a drain waits for the device, the connection drops and
  another \<^verbatim>\<open>execute_write\<close> queues its command, as its documentation says; when the drain ends, it overwrites the
  queue with what remains of the commands it started from, and the new command is gone.\<close>

theorem command_queued_during_drain_is_lost:
  assumes "length (retry_queue a) < 100" "cmd \<notin> set (retry_queue a)"
    and "remaining = fst (drain_writes dev 0 a (retry_queue a))"
    and "execute_write dev' cmd (a\<lparr>mb_client := Some False\<rparr>) = (b, ok, ops)"
  shows "\<not> ok \<and> cmd \<in> set (retry_queue b) \<and> cmd \<notin> set (retry_queue (drain_end remaining b))"
proof -
  have "set remaining \<subseteq> set (retry_queue a)"
    by (auto simp: assms(3) drain_writes_remaining in_set_enumerate_eq)
  with assms(1,2,4) show ?thesis
    by (auto simp: execute_write_def requeue_def drain_end_def max_retry_queue_def)
qed

theorem command_queued_during_drain_is_lost_witness:
  "\<exists>b ops. execute_write (\<lambda>_ _. Answered) (reg_cmd 7 1) (demo_modbus [reg_cmd 5 1]\<lparr>mb_client := Some False\<rparr>) = (b, False, ops) \<and>
     reg_cmd 7 1 \<in> set (retry_queue b) \<and>
     reg_cmd 7 1 \<notin> set (retry_queue (drain_end (fst (drain_writes (\<lambda>_ _. Answered) 0 (demo_modbus [reg_cmd 5 1]) [reg_cmd 5 1])) b))"
proof -
  obtain b ok ops where x: "execute_write (\<lambda>_ _. Answered) (reg_cmd 7 1) (demo_modbus [reg_cmd 5 1]\<lparr>mb_client := Some False\<rparr>) = (b, ok, ops)"
    by (metis prod.exhaust)
  from command_queued_during_drain_is_lost [OF _ _ refl x, where dev = "\<lambda>_ _. Answered"] x show ?thesis
    by (simp add: reg_cmd_def)
qed

text \<open>An exception response counts as success: when the device answers a write with a Modbus exception (an
  illegal address, a refused value), the call reports success and nothing is queued.\<close>

theorem modbus_error_answer_is_success:
  assumes "mb_client a = Some True" "retry_queue a = []" "write_op a cmd = Inr op" "dev 0 op = ErrorAnswer"
  shows "execute_write dev cmd a = (a, True, [(op, ErrorAnswer)])"
  using assms by (simp add: execute_write_def drain_retry_queue_def do_write_def)

theorem modbus_error_answer_is_success_witness:
  "execute_write (\<lambda>_ _. ErrorAnswer) (reg_cmd 5 1) (demo_modbus []) =
     (demo_modbus [], True, [(WriteRegister 1 5 1, ErrorAnswer)])"
  by (rule modbus_error_answer_is_success) (simp_all add: reg_cmd_op)

text \<open>Commands that no device state can execute.\<close>

definition malformed :: "pyval \<Rightarrow> bool" where
  "malformed cmd \<longleftrightarrow> (\<forall>a. \<exists>e. write_op a cmd = Inl e)"

lemma malformed_fails: "malformed cmd \<Longrightarrow> write_raises dev a (k, cmd)"
proof -
  assume "malformed cmd"
  then obtain e where "write_op a cmd = Inl e" unfolding malformed_def by blast
  then show ?thesis by (simp add: write_raises_iff do_write_def)
qed

lemma full_step:
  assumes "malformed cmd" "retry_queue a = replicate 100 cmd"
  shows "retry_queue (modbus_step ev a) = replicate 100 cmd"
proof -
  have "filter (write_raises dev a) (enumerate k (replicate n cmd)) = enumerate k (replicate n cmd)" for dev k n
    using malformed_fails [OF assms(1)] by (intro filter_True) (auto simp: in_set_enumerate_eq)
  then have d: "retry_queue (fst (drain_retry_queue dev a)) = replicate 100 cmd" for dev
    by (simp add: drain_queue(1) assms(2))
  with assms(2) show ?thesis
    by (cases ev) (simp_all add: execute_write_eq requeue_def max_retry_queue_def modbus_connect_def modbus_disconnect_def)
qed

text \<open>Malformed commands block the retry queue for good: once 100 commands without an address fill it, no
  write, drain or reconnection ever makes room again, and every later command that fails is dropped.\<close>

theorem malformed_commands_block_queue:
  assumes "malformed cmd" "retry_queue a = replicate 100 cmd"
  shows "retry_queue (fold modbus_step evs a) = replicate 100 cmd"
  using assms(2) by (induction evs arbitrary: a) (simp_all add: full_step [OF assms(1)])

theorem malformed_commands_block_queue_witness:
  "retry_queue (fold modbus_step [DrainRetryQueue (\<lambda>_ _. Answered), ExecuteWrite (\<lambda>_ _. Answered) (reg_cmd 5 1)]
     (demo_modbus (replicate 100 (PDict [])))) = replicate 100 (PDict [])"
  by (rule malformed_commands_block_queue) (auto simp: malformed_def write_op_def)

section \<open>Polling emits what was read\<close>

text \<open>A value that a Modbus read can deliver, and its float.\<close>

definition register_value :: "pyval \<Rightarrow> bool" where
  "register_value v \<longleftrightarrow> (\<exists>b. v = PBool b) \<or> (\<exists>i. v = PInt i \<and> 0 \<le> i \<and> i < 65536)"

definition register_float :: "pyval \<Rightarrow> pyfloat" where
  "register_float v = (case v of PBool b \<Rightarrow> if b then ''1.0'' else ''0.0'' | PInt i \<Rightarrow> show_int i @ ''.0'' | _ \<Rightarrow> [])"

lemma register_value_float:
  assumes "register_value v"
  shows "py_float F v = Inr (register_float v) \<and> float_lex (register_float v)"
proof -
  have "float_lex ''1.0''" "float_lex ''0.0''" by code_simp+
  with assms float_lex_int show ?thesis
    by (auto simp: register_value_def register_float_def float_of_int_def)
qed

definition register_payload :: "int \<Rightarrow> string \<Rightarrow> int \<Rightarrow> int \<Rightarrow> pyval \<Rightarrow> payload" where
  "register_payload unit reg_type ts address v =
     one_reading (''modbus_'' @ show_int unit @ ''_'' @ reg_type @ ''_'' @ show_int address) [] (register_float v) ts None ''modbus''"

lemma modbus_pack_register:
  assumes "register_value v"
  shows "modbus_pack F P env target
      [(''register_type'', PStr reg_type), (''address'', PInt address), (''value'', v),
       (''unit_id'', PInt u), (''timestamp_ms'', PInt ts)] i a =
    (tick a, Inr (mk_envelope (adapter_header env a target i) (register_payload u reg_type ts address v)
       (map_option (seal_signature P (register_payload u reg_type ts address v)) (ad_manager a))))"
proof -
  have "wf_payload (register_payload u reg_type ts address v)"
    using register_value_float [OF assms] by (simp add: register_payload_def one_reading_def)
  moreover have "adapter_header env (tick a) target i = adapter_header env a target i" "ad_manager (tick a) = ad_manager a"
    by (simp_all add: adapter_header_def tick_def)
  ultimately show ?thesis
    using register_value_float [OF assms]
    by (simp add: modbus_pack_def raw_get_def Let_def seal_optional_eq register_payload_def)
qed

lemma poll_from:
  assumes "\<And>ad v. read_value reg_type (read ad) = Some v \<Longrightarrow> register_value v"
  shows "map (\<lambda>(e, t). (payload e, sender_id (header e), t))
      (snd (poll_registers_from F P env read reg_type ts start target k n a)) =
    map (\<lambda>j. (register_payload (unit_id a) reg_type ts (start + int j) (the (read_value reg_type (read (start + int j)))),
        agent_id (ad_identity a), target))
      (filter (\<lambda>j. read_value reg_type (read (start + int j)) \<noteq> None) [k..<k + n])"
proof (induction n arbitrary: k a)
  case (Suc n)
  have t: "unit_id (tick a) = unit_id a" "ad_identity (tick a) = ad_identity a" by (simp_all add: tick_def)
  have l: "[k..<k + Suc n] = k # [Suc k..<Suc k + n]" by (simp add: upt_conv_Cons)
  show ?case
  proof (cases "read_value reg_type (read (start + int k))")
    case None
    with Suc [of "Suc k" a] show ?thesis unfolding l by (simp add: case_prod_beta Let_def del: upt_Suc)
  next
    case (Some v)
    with Suc [of "Suc k" "tick a"] modbus_pack_register [OF assms [OF Some]] t show ?thesis
      unfolding l by (simp add: case_prod_beta mk_envelope_def adapter_header_def Let_def del: upt_Suc)
  qed
qed simp

text \<open>A poll cycle reports what was read and nothing else: one message per register that answered, in address
  order, with the register's value as its float and the adapter's agent as its sender; a register that could
  not be read produces no message (no zero in its place).\<close>

theorem poll_reports_registers_read:
  assumes "\<forall>ad v. read_value reg_type (read ad) = Some v \<longrightarrow> register_value v"
  shows "map (\<lambda>(e, t). (payload e, sender_id (header e), t))
      (snd (poll_registers_from F P env read reg_type ts start target 0 n a)) =
    map (\<lambda>ad. (register_payload (unit_id a) reg_type ts ad (the (read_value reg_type (read ad))),
        agent_id (ad_identity a), target))
      (filter (\<lambda>ad. read_value reg_type (read ad) \<noteq> None) (map (\<lambda>j. start + int j) [0..<n]))"
  using poll_from [of reg_type read F P env ts start target 0 n a] assms
  by (simp add: filter_map comp_def)

theorem poll_reports_registers_read_witness:
  "map (\<lambda>(e, t). (payload e, sender_id (header e), t))
     (snd (poll_registers_from \<lparr>float_of_big = (\<lambda>_. None), float_of_text = (\<lambda>_. None), float_kilo = id\<rparr> demo_platform
       (\<lambda>_. at_time 0) (\<lambda>ad. if ad = 11 then ErrorResponse else Registers [7]) ''holding'' 77 10 0 0 3 (demo_modbus []))) =
   [(register_payload 1 ''holding'' 77 10 (PInt 7), 1, 0), (register_payload 1 ''holding'' 77 12 (PInt 7), 1, 0)]"
proof -
  let ?read = "\<lambda>ad :: int. if ad = 11 then ErrorResponse else Registers [7]"
  have "\<forall>ad v. read_value ''holding'' (?read ad) = Some v \<longrightarrow> register_value v"
    by (auto simp: read_value_def register_value_def split: if_splits)
  note p = poll_reports_registers_read [OF this]
  have "filter (\<lambda>ad. read_value ''holding'' (?read ad) \<noteq> None) (map (\<lambda>j. 10 + int j) [0..<3]) = [10, 12]"
    by (simp add: read_value_def upt_rec numeral_3_eq_3)
  then show ?thesis unfolding p by (simp add: read_value_def demo_peer_def)
qed

end
