(* ===== verification/Industrial.thy ===== *)
theory Industrial
  imports Modbus
begin

text \<open>
  \<^verbatim>\<open>CANbusAdapter\<close> of \<^verbatim>\<open>tpcp/adapters/canbus_adapter.py\<close> and \<^verbatim>\<open>OPCUAAdapter\<close> of
  \<^verbatim>\<open>tpcp/adapters/opcua_adapter.py\<close>. What \<^verbatim>\<open>python-can\<close> and \<^verbatim>\<open>asyncua\<close> do with a connect, a send or a write
  is an argument of the operation; the CAN reader thread is the function from what \<^verbatim>\<open>recv\<close> yields to the frames
  that it hands to the event loop.
\<close>

section \<open>CAN bus\<close>

record canbus = adapter +
  can_interface :: string
  can_channel :: string
  bitrate :: int
  bus_open :: bool
  can_running :: bool
  reader_started :: bool

definition canbus_init ::
  "bool \<Rightarrow> uuid \<Rightarrow> string \<Rightarrow> string \<Rightarrow> int \<Rightarrow> agent_identity option \<Rightarrow> identity_manager option \<Rightarrow> py_exn + canbus" where
  "canbus_init available fresh interface channel rate ident mgr =
     (if \<not> available
      then Inl (ImportError ''python-can is required for CANbusAdapter. Install it with: pip install tpcp-core[industrial]'')
      else Inr \<lparr>ad_identity = identity_or ''CANbusAdapter'' fresh ident, ad_manager = mgr, ad_clock = 0,
             can_interface = interface, can_channel = channel, bitrate = rate, bus_open = False, can_running = False,
             reader_started = False\<rparr>)"

fun hex_of_val :: "pyval \<Rightarrow> py_exn + string" where
  "hex_of_val (PInt i) = Inr (py_hex i)"
| "hex_of_val (PBool b) = Inr (py_hex (if b then 1 else 0))"
| "hex_of_val _ = Inl (TypeError ''object cannot be interpreted as an integer'')"

text \<open>\<^verbatim>\<open>v * 1000\<close>\<close>

fun times_1000 :: "float_ops \<Rightarrow> pyval \<Rightarrow> py_exn + pyval" where
  "times_1000 F (PInt i) = Inr (PInt (i * 1000))"
| "times_1000 F (PBool b) = Inr (PInt (if b then 1000 else 0))"
| "times_1000 F (PFloat r) = Inr (PFloat (float_kilo F r))"
| "times_1000 F (PStr s) = Inr (PStr (concat (replicate 1000 s)))"
| "times_1000 F (PList vs) = Inr (PList (concat (replicate 1000 vs)))"
| "times_1000 F _ = Inl (TypeError ''unsupported operand type(s) for *'')"

definition can_pack ::
  "float_ops \<Rightarrow> platform \<Rightarrow> nenv \<Rightarrow> uuid \<Rightarrow> (string, pyval) dict \<Rightarrow> intent \<Rightarrow> canbus \<Rightarrow> canbus \<times> (py_exn + envelope)" where
  "can_pack F P env target raw i a =
     (let a = tick a;
          bytes = raw_get raw ''data'' (PList [])
      in (a,
          bind_exn (hex_of_val (raw_get raw ''arbitration_id'' (PInt 0))) (\<lambda>h.
          bind_exn (times_1000 F (raw_get raw ''timestamp'' (PInt 0))) (\<lambda>t.
          bind_exn (py_int t) (\<lambda>ts.
          bind_exn (if truthy bytes then bind_exn (index0 bytes) (py_float F) else Inr ''0.0'') (\<lambda>v.
          seal_optional P env target i (one_reading (''can_'' @ h) ''raw'' v ts None ''canbus'') a))))))"

definition can_unpack :: "envelope \<Rightarrow> pyval" where
  "can_unpack = unpack_command"

text \<open>\<^verbatim>\<open>bytes(x)\<close>\<close>

fun byte_item :: "pyval \<Rightarrow> py_exn + byte" where
  "byte_item (PInt i) =
     (if 0 \<le> i \<and> i < 256 then Inr (word_of_int i) else Inl (ValueError ''bytes must be in range(0, 256)''))"
| "byte_item (PBool b) = Inr (if b then 1 else 0)"
| "byte_item _ = Inl (TypeError ''object cannot be interpreted as an integer'')"

fun byte_items :: "pyval list \<Rightarrow> py_exn + bytes" where
  "byte_items [] = Inr []"
| "byte_items (v # vs) = bind_exn (byte_item v) (\<lambda>b. map_sum id ((#) b) (byte_items vs))"

fun py_bytes :: "pyval \<Rightarrow> py_exn + bytes" where
  "py_bytes (PInt n) = (if n < 0 then Inl (ValueError ''negative count'') else Inr (replicate (nat n) 0))"
| "py_bytes (PBool b) = Inr (if b then [0] else [])"
| "py_bytes (PList vs) = byte_items vs"
| "py_bytes (PDict kvs) = (if kvs = [] then Inr [] else Inl (TypeError ''object cannot be interpreted as an integer''))"
| "py_bytes (PStr s) = Inl (TypeError ''string argument without an encoding'')"
| "py_bytes _ = Inl (TypeError ''cannot convert object to bytes'')"

record can_frame =
  arbitration_id :: int
  frame_data :: bytes
  is_extended_id :: bool

definition frame_of_command :: "pyval \<Rightarrow> py_exn + can_frame" where
  "frame_of_command cmd =
     bind_exn (py_item cmd ''arbitration_id'') (\<lambda>ad.
     bind_exn (py_int ad) (\<lambda>ident.
     bind_exn (py_item cmd ''data'') (\<lambda>d.
     bind_exn (py_bytes d) (\<lambda>bs.
     bind_exn (py_get cmd ''is_extended_id'' (PBool False)) (\<lambda>x.
       Inr \<lparr>arbitration_id = ident, frame_data = bs, is_extended_id = truthy x\<rparr>)))))"

text \<open>The frame that goes out, and the result; \<open>send\<close> tells whether building and sending the message succeeds.\<close>

definition execute_send :: "(can_frame \<Rightarrow> bool) \<Rightarrow> pyval \<Rightarrow> canbus \<Rightarrow> can_frame option \<times> bool" where
  "execute_send send cmd a =
     (if \<not> bus_open a then (None, False)
      else case frame_of_command cmd of
          Inl e \<Rightarrow> (None, False)
        | Inr f \<Rightarrow> if send f then (Some f, True) else (None, False))"

definition can_start_listening :: "py_exn option \<Rightarrow> canbus \<Rightarrow> canbus \<times> py_exn option" where
  "can_start_listening open_error a =
     (if bus_open a \<or> can_running a then (a, None)
      else case open_error of
          Some e \<Rightarrow> (a, Some e)
        | None \<Rightarrow> (a\<lparr>bus_open := True, can_running := True, reader_started := True\<rparr>, None))"

definition can_stop_listening :: "canbus \<Rightarrow> canbus" where
  "can_stop_listening a = a\<lparr>can_running := False, bus_open := False\<rparr>"

text \<open>A received frame has a time and a declared length besides its identifier and data.\<close>

record can_message = can_frame +
  dlc :: int
  frame_timestamp :: pyfloat

datatype recv = RecvTimeout | RecvMessage can_message | RecvError

fun reader_loop :: "int list option \<Rightarrow> recv list \<Rightarrow> can_message list" where
  "reader_loop can_ids [] = []"
| "reader_loop can_ids (RecvMessage m # rs) =
     (if can_ids \<noteq> None \<and> arbitration_id m \<notin> set (the can_ids) then reader_loop can_ids rs
      else m # reader_loop can_ids rs)"
| "reader_loop can_ids (_ # rs) = reader_loop can_ids rs"

definition dispatch_frame ::
  "float_ops \<Rightarrow> platform \<Rightarrow> nenv \<Rightarrow> uuid \<Rightarrow> can_message \<Rightarrow> canbus \<Rightarrow> canbus \<times> (envelope \<times> uuid) list" where
  "dispatch_frame F P env target m a =
     (case can_pack F P env target
        [(''arbitration_id'', PInt (arbitration_id m)), (''data'', PList (map (\<lambda>b. PInt (uint b)) (frame_data m))),
         (''dlc'', PInt (dlc m)), (''timestamp'', PFloat (frame_timestamp m)), (''is_extended_id'', PBool (is_extended_id m))]
        STATE_SYNC a of
        (a, Inl e) \<Rightarrow> (a, [])
      | (a, Inr e) \<Rightarrow> (a, [(e, target)]))"

text \<open>The event loop runs the scheduled deliveries in order.\<close>

fun dispatch_frames ::
  "float_ops \<Rightarrow> platform \<Rightarrow> uuid \<Rightarrow> (nenv \<times> can_message) list \<Rightarrow> canbus \<Rightarrow> canbus \<times> (envelope \<times> uuid) list" where
  "dispatch_frames F P target [] a = (a, [])"
| "dispatch_frames F P target ((env, m) # ms) a =
     (let (a, out) = dispatch_frame F P env target m a;
          (a, rest) = dispatch_frames F P target ms a
      in (a, out @ rest))"

section \<open>OPC-UA\<close>

record opcua = adapter +
  server_url :: string
  subscription_interval_ms :: int
  opc_client :: bool  \<comment> \<open>whether a client is kept\<close>

definition opcua_init ::
  "bool \<Rightarrow> uuid \<Rightarrow> string \<Rightarrow> agent_identity option \<Rightarrow> int \<Rightarrow> identity_manager option \<Rightarrow> py_exn + opcua" where
  "opcua_init available fresh url ident interval mgr =
     (if \<not> available
      then Inl (ImportError ''asyncua is required for OPCUAAdapter. Install it with: pip install tpcp-core[industrial]'')
      else Inr \<lparr>ad_identity = identity_or ''OPCUAAdapter'' fresh ident, ad_manager = mgr, ad_clock = 0,
             server_url = url, subscription_interval_ms = interval, opc_client = False\<rparr>)"

definition opcua_sensor :: "string \<Rightarrow> string" where
  "opcua_sensor node_id =
     ''opcua_'' @ replace_char (CHR ''='') (CHR ''_'') (replace_char (CHR '';'') (CHR ''_'') (replace_char (CHR '':'') (CHR ''_'') node_id))"

fun opt_str_field :: "pyval \<Rightarrow> py_exn + string option" where
  "opt_str_field PNone = Inr None"
| "opt_str_field (PStr s) = Inr (Some s)"
| "opt_str_field _ = Inl (ValidationError ''Input should be a valid string'')"

text \<open>\<open>binary\<close> is the entry \<^verbatim>\<open>value\<close> when it is a \<^verbatim>\<open>bytes\<close> object, which no \<open>pyval\<close> is.\<close>

definition opcua_pack ::
  "float_ops \<Rightarrow> platform \<Rightarrow> nenv \<Rightarrow> uuid \<Rightarrow> (string, pyval) dict \<Rightarrow> bytes option \<Rightarrow> intent \<Rightarrow> opcua \<Rightarrow>
   opcua \<times> (py_exn + envelope)" where
  "opcua_pack F P env target raw binary i a =
     (let a = tick a;
          node_id = py_str (raw_get raw ''node_id'' (PStr ''unknown''))
      in (a,
          case binary of
            Some bs \<Rightarrow>
              seal_optional P env target i
                (BinaryP \<lparr>bin_data_base64 = b64encode bs, bin_mime_type = ''application/octet-stream'', filename = None,
                   bin_description = Some (''opcua:'' @ node_id)\<rparr>) a
          | None \<Rightarrow>
              bind_exn (case py_float F (raw_get raw ''value'' (PFloat ''0.0'')) of
                          Inl (TypeError m) \<Rightarrow> Inr ''0.0''
                        | Inl (ValueError m) \<Rightarrow> Inr ''0.0''
                        | r \<Rightarrow> r) (\<lambda>v.
              bind_exn (py_int (raw_get raw ''timestamp_ms'' (PInt 0))) (\<lambda>ts.
              bind_exn (opt_str_field (raw_get raw ''quality'' PNone)) (\<lambda>q.
              bind_exn (str_field (raw_get raw ''unit'' (PStr []))) (\<lambda>u.
              seal_optional P env target i (one_reading (opcua_sensor node_id) u v ts q ''opcua'') a))))))"

definition opcua_unpack :: "envelope \<Rightarrow> pyval" where
  "opcua_unpack = unpack_command"

datatype opc_action = OpcConnect | OpcWrite pyval pyval | OpcDisconnect

text \<open>A write over the kept client or over a transient one: what reaches the server, and the result.
  \<open>connects\<close> and \<open>writes\<close> tell what succeeds.\<close>

definition opc_write_node :: "(pyval \<Rightarrow> pyval \<Rightarrow> bool) \<Rightarrow> pyval \<Rightarrow> opc_action list \<times> bool" where
  "opc_write_node writes cmd =
     (case (py_item cmd ''node_id'', py_item cmd ''value'') of
        (Inr node, Inr v) \<Rightarrow> if writes node v then ([OpcWrite node v], True) else ([], False)
      | _ \<Rightarrow> ([], False))"

definition opcua_execute_write ::
  "bool \<Rightarrow> (pyval \<Rightarrow> pyval \<Rightarrow> bool) \<Rightarrow> pyval \<Rightarrow> opcua \<Rightarrow> opc_action list \<times> (py_exn + bool)" where
  "opcua_execute_write connects writes cmd a =
     (case py_get cmd ''node_id'' PNone of
        Inl e \<Rightarrow> ([], Inl e)
      | Inr node \<Rightarrow>
          if \<not> truthy node then ([], Inr False)
          else if opc_client a then (case opc_write_node writes cmd of (acts, ok) \<Rightarrow> (acts, Inr ok))
          else if \<not> connects then ([], Inr False)
          else (case opc_write_node writes cmd of (acts, ok) \<Rightarrow> (OpcConnect # acts @ [OpcDisconnect], Inr ok)))"

text \<open>\<open>connect_error\<close> and \<open>subscribe_error\<close> are what the new client's connect and the subscription raise.\<close>

definition start_subscription ::
  "py_exn option \<Rightarrow> py_exn option \<Rightarrow> opcua \<Rightarrow> opcua \<times> opc_action list \<times> py_exn option" where
  "start_subscription connect_error subscribe_error a =
     (let closed = (if opc_client a then [OpcDisconnect] else [])
      in case connect_error of
           Some e \<Rightarrow> (a\<lparr>opc_client := False\<rparr>, closed, Some e)
         | None \<Rightarrow> (a\<lparr>opc_client := True\<rparr>, closed @ [OpcConnect], subscribe_error))"

definition opcua_quality :: "string \<Rightarrow> string" where
  "opcua_quality code =
     (if has_sub ''Good'' code then ''Good'' else if has_sub ''Bad'' code then ''Bad'' else ''Uncertain'')"

text \<open>\<open>code\<close> is the name of the notification's status code, when it has one.\<close>

definition datachange_notification ::
  "float_ops \<Rightarrow> platform \<Rightarrow> nenv \<Rightarrow> uuid \<Rightarrow> string \<Rightarrow> pyval \<Rightarrow> bytes option \<Rightarrow> string option \<Rightarrow> opcua \<Rightarrow>
   opcua \<times> (envelope \<times> uuid) list" where
  "datachange_notification F P env target node_id val binary code a =
     (case opcua_pack F P env target
        ([(''node_id'', PStr node_id), (''value'', val), (''timestamp_ms'', PInt (wall_clock env div 1000000))] @
         (case code of None \<Rightarrow> [] | Some c \<Rightarrow> [(''quality'', PStr (opcua_quality c))])) binary STATE_SYNC a of
        (a, Inl e) \<Rightarrow> (a, [])
      | (a, Inr e) \<Rightarrow> (a, [(e, target)]))"

section \<open>Properties of the CAN bridge\<close>

definition first_byte :: "bytes \<Rightarrow> byte" where
  "first_byte bs = (case bs of [] \<Rightarrow> 0 | b # _ \<Rightarrow> b)"

definition frame_payload :: "int \<Rightarrow> can_message \<Rightarrow> payload" where
  "frame_payload ts m =
     one_reading (''can_'' @ py_hex (arbitration_id m)) ''raw'' (show_int (uint (first_byte (frame_data m))) @ ''.0'') ts None ''canbus''"

lemma wf_frame_payload: "wf_payload (frame_payload ts m)"
  using float_lex_int by (simp add: frame_payload_def one_reading_def)

lemma show_int_0: "show_int 0 = ''0''"
  by code_simp

lemma dispatch_frame_eq:
  assumes "int_of_float (float_kilo F (frame_timestamp m)) = Inr ts"
  shows "dispatch_frame F P env target m a =
    (tick a, [(mk_envelope (adapter_header env a target STATE_SYNC) (frame_payload ts m)
       (map_option (seal_signature P (frame_payload ts m)) (ad_manager a)), target)])"
proof -
  have "adapter_header env (tick a) target STATE_SYNC = adapter_header env a target STATE_SYNC" "ad_manager (tick a) = ad_manager a"
    by (simp_all add: adapter_header_def tick_def)
  moreover have "uint b \<le> 2 ^ 53" for b :: byte using uint_lt2p [of b] by simp
  ultimately show ?thesis
    using assms seal_optional_eq [OF wf_frame_payload [of ts m], where P = P and env = env and t = target and i = STATE_SYNC and a = "tick a"]
    by (cases "frame_data m")
      (simp_all add: dispatch_frame_def can_pack_def raw_get_def Let_def first_of_def frame_payload_def first_byte_def
        float_of_int_def show_int_0)
qed

text \<open>The frames among what \<^verbatim>\<open>recv\<close> yielded, and the allowlist.\<close>

definition frames :: "recv list \<Rightarrow> can_message list" where
  "frames rs = List.map_filter (\<lambda>r. case r of RecvMessage m \<Rightarrow> Some m | _ \<Rightarrow> None) rs"

definition id_allowed :: "int list option \<Rightarrow> can_message \<Rightarrow> bool" where
  "id_allowed can_ids m = (case can_ids of None \<Rightarrow> True | Some ids \<Rightarrow> arbitration_id m \<in> set ids)"

lemma reader_loop_filter: "reader_loop can_ids rs = filter (id_allowed can_ids) (frames rs)"
  by (induction can_ids rs rule: reader_loop.induct)
    (auto simp: frames_def id_allowed_def map_filter_simps split: option.splits)

lemma dispatch_frames_payloads:
  assumes "\<forall>m \<in> set (map snd ms). int_of_float (float_kilo F (frame_timestamp m)) = Inr (ts m)"
  shows "map (\<lambda>(e, t). (payload e, t)) (snd (dispatch_frames F P target ms a)) = map (\<lambda>m. (frame_payload (ts m) m, target)) (map snd ms)"
  using assms
  by (induction F P target ms a rule: dispatch_frames.induct)
    (auto simp: dispatch_frame_eq case_prod_beta mk_envelope_def)

text \<open>C30: The CAN bridge reports every frame of an allowed identifier and no other: one message per such frame, in the
  order of reception, with the identifier's sensor, the first data byte as the value and the frame's time;
  timeouts and read errors in between change nothing.\<close>

theorem can_frames_reported:
  assumes "map snd ms = reader_loop can_ids rs"
    and "\<forall>m \<in> set (frames rs). int_of_float (float_kilo F (frame_timestamp m)) = Inr (ts m)"
  shows "map (\<lambda>(e, t). (payload e, t)) (snd (dispatch_frames F P target ms a)) =
    map (\<lambda>m. (frame_payload (ts m) m, target)) (filter (id_allowed can_ids) (frames rs))"
proof -
  have "\<forall>m \<in> set (map snd ms). int_of_float (float_kilo F (frame_timestamp m)) = Inr (ts m)"
    unfolding assms(1) reader_loop_filter using assms(2) by simp
  from dispatch_frames_payloads [OF this] show ?thesis by (simp only: assms(1) reader_loop_filter)
qed

definition demo_frame :: "int \<Rightarrow> byte \<Rightarrow> can_message" where
  "demo_frame i b = \<lparr>arbitration_id = i, frame_data = [b], is_extended_id = False, dlc = 1, frame_timestamp = ''2.5''\<rparr>"

definition demo_floats :: float_ops where
  "demo_floats = \<lparr>float_of_big = (\<lambda>_. None), float_of_text = (\<lambda>_. None), float_kilo = (\<lambda>_. ''2500.0'')\<rparr>"

lemma demo_float_time: "int_of_float (float_kilo demo_floats r) = Inr 2500"
proof -
  have "dec_val (''2500'' @ ''0'') = 25000" by code_simp
  moreover have "take_sign ''2500.0'' = ([], ''2500.0'')" "takeWhile is_digit ''2500.0'' = ''2500''"
    "dropWhile is_digit ''2500.0'' = ''.0''" "takeWhile is_digit ''0'' = ''0''" "dropWhile (\<lambda>c. c \<noteq> CHR ''e'') ''.0'' = []"
    "dropWhile (\<lambda>c. c = CHR ''+'') (tl []) = []" "take_sign [] = ([], [])" "dec_val [] = 0"
    by code_simp+
  ultimately have "float_value ''2500.0'' = 2500" by (simp add: float_value_def Let_def)
  then show ?thesis by (simp add: demo_floats_def int_of_float_def trunc_real_def)
qed

definition demo_can :: canbus where
  "demo_can = \<lparr>ad_identity = demo_peer, ad_manager = Some sample_manager, ad_clock = 0, can_interface = ''socketcan'',
     can_channel = ''can0'', bitrate = 500000, bus_open = True, can_running = True, reader_started = True\<rparr>"

theorem can_frames_reported_witness:
  "map (\<lambda>(e, t). (payload e, t)) (snd (dispatch_frames demo_floats demo_platform 0 [(at_time 0, demo_frame 291 7)] demo_can)) =
     [(frame_payload 2500 (demo_frame 291 7), 0)]"
proof -
  let ?rs = "[RecvMessage (demo_frame 5 1), RecvTimeout, RecvMessage (demo_frame 291 7)]"
  have m: "map snd [(at_time 0, demo_frame 291 7)] = reader_loop (Some [291]) ?rs"
    by (simp add: demo_frame_def)
  have "\<forall>m \<in> set (frames ?rs). int_of_float (float_kilo demo_floats (frame_timestamp m)) = Inr 2500"
    by (simp add: demo_float_time)
  from can_frames_reported [OF m this, of demo_platform 0 demo_can] show ?thesis
    by (simp add: frames_def id_allowed_def map_filter_simps demo_frame_def)
qed

text \<open>What a CAN message tells: two frames give the same payload exactly when they agree in the numerical identifier,
  the first data byte (an empty frame counting as a zero byte) and the time. Distinct identifiers never share a
  sensor, but the remaining data bytes and the distinction between standard and extended identifiers are lost.\<close>

theorem can_payload_identifies:
  "frame_payload t m = frame_payload t' m' \<longleftrightarrow>
     arbitration_id m = arbitration_id m' \<and> first_byte (frame_data m) = first_byte (frame_data m') \<and> t = t'"
  by (auto simp: frame_payload_def one_reading_def show_int_inj word_uint_eq_iff dest: py_hex_inj)

lemma byte_items_bytes: "byte_items (map (\<lambda>b. PInt (uint b)) bs) = Inr bs"
proof -
  have "uint b < 256" for b :: byte using uint_lt2p [of b] by simp
  then show ?thesis by (induction bs) simp_all
qed

text \<open>A CAN command survives the trip through the swarm: the JSON text of an identifier, data bytes and the extended
  flag, received as a text message, makes the adapter send exactly that frame.\<close>

theorem can_command_roundtrip:
  assumes "payload e = TextP (text_of (enc_raw (plain_opts False) (PDict [(''arbitration_id'', PInt i),
      (''data'', PList (map (\<lambda>b. PInt (uint b)) bs)), (''is_extended_id'', PBool x)])))"
    and "bus_open a" "send \<lparr>arbitration_id = i, frame_data = bs, is_extended_id = x\<rparr>"
  shows "execute_send send (can_unpack e) a = (Some \<lparr>arbitration_id = i, frame_data = bs, is_extended_id = x\<rparr>, True)"
proof -
  let ?v = "PDict [(''arbitration_id'', PInt i), (''data'', PList (map (\<lambda>b. PInt (uint b)) bs)), (''is_extended_id'', PBool x)]"
  have "json_val ?v" by (simp add: dict_wf_def list_all_iff)
  from loads_enc_raw [OF plain_opts_std this] assms(1) have u: "can_unpack e = ?v"
    by (simp add: can_unpack_def unpack_command_def text_of_def del: enc_raw.simps)
  show ?thesis unfolding u using assms(2,3) by (simp add: execute_send_def frame_of_command_def byte_items_bytes)
qed

theorem can_command_roundtrip_witness:
  "execute_send (\<lambda>_. True) (can_unpack (demo_envelope 1 TASK_REQUEST (TextP (text_of (enc_raw (plain_opts False)
     (PDict [(''arbitration_id'', PInt 291), (''data'', PList (map (\<lambda>b. PInt (uint b)) [1, 0, 255 :: byte])), (''is_extended_id'', PBool False)])))) None))
     demo_can = (Some \<lparr>arbitration_id = 291, frame_data = [1, 0, 255], is_extended_id = False\<rparr>, True)"
  by (rule can_command_roundtrip) (simp_all add: demo_can_def del: enc_raw.simps)

section \<open>Properties of the OPC-UA bridge\<close>

datatype opcua_event = StartSubscription "py_exn option" "py_exn option" | ExecuteWriteCmd bool "pyval \<Rightarrow> pyval \<Rightarrow> bool" pyval

fun opcua_step :: "opcua_event \<Rightarrow> opcua \<Rightarrow> opcua \<times> opc_action list" where
  "opcua_step (StartSubscription ce se) a = (case start_subscription ce se a of (a, acts, ex) \<Rightarrow> (a, acts))"
| "opcua_step (ExecuteWriteCmd conn wr cmd) a = (a, fst (opcua_execute_write conn wr cmd a))"

fun opcua_run :: "opcua_event list \<Rightarrow> opcua \<Rightarrow> opcua \<times> opc_action list" where
  "opcua_run [] a = (a, [])"
| "opcua_run (ev # evs) a =
     (let (a, acts) = opcua_step ev a; (a, rest) = opcua_run evs a in (a, acts @ rest))"

text \<open>The connections open after a sequence of actions.\<close>

fun open_after :: "opc_action list \<Rightarrow> int \<Rightarrow> int" where
  "open_after [] n = n"
| "open_after (OpcConnect # as) n = open_after as (n + 1)"
| "open_after (OpcDisconnect # as) n = open_after as (n - 1)"
| "open_after (OpcWrite node v # as) n = open_after as n"

lemma open_after_append: "open_after (as @ bs) n = open_after bs (open_after as n)"
  by (induction as n rule: open_after.induct) simp_all

lemma open_after_write: "open_after (fst (opc_write_node wr cmd)) n = n"
  by (simp add: opc_write_node_def split: sum.splits)

definition kept :: "opcua \<Rightarrow> int" where
  "kept a = (if opc_client a then 1 else 0)"

lemma step_connections: "open_after (snd (opcua_step ev a)) (kept a) = kept (fst (opcua_step ev a))"
proof (cases ev)
  case (StartSubscription ce se)
  then show ?thesis by (auto simp: start_subscription_def kept_def split: option.splits)
next
  case (ExecuteWriteCmd conn wr cmd)
  then show ?thesis
    by (auto simp: opcua_execute_write_def case_prod_beta open_after_append open_after_write split: sum.splits)
qed

text \<open>The OPC-UA adapter never leaks a connection: after any sequence of subscriptions (failing ones included) and
  writes (over the kept client or a transient one, successful or not) the connections open to the server are
  exactly the one client that the adapter keeps, if it keeps one.\<close>

theorem opcua_connections_balanced:
  "open_after (snd (opcua_run evs a)) (if opc_client a then 1 else 0) =
     (if opc_client (fst (opcua_run evs a)) then 1 else 0)"
proof -
  have "open_after (snd (opcua_run evs a)) (kept a) = kept (fst (opcua_run evs a))"
    by (induction evs arbitrary: a) (simp_all add: Let_def case_prod_beta open_after_append step_connections)
  then show ?thesis by (simp only: kept_def)
qed

end
