(* ===== verification/Edge.thy ===== *)
theory Edge
  imports Modbus
begin

text \<open>
  The edge adapters: \<^verbatim>\<open>MQTTAdapter\<close> (\<^verbatim>\<open>tpcp/adapters/mqtt_adapter.py\<close>), \<^verbatim>\<open>HomeAssistantAdapter\<close>
  (\<^verbatim>\<open>homeassistant_adapter.py\<close>) and \<^verbatim>\<open>ROS2Adapter\<close> (\<^verbatim>\<open>ros2_adapter.py\<close>). They write what devices report
  into the swarm's last-writer-wins map, as \<^verbatim>\<open>State_Sync\<close> messages of one entry, and turn text messages into
  commands. The broker, the HTTP client and ROS are arguments; \<open>wall_clock\<close> counts nanoseconds.
\<close>

section \<open>Shared parts\<close>

text \<open>These adapters insist on a key.\<close>

definition seal_required ::
  "platform \<Rightarrow> nenv \<Rightarrow> uuid \<Rightarrow> intent \<Rightarrow> payload \<Rightarrow> 'a adapter_scheme \<Rightarrow> py_exn + envelope" where
  "seal_required P env target i pl a =
     bind_exn (require_identity_manager a) (\<lambda>m.
       map_sum id (\<lambda>sig. mk_envelope (adapter_header env a target i) pl (Some sig))
         (sign_payload (ed_prims P) m (model_dump pl)))"

definition adapter_writer :: "'a adapter_scheme \<Rightarrow> string" where
  "adapter_writer a = uuid_str (agent_id (ad_identity a))"

definition lww_record :: "pyval \<Rightarrow> int \<Rightarrow> string \<Rightarrow> pyval" where
  "lww_record v ts w = PDict [(''value'', v), (''timestamp'', PInt ts), (''writer_id'', PStr w)]"

definition edge_payload :: "(string, pyval) dict \<Rightarrow> 'a adapter_scheme \<Rightarrow> payload" where
  "edge_payload st a = CrdtP \<lparr>crdt_type = ''LWW-Map'', crdt_state = st, vector_clock = [(adapter_writer a, ad_clock a)]\<rparr>"

text \<open>\<^verbatim>\<open>k in x\<close>\<close>

fun py_in :: "string \<Rightarrow> pyval \<Rightarrow> py_exn + bool" where
  "py_in k (PDict kvs) = Inr (map_of kvs k \<noteq> None)"
| "py_in k (PList vs) = Inr (PStr k \<in> set vs)"
| "py_in k (PStr s) = Inr (has_sub k s)"
| "py_in k _ = Inl (TypeError ''argument is not iterable'')"

text \<open>\<^verbatim>\<open>k1 in x and k2 in x ...\<close>\<close>

fun all_in :: "string list \<Rightarrow> pyval \<Rightarrow> py_exn + bool" where
  "all_in [] v = Inr True"
| "all_in (k # ks) v = bind_exn (py_in k v) (\<lambda>b. if b then all_in ks v else Inr False)"

definition error_reply :: "string \<Rightarrow> pyval" where
  "error_reply msg = PDict [(''status'', PStr ''error''), (''message'', PStr msg)]"

section \<open>MQTT\<close>

record mqtt = adapter +
  broker_host :: string
  broker_port :: int
  allowed_topics :: "string list option"
  subscribed_topics :: "string list"
  mq_callback :: bool
  mq_loop :: bool

definition mqtt_init ::
  "bool \<Rightarrow> agent_identity \<Rightarrow> string \<Rightarrow> int \<Rightarrow> identity_manager option \<Rightarrow> string list option \<Rightarrow> py_exn + mqtt" where
  "mqtt_init available ident host port mgr topics =
     (if \<not> available
      then Inl (ImportError ''paho-mqtt is required for MQTTAdapter. Install it with: pip install tpcp-core[edge]'')
      else Inr \<lparr>ad_identity = ident, ad_manager = mgr, ad_clock = 0, broker_host = host, broker_port = port,
             allowed_topics = topics, subscribed_topics = [], mq_callback = False, mq_loop = False\<rparr>)"

definition is_topic_allowed :: "string \<Rightarrow> mqtt \<Rightarrow> bool" where
  "is_topic_allowed topic a = (case allowed_topics a of None \<Rightarrow> True | Some ts \<Rightarrow> topic \<in> set ts)"

definition mqtt_key :: "string \<Rightarrow> string" where
  "mqtt_key topic = ''mqtt_'' @ replace_char (CHR ''/'') (CHR ''_'') topic"

definition mqtt_value :: "string \<Rightarrow> pyval" where
  "mqtt_value data = (case json_loads data of Some v \<Rightarrow> v | None \<Rightarrow> PStr data)"

definition mqtt_pack ::
  "platform \<Rightarrow> nenv \<Rightarrow> uuid \<Rightarrow> (string, pyval) dict \<Rightarrow> intent \<Rightarrow> mqtt \<Rightarrow> mqtt \<times> (py_exn + envelope)" where
  "mqtt_pack P env target raw i a =
     (case raw_get raw ''payload'' (PStr []) of
        PStr data \<Rightarrow>
          (let val = mqtt_value data
           in case raw_get raw ''topic'' (PStr ''unknown/sensor'') of
                PStr topic \<Rightarrow>
                  (let a = tick a;
                       st = [(mqtt_key topic, lww_record val (wall_clock env div 1000000) (adapter_writer a))]
                   in (a, seal_required P env target i (edge_payload st a) a))
              | _ \<Rightarrow> (a, Inl (AttributeError ''object has no attribute replace'')))
      | _ \<Rightarrow> (a, Inl (TypeError ''the JSON object must be str, bytes or bytearray'')))"

text \<open>\<open>publish\<close> is what the client's \<^verbatim>\<open>publish\<close> raises.\<close>

definition mqtt_unpack ::
  "(pyval \<Rightarrow> string \<Rightarrow> py_exn option) \<Rightarrow> envelope \<Rightarrow> mqtt \<Rightarrow> (pyval \<times> string) list \<times> (py_exn + pyval)" where
  "mqtt_unpack publish e a =
     (let invalid = ([], Inr (error_reply ''Invalid TPCP-to-MQTT command.''))
      in case payload e of
           TextP t \<Rightarrow>
             (case json_loads (content t) of
                None \<Rightarrow> invalid
              | Some cmd \<Rightarrow>
                  (case all_in [''topic'', ''payload''] cmd of
                     Inl ex \<Rightarrow> ([], Inl ex)
                   | Inr False \<Rightarrow> invalid
                   | Inr True \<Rightarrow>
                       (case bind_exn (py_item cmd ''payload'') (\<lambda>p. bind_exn (py_item cmd ''topic'') (\<lambda>topic.
                                bind_exn (case p of PDict d \<Rightarrow> json_dumps_raw (plain_opts False) p | _ \<Rightarrow> Inr (py_str p))
                                  (\<lambda>body. Inr (topic, body)))) of
                          Inl ex \<Rightarrow> ([], Inl ex)
                        | Inr (topic, body) \<Rightarrow>
                            (case publish topic body of
                               Some ex \<Rightarrow> ([], Inl ex)
                             | None \<Rightarrow> ([(topic, body)], Inr (PDict [(''status'', PStr ''published'')]))))))
         | _ \<Rightarrow> invalid)"

text \<open>\<open>in_loop\<close>: whether an event loop runs where the connection is started. A failing connect is only logged.\<close>

definition start_broker_connection :: "bool \<Rightarrow> string list \<Rightarrow> mqtt \<Rightarrow> mqtt" where
  "start_broker_connection in_loop topics a = a\<lparr>subscribed_topics := topics, mq_callback := True, mq_loop := in_loop\<rparr>"

definition on_connect :: "int \<Rightarrow> mqtt \<Rightarrow> string list" where
  "on_connect rc a = (if rc = 0 then subscribed_topics a else [])"

text \<open>\<open>decoded\<close> is the message's payload as UTF-8 text, \<open>None\<close> when it is none; the result is what the callback is
  scheduled with.\<close>

definition on_message ::
  "platform \<Rightarrow> nenv \<Rightarrow> bool \<Rightarrow> string \<Rightarrow> string option \<Rightarrow> mqtt \<Rightarrow> mqtt \<times> envelope list" where
  "on_message P env loop_running topic decoded a =
     (if \<not> mq_callback a then (a, [])
      else case decoded of
          None \<Rightarrow> (a, [])
        | Some data \<Rightarrow>
            (case mqtt_pack P env 0 [(''topic'', PStr topic), (''payload'', PStr data)] STATE_SYNC a of
               (a, Inl ex) \<Rightarrow> (a, [])
             | (a, Inr e) \<Rightarrow> (a, if mq_loop a \<and> loop_running then [e] else [])))"

section \<open>Home Assistant\<close>

record homeassistant = adapter +
  ha_url :: string
  ha_token :: string
  ha_session :: bool
  ha_listening :: bool

definition rstrip_slash :: "string \<Rightarrow> string" where
  "rstrip_slash s = rev (dropWhile (\<lambda>c. c = CHR ''/'') (rev s))"

definition ha_init ::
  "bool \<Rightarrow> agent_identity \<Rightarrow> string \<Rightarrow> string \<Rightarrow> identity_manager option \<Rightarrow> py_exn + homeassistant" where
  "ha_init available ident url token mgr =
     (if \<not> available
      then Inl (ImportError ''aiohttp is required for HomeAssistantAdapter. Install it with: pip install tpcp-core[edge]'')
      else Inr \<lparr>ad_identity = ident, ad_manager = mgr, ad_clock = 0, ha_url = rstrip_slash url, ha_token = token,
             ha_session = False, ha_listening = False\<rparr>)"

definition get_session :: "homeassistant \<Rightarrow> homeassistant" where
  "get_session a = (if ha_session a then a else a\<lparr>ha_session := True\<rparr>)"

definition ha_pack ::
  "platform \<Rightarrow> nenv \<Rightarrow> uuid \<Rightarrow> pyval \<Rightarrow> intent \<Rightarrow> homeassistant \<Rightarrow> homeassistant \<times> (py_exn + envelope)" where
  "ha_pack P env target raw i a =
     (case bind_exn (py_get raw ''entity_id'' (PStr ''unknown_entity'')) (\<lambda>ent.
             bind_exn (py_get raw ''new_state'' (PDict [])) (\<lambda>new.
             bind_exn (py_get new ''state'' PNone) (\<lambda>val. Inr (ent, val)))) of
        Inl ex \<Rightarrow> (a, Inl ex)
      | Inr (ent, val) \<Rightarrow>
          (let a = tick a;
               st = [(''ha_'' @ py_str ent, lww_record val (wall_clock env div 1000000) (adapter_writer a))]
           in (a, seal_required P env target i (edge_payload st a) a)))"

text \<open>\<^verbatim>\<open>data.update(x)\<close> for a dictionary or a list of pairs (with texts as keys).\<close>

fun pair_of :: "pyval \<Rightarrow> (string \<times> pyval) option" where
  "pair_of (PList [PStr k, v]) = Some (k, v)"
| "pair_of (PStr [c, d]) = Some ([c], PStr [d])"
| "pair_of _ = None"

fun dict_update :: "pyval \<Rightarrow> (string, pyval) dict \<Rightarrow> py_exn + (string, pyval) dict" where
  "dict_update (PDict kvs) d = Inr (fold (\<lambda>(k, v). AList.update k v) kvs d)"
| "dict_update (PList vs) d =
     (if list_all (\<lambda>v. pair_of v \<noteq> None) vs
      then Inr (fold (\<lambda>(k, v). AList.update k v) (map (the \<circ> pair_of) vs) d)
      else Inl (ValueError ''dictionary update sequence element has the wrong length''))"
| "dict_update (PStr s) d = Inl (ValueError ''dictionary update sequence element #0 has length 1; 2 is required'')"
| "dict_update _ d = Inl (TypeError ''object is not iterable'')"

text \<open>\<open>post\<close> tells whether the request succeeds; the result lists the requests made.\<close>

definition execute_service_call ::
  "(string \<Rightarrow> (string, pyval) dict \<Rightarrow> bool) \<Rightarrow> pyval \<Rightarrow> pyval \<Rightarrow> pyval \<Rightarrow> pyval \<Rightarrow> homeassistant \<Rightarrow>
   homeassistant \<times> (string \<times> (string, pyval) dict) list \<times> (py_exn + bool)" where
  "execute_service_call post domain service entity service_data a =
     (let d = [(''entity_id'', entity)]
      in case (if truthy service_data then dict_update service_data d else Inr d) of
           Inl ex \<Rightarrow> (a, [], Inl ex)
         | Inr d \<Rightarrow>
             (let url = ha_url a @ ''/api/services/'' @ py_str domain @ ''/'' @ py_str service
              in (get_session a, [(url, d)], Inr (post url d))))"

definition ha_unpack ::
  "(string \<Rightarrow> (string, pyval) dict \<Rightarrow> bool) \<Rightarrow> envelope \<Rightarrow> homeassistant \<Rightarrow>
   homeassistant \<times> (string \<times> (string, pyval) dict) list \<times> (py_exn + pyval)" where
  "ha_unpack post e a =
     (let invalid = (a, [], Inr (error_reply ''Invalid HomeAssistant physical command payload.''))
      in case payload e of
           TextP t \<Rightarrow>
             (case json_loads (content t) of
                None \<Rightarrow> invalid
              | Some cmd \<Rightarrow>
                  (case all_in [''domain'', ''service'', ''entity_id''] cmd of
                     Inl ex \<Rightarrow> (a, [], Inl ex)
                   | Inr False \<Rightarrow> invalid
                   | Inr True \<Rightarrow>
                       (case bind_exn (py_item cmd ''domain'') (\<lambda>dm. bind_exn (py_item cmd ''service'') (\<lambda>srv.
                                bind_exn (py_item cmd ''entity_id'') (\<lambda>ent.
                                bind_exn (py_get cmd ''service_data'' (PDict [])) (\<lambda>sd. Inr (dm, srv, ent, sd))))) of
                          Inl ex \<Rightarrow> (a, [], Inl ex)
                        | Inr (dm, srv, ent, sd) \<Rightarrow>
                            (case execute_service_call post dm srv ent sd a of
                               (a, reqs, Inl ex) \<Rightarrow> (a, reqs, Inl ex)
                             | (a, reqs, Inr ok) \<Rightarrow>
                                 (a, reqs, Inr (PDict [(''status'', PStr (if ok then ''success'' else ''failed'')),
                                    (''hardware_called'', PBool True)]))))))
         | _ \<Rightarrow> invalid)"

text \<open>One line of the event stream.\<close>

definition stream_line ::
  "platform \<Rightarrow> nenv \<Rightarrow> string \<Rightarrow> homeassistant \<Rightarrow> homeassistant \<times> (py_exn + envelope list)" where
  "stream_line P env line a =
     (let decoded = py_strip line; raw_json = drop 6 decoded
      in if take 6 decoded \<noteq> ''data: '' \<or> raw_json = ''ping'' then (a, Inr [])
         else case json_loads raw_json of
             None \<Rightarrow> (a, Inl (ValueError ''Expecting value''))
           | Some event \<Rightarrow>
               (case bind_exn (py_get event ''event_type'' PNone) (\<lambda>ty.
                        if ty = PStr ''state_changed'' then map_sum id Some (py_get event ''data'' (PDict [])) else Inr None) of
                  Inl ex \<Rightarrow> (a, Inl ex)
                | Inr None \<Rightarrow> (a, Inr [])
                | Inr (Some d) \<Rightarrow>
                    (case ha_pack P env 0 d STATE_SYNC a of
                       (a, Inl ex) \<Rightarrow> (a, Inl ex)
                     | (a, Inr e) \<Rightarrow> (a, Inr [e]))))"

text \<open>The lines of one connection: an exception closes the connection, and the loop opens another one five
  seconds later; what remains of the lines is not read.\<close>

fun stream_connection ::
  "platform \<Rightarrow> (nenv \<times> string) list \<Rightarrow> homeassistant \<Rightarrow> homeassistant \<times> envelope list \<times> py_exn option" where
  "stream_connection P [] a = (a, [], None)"
| "stream_connection P ((env, line) # lines) a =
     (case stream_line P env line a of
        (a, Inl ex) \<Rightarrow> (a, [], Some ex)
      | (a, Inr es) \<Rightarrow> (case stream_connection P lines a of (a, rest, ex) \<Rightarrow> (a, es @ rest, ex)))"

fun listen :: "platform \<Rightarrow> (nenv \<times> string) list list \<Rightarrow> homeassistant \<Rightarrow> homeassistant \<times> envelope list" where
  "listen P [] a = (a, [])"
| "listen P (c # cs) a =
     (let (a, es, ex) = stream_connection P c a; (a, rest) = listen P cs a in (a, es @ rest))"

definition start_event_stream :: "homeassistant \<Rightarrow> homeassistant" where
  "start_event_stream a = (get_session a)\<lparr>ha_listening := True\<rparr>"

definition ha_stop :: "homeassistant \<Rightarrow> homeassistant" where
  "ha_stop a = a\<lparr>ha_listening := False, ha_session := False\<rparr>"

section \<open>ROS2\<close>

record ros2 = adapter +
  ros_node_name :: string
  telemetry_topic :: string
  camera_topic :: string
  ros_node :: bool
  ros_bridge :: bool

definition ros2_init :: "agent_identity \<Rightarrow> identity_manager option \<Rightarrow> string \<Rightarrow> (string \<times> string) option \<Rightarrow> ros2" where
  "ros2_init ident mgr name topics =
     (let (tel, cam) = (case topics of None \<Rightarrow> (''/robot/telemetry'', ''/robot/camera_front/image_raw'') | Some t \<Rightarrow> t)
      in \<lparr>ad_identity = ident, ad_manager = mgr, ad_clock = 0, ros_node_name = name, telemetry_topic = tel,
          camera_topic = cam, ros_node = False, ros_bridge = False\<rparr>)"

text \<open>\<open>clock_field\<close> is Pydantic's reading of a given \<^verbatim>\<open>vector_clock\<close>.\<close>

definition ros_pack ::
  "(pyval \<Rightarrow> (string, int) dict option) \<Rightarrow> platform \<Rightarrow> nenv \<Rightarrow> uuid \<Rightarrow> pyval \<Rightarrow> intent \<Rightarrow> ros2 \<Rightarrow> ros2 \<times> (py_exn + envelope)" where
  "ros_pack clock_field P env target raw i a =
     (let unsupported = (a, Inl (ValueError ''Unsupported raw_output format for Base ROS2 pack_thought.''))
      in case raw of
           PDict d \<Rightarrow>
             (case map_of d ''state'' of
                None \<Rightarrow> unsupported
              | Some st \<Rightarrow>
                  (let a = tick a;
                       clk = (case map_of d ''vector_clock'' of None \<Rightarrow> Some [(adapter_writer a, ad_clock a)] | Some c \<Rightarrow> clock_field c)
                   in (a, case (st, clk) of
                            (PDict s, Some c) \<Rightarrow>
                              seal_required P env target i (CrdtP \<lparr>crdt_type = ''LWW-Map'', crdt_state = s, vector_clock = c\<rparr>) a
                          | _ \<Rightarrow> Inl (ValidationError ''CRDTSyncPayload''))))
         | PStr s \<Rightarrow> (a, seal_required P env target i (TextP (text_of s)) a)
         | _ \<Rightarrow> unsupported)"

text \<open>\<open>jpeg\<close> is what \<^verbatim>\<open>cv2.imencode\<close> makes of the image, \<open>None\<close> when it fails.\<close>

definition pack_image ::
  "platform \<Rightarrow> nenv \<Rightarrow> uuid \<Rightarrow> bytes option \<Rightarrow> int \<Rightarrow> int \<Rightarrow> string \<Rightarrow> ros2 \<Rightarrow> py_exn + envelope" where
  "pack_image P env target jpeg width height capt a =
     (case jpeg of
        None \<Rightarrow> Inl (RuntimeError ''Failed to encode CV2 image for TPCP payload.'')
      | Some b \<Rightarrow>
          seal_required P env target MEDIA_SHARE
            (ImageP \<lparr>img_data_base64 = b64encode b, img_mime_type = ''image/jpeg'', img_width = Some width,
               img_height = Some height, img_source_model = Some ''robot-camera'', caption = Some capt\<rparr>) a)"

definition start_ros2_spin :: "bool \<Rightarrow> ros2 \<Rightarrow> ros2 \<times> (py_exn + string list)" where
  "start_ros2_spin available a =
     (if \<not> available
      then (a, Inl (ImportError ''ROS2 environment (rclpy) is not available. Please run inside a ROS2 workspace.''))
      else (a\<lparr>ros_node := True, ros_bridge := True\<rparr>, Inr [telemetry_topic a, camera_topic a]))"

definition handle_ros_telemetry ::
  "(pyval \<Rightarrow> (string, int) dict option) \<Rightarrow> platform \<Rightarrow> nenv \<Rightarrow> string \<Rightarrow> ros2 \<Rightarrow> ros2 \<times> (py_exn + envelope list)" where
  "handle_ros_telemetry clock_field P env data a =
     (case json_loads data of
        None \<Rightarrow> (a, Inr [])
      | Some v \<Rightarrow>
          (case ros_pack clock_field P env 0
             (PDict [(''state'', PDict [(''robot_telemetry'', lww_record v 1 (adapter_writer a))])]) STATE_SYNC a of
             (a, r) \<Rightarrow> (a, map_sum id (\<lambda>e. [e]) r)))"

text \<open>\<open>img\<close> is the converted frame (\<open>None\<close> when the conversion raises): its JPEG, width and height.\<close>

definition handle_ros_image ::
  "platform \<Rightarrow> nenv \<Rightarrow> (bytes option \<times> int \<times> int) option \<Rightarrow> ros2 \<Rightarrow> envelope list" where
  "handle_ros_image P env img a =
     (if \<not> ros_bridge a then []
      else case img of
          None \<Rightarrow> []
        | Some (jpeg, width, height) \<Rightarrow>
            (case pack_image P env 0 jpeg width height ''Real-time optical frame from robot sensor'' a of
               Inl ex \<Rightarrow> [] | Inr e \<Rightarrow> [e]))"

definition ros_unpack :: "envelope \<Rightarrow> ros2 \<Rightarrow> pyval" where
  "ros_unpack e a =
     (if \<not> ros_node a then PNone
      else case payload e of TextP t \<Rightarrow> PStr (content t) | _ \<Rightarrow> PNone)"

text \<open>The node is destroyed; the reference to it stays.\<close>

definition ros_stop :: "bool \<Rightarrow> ros2 \<Rightarrow> string list" where
  "ros_stop rclpy_ok a = (if ros_node a then [''destroy_node''] else []) @ (if rclpy_ok then [''shutdown''] else [])"

section \<open>Facts about sync messages\<close>

lemma seal_required_eq:
  assumes "ad_manager a = Some m" "jsonable (PDict (model_dump pl))"
  shows "seal_required P env t i pl a = Inr (mk_envelope (adapter_header env a t i) pl (Some (seal_signature P pl m)))"
  using assms(1) by (simp add: seal_required_def require_identity_manager_def sign_payload_jsonable [OF assms(2)] seal_signature_def
      del: enc.simps)

lemma sync_jsonable: "jsonable v \<Longrightarrow> jsonable (PDict (model_dump (edge_payload [(k, lww_record v ts w)] a)))"
  by (simp add: edge_payload_def model_dump_def lww_record_def)

text \<open>What the handler of \<^verbatim>\<open>State_Sync\<close> does with such a message.\<close>

lemma sync_record_merge:
  assumes "payload e = CrdtP \<lparr>crdt_type = ''LWW-Map'', crdt_state = [(k, lww_record v ts w)], vector_clock = c\<rparr>"
  shows "handle_state_sync e n = (n\<lparr>shared_memory := lww_set k v (Some ts) (Some w) (shared_memory n)\<rparr>, None)"
  by (simp add: handle_state_sync_def assms lww_record_def record_field_def)

lemma lww_get_set:
  "lww_get k (lww_set k v (Some t) (Some w) m) =
     (case map_of (lww_state m) k of
        None \<Rightarrow> v
      | Some (v0, t0, w0) \<Rightarrow>
          if t0 < t \<or> t = t0 \<and> (w0 < w \<or> w = w0 \<and> dumps v0 < dumps v) then v else v0)"
  by (auto simp: lww_get_def lww_set_def persist_def Let_def dict_simps split: option.splits)

section \<open>What the adapters that report readings promise\<close>

text \<open>A reading becomes one signed message whose only entry holds it, with a time and the agent as its writer.\<close>

definition reading_payload :: "string \<Rightarrow> pyval \<Rightarrow> int \<Rightarrow> 'a adapter_scheme \<Rightarrow> payload" where
  "reading_payload k v ts a = edge_payload [(k, lww_record v ts (adapter_writer a))] (tick a)"

definition reading_message :: "platform \<Rightarrow> nenv \<Rightarrow> string \<Rightarrow> pyval \<Rightarrow> int \<Rightarrow> identity_manager \<Rightarrow> 'a adapter_scheme \<Rightarrow> envelope" where
  "reading_message P env k v ts m a =
     mk_envelope (adapter_header env a 0 STATE_SYNC) (reading_payload k v ts a)
       (Some (seal_signature P (reading_payload k v ts a) m))"

lemma reading_jsonable: "jsonable v \<Longrightarrow> jsonable (PDict (model_dump (reading_payload k v ts a)))"
  unfolding reading_payload_def by (rule sync_jsonable)

lemma sealed_reading:
  assumes "ad_manager a = Some m" "jsonable v"
  shows "seal_required P env 0 STATE_SYNC (edge_payload [(k, lww_record v ts (adapter_writer a))] (tick a)) (tick a) =
    Inr (reading_message P env k v ts m a)"
proof -
  have "ad_manager (tick a) = Some m" "adapter_header env (tick a) 0 STATE_SYNC = adapter_header env a 0 STATE_SYNC"
    using assms(1) by (simp_all add: tick_def adapter_header_def)
  with seal_required_eq [OF _ reading_jsonable [OF assms(2)], of "tick a" m P env 0 STATE_SYNC k ts a] show ?thesis
    by (simp add: reading_message_def reading_payload_def)
qed

lemma adapter_writer_tick [simp]: "adapter_writer (tick a) = adapter_writer a"
  by (simp add: adapter_writer_def tick_def)

lemma message_merge:
  "handle_state_sync (reading_message P env k v ts m a) n =
     (n\<lparr>shared_memory := lww_set k v (Some ts) (Some (adapter_writer a)) (shared_memory n)\<rparr>, None)"
  by (rule sync_record_merge) (simp add: reading_message_def reading_payload_def edge_payload_def mk_envelope_def)

text \<open>The contract, with \<open>key\<close>, \<open>val\<close> and \<open>stamp\<close> of a raw reading.\<close>

locale reading_adapter =
  fixes report :: "platform \<Rightarrow> nenv \<Rightarrow> 'r \<Rightarrow> 'a adapter_scheme \<Rightarrow> 'a adapter_scheme \<times> (py_exn + envelope)"
    and readable :: "'r \<Rightarrow> bool"
    and key :: "'r \<Rightarrow> string"
    and val :: "'r \<Rightarrow> pyval"
    and stamp :: "nenv \<Rightarrow> int"
  assumes reports: "readable r \<Longrightarrow> ad_manager a = Some m \<Longrightarrow>
      report P env r a = (tick a, Inr (reading_message P env (key r) (val r) (stamp env) m a))"
    and plain: "readable r \<Longrightarrow> jsonable (val r)"
begin

lemma stored:
  assumes "readable r" "ad_manager a = Some m"
    and "ed_correct (ed_prims P)" "manager_wf (ed_prims P) m" "\<forall>sk d. length sk = 32 \<longrightarrow> ed_sign (ed_prims P) sk d \<noteq> []"
    and "map_of (peer_registry n) (agent_id (ad_identity a)) = Some (peer, addr)" "public_key peer = get_public_key_string m"
    and "\<forall>v t w. map_of (lww_state (shared_memory n)) (key r) = Some (v, t, w) \<longrightarrow> t < stamp env"
  shows "\<exists>e. report P env r a = (tick a, Inr e) \<and> authentic P e n \<and>
    lww_get (key r) (shared_memory (fst (handle_state_sync e n))) = val r"
proof -
  let ?e = "reading_message P env (key r) (val r) (stamp env) m a"
  have "authentic P ?e n"
    using sealed_authentic [OF assms(3,4) reading_jsonable [OF plain [OF assms(1)], of "key r" "stamp env" a],
        where n = n and h = "adapter_header env a 0 STATE_SYNC"]
      assms(5-7) by (simp add: adapter_header_def reading_message_def)
  moreover have "lww_get (key r) (shared_memory (fst (handle_state_sync ?e n))) = val r"
    using assms(8) by (auto simp: message_merge lww_get_set split: option.splits)
  ultimately show ?thesis using reports [OF assms(1,2)] by blast
qed

text \<open>Two readings under one key, reported one after the other to a node that holds none: the second one counts
  when its time is later, or when the times are equal and its text is greater.\<close>

lemma second_reading:
  assumes "readable r1" "readable r2" "key r2 = key r1" "ad_manager a = Some m"
    and "map_of (lww_state (shared_memory n)) (key r1) = None"
  shows "\<exists>e1 e2. report P env1 r1 a = (tick a, Inr e1) \<and> report P env2 r2 (tick a) = (tick (tick a), Inr e2) \<and>
    lww_get (key r1) (shared_memory (fst (handle_state_sync e2 (fst (handle_state_sync e1 n))))) =
      (if stamp env1 < stamp env2 \<or> stamp env2 = stamp env1 \<and> dumps (val r1) < dumps (val r2) then val r2 else val r1)"
proof -
  have "ad_manager (tick a) = Some m" using assms(4) by (simp add: tick_def)
  note r = reports [OF assms(1,4), of P env1] reports [OF assms(2) this, of P env2]
  have "map_of (lww_state (lww_set (key r1) (val r1) (Some t) (Some w) (shared_memory n))) (key r1) = Some (val r1, t, w)" for t w
    using assms(5) by (simp add: lww_set_def persist_def Let_def dict_simps split: option.splits)
  then have "lww_get (key r1) (shared_memory (fst (handle_state_sync (reading_message P env2 (key r2) (val r2) (stamp env2) m (tick a))
        (fst (handle_state_sync (reading_message P env1 (key r1) (val r1) (stamp env1) m a) n))))) =
      (if stamp env1 < stamp env2 \<or> stamp env2 = stamp env1 \<and> dumps (val r1) < dumps (val r2) then val r2 else val r1)"
    by (simp add: message_merge assms(3) lww_get_set)
  with r show ?thesis by blast
qed

end

interpretation mqtt: reading_adapter
  "\<lambda>P env (topic, data). mqtt_pack P env 0 [(''topic'', PStr topic), (''payload'', PStr data)] STATE_SYNC"
  "\<lambda>_. True" "\<lambda>(topic, data). mqtt_key topic" "\<lambda>(topic, data). mqtt_value data" "\<lambda>env. wall_clock env div 1000000"
proof (unfold_locales, goal_cases)
  case (1 r a m P env)
  have "jsonable (mqtt_value (snd r))" by (auto simp: mqtt_value_def split: option.splits dest: loads_jsonable)
  from sealed_reading [OF 1(2) this, of P env] show ?case
    by (cases r) (simp add: mqtt_pack_def raw_get_def Let_def)
next
  case (2 r)
  show ?case by (cases r) (auto simp: mqtt_value_def split: option.splits dest: loads_jsonable)
qed

interpretation ha: reading_adapter
  "\<lambda>P env (ent, st). ha_pack P env 0 (PDict [(''entity_id'', PStr ent), (''new_state'', PDict [(''state'', st)])]) STATE_SYNC"
  "\<lambda>(ent, st). jsonable st" "\<lambda>(ent, st). ''ha_'' @ ent" "\<lambda>(ent, st). st" "\<lambda>env. wall_clock env div 1000000"
proof (unfold_locales, goal_cases)
  case (1 r a m P env)
  then show ?case
    using sealed_reading [OF 1(2), of "snd r" P env] by (cases r) (simp add: ha_pack_def Let_def)
qed auto

interpretation ros: reading_adapter
  "\<lambda>P env data a. case handle_ros_telemetry (\<lambda>_. None) P env data a of (b, r) \<Rightarrow> (b, map_sum id hd r)"
  "\<lambda>data. json_loads data \<noteq> None" "\<lambda>_. ''robot_telemetry''" "\<lambda>data. the (json_loads data)" "\<lambda>_. 1"
proof (unfold_locales, goal_cases)
  case (1 r a m P env)
  then obtain v where v: "json_loads r = Some v" by blast
  from sealed_reading [OF 1(2) loads_jsonable [OF v], of P env "''robot_telemetry''" 1] show ?case
    by (simp add: v handle_ros_telemetry_def ros_pack_def edge_payload_def)
qed (auto dest: loads_jsonable)

section \<open>Properties\<close>


text \<open>A change of a Home Assistant entity reaches the swarm's memory: the state of the event's entity is stored, under
  the entity's key, by every node that has the bridge's agent registered and holds no entry of the same or a later
  time.\<close>

theorem ha_state_is_stored:
  assumes "jsonable st" "ad_manager a = Some m"
    and "ed_correct (ed_prims P)" "manager_wf (ed_prims P) m" "\<forall>sk d. length sk = 32 \<longrightarrow> ed_sign (ed_prims P) sk d \<noteq> []"
    and "map_of (peer_registry n) (agent_id (ad_identity a)) = Some (peer, addr)" "public_key peer = get_public_key_string m"
    and "\<forall>v t w. map_of (lww_state (shared_memory n)) (''ha_'' @ ent) = Some (v, t, w) \<longrightarrow> t < wall_clock env div 1000000"
  shows "\<exists>e. snd (ha_pack P env 0 (PDict [(''entity_id'', PStr ent), (''new_state'', PDict [(''state'', st)])]) STATE_SYNC a) = Inr e \<and>
    authentic P e n \<and> lww_get (''ha_'' @ ent) (shared_memory (fst (handle_state_sync e n))) = st"
  using ha.stored [where r = "(ent, st)" and P = P and env = env, OF _ assms(2-7)] assms(1,8) by auto

definition demo_mqtt :: "string list option \<Rightarrow> mqtt" where
  "demo_mqtt topics = \<lparr>ad_identity = demo_peer, ad_manager = Some sample_manager, ad_clock = 0, broker_host = ''b'', broker_port = 1883,
     allowed_topics = topics, subscribed_topics = [''t''], mq_callback = True, mq_loop = True\<rparr>"

lemma demo_mqtt_simps [simp]:
  "ad_identity (demo_mqtt ts) = demo_peer" "ad_manager (demo_mqtt ts) = Some sample_manager" "mq_callback (demo_mqtt ts)"
  "mq_loop (demo_mqtt ts)" "allowed_topics (demo_mqtt ts) = ts"
  by (simp_all add: demo_mqtt_def)

lemma demo_peer_simps [simp]: "agent_id demo_peer = 1" "public_key demo_peer = get_public_key_string sample_manager"
  by (simp_all add: demo_peer_def)

lemma demo_memory [simp]: "lww_state (shared_memory demo_node) = []"
  by (simp add: demo_node_def register_peer_def new_node_def register_handler_def new_lww_def)


text \<open>Topics that differ only in a slash and an underscore overwrite each other's readings: when two of them have the
  same key, a node that receives a reading of each holds the later one only.\<close>

theorem mqtt_topics_collide:
  assumes "replace_char (CHR ''/'') (CHR ''_'') t1 = replace_char (CHR ''/'') (CHR ''_'') t2" "ad_manager a = Some m"
    and "wall_clock env1 div 1000000 < wall_clock env2 div 1000000"
    and "map_of (lww_state (shared_memory n)) (mqtt_key t1) = None"
  shows "\<exists>b e1 e2. mqtt_pack P env1 0 [(''topic'', PStr t1), (''payload'', PStr d1)] STATE_SYNC a = (b, Inr e1) \<and>
    snd (mqtt_pack P env2 0 [(''topic'', PStr t2), (''payload'', PStr d2)] STATE_SYNC b) = Inr e2 \<and>
    lww_get (mqtt_key t1) (shared_memory (fst (handle_state_sync e2 (fst (handle_state_sync e1 n))))) = mqtt_value d2"
  using mqtt.second_reading [where ?r1.0 = "(t1, d1)" and ?r2.0 = "(t2, d2)" and a = a and m = m and n = n and P = P and ?env1.0 = env1 and ?env2.0 = env2] assms by (fastforce simp: mqtt_key_def)

theorem mqtt_topics_collide_witness:
  "\<exists>b e1 e2. mqtt_pack demo_platform (at_time 0) 0 [(''topic'', PStr ''a/b''), (''payload'', PStr ''1'')] STATE_SYNC (demo_mqtt None) = (b, Inr e1) \<and>
    snd (mqtt_pack demo_platform (at_time 0\<lparr>wall_clock := 2000000\<rparr>) 0 [(''topic'', PStr ''a_b''), (''payload'', PStr ''2'')] STATE_SYNC b) = Inr e2 \<and>
    lww_get (mqtt_key ''a/b'') (shared_memory (fst (handle_state_sync e2 (fst (handle_state_sync e1 demo_node))))) = mqtt_value ''2''"
  by (rule mqtt_topics_collide) (simp_all add: replace_char_def at_time_def)

text \<open>The topic allowlist is not enforced: a message from the swarm that asks for a topic outside the adapter's
  \<^verbatim>\<open>allowed_topics\<close> is published like any other.\<close>

theorem mqtt_publishes_forbidden_topic:
  assumes "\<not> is_topic_allowed topic a"
    and "payload e = TextP (text_of (enc_raw (plain_opts False) (PDict [(''topic'', PStr topic), (''payload'', PStr body)])))"
    and "publish (PStr topic) body = None"
  shows "mqtt_unpack publish e a = ([(PStr topic, body)], Inr (PDict [(''status'', PStr ''published'')]))"
proof -
  have "json_val (PDict [(''topic'', PStr topic), (''payload'', PStr body)])" by (simp add: dict_wf_def)
  from loads_enc_raw [OF plain_opts_std this] show ?thesis
    using assms(3) by (simp add: mqtt_unpack_def assms(2) text_of_def del: enc_raw.simps)
qed

theorem mqtt_publishes_forbidden_topic_witness:
  "mqtt_unpack (\<lambda>_ _. None) (demo_envelope 1 TASK_REQUEST (TextP (text_of (enc_raw (plain_opts False)
      (PDict [(''topic'', PStr ''cmnd/relay''), (''payload'', PStr ''ON'')])))) None) (demo_mqtt (Some [])) =
     ([(PStr ''cmnd/relay'', ''ON'')], Inr (PDict [(''status'', PStr ''published'')]))"
  by (rule mqtt_publishes_forbidden_topic) (simp_all add: is_topic_allowed_def del: enc_raw.simps)

text \<open>Removing an entity breaks the Home Assistant stream: an event whose \<^verbatim>\<open>new_state\<close> is null raises, so the
  connection is dropped, and no later event of it is delivered.\<close>

theorem removed_entity_drops_stream:
  assumes "take 6 (py_strip line) = ''data: ''" "json_loads (drop 6 (py_strip line)) = Some (PDict ev)"
    and "map_of ev ''event_type'' = Some (PStr ''state_changed'')" "map_of ev ''data'' = Some (PDict d)"
    and "map_of d ''new_state'' = Some PNone"
  shows "stream_connection P ((env, line) # lines) a = (a, [], Some (AttributeError ''object has no attribute get''))"
proof -
  have "json_loads ''ping'' = None" by code_simp
  then have "drop 6 (py_strip line) \<noteq> ''ping''" using assms(2) by auto
  with assms show ?thesis by (simp add: stream_line_def ha_pack_def Let_def)
qed

theorem removed_entity_drops_stream_witness:
  "stream_connection demo_platform ((at_time 0, ''data: '' @ enc_raw (plain_opts False)
     (PDict [(''event_type'', PStr ''state_changed''), (''data'', PDict [(''entity_id'', PStr ''light.hall''), (''new_state'', PNone)])])) #
       [(at_time 1, ''data: {}'')])
     \<lparr>ad_identity = demo_peer, ad_manager = Some sample_manager, ad_clock = 0, ha_url = ''u'', ha_token = ''t'', ha_session = True,
       ha_listening = True\<rparr> =
   (\<lparr>ad_identity = demo_peer, ad_manager = Some sample_manager, ad_clock = 0, ha_url = ''u'', ha_token = ''t'', ha_session = True,
       ha_listening = True\<rparr>, [], Some (AttributeError ''object has no attribute get''))"
proof -
  let ?v = "PDict [(''event_type'', PStr ''state_changed''), (''data'', PDict [(''entity_id'', PStr ''light.hall''), (''new_state'', PNone)])]"
  let ?l = "''data: '' @ enc_raw (plain_opts False) ?v"
  have s: "py_strip ?l = ?l" by code_simp
  have v: "json_val ?v" by (simp add: dict_wf_def)
  show ?thesis
    by (rule removed_entity_drops_stream [where ev = "[(''event_type'', PStr ''state_changed''),
          (''data'', PDict [(''entity_id'', PStr ''light.hall''), (''new_state'', PNone)])]"
          and d = "[(''entity_id'', PStr ''light.hall''), (''new_state'', PNone)]"])
      (use loads_enc_raw [OF plain_opts_std v, of False] in \<open>simp_all only: s, simp_all del: enc_raw.simps\<close>)
qed

text \<open>Robot telemetry freezes: the ROS2 bridge stamps every reading with time 1, so that a node that holds one reading
  takes the next only if its JSON text is greater in the order of texts; a reading with a smaller text (a battery
  going from 90 to 85 percent) is ignored for good.\<close>

theorem ros_telemetry_freezes:
  assumes "ad_manager a = Some m" "json_loads s1 = Some v1" "json_loads s2 = Some v2"
    and "map_of (lww_state (shared_memory n)) ''robot_telemetry'' = None"
  shows "\<exists>a' e1 e2. handle_ros_telemetry (\<lambda>_. None) P env1 s1 a = (a', Inr [e1]) \<and>
    snd (handle_ros_telemetry (\<lambda>_. None) P env2 s2 a') = Inr [e2] \<and>
    lww_get ''robot_telemetry'' (shared_memory (fst (handle_state_sync e2 (fst (handle_state_sync e1 n))))) =
      (if dumps v1 < dumps v2 then v2 else v1)"
proof -
  have one: "\<exists>e. handle_ros_telemetry cf P env d b = (b', Inr [e]) \<and> e = e0" if "json_loads d \<noteq> None"
      "(case handle_ros_telemetry cf P env d b of (b, r) \<Rightarrow> (b, map_sum id hd r)) = (b', Inr e0)" for cf env d b b' e0
    using that by (cases "snd (ros_pack cf P env 0 (PDict [(''state'', PDict [(''robot_telemetry'', lww_record (the (json_loads d)) 1 (adapter_writer b))])]) STATE_SYNC b)")
      (auto simp: handle_ros_telemetry_def split: prod.splits)
  from ros.second_reading [where ?r1.0 = s1 and ?r2.0 = s2 and a = a and m = m and n = n and P = P and ?env1.0 = env1 and ?env2.0 = env2] assms obtain e1 e2 where
    "(case handle_ros_telemetry (\<lambda>_. None) P env1 s1 a of (b, r) \<Rightarrow> (b, map_sum id hd r)) = (tick a, Inr e1)"
    "(case handle_ros_telemetry (\<lambda>_. None) P env2 s2 (tick a) of (b, r) \<Rightarrow> (b, map_sum id hd r)) = (tick (tick a), Inr e2)"
    "lww_get ''robot_telemetry'' (shared_memory (fst (handle_state_sync e2 (fst (handle_state_sync e1 n))))) =
      (if dumps v1 < dumps v2 then v2 else v1)"
    by auto
  with one [OF _ this(1)] one [OF _ this(2)] assms(2,3) show ?thesis by fastforce
qed

definition demo_ros :: ros2 where
  "demo_ros = ros2_init demo_peer (Some sample_manager) ''tpcp_bridge'' None"

theorem ros_telemetry_freezes_witness:
  "\<exists>a' e1 e2. handle_ros_telemetry (\<lambda>_. None) demo_platform (at_time 0) ''90'' demo_ros = (a', Inr [e1]) \<and>
     snd (handle_ros_telemetry (\<lambda>_. None) demo_platform (at_time 9) ''85'' a') = Inr [e2] \<and>
     lww_get ''robot_telemetry'' (shared_memory (fst (handle_state_sync e2 (fst (handle_state_sync e1 demo_node))))) = PInt 90"
proof -
  have l: "json_loads ''90'' = Some (PInt 90)" "json_loads ''85'' = Some (PInt 85)" "\<not> dumps (PInt 90) < dumps (PInt 85)"
    by code_simp+
  have "ad_manager demo_ros = Some sample_manager" by (simp add: demo_ros_def ros2_init_def)
  from ros_telemetry_freezes [OF this l(1,2), of demo_node demo_platform "at_time 0" "at_time 9"] l(3)
  show ?thesis by simp
qed

text \<open>A Home Assistant command makes exactly one request: a text message with a domain, a service and an entity is
  posted to the URL of that service with that entity, and the reply tells whether the request succeeded.\<close>

theorem ha_command_posts_once:
  assumes "payload e = TextP (text_of (enc_raw (plain_opts False)
      (PDict [(''domain'', PStr dm), (''service'', PStr srv), (''entity_id'', PStr ent)])))"
  shows "snd (ha_unpack post e a) =
    ([(ha_url a @ ''/api/services/'' @ dm @ ''/'' @ srv, [(''entity_id'', PStr ent)])],
     Inr (PDict [(''status'', PStr (if post (ha_url a @ ''/api/services/'' @ dm @ ''/'' @ srv) [(''entity_id'', PStr ent)]
        then ''success'' else ''failed'')), (''hardware_called'', PBool True)]))"
proof -
  have "json_val (PDict [(''domain'', PStr dm), (''service'', PStr srv), (''entity_id'', PStr ent)])" by (simp add: dict_wf_def)
  from loads_enc_raw [OF plain_opts_std this] show ?thesis
    by (simp add: ha_unpack_def assms text_of_def execute_service_call_def Let_def del: enc_raw.simps)
qed

theorem ha_command_posts_once_witness:
  "snd (ha_unpack (\<lambda>_ _. True) (demo_envelope 1 TASK_REQUEST (TextP (text_of (enc_raw (plain_opts False)
      (PDict [(''domain'', PStr ''light''), (''service'', PStr ''turn_on''), (''entity_id'', PStr ''light.hall'')])))) None)
     \<lparr>ad_identity = demo_peer, ad_manager = None, ad_clock = 0, ha_url = ''http://ha'', ha_token = ''t'', ha_session = True,
       ha_listening = False\<rparr>) =
   ([(''http://ha/api/services/light/turn_on'', [(''entity_id'', PStr ''light.hall'')])],
     Inr (PDict [(''status'', PStr ''success''), (''hardware_called'', PBool True)]))"
proof -
  let ?e = "demo_envelope 1 TASK_REQUEST (TextP (text_of (enc_raw (plain_opts False)
      (PDict [(''domain'', PStr ''light''), (''service'', PStr ''turn_on''), (''entity_id'', PStr ''light.hall'')])))) None"
  have "payload ?e = TextP (text_of (enc_raw (plain_opts False)
      (PDict [(''domain'', PStr ''light''), (''service'', PStr ''turn_on''), (''entity_id'', PStr ''light.hall'')])))"
    by (simp del: enc_raw.simps)
  from ha_command_posts_once [OF this] show ?thesis by (simp del: enc_raw.simps)
qed

end
