(* ===== verification/Package.thy ===== *)
theory Package
  imports Adapters Modbus Industrial Edge
begin

text \<open>
  What \<^verbatim>\<open>tpcp.adapters\<close> exports (\<^verbatim>\<open>tpcp/adapters/__init__.py\<close>) as a function of the libraries that are
  installed. Every adapter module guards its own imports, and the package guards the import of every
  optional module.
\<close>

section \<open>Importing a module\<close>

datatype adapter_module =
    OpcuaM | ModbusM | CanbusM | MqttM | HomeAssistantM | Ros2M | AutoGenM | PydanticAiM | SmolagentsM
  | OpenaiAgentsM | LlamaIndexM | HaystackM | SemanticKernelM

text \<open>The libraries that the \<^verbatim>\<open>try\<close> block at the head of each module imports, in order.\<close>

primrec guarded_imports :: "adapter_module \<Rightarrow> string list" where
  "guarded_imports OpcuaM = [''asyncua'']"
| "guarded_imports ModbusM = [''pymodbus.client'']"
| "guarded_imports CanbusM = [''can'']"
| "guarded_imports MqttM = [''paho.mqtt.client'']"
| "guarded_imports HomeAssistantM = [''aiohttp'']"
| "guarded_imports Ros2M = [''rclpy'', ''rclpy.node'', ''std_msgs.msg'', ''sensor_msgs.msg'', ''cv_bridge'', ''cv2'']"
| "guarded_imports AutoGenM = [''autogen_agentchat'']"
| "guarded_imports PydanticAiM = [''pydantic_ai'']"
| "guarded_imports SmolagentsM = [''smolagents'']"
| "guarded_imports OpenaiAgentsM = [''openai'']"
| "guarded_imports LlamaIndexM = [''llama_index'']"
| "guarded_imports HaystackM = [''haystack'']"
| "guarded_imports SemanticKernelM = [''semantic_kernel'']"

fun import_all :: "string list \<Rightarrow> string list \<Rightarrow> py_exn option" where
  "import_all libs [] = None"
| "import_all libs (l # ls) =
     (if l \<in> set libs then import_all libs ls
      else Some (ImportError (''No module named '' @ repr_str l)))"

fun is_import_error :: "py_exn \<Rightarrow> bool" where
  "is_import_error (ImportError m) = True"
| "is_import_error _ = False"

text \<open>Running a module: the flag that its \<^verbatim>\<open>try\<close> block leaves (\<^verbatim>\<open>MQTT_AVAILABLE\<close> and so on), or the exception
  that leaves the module.\<close>

definition run_module :: "string list \<Rightarrow> adapter_module \<Rightarrow> py_exn + bool" where
  "run_module libs m =
     (case import_all libs (guarded_imports m) of
        None \<Rightarrow> Inr True
      | Some e \<Rightarrow> (if is_import_error e then Inr False else Inl e))"

section \<open>The package\<close>

primrec class_name :: "adapter_module \<Rightarrow> string" where
  "class_name OpcuaM = ''OPCUAAdapter''"
| "class_name ModbusM = ''ModbusAdapter''"
| "class_name CanbusM = ''CANbusAdapter''"
| "class_name MqttM = ''MQTTAdapter''"
| "class_name HomeAssistantM = ''HomeAssistantAdapter''"
| "class_name Ros2M = ''ROS2Adapter''"
| "class_name AutoGenM = ''AutoGenAdapter''"
| "class_name PydanticAiM = ''PydanticAIAdapter''"
| "class_name SmolagentsM = ''SmolagentsAdapter''"
| "class_name OpenaiAgentsM = ''OpenAIAgentsAdapter''"
| "class_name LlamaIndexM = ''LlamaIndexAdapter''"
| "class_name HaystackM = ''HaystackAdapter''"
| "class_name SemanticKernelM = ''SemanticKernelAdapter''"

definition guarded_modules :: "adapter_module list" where
  "guarded_modules = [OpcuaM, ModbusM, CanbusM, MqttM, HomeAssistantM, Ros2M, AutoGenM, PydanticAiM, SmolagentsM,
     OpenaiAgentsM, LlamaIndexM, HaystackM, SemanticKernelM]"

fun import_modules :: "string list \<Rightarrow> adapter_module list \<Rightarrow> string list \<Rightarrow> py_exn + string list" where
  "import_modules libs [] names = Inr names"
| "import_modules libs (m # ms) names =
     (case run_module libs m of
        Inr flag \<Rightarrow> import_modules libs ms (names @ [class_name m])
      | Inl e \<Rightarrow> (if is_import_error e then import_modules libs ms names else Inl e))"

text \<open>\<^verbatim>\<open>__all__\<close> after \<^verbatim>\<open>import tpcp.adapters\<close>.\<close>

definition adapters_all :: "string list \<Rightarrow> py_exn + string list" where
  "adapters_all libs =
     import_modules libs guarded_modules [''BaseFrameworkAdapter'', ''CrewAIAdapter'', ''LangGraphAdapter'']"

section \<open>Properties\<close>

lemma import_all_outcome:
  "import_all libs ls = None \<longleftrightarrow> set ls \<subseteq> set libs" "import_all libs ls = Some e \<Longrightarrow> is_import_error e"
  by (induction ls) (auto split: if_splits)

lemma run_module_flag: "run_module libs m = Inr (set (guarded_imports m) \<subseteq> set libs)"
  using import_all_outcome [of libs "guarded_imports m"] by (cases "import_all libs (guarded_imports m)") (simp_all add: run_module_def)

lemma import_modules_all: "import_modules libs ms names = Inr (names @ map class_name ms)"
  by (induction ms arbitrary: names) (simp_all add: run_module_flag)

text \<open>The flag that the constructor of an adapter checks.\<close>

definition available :: "string list \<Rightarrow> adapter_module \<Rightarrow> bool" where
  "available libs m = (case run_module libs m of Inl e \<Rightarrow> False | Inr flag \<Rightarrow> flag)"

lemma available_iff: "available libs m \<longleftrightarrow> set (guarded_imports m) \<subseteq> set libs"
  by (simp add: available_def run_module_flag)

definition refused :: "py_exn + 'a \<Rightarrow> bool" where
  "refused r \<longleftrightarrow> (case r of Inl e \<Rightarrow> is_import_error e | Inr a \<Rightarrow> False)"

lemmas constructors = modbus_init_def canbus_init_def opcua_init_def mqtt_init_def ha_init_def autogen_init_def
  pydantic_init_def smolagents_init_def openai_init_def llamaindex_init_def haystack_init_def
  semantic_kernel_init_def optional_init_def

text \<open>The guards of the package never act: whatever is installed, \<^verbatim>\<open>tpcp.adapters\<close> exports all sixteen
  classes. A missing library shows only when an adapter is made: the constructor raises an
  \<^verbatim>\<open>ImportError\<close> exactly when its library is absent.\<close>

theorem adapters_exported_regardless:
  "adapters_all libs =
     Inr ([''BaseFrameworkAdapter'', ''CrewAIAdapter'', ''LangGraphAdapter''] @ map class_name guarded_modules) \<and>
   (refused (modbus_init (available libs ModbusM) u h p un io mgr) \<longleftrightarrow> ''pymodbus.client'' \<notin> set libs) \<and>
   (refused (canbus_init (available libs CanbusM) u i c p io mgr) \<longleftrightarrow> ''can'' \<notin> set libs) \<and>
   (refused (opcua_init (available libs OpcuaM) u url io p mgr) \<longleftrightarrow> ''asyncua'' \<notin> set libs) \<and>
   (refused (mqtt_init (available libs MqttM) ident h p mgr topics) \<longleftrightarrow> ''paho.mqtt.client'' \<notin> set libs) \<and>
   (refused (ha_init (available libs HomeAssistantM) ident url token mgr) \<longleftrightarrow> ''aiohttp'' \<notin> set libs) \<and>
   (refused (autogen_init (available libs AutoGenM) ident mgr) \<longleftrightarrow> ''autogen_agentchat'' \<notin> set libs) \<and>
   (refused (semantic_kernel_init (available libs SemanticKernelM) ident mgr) \<longleftrightarrow> ''semantic_kernel'' \<notin> set libs)"
  by (simp add: adapters_all_def import_modules_all constructors available_iff refused_def)

end
