(* ===== verification/Entry.thy ===== *)
theory Entry
  imports Webhook Relay PyNum
begin

text \<open>
  The ways a node, the gateway and the relay are started: the asynchronous context manager of
  \<^verbatim>\<open>TPCPNode\<close> and the main blocks of \<^verbatim>\<open>relay/webhook.py\<close> and \<^verbatim>\<open>relay/server.py\<close>. What runs in between (the body of the
  \<^verbatim>\<open>async with\<close> statement, the HTTP server) is a parameter; the listening socket of the relay is outside.
\<close>

section \<open>async with TPCPNode(...)\<close>

definition async_with ::
  "(string, (string, lww_row) dict) dict \<Rightarrow> (node \<Rightarrow> node \<times> node_out list \<times> (py_exn + 'a)) \<Rightarrow> node \<Rightarrow>
   node \<times> node_out list \<times> (py_exn + 'a)" where
  "async_with files body n =
     (case start_listening files n of
        (n, Some e) \<Rightarrow> (n, [], Inl e)
      | (n, None) \<Rightarrow>
          (case body n of (n, outs, r) \<Rightarrow> (case stop_listening n of (n, shut) \<Rightarrow> (n, outs @ shut, r))))"

section \<open>The main blocks\<close>

text \<open>The standalone gateway: \<open>serve\<close> is what the HTTP server does until it is stopped, by way of the routes.\<close>

definition run_gateway ::
  "ed25519 \<Rightarrow> string option \<Rightarrow> bytes \<Rightarrow> uuid \<Rightarrow> filesystem \<Rightarrow> (gateway \<Rightarrow> gateway \<times> node_out list \<times> py_exn option) \<Rightarrow>
   gateway \<times> node_out list \<times> py_exn option" where
  "run_gateway ed env_key fresh u fs serve =
     (case snd (new_manager ed env_key fresh None None False fs) of
        Inl e \<Rightarrow> (new_gateway, [], Some e)
      | Inr mgr \<Rightarrow>
          (let ident = (mk_identity u ''FastAPI-Webhook-Gateway'' (get_public_key_string mgr))\<lparr>capabilities := [''http-bridge'']\<rparr>;
               n = new_node ident ''127.0.0.1'' 8080 None mgr False None;
               g = configure_gateway ident mgr n new_gateway
           in case start_listening [] n of
                (n, Some e) \<Rightarrow> (g\<lparr>local_tpcp_node := Some n\<rparr>, [], Some e)
              | (n, None) \<Rightarrow>
                  (case serve (g\<lparr>local_tpcp_node := Some n\<rparr>) of
                     (g, outs, x) \<Rightarrow>
                       (case local_tpcp_node g of
                          None \<Rightarrow> (g, outs, x)
                        | Some n \<Rightarrow> (case stop_listening n of
                            (n, shut) \<Rightarrow> (g\<lparr>local_tpcp_node := Some n\<rparr>, outs @ shut, x))))))"

text \<open>The relay: its port from \<^verbatim>\<open>TPCP_PORT\<close>, and the server object.\<close>

definition relay_main :: "string option \<Rightarrow> py_exn + string \<times> int \<times> relay" where
  "relay_main tpcp_port =
     (case int_of_text (case tpcp_port of None \<Rightarrow> ''8765'' | Some s \<Rightarrow> s) of
        Inr port \<Rightarrow> Inr (''0.0.0.0'', port, new_relay 30 60)
      | Inl (ValueError m) \<Rightarrow> Inr (''0.0.0.0'', 8765, new_relay 30 60)
      | Inl e \<Rightarrow> Inl e)"

section \<open>Properties\<close>

lemma cancelled_lookup:
  "map_of r k \<noteq> Some Waiting \<Longrightarrow>
    map_of (fold (\<lambda>(k, f). AList.update k (if f = Waiting then Cancelled else f)) fs r) k \<noteq> Some Waiting"
proof (induction fs arbitrary: r)
  case (Cons x fs)
  obtain j f where x: "x = (j, f)" by (cases x)
  have "map_of (AList.update j (if f = Waiting then Cancelled else f) r) k \<noteq> Some Waiting"
    using Cons.prems by (simp add: dict_simps)
  from Cons.IH [OF this] show ?case by (simp add: x)
qed simp

text \<open>The context manager releases what the node holds: after the block, however it ended, the server and every
  connection that was open are closed, and nobody waits for an acknowledgement any more.\<close>

lemma async_with_releases:
  assumes "start_listening files n = (n1, None)" "body n1 = (n2, outs, r)" "async_with files body n = (n3, all_outs, r')"
    and "\<And>k. map_of (resolved_acks n2) k \<noteq> Some Waiting"
  shows "r' = r \<and> \<not> nd_running n3 \<and> \<not> serving n3 \<and> pending_acks n3 = [] \<and> peer_connections n3 = [] \<and>
    (\<forall>k. map_of (resolved_acks n3) k \<noteq> Some Waiting) \<and>
    (\<exists>shut. all_outs = outs @ shut \<and> (\<forall>ws. (\<exists>k. (k, ws) \<in> set (peer_connections n2)) \<or> adns_ws n2 = Some ws \<longrightarrow>
      ClosedConn ws \<in> set shut))"
proof -
  have "n3 = fst (stop_listening n2)" "all_outs = outs @ snd (stop_listening n2)" "r' = r"
    using assms(1-3) by (simp_all add: async_with_def split: prod.splits)
  moreover have "map_of (resolved_acks (fst (stop_listening n2))) k \<noteq> Some Waiting" for k
    using cancelled_lookup [OF assms(4)] by (simp add: stop_listening_def)
  ultimately show ?thesis by (force simp: stop_listening_def)
qed

text \<open>The relay's port: the environment variable if it is a number, 8765 otherwise; starting never fails.\<close>

lemma int_of_text_errors: "int_of_text s = Inl e \<Longrightarrow> \<exists>m. e = ValueError m"
  by (auto simp: int_of_text_def split: option.splits if_splits)

lemma relay_main_ports:
  "relay_main p = Inr (''0.0.0.0'', (case int_of_text (case p of None \<Rightarrow> ''8765'' | Some s \<Rightarrow> s) of Inl e \<Rightarrow> 8765 | Inr i \<Rightarrow> i), new_relay 30 60)"
  using int_of_text_errors by (fastforce simp: relay_main_def split: sum.splits)

end
