(* ===== verification/Drains.thy ===== *)
theory Drains
  imports NodeOutbound "HOL-Library.Multiset"
begin

text \<open>
  Concurrent sending to one peer (\<^verbatim>\<open>_dispatch_envelope\<close> and \<^verbatim>\<open>_reconnect_and_drain\<close> of
  \<^verbatim>\<open>tpcp/core/node.py\<close>). Theory \<open>NodeSend\<close> runs each of them to its end; but both wait for the network, and
  every failed send starts another drain task, so sends and drains for one target interleave. Here a step
  goes from one \<^verbatim>\<open>await\<close> on the network to the next; the queue's own operations never suspend, since
  nobody waits while holding its lock.

  The lists \<open>dispatched\<close>, \<open>delivered\<close> and \<open>evicted\<close> record what was handed over, sent, and pushed out of a
  full queue.
\<close>

section \<open>Tasks and state\<close>

text \<open>A drain task: about to look up the peer, about to test the loop's condition (at first or after a
  sleep), waiting for a connect, between two sends, waiting for a send, returned.\<close>

datatype drainer = Starting | Testing | Connecting | Draining | Sending envelope | Returned

record link =
  link_queue :: "envelope message_queue"
  link_known :: bool
  link_running :: bool
  in_flight :: "envelope list"
  drainers :: "drainer list"
  dispatched :: "envelope list"
  delivered :: "envelope list"
  evicted :: "envelope list"

definition fresh_link :: link where
  "fresh_link = \<lparr>link_queue = new_queue 500, link_known = True, link_running = True, in_flight = [], drainers = [],
     dispatched = [], delivered = [], evicted = []\<rparr>"

text \<open>What the two ways into a full queue push out.\<close>

definition evicts :: "uuid \<Rightarrow> link \<Rightarrow> envelope list" where
  "evicts t s = (case deque_of (link_queue s) t of
     x # xs \<Rightarrow> if max_size (link_queue s) \<le> int (length (x # xs)) then [x] else [] | [] \<Rightarrow> [])"

definition evicts_front :: "uuid \<Rightarrow> link \<Rightarrow> envelope list" where
  "evicts_front t s = (case deque_of (link_queue s) t of
     x # xs \<Rightarrow> if max_size (link_queue s) \<le> int (length (x # xs)) then [last (x # xs)] else [] | [] \<Rightarrow> [])"

definition queued :: "uuid \<Rightarrow> envelope \<Rightarrow> link \<Rightarrow> link" where
  "queued t e s = s\<lparr>link_queue := fst (enqueue t e (link_queue s)), evicted := evicted s @ evicts t s\<rparr>"

definition requeued :: "uuid \<Rightarrow> envelope \<Rightarrow> link \<Rightarrow> link" where
  "requeued t e s = s\<lparr>link_queue := fst (enqueue_front t e (link_queue s)), evicted := evicted s @ evicts_front t s\<rparr>"

definition drainer_at :: "nat \<Rightarrow> drainer \<Rightarrow> link \<Rightarrow> bool" where
  "drainer_at i d s \<longleftrightarrow> i < length (drainers s) \<and> drainers s ! i = d"

definition goes_to :: "nat \<Rightarrow> drainer \<Rightarrow> link \<Rightarrow> link" where
  "goes_to i d s = s\<lparr>drainers := (drainers s)[i := d]\<rparr>"

section \<open>Steps\<close>

text \<open>The events name what the program does (hand over a message, register or remove the peer, stop); all
  else is the work of the tasks.\<close>

datatype link_event = Dispatched envelope | Registered | Removed | Stopped | Worked

inductive link_step :: "uuid \<Rightarrow> link \<Rightarrow> link_event \<Rightarrow> link \<Rightarrow> bool" for t :: uuid where
  registered: "link_step t s Registered (s\<lparr>link_known := True\<rparr>)"
| removed: "link_step t s Removed (s\<lparr>link_known := False\<rparr>)"
| stopped: "link_step t s Stopped (s\<lparr>link_running := False\<rparr>)"
| dispatch_unknown: "\<not> link_known s \<Longrightarrow>
    link_step t s (Dispatched e) (queued t e (s\<lparr>dispatched := dispatched s @ [e]\<rparr>))"
| dispatch: "link_known s \<Longrightarrow>
    link_step t s (Dispatched e) (s\<lparr>dispatched := dispatched s @ [e], in_flight := in_flight s @ [e]\<rparr>)"
| dispatch_sent: "in_flight s = xs @ e # ys \<Longrightarrow>
    link_step t s Worked (s\<lparr>in_flight := xs @ ys, delivered := delivered s @ [e]\<rparr>)"
| dispatch_failed: "in_flight s = xs @ e # ys \<Longrightarrow>
    link_step t s Worked (queued t e (s\<lparr>in_flight := xs @ ys, drainers := drainers s @ [Starting]\<rparr>))"
| start_known: "drainer_at i Starting s \<Longrightarrow> link_known s \<Longrightarrow> link_step t s Worked (goes_to i Testing s)"
| start_unknown: "drainer_at i Starting s \<Longrightarrow> \<not> link_known s \<Longrightarrow> link_step t s Worked (goes_to i Returned s)"
| test_true: "drainer_at i Testing s \<Longrightarrow> link_running s \<and> has_messages t (link_queue s) \<Longrightarrow>
    link_step t s Worked (goes_to i Connecting s)"
| test_false: "drainer_at i Testing s \<Longrightarrow> \<not> (link_running s \<and> has_messages t (link_queue s)) \<Longrightarrow>
    link_step t s Worked (goes_to i Returned s)"
| connected: "drainer_at i Connecting s \<Longrightarrow> link_step t s Worked (goes_to i Draining s)"
| connect_failed: "drainer_at i Connecting s \<Longrightarrow> link_step t s Worked (goes_to i Testing s)"
| drain_next: "drainer_at i Draining s \<Longrightarrow> has_messages t (link_queue s) \<Longrightarrow>
    dequeue_one t (link_queue s) = (q, Some m) \<Longrightarrow>
    link_step t s Worked (goes_to i (Sending m) (s\<lparr>link_queue := q\<rparr>))"
| drain_empty: "drainer_at i Draining s \<Longrightarrow> \<not> has_messages t (link_queue s) \<Longrightarrow>
    link_step t s Worked (goes_to i Returned s)"
| drain_sent: "drainer_at i (Sending m) s \<Longrightarrow>
    link_step t s Worked (goes_to i Draining (s\<lparr>delivered := delivered s @ [m]\<rparr>))"
| drain_failed: "drainer_at i (Sending m) s \<Longrightarrow>
    link_step t s Worked (goes_to i Testing (requeued t m s))"

inductive link_run :: "uuid \<Rightarrow> link \<Rightarrow> link_event list \<Rightarrow> link \<Rightarrow> bool" for t :: uuid where
  start: "link_run t s [] s"
| more: "link_run t s evs s1 \<Longrightarrow> link_step t s1 ev s2 \<Longrightarrow> link_run t s (evs @ [ev]) s2"

section \<open>Conservation\<close>

primrec held_by :: "drainer \<Rightarrow> envelope list" where
  "held_by Starting = []"
| "held_by Testing = []"
| "held_by Connecting = []"
| "held_by Draining = []"
| "held_by (Sending m) = [m]"
| "held_by Returned = []"

definition held :: "link \<Rightarrow> envelope multiset" where
  "held s = mset (concat (map held_by (drainers s)))"

definition accounted :: "uuid \<Rightarrow> link \<Rightarrow> bool" where
  "accounted t s \<longleftrightarrow> queue_inv (link_queue s) \<and>
     mset (dispatched s) = mset (delivered s) + mset (in_flight s) + held s + mset (deque_of (link_queue s) t) + mset (evicted s)"

lemma held_goes_to:
  assumes "drainer_at i d s"
  shows "held (goes_to i d' s) + mset (held_by d) = held s + mset (held_by d')"
proof -
  have i: "i < length (drainers s)" "drainers s ! i = d" using assms by (simp_all add: drainer_at_def)
  have "mset (concat (map held_by xs)) = (\<Sum>x \<in># mset xs. mset (held_by x))" for xs
    by (induction xs) simp_all
  moreover have "mset ((drainers s)[i := d']) = add_mset d' (mset (drainers s) - {#d#})" using i by (simp add: mset_update)
  moreover have "mset (drainers s) = add_mset d (mset (drainers s) - {#d#})" using i nth_mem_mset by fastforce
  ultimately show ?thesis
    by (simp add: held_def goes_to_def) (metis (no_types, lifting) add.commute add.left_commute image_mset_add_mset sum_mset.insert)
qed

lemma mset_queued:
  assumes "queue_inv (link_queue s)"
  shows "queue_inv (link_queue (queued t e s)) \<and>
    mset (deque_of (link_queue (queued t e s)) t) + mset (evicted (queued t e s)) =
      add_mset e (mset (deque_of (link_queue s) t) + mset (evicted s))"
proof (cases "deque_of (link_queue s) t")
  case Nil
  with assms dlq.enq_inv [OF assms, of t e] dlq.enq_content [OF assms, of t e] show ?thesis
    by (auto simp: queued_def evicts_def take_last_def queue_inv_def)
next
  case (Cons x xs)
  have len: "int (length (x # xs)) \<le> max_size (link_queue s)" using queue_inv_deque [OF assms, of t] Cons by simp
  show ?thesis
  proof (cases "max_size (link_queue s) \<le> int (length (x # xs))")
    case True
    with len have "nat (max_size (link_queue s)) = Suc (length xs)" by simp
    with assms dlq.enq_inv [OF assms, of t e] dlq.enq_content [OF assms, of t e] Cons True show ?thesis
      by (simp add: queued_def evicts_def take_last_def)
  next
    case False
    then have "length (x # xs @ [e]) \<le> nat (max_size (link_queue s))" by simp
    with assms dlq.enq_inv [OF assms, of t e] dlq.enq_content [OF assms, of t e] Cons False show ?thesis
      by (simp add: queued_def evicts_def)
  qed
qed

lemma mset_requeued:
  assumes "queue_inv (link_queue s)"
  shows "queue_inv (link_queue (requeued t e s)) \<and>
    mset (deque_of (link_queue (requeued t e s)) t) + mset (evicted (requeued t e s)) =
      add_mset e (mset (deque_of (link_queue s) t) + mset (evicted s))"
proof (cases "deque_of (link_queue s) t" rule: rev_cases)
  case Nil
  with assms dlq.enq_front_inv [OF assms, of t e] dlq.enq_front_content [OF assms, of t e] show ?thesis
    by (auto simp: requeued_def evicts_front_def)
next
  case (snoc xs x)
  have len: "int (length (xs @ [x])) \<le> max_size (link_queue s)" using queue_inv_deque [OF assms, of t] snoc by simp
  have ev: "evicts_front t s = (if max_size (link_queue s) \<le> int (length (xs @ [x])) then [x] else [])"
  proof -
    obtain y ys where y: "xs @ [x] = y # ys" by (cases "xs @ [x]") simp_all
    moreover from y have "last (y # ys) = x" by (metis last_snoc)
    ultimately show ?thesis using snoc by (simp add: evicts_front_def del: last.simps)
  qed
  show ?thesis
  proof (cases "max_size (link_queue s) \<le> int (length (xs @ [x]))")
    case True
    with len have "nat (max_size (link_queue s)) - 1 = length xs" by simp
    with assms dlq.enq_front_inv [OF assms, of t e] dlq.enq_front_content [OF assms, of t e] snoc True ev show ?thesis
      by (simp add: requeued_def)
  next
    case False
    then have "length (xs @ [x]) \<le> nat (max_size (link_queue s)) - 1" by simp
    with assms dlq.enq_front_inv [OF assms, of t e] dlq.enq_front_content [OF assms, of t e] snoc False ev show ?thesis
      by (simp add: requeued_def)
  qed
qed

lemma mset_dequeued:
  assumes "queue_inv q" "dequeue_one t q = (q', Some m)"
  shows "queue_inv q' \<and> mset (deque_of q t) = add_mset m (mset (deque_of q' t))"
  using assms dlq.deq_inv [OF assms(1), of t] dlq.deq_content [OF assms(1), of t]
  by (cases "deque_of q t") auto

lemma goes_to_simps [simp]:
  "link_queue (goes_to i d s) = link_queue s" "in_flight (goes_to i d s) = in_flight s"
  "dispatched (goes_to i d s) = dispatched s" "delivered (goes_to i d s) = delivered s" "evicted (goes_to i d s) = evicted s"
  "link_known (goes_to i d s) = link_known s" "link_running (goes_to i d s) = link_running s"
  "drainers (goes_to i d s) = (drainers s)[i := d]"
  by (simp_all add: goes_to_def)

lemma queued_simps [simp]:
  "in_flight (queued t e s) = in_flight s" "dispatched (queued t e s) = dispatched s" "delivered (queued t e s) = delivered s"
  "drainers (queued t e s) = drainers s" "link_known (queued t e s) = link_known s" "link_running (queued t e s) = link_running s"
  "in_flight (requeued t e s) = in_flight s" "dispatched (requeued t e s) = dispatched s" "delivered (requeued t e s) = delivered s"
  "drainers (requeued t e s) = drainers s" "link_known (requeued t e s) = link_known s" "link_running (requeued t e s) = link_running s"
  by (simp_all add: queued_def requeued_def)

lemma held_cong: "drainers s' = drainers s \<Longrightarrow> held s' = held s"
  by (simp add: held_def)

lemma drainer_at_cong: "drainers s' = drainers s \<Longrightarrow> drainer_at i d s' = drainer_at i d s"
  by (simp add: drainer_at_def)

lemma accounted_queued:
  assumes "accounted t s" "held s' = held s" "link_queue s' = link_queue s" "evicted s' = evicted s" "delivered s' = delivered s"
    and "mset (dispatched s') + mset (in_flight s) = add_mset e (mset (dispatched s) + mset (in_flight s'))"
  shows "accounted t (queued t e s')"
proof -
  have q: "queue_inv (link_queue s')" using assms(1,3) by (simp add: accounted_def)
  from mset_queued [OF q, of t e] assms held_cong [of "queued t e s'" s'] show ?thesis
    by (auto simp: accounted_def ac_simps)
qed

lemma accounted_simps:
  "accounted t (s\<lparr>link_known := b\<rparr>) = accounted t s" "accounted t (s\<lparr>link_running := b\<rparr>) = accounted t s"
  "accounted t (s\<lparr>dispatched := dispatched s @ [e], in_flight := in_flight s @ [e]\<rparr>) = accounted t s"
  "in_flight s = xs @ e # ys \<Longrightarrow> accounted t (s\<lparr>in_flight := xs @ ys, delivered := delivered s @ [e]\<rparr>) = accounted t s"
  by (simp_all add: accounted_def held_def)

text \<open>A task that holds no message before or after its step.\<close>

lemma accounted_moves:
  "accounted t s \<Longrightarrow> drainer_at i d s \<Longrightarrow> held_by d = [] \<Longrightarrow> held_by d' = [] \<Longrightarrow> accounted t (goes_to i d' s)"
  using held_goes_to [of i d s d'] by (simp add: accounted_def)

lemma link_step_accounted:
  assumes "link_step t s ev s'" "accounted t s"
  shows "accounted t s'"
  using assms(1)
proof cases
  case (dispatch_unknown e)
  show ?thesis unfolding dispatch_unknown(2)
    by (rule accounted_queued [OF assms(2)]) (simp_all add: held_def)
next
  case (dispatch_failed xs e ys)
  show ?thesis unfolding dispatch_failed(2)
    by (rule accounted_queued [OF assms(2)]) (simp_all add: held_def dispatch_failed(3))
next
  case (drain_next i q m)
  have q: "queue_inv q \<and> mset (deque_of (link_queue s) t) = add_mset m (mset (deque_of q t))"
    using mset_dequeued [OF _ drain_next(5)] assms(2) by (simp add: accounted_def)
  have "drainer_at i Draining (s\<lparr>link_queue := q\<rparr>)" using drain_next(3) by (simp add: drainer_at_def)
  from held_goes_to [OF this, of "Sending m"] q assms(2) drain_next(2) held_cong [of "s\<lparr>link_queue := q\<rparr>" s]
  show ?thesis by (simp add: accounted_def)
next
  case (drain_sent i m)
  have "drainer_at i (Sending m) (s\<lparr>delivered := delivered s @ [m]\<rparr>)" using drain_sent(3) by (simp add: drainer_at_def)
  from held_goes_to [OF this, of Draining] assms(2) drain_sent(2) held_cong [of "s\<lparr>delivered := delivered s @ [m]\<rparr>" s]
  show ?thesis by (auto simp: accounted_def ac_simps)
next
  case (drain_failed i m)
  have "drainer_at i (Sending m) (requeued t m s)" using drain_failed(3) by (simp add: drainer_at_def)
  let ?s = "requeued t m s"
  have h: "held s = held (goes_to i Testing ?s) + {#m#}"
    using held_goes_to [OF \<open>drainer_at i (Sending m) ?s\<close>, of Testing] held_cong [of ?s s] by simp
  have r: "queue_inv (link_queue ?s)"
    "mset (deque_of (link_queue ?s) t) + mset (evicted ?s) = {#m#} + (mset (deque_of (link_queue s) t) + mset (evicted s))"
    using mset_requeued [of s t m] assms(2) by (simp_all add: accounted_def)
  have "mset (dispatched s) = mset (delivered s) + mset (in_flight s) + held (goes_to i Testing ?s) +
      ({#m#} + (mset (deque_of (link_queue s) t) + mset (evicted s)))"
    using assms(2) by (simp add: accounted_def h)
  then show ?thesis unfolding r(2) [symmetric] drain_failed(2) accounted_def using r(1) by (simp add: ac_simps)
qed (use assms(2) in \<open>auto intro: accounted_moves simp: accounted_simps\<close>)

lemma link_run_accounted: "link_run t s evs s' \<Longrightarrow> accounted t s \<Longrightarrow> accounted t s'"
  by (induction rule: link_run.induct) (auto intro: link_step_accounted)

lemma fresh_accounted: "accounted t fresh_link"
  by (simp add: accounted_def fresh_link_def held_def queue_inv_new) (simp add: new_queue_def deque_of_def)

section \<open>Nothing is stranded\<close>

definition attended :: "uuid \<Rightarrow> link \<Rightarrow> bool" where
  "attended t s \<longleftrightarrow> link_known s \<and> link_running s \<and>
     (deque_of (link_queue s) t = [] \<or> (\<exists>d \<in> set (drainers s). d \<noteq> Returned))"

definition undisturbed :: "link_event list \<Rightarrow> bool" where
  "undisturbed evs \<longleftrightarrow> Removed \<notin> set evs \<and> Stopped \<notin> set evs"

lemma active_goes_to:
  "drainer_at i d s \<Longrightarrow> d' \<noteq> Returned \<Longrightarrow> \<exists>x \<in> set ((drainers s)[i := d']). x \<noteq> Returned"
  by (auto simp: drainer_at_def intro: bexI [of _ d'] set_update_memI)

lemma link_step_attended:
  assumes "link_step t s ev s'" "accounted t s" "attended t s" "ev \<noteq> Removed" "ev \<noteq> Stopped"
  shows "attended t s'"
proof -
  have has: "has_messages t (link_queue s) \<longleftrightarrow> deque_of (link_queue s) t \<noteq> []"
    using assms(2) dlq.has_content by (auto simp: accounted_def)
  from assms(1) show ?thesis
  proof cases
    case (dispatch_failed xs e ys)
    then show ?thesis using assms(3) by (simp add: attended_def)
  next
    case (drain_next i q m)
    then show ?thesis using assms(3) active_goes_to [of i Draining s "Sending m"] by (auto simp: attended_def)
  next
    case (drain_sent i m)
    then show ?thesis using assms(3) active_goes_to [of i "Sending m" s Draining] by (auto simp: attended_def)
  next
    case (drain_failed i m)
    then show ?thesis using assms(3) active_goes_to [of i "Sending m" s Testing] by (auto simp: attended_def)
  qed (use assms(3-5) has active_goes_to in \<open>auto simp: attended_def\<close>)
qed

lemma link_run_attended:
  "link_run t s evs s' \<Longrightarrow> accounted t s \<Longrightarrow> attended t s \<Longrightarrow> undisturbed evs \<Longrightarrow> attended t s'"
proof (induction rule: link_run.induct)
  case (more s evs s1 ev s2)
  then show ?case using link_step_attended [OF more(2) link_run_accounted [OF more(1,4)]] by (auto simp: undisturbed_def)
qed simp

text \<open>What is left to do: every task can take a step that lessens it.\<close>

primrec rank :: "drainer \<Rightarrow> nat" where
  "rank Starting = 4"
| "rank Testing = 3"
| "rank Connecting = 2"
| "rank Draining = 1"
| "rank (Sending m) = 2"
| "rank Returned = 0"

definition work :: "uuid \<Rightarrow> link \<Rightarrow> nat" where
  "work t s = length (in_flight s) + sum_list (map rank (drainers s)) + 2 * length (deque_of (link_queue s) t)"

lemma rank_goes_to:
  "drainer_at i d s \<Longrightarrow> sum_list (map rank (drainers (goes_to i d' s))) + rank d = sum_list (map rank (drainers s)) + rank d'"
proof -
  assume d: "drainer_at i d s"
  then have "rank d \<le> sum_list (map rank (drainers s))"
    by (auto simp: drainer_at_def intro: member_le_sum_list)
  with d show ?thesis by (simp add: drainer_at_def map_update sum_list_update)
qed

lemma work_possible:
  assumes "accounted t s" "attended t s" "in_flight s \<noteq> [] \<or> (\<exists>d \<in> set (drainers s). d \<noteq> Returned)"
  shows "\<exists>s'. link_step t s Worked s' \<and> work t s' < work t s \<and> dispatched s' = dispatched s"
proof (cases "in_flight s")
  case (Cons e es)
  then show ?thesis using dispatch_sent [of s "[]" e es t] by (force simp: work_def)
next
  case Nil
  with assms(3) obtain i d where d: "drainer_at i d s" "d \<noteq> Returned" by (auto simp: drainer_at_def in_set_conv_nth)
  have has: "has_messages t (link_queue s) \<longleftrightarrow> deque_of (link_queue s) t \<noteq> []"
    using assms(1) dlq.has_content by (auto simp: accounted_def)
  have go: ?thesis if "link_step t s Worked (goes_to i d' s)" "rank d' < rank d" for d'
    using that rank_goes_to [OF d(1), of d'] by (intro exI [of _ "goes_to i d' s"]) (simp add: work_def)
  show ?thesis
  proof (cases d)
    case Starting
    with d assms(2) go [of Testing] start_known show ?thesis by (simp add: attended_def)
  next
    case Testing
    with d go [of Connecting] go [of Returned] test_true [of i s t] test_false [of i s t] show ?thesis by fastforce
  next
    case Connecting
    with d go [of Draining] connected show ?thesis by simp
  next
    case Draining
    show ?thesis
    proof (cases "has_messages t (link_queue s)")
      case False
      with Draining d go [of Returned] drain_empty show ?thesis by simp
    next
      case True
      have q: "queue_inv (link_queue s)" using assms(1) by (simp add: accounted_def)
      obtain q' m where m: "dequeue_one t (link_queue s) = (q', Some m)"
        using True has dlq.deq_content(1) [OF q, of t] by (cases "dequeue_one t (link_queue s)") (auto split: list.splits)
      have "length (deque_of (link_queue s) t) = Suc (length (deque_of q' t))"
        using arg_cong [OF conjunct2 [OF mset_dequeued [OF q m]], of size] by simp
      moreover have "sum_list (map rank ((drainers s)[i := Sending m])) = Suc (sum_list (map rank (drainers s)))"
        using rank_goes_to [OF d(1), of "Sending m"] Draining by simp
      ultimately show ?thesis using drain_next [OF d(1) [unfolded Draining] True m]
        by (auto simp: work_def intro!: exI [of _ "goes_to i (Sending m) (s\<lparr>link_queue := q'\<rparr>)"])
    qed
  next
    case (Sending m)
    have "sum_list (map rank ((drainers s)[i := Draining])) < sum_list (map rank (drainers s))"
      using rank_goes_to [OF d(1), of Draining] Sending by simp
    with drain_sent [OF d(1) [unfolded Sending]] show ?thesis
      by (auto simp: work_def intro!: exI [of _ "goes_to i Draining (s\<lparr>delivered := delivered s @ [m]\<rparr>)"])
  next
    case Returned
    with d show ?thesis by simp
  qed
qed

lemma link_run_Cons: "link_run t s1 evs s2 \<Longrightarrow> link_step t s ev s1 \<Longrightarrow> link_run t s (ev # evs) s2"
proof (induction rule: link_run.induct)
  case (start s1)
  from link_run.more [OF link_run.start start] show ?case by simp
next
  case (more s1 evs s2 ev' s3)
  from link_run.more [OF more.IH [OF more.prems] more.hyps(2)] show ?case by simp
qed

lemma work_finishes:
  assumes "accounted t s" "attended t s"
  shows "\<exists>n s'. link_run t s (replicate n Worked) s' \<and> dispatched s' = dispatched s \<and> accounted t s' \<and>
    in_flight s' = [] \<and> (\<forall>d \<in> set (drainers s'). d = Returned) \<and> deque_of (link_queue s') t = []"
  using assms
proof (induction "work t s" arbitrary: s rule: less_induct)
  case less
  show ?case
  proof (cases "in_flight s \<noteq> [] \<or> (\<exists>d \<in> set (drainers s). d \<noteq> Returned)")
    case True
    from work_possible [OF less.prems True] obtain s1 where
      s1: "link_step t s Worked s1" "work t s1 < work t s" "dispatched s1 = dispatched s" by blast
    from less.hyps [OF s1(2) link_step_accounted [OF s1(1) less.prems(1)] link_step_attended [OF s1(1) less.prems]]
    obtain n s' where "link_run t s1 (replicate n Worked) s'" "dispatched s' = dispatched s1 \<and> accounted t s' \<and>
      in_flight s' = [] \<and> (\<forall>d \<in> set (drainers s'). d = Returned) \<and> deque_of (link_queue s') t = []" by auto
    with link_run_Cons [OF this(1) s1(1)] s1(3) show ?thesis
      by (intro exI [of _ "Suc n"] exI [of _ s']) simp
  next
    case False
    with less.prems show ?thesis
      by (intro exI [of _ 0] exI [of _ s]) (auto simp: attended_def intro: link_run.start)
  qed
qed

section \<open>Bound, order, and the peer that is not known yet\<close>

lemma enqueue_max_size [simp]:
  "max_size (fst (enqueue t e q)) = max_size q" "max_size (fst (enqueue_front t e q)) = max_size q"
  by (auto simp: enqueue_def enqueue_front_def Let_def split: list.splits)

lemma dequeue_max_size: "dequeue_one t q = (q', m) \<Longrightarrow> max_size q' = max_size q"
  by (auto simp: dequeue_one_def split: option.splits list.splits if_splits)

lemma link_step_max_size: "link_step t s ev s' \<Longrightarrow> max_size (link_queue s') = max_size (link_queue s)"
  by (induction rule: link_step.induct) (simp_all add: queued_def requeued_def dequeue_max_size)

lemma link_run_max_size: "link_run t s evs s' \<Longrightarrow> max_size (link_queue s') = max_size (link_queue s)"
  by (induction rule: link_run.induct) (simp_all add: link_step_max_size)

lemma idle_step:
  "link_step t s ev s' \<Longrightarrow> \<forall>e. ev \<noteq> Dispatched e \<Longrightarrow> in_flight s = [] \<Longrightarrow> \<forall>d \<in> set (drainers s). d = Returned \<Longrightarrow>
   in_flight s' = [] \<and> drainers s' = drainers s \<and> delivered s' = delivered s \<and> link_queue s' = link_queue s"
  by (induction rule: link_step.induct) (auto simp: drainer_at_def dest!: nth_mem)

lemma idle_run:
  "link_run t s evs s' \<Longrightarrow> \<forall>e. Dispatched e \<notin> set evs \<Longrightarrow> in_flight s = [] \<Longrightarrow> \<forall>d \<in> set (drainers s). d = Returned \<Longrightarrow>
   in_flight s' = [] \<and> drainers s' = drainers s \<and> delivered s' = delivered s \<and> link_queue s' = link_queue s"
proof (induction rule: link_run.induct)
  case (more s evs s1 ev s2)
  with idle_step [OF more.hyps(2)] show ?case by fastforce
qed simp

text \<open>A run with two drains, on a network without fault after the first two sends.\<close>

lemma two_drains_run:
  "\<exists>s. link_run t fresh_link ([Dispatched a, Dispatched b] @ replicate 12 Worked) s \<and>
     dispatched s = [a, b] \<and> delivered s = [b, a] \<and> deque_of (link_queue s) t = []"
proof -
  let ?L = "\<lambda>q fl ds del. \<lparr>link_queue = \<lparr>max_size = 500, dlq = q\<rparr>, link_known = True, link_running = True, in_flight = fl,
     drainers = ds, dispatched = [a, b], delivered = del, evicted = []\<rparr>"
  let ?A = "fresh_link\<lparr>dispatched := [a], in_flight := [a]\<rparr>"
  note sim = drainer_at_def goes_to_def queued_def evicts_def deque_of_def enqueue_def with_deque_def has_messages_def
    dequeue_one_def fresh_link_def new_queue_def Let_def
  note run = link_run_Cons [rotated]
  have s1: "link_step t fresh_link (Dispatched a) ?A"
    using dispatch [of fresh_link t a] by (simp add: sim)
  have s2: "link_step t ?A (Dispatched b) (?L [] [a, b] [] [])"
    using dispatch [of ?A t b] by (simp add: sim)
  have s3: "link_step t (?L [] [a, b] [] []) Worked (?L [(t, [a])] [b] [Starting] [])"
    using dispatch_failed [of "?L [] [a, b] [] []" "[]" a "[b]" t] by (simp add: sim)
  have s4: "link_step t (?L [(t, [a])] [b] [Starting] []) Worked (?L [(t, [a, b])] [] [Starting, Starting] [])"
    using dispatch_failed [of "?L [(t, [a])] [b] [Starting] []" "[]" b "[]" t] by (simp add: sim)
  have s5: "link_step t (?L [(t, [a, b])] [] [Starting, Starting] []) Worked (?L [(t, [a, b])] [] [Testing, Starting] [])"
    using start_known [of 0 "?L [(t, [a, b])] [] [Starting, Starting] []" t] by (simp add: sim)
  have s6: "link_step t (?L [(t, [a, b])] [] [Testing, Starting] []) Worked (?L [(t, [a, b])] [] [Testing, Testing] [])"
    using start_known [of 1 "?L [(t, [a, b])] [] [Testing, Starting] []" t] by (simp add: sim)
  have s7: "link_step t (?L [(t, [a, b])] [] [Testing, Testing] []) Worked (?L [(t, [a, b])] [] [Connecting, Testing] [])"
    using test_true [of 0 "?L [(t, [a, b])] [] [Testing, Testing] []" t] by (simp add: sim)
  have s8: "link_step t (?L [(t, [a, b])] [] [Connecting, Testing] []) Worked (?L [(t, [a, b])] [] [Connecting, Connecting] [])"
    using test_true [of 1 "?L [(t, [a, b])] [] [Connecting, Testing] []" t] by (simp add: sim)
  have s9: "link_step t (?L [(t, [a, b])] [] [Connecting, Connecting] []) Worked (?L [(t, [a, b])] [] [Draining, Connecting] [])"
    using connected [of 0 "?L [(t, [a, b])] [] [Connecting, Connecting] []" t] by (simp add: sim)
  have s10: "link_step t (?L [(t, [a, b])] [] [Draining, Connecting] []) Worked (?L [(t, [a, b])] [] [Draining, Draining] [])"
    using connected [of 1 "?L [(t, [a, b])] [] [Draining, Connecting] []" t] by (simp add: sim)
  have s11: "link_step t (?L [(t, [a, b])] [] [Draining, Draining] []) Worked (?L [(t, [b])] [] [Sending a, Draining] [])"
    using drain_next [of 0 "?L [(t, [a, b])] [] [Draining, Draining] []" t "\<lparr>max_size = 500, dlq = [(t, [b])]\<rparr>" a]
    by (simp add: sim)
  have s12: "link_step t (?L [(t, [b])] [] [Sending a, Draining] []) Worked (?L [] [] [Sending a, Sending b] [])"
    using drain_next [of 1 "?L [(t, [b])] [] [Sending a, Draining] []" t "\<lparr>max_size = 500, dlq = []\<rparr>" b] by (simp add: sim)
  have s13: "link_step t (?L [] [] [Sending a, Sending b] []) Worked (?L [] [] [Sending a, Draining] [b])"
    using drain_sent [of 1 b "?L [] [] [Sending a, Sending b] []" t] by (simp add: sim)
  have s14: "link_step t (?L [] [] [Sending a, Draining] [b]) Worked (?L [] [] [Draining, Draining] [b, a])"
    using drain_sent [of 0 a "?L [] [] [Sending a, Draining] [b]" t] by (simp add: sim)
  have "link_run t fresh_link (Dispatched a # Dispatched b # replicate 12 Worked) (?L [] [] [Draining, Draining] [b, a])"
    unfolding numeral_nat replicate.simps
    by (intro run [OF s1] run [OF s2] run [OF s3] run [OF s4] run [OF s5] run [OF s6] run [OF s7] run [OF s8] run [OF s9]
        run [OF s10] run [OF s11] run [OF s12] run [OF s13] run [OF s14] link_run.start)
  then show ?thesis by (intro exI conjI) (assumption | simp add: deque_of_def)+
qed

section \<open>Properties\<close>

text \<open>C11: Concurrent sending neither loses nor duplicates: in every run, however sends and drains for a target
  interleave and fail, the messages handed over are, counted with multiplicity, those that were sent, those a
  task is just sending, those queued and those that the bounded queue pushed out; and the queue keeps its bound.\<close>

theorem concurrent_sends_conserve:
  assumes "link_run t fresh_link evs s"
  shows "mset (dispatched s) =
      mset (delivered s) + mset (in_flight s) + held s + mset (deque_of (link_queue s) t) + mset (evicted s) \<and>
    length (deque_of (link_queue s) t) \<le> 500"
proof -
  have "accounted t s" by (rule link_run_accounted [OF assms fresh_accounted])
  moreover have "max_size (link_queue s) = 500"
    using link_run_max_size [OF assms] by (simp add: fresh_link_def new_queue_def)
  ultimately show ?thesis using queue_inv_deque [of "link_queue s" t] by (simp add: accounted_def)
qed

theorem concurrent_sends_conserve_witness:
  "\<exists>evs s. link_run 1 fresh_link evs s \<and>
     mset (dispatched s) = mset (delivered s) + mset (in_flight s) + held s + mset (deque_of (link_queue s) 1) + mset (evicted s)"
  using two_drains_run [of 1] concurrent_sends_conserve by blast

text \<open>C12: No message is stranded: whatever happened so far, as long as the peer stays registered and the node
  runs, the tasks that exist can finish on their own, and when they do, every message that was handed over has
  been sent, except those that the full queue pushed out.\<close>

theorem drains_can_always_finish:
  assumes "link_run t fresh_link evs s" "undisturbed evs"
  shows "\<exists>n s'. link_run t s (replicate n Worked) s' \<and> dispatched s' = dispatched s \<and>
    (\<forall>d \<in> set (drainers s'). d = Returned) \<and> mset (delivered s') + mset (evicted s') = mset (dispatched s)"
proof -
  have "attended t fresh_link" by (simp add: attended_def fresh_link_def new_queue_def deque_of_def)
  from work_finishes [OF link_run_accounted [OF assms(1) fresh_accounted] link_run_attended [OF assms(1) fresh_accounted this assms(2)]]
  obtain n s' where *: "link_run t s (replicate n Worked) s'" "dispatched s' = dispatched s" "accounted t s'"
    "in_flight s' = []" "\<forall>d \<in> set (drainers s'). d = Returned" "deque_of (link_queue s') t = []" by blast
  have "concat (map held_by (drainers s')) = []" using *(5) by auto
  with * show ?thesis by (intro exI [of _ n] exI [of _ s']) (auto simp: accounted_def held_def)
qed

theorem drains_can_always_finish_witness:
  "\<exists>n s'. link_run 1 (fresh_link\<lparr>dispatched := [demo_envelope 5 ACK (TextP (text_of [])) None],
      in_flight := [demo_envelope 5 ACK (TextP (text_of [])) None]\<rparr>) (replicate n Worked) s' \<and>
     mset (delivered s') + mset (evicted s') = {#demo_envelope 5 ACK (TextP (text_of [])) None#}"
proof -
  let ?e = "demo_envelope 5 ACK (TextP (text_of [])) None"
  have "link_run 1 fresh_link ([] @ [Dispatched ?e]) (fresh_link\<lparr>dispatched := [?e], in_flight := [?e]\<rparr>)"
    using link_run.more [OF link_run.start dispatch [of fresh_link 1 ?e]] by (simp add: fresh_link_def)
  from drains_can_always_finish [OF this] show ?thesis by (fastforce simp: undisturbed_def)
qed

text \<open>C13: Order is lost: two messages whose sends failed start two drains, and the second message can be sent
  before the first, on a network that then works without fault.\<close>

theorem concurrent_drains_reorder:
  "\<exists>s. link_run t fresh_link ([Dispatched a, Dispatched b] @ replicate 12 Worked) s \<and>
     dispatched s = [a, b] \<and> delivered s = [b, a] \<and> deque_of (link_queue s) t = []"
  by (rule two_drains_run)

text \<open>A message for a peer that is not registered yet is queued without a task: registering the peer does not
  send it, and nothing that happens before the next dispatch to the same peer does.\<close>

theorem queued_for_unknown_peer_waits:
  assumes "link_run t s evs s'" "\<forall>e. Dispatched e \<notin> set evs" "in_flight s = []" "\<forall>d \<in> set (drainers s). d = Returned"
  shows "delivered s' = delivered s \<and> link_queue s' = link_queue s"
  using idle_run [OF assms] by simp

theorem queued_for_unknown_peer_waits_witness:
  "\<exists>s'. link_run 1 (fresh_link\<lparr>link_known := False, dispatched := [demo_envelope 5 ACK (TextP (text_of [])) None],
      link_queue := \<lparr>max_size = 500, dlq = [(1, [demo_envelope 5 ACK (TextP (text_of [])) None])]\<rparr>\<rparr>) [Registered] s' \<and>
     link_known s' \<and> delivered s' = [] \<and> deque_of (link_queue s') 1 = [demo_envelope 5 ACK (TextP (text_of [])) None]"
proof -
  let ?s = "fresh_link\<lparr>link_known := False, dispatched := [demo_envelope 5 ACK (TextP (text_of [])) None],
      link_queue := \<lparr>max_size = 500, dlq = [(1, [demo_envelope 5 ACK (TextP (text_of [])) None])]\<rparr>\<rparr>"
  have r: "link_run 1 ?s [Registered] (?s\<lparr>link_known := True\<rparr>)"
    using link_run.more [OF link_run.start registered [of 1 ?s]] by simp
  from queued_for_unknown_peer_waits [OF r] r show ?thesis by (auto simp: fresh_link_def deque_of_def)
qed

end
