(* ===== verification/JsonBound.thy ===== *)
theory JsonBound
  imports JsonLoads
begin

text \<open>
  The recursion bounds of the scanner never cut a parse short: every step consumes input, so the bound
  that \<open>json_loads\<close> takes from the length of the text gives the result of any larger one, on texts that
  are no JSON as well.
\<close>

section \<open>Every step consumes input\<close>

lemma skip_ws_length: "length (skip_ws s) \<le> length s"
  by (simp add: skip_ws_def length_dropWhile_le)

lemma skip_ws_less: "skip_ws s = c # cs \<Longrightarrow> length cs < length s"
  using skip_ws_length [of s] by simp

lemma scan_str_progress: "scan_str n s = Some (x, r) \<Longrightarrow> length r < length s"
proof (induction n arbitrary: s x r)
  case (Suc n)
  then show ?case
    by (auto split: list.splits if_splits option.splits dest!: Suc.IH)
qed simp

lemma parse_str_progress: "parse_str s = Some (x, r) \<Longrightarrow> length r < length s"
  unfolding parse_str_def by (rule scan_str_progress)

lemma int_part_progress: "parse_int_part s = Some (ip, r) \<Longrightarrow> length r < length s"
  by (auto simp: parse_int_part_def length_dropWhile_le less_Suc_eq_le split: list.splits if_splits)

lemma drop_digits: "length (dropWhile is_digit s) \<le> length s"
  by (rule length_dropWhile_le)

lemma frac_length: "length (snd (parse_frac s)) \<le> length s"
proof (cases "\<exists>c cs. s = CHR ''.'' # c # cs")
  case True
  then obtain c cs where "s = CHR ''.'' # c # cs" by blast
  then show ?thesis using drop_digits [of cs] by (simp add: parse_frac_def)
next
  case False
  then have "parse_frac s = ([], s)"
    by (auto simp: parse_frac_def split: list.split char.split bool.split)
  then show ?thesis by simp
qed

lemma exp_length: "length (snd (parse_exp s)) \<le> length s"
proof (cases s)
  case (Cons e u)
  then show ?thesis
    using drop_digits [of u] drop_digits [of "tl u"]
    by (cases u) (auto simp: parse_exp_def Let_def)
qed (simp add: parse_exp_def)

lemma sign_length: "take_sign s = (sg, r) \<Longrightarrow> length r \<le> length s"
  by (auto simp: take_sign_def split: list.splits if_splits)

lemma number_progress:
  assumes "parse_number s = Some (v, r)"
  shows "length r < length s"
proof -
  obtain sg s1 where sg: "take_sign s = (sg, s1)" by (cases "take_sign s")
  with assms obtain ip s2 where ip: "parse_int_part s1 = Some (ip, s2)"
    by (auto simp: parse_number_def split: option.splits)
  have "r = snd (parse_exp (snd (parse_frac s2)))"
    using assms by (auto simp: parse_number_def sg ip Let_def split: prod.splits if_splits)
  then show ?thesis
    using sign_length [OF sg] int_part_progress [OF ip] frac_length [of s2] exp_length [of "snd (parse_frac s2)"] by simp
qed

lemma atom_progress: "parse_atom s = Some (v, r) \<Longrightarrow> length r < length s"
proof (cases "filter (\<lambda>(l, v). take (length l) s = l) literals")
  case Nil
  then show "parse_atom s = Some (v, r) \<Longrightarrow> length r < length s"
    by (simp add: parse_atom_def number_progress)
next
  case (Cons x xs)
  assume a: "parse_atom s = Some (v, r)"
  obtain l w where x: "x = (l, w)" by (cases x)
  with Cons have "x \<in> set (filter (\<lambda>(l, v). take (length l) s = l) literals)" by simp
  then have l: "(l, w) \<in> set literals" "take (length l) s = l" by (simp_all add: x)
  have "list_all (\<lambda>(l, v). l \<noteq> []) literals" by code_simp
  with l(1) have "l \<noteq> []" by (auto simp: list_all_iff)
  moreover have "length l \<le> length s" using l(2) by (metis length_take min.cobounded1)
  ultimately have "length (drop (length l) s) < length s" by (cases l) auto
  with a Cons x show "length r < length s" by (simp add: parse_atom_def)
qed

lemma seq_progress:
  assumes "\<And>s x r. el s = Some (x, r) \<Longrightarrow> length r < length s"
  shows "parse_seq n el c s = Some (xs, r) \<Longrightarrow> length r < length s"
proof (induction n arbitrary: s xs r)
  case (Suc n)
  from Suc.prems obtain y t where y: "el s = Some (y, t)" by (auto split: option.splits)
  from Suc.prems y obtain d ds where d: "skip_ws t = d # ds" by (auto split: list.splits)
  have less: "length ds < length s" using assms [OF y] skip_ws_less [OF d] by simp
  show ?case
  proof (cases "d = c")
    case True
    with Suc.prems y d less show ?thesis by simp
  next
    case False
    with Suc.prems y d obtain ys where "parse_seq n el c (skip_ws ds) = Some (ys, r)" by (auto split: if_splits)
    from Suc.IH [OF this] skip_ws_length [of ds] less show ?thesis by simp
  qed
qed simp

lemma member_progress:
  assumes "\<And>s x r. pv s = Some (x, r) \<Longrightarrow> length r < length s" "parse_member pv s = Some (x, r)"
  shows "length r < length s"
proof -
  from assms(2) obtain cs k t ds w where p: "s = CHR 0x22 # cs" "parse_str cs = Some (k, t)"
      "skip_ws t = CHR '':'' # ds" "pv (skip_ws ds) = Some (w, r)"
    by (auto simp: parse_member_def split: list.splits if_splits option.splits)
  show ?thesis
    using parse_str_progress [OF p(2)] skip_ws_less [OF p(3)] skip_ws_length [of ds] assms(1) [OF p(4)] p(1) by simp
qed

lemma val_progress: "parse_val f s = Some (v, r) \<Longrightarrow> length r < length s"
proof (induction f arbitrary: s v r)
  case (Suc f)
  have mem: "length q < length t" if "parse_member (parse_val f) t = Some (x, q)" for t x q
    by (rule member_progress [OF Suc.IH that])
  have mems: "length q < length t" if "parse_seq k (parse_member (parse_val f)) e t = Some (xs, q)" for k e t xs q
    by (rule seq_progress [OF mem that])
  have els: "length q < length t" if "parse_seq k (parse_val f) e t = Some (xs, q)" for k e t xs q
    by (rule seq_progress [OF Suc.IH that])
  obtain c cs where s: "s = c # cs" using Suc.prems by (cases s) auto
  consider "c = CHR 0x22" | "c = CHR ''{''" | "c = CHR ''[''" | "c \<notin> {CHR 0x22, CHR ''{'', CHR ''[''}" by blast
  then show ?case
  proof cases
    case 1
    with Suc.prems s show ?thesis by (auto dest: parse_str_progress)
  next
    case 2
    with Suc.prems s obtain d ds where d: "skip_ws cs = d # ds" by (auto split: list.splits)
    with 2 Suc.prems s have "length r < Suc (length (d # ds))"
      by (auto simp del: parse_seq.simps split: if_splits dest!: mems)
    with d skip_ws_length [of cs] s show ?thesis by simp
  next
    case 3
    with Suc.prems s obtain d ds where d: "skip_ws cs = d # ds" by (auto split: list.splits)
    with 3 Suc.prems s have "length r < Suc (length (d # ds))"
      by (auto simp del: parse_seq.simps split: if_splits dest!: els)
    with d skip_ws_length [of cs] s show ?thesis by simp
  next
    case 4
    with Suc.prems s show ?thesis by (auto dest: atom_progress)
  qed
qed simp

section \<open>A larger bound gives the same result\<close>

lemma scan_str_bound: "length s < n \<Longrightarrow> length s < m \<Longrightarrow> scan_str n s = scan_str m s"
proof (induction n arbitrary: s m)
  case (Suc n)
  then obtain k where m: "m = Suc k" by (cases m) auto
  show ?case
  proof (cases s)
    case (Cons c cs)
    have "scan_str n t = scan_str k t" if "length t \<le> length cs" for t
      using Suc.prems that by (intro Suc.IH) (auto simp: m Cons)
    then show ?thesis by (auto simp: m Cons split: list.splits option.splits)
  qed (simp add: m)
qed simp

lemma seq_bound:
  assumes "\<And>s x r. el s = Some (x, r) \<Longrightarrow> length r < length s"
    and "\<And>t. length t \<le> length s \<Longrightarrow> el t = el' t"
  shows "length s < n \<Longrightarrow> length s < m \<Longrightarrow> parse_seq n el c s = parse_seq m el' c s"
  using assms(2)
proof (induction n arbitrary: s m)
  case (Suc n)
  then obtain k where m: "m = Suc k" by (cases m) auto
  have "parse_seq n el c (skip_ws ds) = parse_seq k el' c (skip_ws ds)" if "el s = Some (y, t)" "skip_ws t = d # ds" for y t d ds
  proof -
    have "length (skip_ws ds) < length s"
      using assms(1) [OF that(1)] skip_ws_less [OF that(2)] skip_ws_length [of ds] by simp
    with Suc.prems show ?thesis by (intro Suc.IH) (auto simp: m)
  qed
  moreover have "el s = el' s" using Suc.prems(3) by simp
  ultimately show ?case by (auto simp: m split: option.splits list.splits)
qed simp

lemma member_cong:
  assumes "\<And>t. length t \<le> length s \<Longrightarrow> pv t = pv' t"
  shows "parse_member pv s = parse_member pv' s"
proof -
  have "pv (skip_ws ds) = pv' (skip_ws ds)" if "s = c # cs" "parse_str cs = Some (k, t)" "skip_ws t = d # ds" for c cs k t d ds
    using that parse_str_progress [OF that(2)] skip_ws_less [OF that(3)] skip_ws_length [of ds] by (intro assms) simp
  then show ?thesis by (auto simp: parse_member_def split: list.splits option.splits)
qed

lemma val_bound: "length s < n \<Longrightarrow> length s < m \<Longrightarrow> parse_val n s = parse_val m s"
proof (induction "length s" arbitrary: s n m rule: less_induct)
  case less
  obtain f where f: "n = Suc f" using less.prems(1) by (cases n) auto
  obtain g where g: "m = Suc g" using less.prems(2) by (cases m) auto
  note fg = f g
  show ?case
  proof (cases s)
    case (Cons c cs)
    have v: "parse_val f t = parse_val g t" if "length t \<le> length cs" for t
      using less.prems that by (intro less.hyps) (simp_all add: fg Cons)
    have mem: "length q < length t" if "parse_member (parse_val f) t = Some (x, q)" for t x q
      by (rule member_progress [OF val_progress that])
    have ml: "parse_member (parse_val f) t = parse_member (parse_val g) t" if "length t \<le> length cs" for t
      using that by (intro member_cong v) simp
    have s1: "parse_seq (length s) (parse_val f) e (d # ds) = parse_seq (length s) (parse_val g) e (d # ds)"
      "parse_seq (length s) (parse_member (parse_val f)) e (d # ds) = parse_seq (length s) (parse_member (parse_val g)) e (d # ds)"
      if "skip_ws cs = d # ds" for d ds e
    proof -
      have l: "length (d # ds) \<le> length cs" using skip_ws_length [of cs] that by simp
      then have n: "length (d # ds) < length s" by (simp add: Cons)
      show "parse_seq (length s) (parse_val f) e (d # ds) = parse_seq (length s) (parse_val g) e (d # ds)"
        by (rule seq_bound [OF val_progress v [OF order_trans [OF _ l]] n n])
      show "parse_seq (length s) (parse_member (parse_val f)) e (d # ds) = parse_seq (length s) (parse_member (parse_val g)) e (d # ds)"
        by (rule seq_bound [OF mem ml [OF order_trans [OF _ l]] n n])
    qed
    show ?thesis
    proof (cases "skip_ws cs")
      case Nil
      then show ?thesis by (simp add: fg Cons)
    next
      case ds: (Cons d ds)
      from s1 [OF ds] show ?thesis by (simp add: fg Cons ds del: parse_seq.simps)
    qed
  qed (simp add: fg)
qed

text \<open>Decoding always ends with the right verdict: on every text, JSON or not, the scanner with any bound above the
  text's length (for values, for the items of a list or an object, and for the characters of a string) gives the
  result that it gives with the bounds \<^verbatim>\<open>json_loads\<close> takes; no text is refused because a bound ran out.\<close>

theorem decode_bounds_suffice:
  assumes "length s < n"
  shows "json_loads s = (case parse_val n (skip_ws s) of None \<Rightarrow> None | Some (v, r) \<Rightarrow> if skip_ws r = [] then Some v else None) \<and>
    parse_str s = scan_str n s \<and>
    parse_seq n (parse_val k) c s = parse_seq (Suc (length s)) (parse_val k) c s"
proof -
  have "json_loads s = (case parse_val n (skip_ws s) of None \<Rightarrow> None | Some (v, r) \<Rightarrow> if skip_ws r = [] then Some v else None)"
    using val_bound [of "skip_ws s" "Suc (length s)" n] assms skip_ws_length [of s]
    by (simp only: json_loads_def)
  moreover have "parse_str s = scan_str n s"
    using scan_str_bound [of s "Suc (length s)" n] assms by (simp add: parse_str_def)
  moreover have "parse_seq n (parse_val k) c s = parse_seq (Suc (length s)) (parse_val k) c s"
    using assms by (intro seq_bound) (auto dest: val_progress)
  ultimately show ?thesis by blast
qed

theorem decode_bounds_suffice_witness:
  "json_loads ''[1, {'' = (case parse_val 1000 (skip_ws ''[1, {'') of None \<Rightarrow> None
     | Some (v, r) \<Rightarrow> if skip_ws r = [] then Some v else None)"
  using decode_bounds_suffice [of "''[1, {''" 1000] by simp

end
