(* ===== verification/Spec2Isabelle.thy ===== *)
theory Spec2Isabelle
  imports LwwTasks RelayTasks DemoHandshake Demos AddHeaders RelayLimits Relayed Cli Mock Package Entry SyncContent Swarm Drains Prelude PyJson Codec JsonLoads JsonDoc Schema Crypto Acl Dlq LwwMap LwwStore VectorStore Chunks
    TokenBucket Relay RelayAuth Node NodeSend NodeInbound NodeOutbound StateSync Webhook
    JsonBound PyNum PyStr Adapters Modbus Industrial Edge
begin

text \<open>
  TPCP (agent telepathy): a verification library for the Python implementation under
  \<^verbatim>\<open>src/tpcp/tpcp\<close>. Agents (nodes) exchange signed envelopes, directly or through the A-DNS relay,
  and share state through a last-writer-wins map.

  \<^bold>\<open>The program and the theories that model it.\<close> Paths are below \<^verbatim>\<open>src/tpcp/tpcp\<close>.

  \<^item> \<open>Prelude\<close>: dictionaries in insertion order (the \<^verbatim>\<open>AList\<close> operations are the assignments and
    deletions of a Python \<^verbatim>\<open>dict\<close>), byte strings, 128-bit ids, times as exact rationals, exceptions as
    values. \<open>PyJson\<close>, \<open>PyFloat\<close>, \<open>Codec\<close>, \<open>JsonLoads\<close>, \<open>JsonBound\<close>, \<open>JsonDoc\<close>, \<open>PyNum\<close>, \<open>PyStr\<close>: the part of
    Python's standard library that the code relies on: \<^verbatim>\<open>json.dumps\<close> with and without sorted keys, \<^verbatim>\<open>json.loads\<close>,
    the floats that it reads (the nearest double of a decimal text and the shortest text of a double), base64,
    UTF-8, hexadecimal, \<^verbatim>\<open>int\<close>, \<^verbatim>\<open>float\<close>, \<^verbatim>\<open>str\<close>, \<^verbatim>\<open>repr\<close>, \<^verbatim>\<open>dict.get\<close> and truth values.
  \<^item> \<open>Schema\<close>: \<^verbatim>\<open>schemas/envelope.py\<close>. The message classes are records, the discriminated union of the
    payloads a datatype; \<open>model_dump\<close> is the dictionary of a payload, \<open>validate_embedding\<close> and
    \<open>validate_base64\<close> the validators.
  \<^item> \<open>Crypto\<close>: \<^verbatim>\<open>security/crypto.py\<close> (\<open>new_manager\<close> is the constructor, \<open>sign_payload\<close> and
    \<open>verify_signature\<close> the methods of these names). \<open>Acl\<close>: \<^verbatim>\<open>security/acl.py\<close>.
  \<^item> \<open>Dlq\<close>: \<^verbatim>\<open>core/queue.py\<close>, the dead-letter queue. \<open>LwwMap\<close> and \<open>LwwStore\<close>: \<^verbatim>\<open>memory/crdt.py\<close>, the map
    with its Lamport clock, and its restart from the SQLite table. \<open>LwwTasks\<close>: \<^verbatim>\<open>set\<close>, \<^verbatim>\<open>merge\<close> and \<^verbatim>\<open>close\<close> called by
    concurrent coroutines, cut at the two awaits of the write-through (\<open>lww_step\<close>), with the committed table apart from
    the one that the connection sees, and with statements that fail. \<open>VectorStore\<close>: \<^verbatim>\<open>memory/vector.py\<close>.
    \<open>Chunks\<close>: \<^verbatim>\<open>core/chunker.py\<close> and \<^verbatim>\<open>core/reassembler.py\<close>.
  \<^item> \<open>Node\<close>, \<open>NodeSend\<close>: \<^verbatim>\<open>core/node.py\<close> and \<^verbatim>\<open>core/relay_client.py\<close>. The record \<open>node\<close> has the attributes of
    \<^verbatim>\<open>TPCPNode\<close>; \<open>process_envelope\<close> is \<^verbatim>\<open>_process_inbound\<close> after the decode, with its guards in the order of
    the code (TTL, replay cache, signature, policy, handler, acknowledgement); \<open>run_handler\<close> dispatches to
    the five built-in handlers or to one of the embedding program; \<open>send_message\<close>, \<open>dispatch_envelope\<close>,
    \<open>drain_attempts\<close> and \<open>connect_to_adns\<close> are the outbound half.
  \<^item> \<open>TokenBucket\<close>, \<open>Relay\<close>: \<^verbatim>\<open>relay/server.py\<close>. \<open>relay_step\<close> handles one event of a connection, \<open>relay_run\<close>
    is the run of any sequence of events over any interleaving of connections. \<open>RelayTasks\<close>: the same handlers cut at
    their awaits: \<open>begin_message\<close> is a handler up to its first send, the datatype \<open>awaiting\<close> what is left of it,
    \<open>resume\<close> its continuation once the outcome is known, \<open>tasks_run\<close> a run that interleaves them.
  \<^item> \<open>Webhook\<close>: \<^verbatim>\<open>relay/webhook.py\<close>, with Python's \<^verbatim>\<open>UUID\<close> constructor.
  \<^item> \<open>Adapters\<close>: \<^verbatim>\<open>adapters/base.py\<close> (the record \<open>adapter\<close>, extended by every adapter with attributes of its own) and
    the nine adapters of agent frameworks; \<open>x_content\<close> is what \<^verbatim>\<open>pack_thought\<close> of framework \<open>x\<close> takes out of a native
    output, \<open>x_pack\<close> and \<open>x_unpack\<close> are its two methods. \<open>Modbus\<close>, \<open>Industrial\<close> (CAN bus, OPC-UA) and \<open>Edge\<close> (MQTT,
    Home Assistant, ROS2): the hardware and edge adapters, with their queues, connections, polling and callbacks.
    \<open>Package\<close>: \<^verbatim>\<open>adapters/__init__.py\<close>, the exports for a set of installed libraries.
  \<^item> \<open>Drains\<close>: \<open>_dispatch_envelope\<close> and \<open>_reconnect_and_drain\<close> again, now as a step relation between awaits, for one
    peer: the record \<open>link\<close> holds the queue and the tasks, \<open>link_step\<close> moves one of them, \<open>link_run\<close> is a run.
  \<^item> \<open>Swarm\<close>: nodes and the network between them. The record \<open>swarm\<close> holds the members and every text that is on the
    wire; \<open>swarm_step\<close> is a local write, a send, a broadcast, a drain, a delivery of anything on the wire to anyone,
    or the injection of an envelope by an attacker who cannot make a member's signature.
  \<^item> \<open>Relayed\<close>: relay and node together, one message from the sender's document to the receiver's handler.
  \<^item> \<open>Cli\<close>: \<^verbatim>\<open>cli/\<close>, each command as a function to its printed lines, its effects and its end. \<open>Entry\<close>: the context
    manager of a node and the main blocks of the gateway and the relay. \<open>Mock\<close>: \<^verbatim>\<open>testing/mock_node.py\<close>, on a store of
    nodes that refer to one another.
  \<^item> \<open>Demos\<close>, \<open>DemoHandshake\<close>: the three demonstrations of \<^verbatim>\<open>src/tpcp/examples\<close>, from the constructors of their two
    nodes to the last line that they print. \<open>AddHeaders\<close>: the script \<^verbatim>\<open>src/tpcp/add_headers.py\<close>.

  A node calls the queue, the map, the bank, the policy and the identity manager directly; nodes and
  the relay are coupled only by the texts on their connections, and the gateway calls \<^verbatim>\<open>send_message\<close>. An adapter
  shares its node's identity and key (\<open>create_adapter\<close>) and produces envelopes; the edge adapters' envelopes are
  entries for the nodes' maps.

  \<^bold>\<open>Interfaces.\<close> What makes the map converge is the locale \<open>lww_order\<close> (the displacement order is a strict
  weak order), interpreted on the comparison that \<^verbatim>\<open>set\<close> writes out; what draining needs of the queue is the
  locale \<open>fifo_store\<close> of theory \<open>Dlq\<close>, interpreted on its operations. The framework adapters share the contract
  \<open>text_adapter\<close> (a content, then one sealed text message), interpreted on each of the nine; the bridges that report
  readings share \<open>reading_adapter\<close> (a key, a value and a time, then one sealed synchronisation message), interpreted
  on the MQTT, Home Assistant and ROS2 ones.

  \<^bold>\<open>What the lemmas show.\<close> \<open>PyJson\<close> to \<open>JsonLoads\<close>: the signed text determines the value
  (\<open>enc_inj\<close>), and the decoder reads it back. \<open>Crypto\<close>: signing verifies and binds. \<open>LwwMap\<close>,
  \<open>LwwStore\<close>: convergence, the laws of merge, the invariant, restart; \<open>LwwTasks\<close>: the lock makes concurrent calls take
  turns (\<open>lock_serialises\<close>), so a crash loses at most the call under way and the schedule does not matter, but a write
  whose \<^verbatim>\<open>INSERT\<close> fails or whose transaction is rolled back is not written again until a newer one replaces it
  (\<open>failed_write_is_not_repaired\<close>; after a \<^verbatim>\<open>COMMIT\<close> that fails with the transaction open, a later one completes it,
  \<open>open_transaction_is_completed\<close>). \<open>Dlq\<close>, \<open>Chunks\<close>, \<open>VectorStore\<close>,
  \<open>Acl\<close>, \<open>TokenBucket\<close>: each component against its abstract contract (a bounded FIFO, a table of
  received chunks, the best-scoring entries, the last write per rule, tokens per second).
  \<open>NodeInbound\<close>: what an envelope from anyone can do to a node, and the invariant \<open>node_inv\<close>.
  \<open>NodeOutbound\<close>: sent or queued, drained in order without loss, backoff, fan-out. \<open>RelayAuth\<close> and
  \<open>RelayLimits\<close>: by rule induction over runs, who is registered, who is routed, and how many challenges an address
  gets; \<open>RelayTasks\<close>: the same holds with the handlers interleaved at their awaits, a handler that is not interrupted
  is the one-step handler, and a send that fails late removes an agent that has come back. \<open>StateSync\<close> and this theory: properties
  across components, a state synchronisation from end to end, a node registering at a relay, a message
  that a relay forwards. \<open>SyncContent\<close> and \<open>Swarm\<close>: what a signed text says of the map it was made from; by rule
  induction over runs with an attacker, every entry of every member was written by a member, and members that stop
  writing and exchange their states hold the same map. \<open>Drains\<close>: no message is lost or doubled by interleaved sends and
  drains (the multisets balance), the tasks can always finish (a measure falls), but the order is not kept. \<open>Relayed\<close>: a
  message through the relay has the effect it has when delivered directly, since the TTL is all that changes and only
  its sign matters to the receiver (a TTL of one runs out on the way, acknowledgements are excluded); for the same reason relayed messages are within what the network of \<open>Swarm\<close> can do
  (\<open>unforged_ttl\<close>); but a forwarded document can pass for a challenge. \<open>Cli\<close>: an identity file is read back, and which commands cannot work. \<open>Mock\<close>: a test on a pair of doubles sees every
  message. Where the code falls short of its comments and documents, a theorem says so:
  acknowledgements and chunks cannot be sent, a handshake or a relay registration replaces a key, the
  header is not signed, the relay can have a node sign a payload, robot telemetry freezes, a Modbus drain
  loses or reorders writes, the relay keeps nothing for absent agents, two commands call a missing method,
  of the demonstrations one always times out and one compares two maps that it never wrote.
  \<open>Adapters\<close> to \<open>Edge\<close>: what each adapter's messages say of the native data, in all the forms that an
  adapter documents (\<open>documented\<close>), that messages are authentic (\<open>hardware_messages_authentic\<close> for the six hardware and
  edge adapters), that commands survive the trip through the swarm, and the retry queue's contract: it keeps what raised,
  not what the device refused.

  \<^bold>\<open>Parameters.\<close> The Ed25519 primitives (\<open>ed25519\<close>, with the laws \<open>ed_correct\<close>, a signature verifies
  under its key, and \<open>ed_binding\<close>, the idealisation that it verifies for its bytes only), Pydantic's
  decoding of JSON documents (\<open>dec_envelope\<close>, \<open>dec_identity\<close>, \<open>identity_json\<close>), and per event the
  clock, the random bytes, the fresh ids and the outcome of connects and sends (\<open>env\<close>, \<open>nenv\<close>). A
  \<open>plain_ed\<close> that satisfies both laws serves the witnesses.

  \<^bold>\<open>Bounds and fuel.\<close> \<open>parse_val\<close> takes a nesting bound, which \<open>json_loads\<close> sets to
  the length of the text plus one; \<open>decode_bounds_suffice\<close> proves that a larger bound never changes the result,
  on any text, and \<open>loads_dumps\<close> that every text of the encoder is decoded. \<open>shortest_from\<close> counts up to the 17 digits
  that determine a double. Loops that depend on the network (reconnection, the relay session) take the list of
  attempts as an argument. Ids are 128-bit words; sizes and counters are Python's unbounded integers.
  Characters are those up to U+00FF. A float in a document is an IEEE double, represented by its \<^verbatim>\<open>repr\<close>, so the relay's
  TTL may be a float and is compared and decremented as one (\<open>ttl_expired\<close>, \<open>ttl_pred\<close>; a NaN never expires,
  \<open>nan_ttl_never_expires\<close>). The arithmetic of the bank and the rate limits is over reals or rationals (rounding is outside
  the model), and the number of chunks is the exact quotient rounded up, which Python's float division yields for
  sizes up to \<open>2 ^ 53\<close>.

  \<^bold>\<open>Limits of the data.\<close> Entries of the map have the declared types: an integer timestamp and a text as the writer.
  \<open>int_arg\<close> and \<open>str_arg\<close> refuse a replicated record with others, where the code, which does not validate,
  stores it; the properties of the map are about well-typed records. Dictionary keys are compared as constructors, so
  the ids \<open>true\<close>, \<open>1\<close> and \<open>1.0\<close>, one key for Python, are three (see \<open>JsonDoc\<close>).

  \<^bold>\<open>Not modelled.\<close> Logging and narration, TLS,
  \<^verbatim>\<open>chmod\<close>, listening sockets; the third-party clients behind the adapters (\<^verbatim>\<open>pymodbus\<close>, \<^verbatim>\<open>python-can\<close>, \<^verbatim>\<open>asyncua\<close>,
  \<^verbatim>\<open>paho\<close>, \<^verbatim>\<open>aiohttp\<close>, \<^verbatim>\<open>rclpy\<close>), whose outcomes are arguments, and \<^verbatim>\<open>click\<close>; the product of a float and 1000 and
  the parsing of a float's text, which are parameters (\<open>float_ops\<close>). Handlers are cut at their awaits where the
  interleaving matters: the drains of a node (\<open>Drains\<close>), the handlers of the relay (\<open>RelayTasks\<close>), the
  callers of a map with a database (\<open>LwwTasks\<close>, which lets any waiting caller be next, where the lock of
  \<^verbatim>\<open>asyncio\<close> takes them in turn), the end of a Modbus
  drain. A node's synchronisation handler does not suspend, since a node's map has no database file; elsewhere a
  handler that awaits is one step, so two handlers of one node that both reply are not interleaved.
\<close>

section \<open>Registration, with both ends\<close>

lemma uuid_str_not_empty [simp]: "uuid_str u \<noteq> []"
  by (simp add: uuid_str_def Let_def)

text \<open>A text that reads as a document: the same members, in any order.\<close>

definition reads_as :: "string \<Rightarrow> pyval \<Rightarrow> bool" where
  "reads_as raw doc \<longleftrightarrow> (\<exists>d d'. json_loads raw = Some (PDict d) \<and> doc = PDict d' \<and> map_of d = map_of d')"

lemma node_answers_challenge:
  assumes "reads_as raw (challenge_msg sid k)" "doc_send_ok env ws"
  shows "process_adns_message P user env ws raw n = (n, [SentDocument ws (challenge_response_doc P n k)])"
  using assms by (auto simp: reads_as_def process_adns_message_def challenge_msg_def Let_def)

lemma node_notes_confirmation:
  "reads_as raw (confirm_msg sid) \<Longrightarrow>
   process_adns_message P user env ws raw n = (n\<lparr>adns_registered := True\<rparr>, [])"
  by (auto simp: reads_as_def process_adns_message_def confirm_msg_def Let_def)

lemma challenge_response_is_response:
  "response_doc (challenge_response_doc P n k) (PStr (uuid_str (agent_id (nd_identity n))))
     (sign_bytes (ed_prims P) (nd_manager n) (utf8 k))"
  by (simp add: response_doc_def challenge_response_doc_def)

text \<open>C21: A node registers at the relay: the relay answers the node's handshake with a challenge, the node answers
  the challenge that it reads with a response, the relay answers the response with a confirmation and has the
  node's id on this connection under the node's key, and the node notes that it is registered
  (the id is new to the relay, fewer than ten recent challenges from the address, sends succeed, and the texts
  that arrive read as the documents sent).\<close>

theorem node_registers_at_relay:
  assumes ed: "ed_correct (ed_prims P)" "\<forall>sk m. length sk = 32 \<longrightarrow> ed_sign (ed_prims P) sk m \<noteq> []"
      "manager_wf (ed_prims P) (nd_manager n)"
    and sid: "sid = PStr (uuid_str (agent_id (nd_identity n)))"
    and fresh: "map_of (registry r) sid = None" "map_of (pending_challenges r) sid = None"
      "length (recent_challenges env (cleanup_stale_challenges env r)) < 10"
    and hs: "handshake_doc data sid (get_public_key_string (nd_manager n))"
    and sends: "send_result env ws = SendOk" "send_result env' ws = SendOk" "doc_send_ok nenv c"
    and wire: "reads_as raw (challenge_msg sid (hex_of_bytes (urandom env)))" "reads_as raw' (confirm_msg sid)"
  shows "\<exists>r1 response r2.
    process_message (ed_prims P) env ws data r = (r1, [SendTo ws (challenge_msg sid (hex_of_bytes (urandom env)))]) \<and>
    process_adns_message P user nenv c raw n = (n, [SentDocument c response]) \<and>
    process_message (ed_prims P) env' ws response r1 = (r2, [SendTo ws (confirm_msg sid)]) \<and>
    map_of (registry r2) =
      (map_of (registry r))(sid \<mapsto> \<lparr>reg_ws = ws, reg_public_key = get_public_key_string (nd_manager n)\<rparr>) \<and>
    process_adns_message P user nenv' c raw' n = (n\<lparr>adns_registered := True\<rparr>, [])"
proof -
  have "ed_sign (ed_prims P) (private_key (nd_manager n)) m \<noteq> []" for m using ed(2,3) by (simp add: manager_wf_def)
  moreover have "truthy sid" "hashable sid" by (simp_all add: sid)
  moreover note response = challenge_response_is_response [of P n "hex_of_bytes (urandom env)", folded sid]
  ultimately obtain r1 r2 where
    "process_message (ed_prims P) env ws data r = (r1, [SendTo ws (challenge_msg sid (hex_of_bytes (urandom env)))])"
    "process_message (ed_prims P) env' ws (challenge_response_doc P n (hex_of_bytes (urandom env))) r1 = (r2, [SendTo ws (confirm_msg sid)])"
    "map_of (registry r2) =
      (map_of (registry r))(sid \<mapsto> \<lparr>reg_ws = ws, reg_public_key = get_public_key_string (nd_manager n)\<rparr>)"
    using honest_agent_registers [OF ed(1,3) _ _ fresh(1,2) hs fresh(3) sends(1,2) refl response] by blast
  with node_answers_challenge [OF wire(1) sends(3)] node_notes_confirmation [OF wire(2)] show ?thesis by blast
qed

text \<open>A handshake of \<open>demo_node\<close>, and the relay's texts.\<close>

definition node_handshake :: pyval where
  "node_handshake = PDict [(''header'', PDict [(''intent'', PStr ''Handshake''), (''sender_id'', PStr (uuid_str 2))]),
     (''payload'', PDict [(''content'',
        PStr (enc sign_opts (PDict [(''public_key'', PStr (get_public_key_string sample_manager))])))])]"

lemma node_handshake_doc: "handshake_doc node_handshake (PStr (uuid_str 2)) (get_public_key_string sample_manager)"
proof -
  have "json_loads (enc sign_opts (PDict [(''public_key'', PStr k)])) = Some (PDict [(''public_key'', PStr k)])" for k
    using loads_enc [OF std_sign_opts, of "PDict [(''public_key'', PStr k)]"] by (simp add: dict_wf_def)
  then show ?thesis unfolding handshake_doc_def node_handshake_def by simp
qed

lemma written_reads:
  assumes "json_val (PDict d)" "list_all (\<lambda>x. canon (snd x) = snd x) d"
  shows "reads_as (enc lww_opts (PDict d)) (PDict d)"
proof -
  have wf: "dict_wf d" using assms(1) by simp
  have "map (map_prod id canon) (sort_key fst d) = sort_key fst d"
    using assms(2) by (intro map_idI) (auto simp: list_all_iff)
  then have "canon (PDict d) = PDict (sort_key fst d)" by (simp only: canon_PDict)
  with loads_enc [OF std_lww_opts assms(1)] dict_get_sort [OF wf] show ?thesis
    unfolding reads_as_def by auto
qed

lemma relay_texts_read:
  "reads_as (enc lww_opts (challenge_msg (PStr s) k)) (challenge_msg (PStr s) k)"
  "reads_as (enc lww_opts (confirm_msg (PStr s))) (confirm_msg (PStr s))"
  unfolding challenge_msg_def confirm_msg_def by (rule written_reads; simp add: dict_wf_def)+

theorem node_registers_at_relay_witness:
  "\<exists>r1 response r2.
    process_message plain_ed demo_env 7 node_handshake (new_relay 30 60) = (r1, [SendTo 7 (challenge_msg (PStr (uuid_str 2)) demo_nonce)]) \<and>
    process_message plain_ed demo_env 7 response r1 = (r2, [SendTo 7 (confirm_msg (PStr (uuid_str 2)))]) \<and>
    process_adns_message demo_platform no_user (at_time 0) 3 (enc lww_opts (confirm_msg (PStr (uuid_str 2)))) demo_node =
      (demo_node\<lparr>adns_registered := True\<rparr>, [])"
proof -
  have n: "nd_manager demo_node = sample_manager" "agent_id (nd_identity demo_node) = 2"
    by (simp_all add: demo_node_def register_peer_def new_node_def register_handler_def mk_identity_def)
  show ?thesis
    using node_registers_at_relay [of demo_platform demo_node _ "new_relay 30 60" demo_env node_handshake 7 demo_env
        "at_time 0" 3 "enc lww_opts (challenge_msg (PStr (uuid_str 2)) demo_nonce)" "enc lww_opts (confirm_msg (PStr (uuid_str 2)))"
        no_user "at_time 0", unfolded n demo_platform_simps, OF plain_ed_laws(1) _ sample_manager_wf refl _ _ _ node_handshake_doc]
      plain_ed_sign_ne relay_texts_read
    by (simp add: new_relay_def cleanup_stale_challenges_def recent_challenges_def demo_nonce_def) blast
qed

section \<open>The last hop\<close>

text \<open>A message that reaches the relay with a TTL of one is forwarded and then dropped: the relay sends it on with
  a TTL of zero, and the node that receives it, whatever its state, does nothing with it (given only that the
  decoder takes the TTL from the header).\<close>

theorem last_hop_is_dropped:
  assumes dec: "\<And>d h i e. dec_envelope P (PDict d) = Some e \<Longrightarrow> map_of d ''header'' = Some (PDict h) \<Longrightarrow>
      map_of h ''ttl'' = Some (PInt i) \<Longrightarrow> ttl (header e) = i"
    and "json_loads raw = Some (forwarded dd hdr (PInt 1))"
  shows "process_inbound P user env ws raw n = (n, [])"
proof (cases "dec_envelope P (forwarded dd hdr (PInt 1))")
  case None
  with assms(2) show ?thesis by (simp add: process_inbound_def)
next
  case (Some e)
  then have "ttl (header e) = 0"
    unfolding forwarded_def by (intro dec) (auto simp: dict_simps)
  with Some assms(2) show ?thesis by (simp add: process_inbound_def process_envelope_def)
qed

theorem last_hop_is_dropped_witness:
  "process_inbound ttl_platform no_user (at_time 0) 3
     (enc sign_opts (forwarded [] [] (PInt 1))) demo_node = (demo_node, []) \<and>
   dec_envelope ttl_platform (forwarded [] [] (PInt 1)) \<noteq> None"
proof -
  have "json_loads (enc sign_opts (forwarded [] [] (PInt 1))) = Some (forwarded [] [] (PInt 1))"
    using loads_enc [OF std_sign_opts, of "forwarded [] [] (PInt 1)"] by (simp add: forwarded_def dict_wf_def)
  moreover have "ttl (header e) = i"
    if "dec_envelope ttl_platform (PDict d) = Some e" "map_of d ''header'' = Some (PDict h)" "map_of h ''ttl'' = Some (PInt i)" for d h i e
    using that by (auto simp: ttl_platform_def)
  ultimately show ?thesis
    using last_hop_is_dropped [of ttl_platform "enc sign_opts (forwarded [] [] (PInt 1))" "[]" "[]" no_user "at_time 0" 3 demo_node]
    by (simp add: ttl_platform_def forwarded_def)
qed

section \<open>Messages of the adapters\<close>

text \<open>An adapter that a node made, and the messages to \<open>t\<close> that the hardware and edge adapters of a node pack.\<close>

definition belongs_to :: "node \<Rightarrow> 'a adapter_scheme \<Rightarrow> bool" where
  "belongs_to n a \<longleftrightarrow> ad_identity a = nd_identity n \<and> ad_manager a = Some (nd_manager n)"

inductive hardware_message :: "platform \<Rightarrow> node \<Rightarrow> uuid \<Rightarrow> envelope \<Rightarrow> bool" for P n t where
  from_modbus: "belongs_to n mb \<Longrightarrow> snd (modbus_pack F P env t raw i mb) = Inr e \<Longrightarrow> hardware_message P n t e"
| from_can: "belongs_to n cb \<Longrightarrow> snd (can_pack F P env t raw i cb) = Inr e \<Longrightarrow> hardware_message P n t e"
| from_opcua: "belongs_to n op \<Longrightarrow> snd (opcua_pack F P env t raw bin i op) = Inr e \<Longrightarrow> hardware_message P n t e"
| from_mqtt: "belongs_to n mq \<Longrightarrow> snd (mqtt_pack P env t raw i mq) = Inr e \<Longrightarrow> hardware_message P n t e"
| from_homeassistant: "belongs_to n ha \<Longrightarrow> snd (ha_pack P env t v i ha) = Inr e \<Longrightarrow> hardware_message P n t e"
| from_ros2: "belongs_to n ro \<Longrightarrow> snd (ros_pack cf P env t v i ro) = Inr e \<Longrightarrow> hardware_message P n t e"
| from_camera: "belongs_to n ro \<Longrightarrow> pack_image P env t jpeg w h capt ro = Inr e \<Longrightarrow> hardware_message P n t e"

lemma bind_exn_Inr: "bind_exn r f = Inr y \<longleftrightarrow> (\<exists>x. r = Inr x \<and> f x = Inr y)"
  by (cases r) simp_all

lemma belongs_tick [simp]: "belongs_to n (tick a) = belongs_to n a"
  by (simp add: belongs_to_def tick_def)

text \<open>What sealing with the node's key yields.\<close>

definition sealed_by :: "platform \<Rightarrow> node \<Rightarrow> uuid \<Rightarrow> envelope \<Rightarrow> bool" where
  "sealed_by P n t e \<longleftrightarrow> sender_id (header e) = agent_id (nd_identity n) \<and> receiver_id (header e) = t \<and>
     (\<exists>sig. sign_payload (ed_prims P) (nd_manager n) (model_dump (payload e)) = Inr sig \<and> signature e = Some sig)"

lemma sealing:
  assumes "belongs_to n a"
  shows "seal_optional P env t i pl a = Inr e \<Longrightarrow> sealed_by P n t e"
    and "seal_required P env t i pl a = Inr e \<Longrightarrow> sealed_by P n t e"
proof -
  have m: "map_sum id f r = Inr y \<longleftrightarrow> (\<exists>x. r = Inr x \<and> y = f x)" for f :: "string \<Rightarrow> envelope" and r :: "py_exn + string" and y
    by (cases r) auto
  show "seal_optional P env t i pl a = Inr e \<Longrightarrow> sealed_by P n t e"
    "seal_required P env t i pl a = Inr e \<Longrightarrow> sealed_by P n t e"
    using assms by (auto simp: belongs_to_def seal_optional_def seal_required_def require_identity_manager_def Let_def m sealed_by_def
        mk_envelope_def adapter_header_def)
qed

lemma hardware_message_sealed:
  assumes "hardware_message P n t e"
  shows "sealed_by P n t e"
  using assms
proof cases
  case (from_modbus mb F env raw i)
  then show ?thesis by (auto simp: modbus_pack_def Let_def bind_exn_Inr intro: sealing [of n "tick mb"])
next
  case (from_can cb F env raw i)
  then show ?thesis by (auto simp: can_pack_def Let_def bind_exn_Inr intro: sealing [of n "tick cb"])
next
  case (from_opcua op F env raw bin i)
  then show ?thesis by (auto simp: opcua_pack_def Let_def bind_exn_Inr intro: sealing [of n "tick op"] split: option.splits)
next
  case (from_mqtt mq env raw i)
  then show ?thesis by (auto simp: mqtt_pack_def Let_def intro: sealing [of n "tick mq"] split: pyval.splits)
next
  case (from_homeassistant ha env v i)
  then show ?thesis by (auto simp: ha_pack_def Let_def intro: sealing [of n "tick ha"] split: sum.splits)
next
  case (from_ros2 ro cf env v i)
  then show ?thesis
    by (auto simp: ros_pack_def Let_def intro: sealing [of n ro] sealing [of n "tick ro"] split: pyval.splits option.splits)
next
  case (from_camera ro env jpeg w h capt)
  then show ?thesis by (auto simp: pack_image_def intro: sealing [of n ro] split: option.splits)
qed

lemma signed_sealed_authentic:
  assumes "ed_correct (ed_prims P)" "manager_wf (ed_prims P) (nd_manager n)" "\<forall>sk d. length sk = 32 \<longrightarrow> ed_sign (ed_prims P) sk d \<noteq> []"
    and "sealed_by P n t e" "map_of (peer_registry k) (agent_id (nd_identity n)) = Some (peer, addr)"
    and "public_key peer = get_public_key_string (nd_manager n)"
  shows "authentic P e k"
proof -
  obtain sig s where sig: "json_dumps sign_opts (PDict (model_dump (payload e))) = Inr s" "signature e = Some sig"
    "sig = b64encode (ed_sign (ed_prims P) (private_key (nd_manager n)) (utf8 s))" "sender_id (header e) = agent_id (nd_identity n)"
    using assms(4) by (auto simp: sealed_by_def sign_payload_def split: sum.splits)
  have "b64encode bs = [] \<longleftrightarrow> bs = []" for bs by (induction bs rule: b64encode.induct) simp_all
  then have "sig \<noteq> []" using assms(2,3) sig(3) by (simp add: manager_wf_def)
  moreover have "verify_signature (ed_prims P) (get_public_key_string (nd_manager n)) sig (model_dump (payload e))"
    using verify_signed_bytes [OF assms(2)] assms(1,2) sig(1,3)
    by (simp add: verify_signature_def get_public_key_string_def manager_wf_def ed_correct_def b64decode_encode)
  ultimately show ?thesis using assms(5,6) sig(2,4) by (simp add: authentic_def)
qed



end
